(* ===== verification/Prelude.thy ===== *)
theory Prelude
  imports Complex_Main "HOL-Library.Word" "HOL-Library.AList" "HOL-Library.Multiset"
begin

text \<open>
  Shared vocabulary of the development: JavaScript exceptions as values, bytes and
  big-endian integers (what \<^verbatim>\<open>DataView\<close> reads and writes), JavaScript \<^verbatim>\<open>Map\<close>
  objects as insertion-ordered association lists, and the two interfaces
  (locales) the components are plugged into: a codec with a round-trip law, and an
  event-driven component with an invariant.
\<close>

named_theorems wf_intros \<open>introduction rules for well-formedness invariants\<close>
named_theorems js_simps \<open>rewrite rules for the JavaScript containers and numbers\<close>

section \<open>Exceptions as values\<close>

text \<open>\<^verbatim>\<open>throw new Error(msg)\<close> is \<open>Inl (Error msg)\<close>; a normal return is \<open>Inr\<close>.\<close>

datatype js_error = Error string

type_synonym 'a res = "js_error + 'a"

definition throw :: "string \<Rightarrow> 'a res" where
  "throw msg = Inl (Error msg)"

fun res_bind :: "'a res \<Rightarrow> ('a \<Rightarrow> 'b res) \<Rightarrow> 'b res" where
  "res_bind (Inl e) f = Inl e"
| "res_bind (Inr x) f = f x"

lemma res_bind_Inr_iff [js_simps]:
  "res_bind r f = Inr y \<longleftrightarrow> (\<exists>x. r = Inr x \<and> f x = Inr y)"
  by (cases r) auto

lemma throw_neq_Inr [simp]: "throw msg \<noteq> Inr x" "Inr x \<noteq> throw msg"
  by (simp_all add: throw_def)

fun is_ok :: "'a res \<Rightarrow> bool" where
  "is_ok (Inl _) = False"
| "is_ok (Inr _) = True"

lemma is_ok_throw [simp]: "\<not> is_ok (throw msg)"
  by (simp add: throw_def)

lemma is_ok_iff: "is_ok r \<longleftrightarrow> (\<exists>x. r = Inr x)"
  by (cases r) auto

section \<open>Numbers in error messages\<close>

text \<open>A natural number in a template string is printed in decimal.\<close>

fun js_show_nat :: "nat \<Rightarrow> string" where
  "js_show_nat n =
     (if n < 10 then [char_of (48 + n)] else js_show_nat (n div 10) @ [char_of (48 + n mod 10)])"

declare js_show_nat.simps [simp del]

section \<open>Bytes and big-endian integers\<close>

type_synonym byte = "8 word"
type_synonym bytes = "byte list"

text \<open>
  \<open>be_bytes n v\<close> is what \<^verbatim>\<open>DataView.setUintN(offset, v, false)\<close> stores for an
  \<open>n\<close>-byte field: the value modulo \<open>256 ^ n\<close>, most significant byte first.
\<close>

fun be_bytes :: "nat \<Rightarrow> nat \<Rightarrow> bytes" where
  "be_bytes 0 v = []"
| "be_bytes (Suc n) v = be_bytes n (v div 256) @ [of_nat v]"

definition be_value :: "bytes \<Rightarrow> nat" where
  "be_value bs = foldl (\<lambda>a b. a * 256 + unat b) 0 bs"

lemma length_be_bytes [simp]: "length (be_bytes n v) = n"
  by (induction n arbitrary: v) auto

lemma be_value_Nil [simp]: "be_value [] = 0"
  by (simp add: be_value_def)

lemma be_value_snoc [simp]: "be_value (bs @ [b]) = be_value bs * 256 + unat b"
  by (simp add: be_value_def)

lemma unat_byte_less: "unat (b :: byte) < 256"
  using unsigned_less [of b] by simp

lemma unat_of_nat_byte: "unat (of_nat v :: byte) = v mod 256"
  by (simp add: unat_of_nat)

lemma be_value_be_bytes: "be_value (be_bytes n v) = v mod 256 ^ n"
proof (induction n arbitrary: v)
  case 0
  then show ?case by simp
next
  case (Suc n)
  then show ?case
    by (simp add: unat_of_nat_byte mod_mult2_eq mult.commute)
qed

lemma be_value_be_bytes_small [simp]: "v < 256 ^ n \<Longrightarrow> be_value (be_bytes n v) = v"
  by (simp add: be_value_be_bytes)

lemma be_bytes_be_value [simp]: "be_bytes (length bs) (be_value bs) = bs"
proof (induction bs rule: rev_induct)
  case Nil
  then show ?case by simp
next
  case (snoc b bs)
  have "unat b < 256" by (rule unat_byte_less)
  then have "(be_value bs * 256 + unat b) div 256 = be_value bs"
    by simp
  moreover have "(of_nat (be_value bs * 256 + unat b) :: byte) = b"
  proof (rule iffD2 [OF word_unat_eq_iff])
    show "unat (of_nat (be_value bs * 256 + unat b) :: byte) = unat b"
      unfolding unat_of_nat_byte using \<open>unat b < 256\<close> by simp
  qed
  ultimately show ?case using snoc by simp
qed

lemma be_value_bound: "be_value bs < 256 ^ length bs"
proof (induction bs rule: rev_induct)
  case Nil
  then show ?case by simp
next
  case (snoc b bs)
  have "unat b < 256" by (rule unat_byte_less)
  with snoc show ?case by simp
qed

text \<open>The part of a \<^verbatim>\<open>Uint8Array\<close> from \<open>i\<close> on, \<open>n\<close> bytes long (\<^verbatim>\<open>slice(i, i + n)\<close>).\<close>

definition subbytes :: "nat \<Rightarrow> nat \<Rightarrow> 'a list \<Rightarrow> 'a list" where
  "subbytes i n bs = take n (drop i bs)"

lemma length_subbytes [simp]: "i + n \<le> length bs \<Longrightarrow> length (subbytes i n bs) = n"
  by (simp add: subbytes_def)

section \<open>JavaScript Map objects\<close>

text \<open>
  A \<^verbatim>\<open>Map\<close> iterates in insertion order; \<^verbatim>\<open>set\<close> on a present key keeps its place,
  on a new key appends. This is exactly \<^const>\<open>AList.update\<close> on association lists.
\<close>

type_synonym ('k, 'v) jsmap = "('k \<times> 'v) list"

abbreviation map_get :: "('k, 'v) jsmap \<Rightarrow> 'k \<Rightarrow> 'v option" where
  "map_get \<equiv> map_of"

abbreviation map_set :: "'k \<Rightarrow> 'v \<Rightarrow> ('k, 'v) jsmap \<Rightarrow> ('k, 'v) jsmap" where
  "map_set \<equiv> AList.update"

abbreviation map_delete :: "'k \<Rightarrow> ('k, 'v) jsmap \<Rightarrow> ('k, 'v) jsmap" where
  "map_delete \<equiv> AList.delete"

definition map_has :: "('k, 'v) jsmap \<Rightarrow> 'k \<Rightarrow> bool" where
  "map_has m k = (map_of m k \<noteq> None)"

abbreviation map_keys :: "('k, 'v) jsmap \<Rightarrow> 'k list" where
  "map_keys m \<equiv> map fst m"

definition wf_map :: "('k, 'v) jsmap \<Rightarrow> bool" where
  "wf_map m = distinct (map_keys m)"

lemmas map_lookup_simps [js_simps] = update_conv' delete_conv'

lemma wf_map_Nil [simp, wf_intros]: "wf_map []"
  by (simp add: wf_map_def)

lemma wf_map_set [wf_intros]: "wf_map m \<Longrightarrow> wf_map (map_set k v m)"
  by (simp add: wf_map_def distinct_update)

lemma wf_map_delete [wf_intros]: "wf_map m \<Longrightarrow> wf_map (map_delete k m)"
  by (simp add: wf_map_def distinct_delete)

lemma wf_map_filter [wf_intros]: "wf_map m \<Longrightarrow> wf_map (filter P m)"
  by (simp add: wf_map_def distinct_map_filter)

lemma wf_map_tl [wf_intros]: "wf_map m \<Longrightarrow> wf_map (tl m)"
  by (cases m) (auto simp: wf_map_def)

text \<open>The set of keys, kept folded so that proofs reason about sets and not about images.\<close>

definition keyset :: "('k, 'v) jsmap \<Rightarrow> 'k set" where
  "keyset m = set (map_keys m)"

lemma finite_keyset [simp]: "finite (keyset m)"
  by (simp add: keyset_def)

lemma keyset_Nil [simp]: "keyset [] = {}"
  by (simp add: keyset_def)

lemma map_has_iff: "map_has m k \<longleftrightarrow> k \<in> keyset m"
  by (simp add: map_has_def map_of_eq_None_iff keyset_def)

lemma map_get_None_iff: "map_get m k = None \<longleftrightarrow> k \<notin> keyset m"
  by (simp add: map_of_eq_None_iff keyset_def)

lemma map_get_keyset: "map_get m k = Some v \<Longrightarrow> k \<in> keyset m"
  using map_get_None_iff [of m k] by auto

lemma keyset_set [simp]: "keyset (map_set k v m) = insert k (keyset m)"
  by (auto simp: keyset_def update_keys)

lemma keyset_delete [simp]: "keyset (map_delete k m) = keyset m - {k}"
  by (simp add: keyset_def delete_keys)

lemma length_map_set:
  "length (map_set k v m) = (if map_has m k then length m else Suc (length m))"
proof -
  have "length (map_set k v m) = length (map_keys (map_set k v m))" by simp
  also have "\<dots> = (if map_has m k then length m else Suc (length m))"
    by (subst update_keys) (simp add: map_has_iff keyset_def)
  finally show ?thesis .
qed

lemma wf_map_card_keys: "wf_map m \<Longrightarrow> card (keyset m) = length m"
  unfolding keyset_def by (metis distinct_card length_map wf_map_def)

section \<open>Interfaces\<close>

text \<open>An encoder and a decoder with the round-trip law on the values the encoder accepts.\<close>

locale codec =
  fixes enc :: "'a \<Rightarrow> 'b"
    and dec :: "'b \<Rightarrow> 'a res"
    and valid :: "'a \<Rightarrow> bool"
  assumes dec_enc: "valid x \<Longrightarrow> dec (enc x) = Inr x"
begin

lemma enc_inj:
  assumes "valid x" and "valid y" and "enc x = enc y"
  shows "x = y"
proof -
  have "Inr x = dec (enc x)" using assms(1) by (simp add: dec_enc)
  also have "\<dots> = Inr y" using assms(2,3) by (simp add: dec_enc)
  finally show ?thesis by simp
qed

lemma dec_enc_ok: "valid x \<Longrightarrow> is_ok (dec (enc x))"
  by (simp add: dec_enc)

end

text \<open>
  An event-driven component: \<open>step e s\<close> is the state after the handler of event \<open>e\<close>
  ran in state \<open>s\<close>. A property every handler keeps holds after every sequence of events.
\<close>

locale invariant_system =
  fixes step :: "'e \<Rightarrow> 's \<Rightarrow> 's"
    and inv :: "'s \<Rightarrow> bool"
  assumes step_inv: "inv s \<Longrightarrow> inv (step e s)"
begin

lemma run_inv: "inv s \<Longrightarrow> inv (fold step es s)"
  by (induction es arbitrary: s) (auto simp: step_inv)

end

end
