(* ===== verification/Profiles.thy ===== *)
theory Profiles
  imports Prelude
begin

text \<open>
  The canonical transport profiles (\<^verbatim>\<open>client/src/config/profiles.ts\<close>): lanes, lane
  budgets, the four room profiles, and the static facts about them on which the
  scheduler, the crypto worker and the file sender rely.
\<close>

section \<open>Types\<close>

datatype LaneName = Control | Text | File | Voice

datatype TransportProfileId = Balanced | LowData | VoiceFirst | MaximumPrivacy

datatype VoicePrivacyMode = Efficient | MaxPrivacyMode

datatype VoiceCodec = PCM16

datatype DropPolicy = Fail | DropOldest

record LaneBudget =
  priority :: nat
  maxPackets :: nat
  maxBytes :: nat
  dropPolicy :: DropPolicy

record OutboxConfig =
  outboxMaxPackets :: nat
  outboxMaxBytes :: nat
  maxBufferedAmountBytes :: nat
  resumeBufferedAmountBytes :: nat
  drainYieldMs :: nat

record ReconnectConfig =
  maxAttempts :: nat
  baseDelayMs :: nat
  maxDelayMs :: nat
  jitterMs :: nat

record FilesConfig =
  smallBytes :: nat
  mediumBytes :: nat
  maxFileBytes :: nat
  maxMemoryReceiveBytes :: nat
  chunkBytes :: nat
  windowChunks :: nat
  ackTimeoutMs :: nat
  maxRetries :: nat

record VoiceConfig =
  voiceEnabled :: bool
  voiceMode :: VoicePrivacyMode
  codecName :: VoiceCodec
  frameMs :: nat
  jitterTargetMs :: nat
  jitterMaxFrames :: nat
  vadEnabled :: bool
  vadStartDb :: int
  vadStopDb :: int
  vadPreRollMs :: nat
  vadHangoverMs :: nat
  vadMinSpeechMs :: nat
  maxQueuedLatencyMs :: nat

record TransportProfile =
  profileId :: TransportProfileId
  label :: string
  description :: string
  protocolVersion :: nat
  maxFrameBytes :: nat
  paddingBuckets :: "nat list"
  maxSkippedMessageKeys :: nat
  outbox :: OutboxConfig
  lanes :: "LaneName \<Rightarrow> LaneBudget"
  reconnect :: ReconnectConfig
  files :: FilesConfig
  voice :: VoiceConfig

abbreviation KB :: nat where "KB \<equiv> 1024"
abbreviation MB :: nat where "MB \<equiv> 1024 * 1024"

section \<open>Lane budgets\<close>

text \<open>\<^verbatim>\<open>Partial<LaneBudget>\<close>: an absent field is \<open>None\<close>.\<close>

record LaneOverride =
  ov_priority :: "nat option"
  ov_maxPackets :: "nat option"
  ov_maxBytes :: "nat option"
  ov_dropPolicy :: "DropPolicy option"

definition no_override :: LaneOverride where
  "no_override = \<lparr>ov_priority = None, ov_maxPackets = None, ov_maxBytes = None, ov_dropPolicy = None\<rparr>"

fun orElse :: "'a option \<Rightarrow> 'a \<Rightarrow> 'a" where
  "orElse (Some x) _ = x"
| "orElse None d = d"

fun baseLaneBudget :: "LaneName \<Rightarrow> LaneBudget" where
  "baseLaneBudget Control =
     \<lparr>priority = 100, maxPackets = 128, maxBytes = 2 * MB, dropPolicy = Fail\<rparr>"
| "baseLaneBudget Voice =
     \<lparr>priority = 80, maxPackets = 12, maxBytes = 768 * KB, dropPolicy = DropOldest\<rparr>"
| "baseLaneBudget Text =
     \<lparr>priority = 60, maxPackets = 256, maxBytes = 4 * MB, dropPolicy = Fail\<rparr>"
| "baseLaneBudget File =
     \<lparr>priority = 10, maxPackets = 16, maxBytes = 2 * MB, dropPolicy = Fail\<rparr>"

definition cloneLaneBudgets :: "(LaneName \<Rightarrow> LaneOverride) \<Rightarrow> LaneName \<Rightarrow> LaneBudget" where
  "cloneLaneBudgets overrides lane =
     (let b = baseLaneBudget lane; ov = overrides lane in
      \<lparr>priority = orElse (ov_priority ov) (priority b),
       maxPackets = orElse (ov_maxPackets ov) (maxPackets b),
       maxBytes = orElse (ov_maxBytes ov) (maxBytes b),
       dropPolicy = orElse (ov_dropPolicy ov) (dropPolicy b)\<rparr>)"

section \<open>The four profiles\<close>

definition COMMON_RECONNECT :: ReconnectConfig where
  "COMMON_RECONNECT = \<lparr>maxAttempts = 18, baseDelayMs = 450, maxDelayMs = 5000, jitterMs = 350\<rparr>"

definition balanced :: TransportProfile where
  "balanced =
    \<lparr>profileId = Balanced,
     label = ''Balanced'',
     description = ''Default profile with conservative beta file limits, VAD voice, and bounded queues.'',
     protocolVersion = 2,
     maxFrameBytes = 256 * KB,
     paddingBuckets = [4 * KB, 16 * KB, 64 * KB, 128 * KB],
     maxSkippedMessageKeys = 512,
     outbox = \<lparr>outboxMaxPackets = 384, outboxMaxBytes = 16 * MB,
               maxBufferedAmountBytes = 2 * MB, resumeBufferedAmountBytes = 768 * KB,
               drainYieldMs = 0\<rparr>,
     lanes = cloneLaneBudgets (\<lambda>_. no_override),
     reconnect = COMMON_RECONNECT,
     files = \<lparr>smallBytes = 10 * MB, mediumBytes = 25 * MB, maxFileBytes = 50 * MB, maxMemoryReceiveBytes = 50 * MB,
              chunkBytes = 32 * KB, windowChunks = 4, ackTimeoutMs = 12000, maxRetries = 8\<rparr>,
     voice = \<lparr>voiceEnabled = True, voiceMode = Efficient, codecName = PCM16, frameMs = 40,
              jitterTargetMs = 120, jitterMaxFrames = 12, vadEnabled = True, vadStartDb = -45,
              vadStopDb = -52, vadPreRollMs = 120, vadHangoverMs = 250, vadMinSpeechMs = 60,
              maxQueuedLatencyMs = 400\<rparr>\<rparr>"

definition low_data :: TransportProfile where
  "low_data =
    \<lparr>profileId = LowData,
     label = ''Low Data'',
     description = ''Lower bandwidth profile with smaller files and smaller queues.'',
     protocolVersion = 2,
     maxFrameBytes = 128 * KB,
     paddingBuckets = [4 * KB, 16 * KB, 64 * KB],
     maxSkippedMessageKeys = 512,
     outbox = \<lparr>outboxMaxPackets = 192, outboxMaxBytes = 8 * MB,
               maxBufferedAmountBytes = 1 * MB, resumeBufferedAmountBytes = 384 * KB,
               drainYieldMs = 0\<rparr>,
     lanes = cloneLaneBudgets ((\<lambda>_. no_override)
       (Voice := no_override\<lparr>ov_maxPackets := Some 8, ov_maxBytes := Some (384 * KB)\<rparr>,
        File := no_override\<lparr>ov_maxPackets := Some 8, ov_maxBytes := Some (1 * MB)\<rparr>)),
     reconnect = \<lparr>maxAttempts = 20, baseDelayMs = 600, maxDelayMs = 6000, jitterMs = 450\<rparr>,
     files = \<lparr>smallBytes = 5 * MB, mediumBytes = 10 * MB, maxFileBytes = 25 * MB, maxMemoryReceiveBytes = 25 * MB,
              chunkBytes = 16 * KB, windowChunks = 2, ackTimeoutMs = 16000, maxRetries = 10\<rparr>,
     voice = \<lparr>voiceEnabled = True, voiceMode = Efficient, codecName = PCM16, frameMs = 60,
              jitterTargetMs = 180, jitterMaxFrames = 10, vadEnabled = True, vadStartDb = -43,
              vadStopDb = -50, vadPreRollMs = 120, vadHangoverMs = 300, vadMinSpeechMs = 80,
              maxQueuedLatencyMs = 500\<rparr>\<rparr>"

definition voice_first :: TransportProfile where
  "voice_first =
    \<lparr>profileId = VoiceFirst,
     label = ''Voice First'',
     description = ''Prioritizes low-latency voice; file transfer is intentionally conservative during calls.'',
     protocolVersion = 2,
     maxFrameBytes = 256 * KB,
     paddingBuckets = [4 * KB, 16 * KB, 64 * KB],
     maxSkippedMessageKeys = 512,
     outbox = \<lparr>outboxMaxPackets = 256, outboxMaxBytes = 10 * MB,
               maxBufferedAmountBytes = 1536 * KB, resumeBufferedAmountBytes = 512 * KB,
               drainYieldMs = 0\<rparr>,
     lanes = cloneLaneBudgets ((\<lambda>_. no_override)
       (Voice := \<lparr>ov_priority = Some 95, ov_maxPackets = Some 10, ov_maxBytes = Some (640 * KB),
                  ov_dropPolicy = Some DropOldest\<rparr>,
        File := \<lparr>ov_priority = Some 5, ov_maxPackets = Some 8, ov_maxBytes = Some (1 * MB),
                 ov_dropPolicy = Some Fail\<rparr>)),
     reconnect = \<lparr>maxAttempts = 18, baseDelayMs = 350, maxDelayMs = 4000, jitterMs = 250\<rparr>,
     files = \<lparr>smallBytes = 5 * MB, mediumBytes = 25 * MB, maxFileBytes = 50 * MB, maxMemoryReceiveBytes = 50 * MB,
              chunkBytes = 24 * KB, windowChunks = 2, ackTimeoutMs = 12000, maxRetries = 8\<rparr>,
     voice = \<lparr>voiceEnabled = True, voiceMode = Efficient, codecName = PCM16, frameMs = 30,
              jitterTargetMs = 100, jitterMaxFrames = 14, vadEnabled = True, vadStartDb = -47,
              vadStopDb = -54, vadPreRollMs = 120, vadHangoverMs = 220, vadMinSpeechMs = 50,
              maxQueuedLatencyMs = 250\<rparr>\<rparr>"

definition maximum_privacy :: TransportProfile where
  "maximum_privacy =
    \<lparr>profileId = MaximumPrivacy,
     label = ''Maximum Privacy'',
     description = ''Higher bandwidth profile. Uses larger padding and constant-cadence voice.'',
     protocolVersion = 2,
     maxFrameBytes = 256 * KB,
     paddingBuckets = [64 * KB, 128 * KB],
     maxSkippedMessageKeys = 512,
     outbox = \<lparr>outboxMaxPackets = 192, outboxMaxBytes = 24 * MB,
               maxBufferedAmountBytes = 2 * MB, resumeBufferedAmountBytes = 768 * KB,
               drainYieldMs = 0\<rparr>,
     lanes = cloneLaneBudgets ((\<lambda>_. no_override)
       (Voice := \<lparr>ov_priority = Some 85, ov_maxPackets = Some 16, ov_maxBytes = Some (1 * MB),
                  ov_dropPolicy = Some DropOldest\<rparr>,
        File := no_override\<lparr>ov_maxPackets := Some 8, ov_maxBytes := Some (1 * MB)\<rparr>)),
     reconnect = \<lparr>maxAttempts = 18, baseDelayMs = 500, maxDelayMs = 5000, jitterMs = 400\<rparr>,
     files = \<lparr>smallBytes = 5 * MB, mediumBytes = 10 * MB, maxFileBytes = 25 * MB, maxMemoryReceiveBytes = 25 * MB,
              chunkBytes = 24 * KB, windowChunks = 2, ackTimeoutMs = 16000, maxRetries = 10\<rparr>,
     voice = \<lparr>voiceEnabled = True, voiceMode = MaxPrivacyMode, codecName = PCM16, frameMs = 60,
              jitterTargetMs = 180, jitterMaxFrames = 10, vadEnabled = False, vadStartDb = -45,
              vadStopDb = -52, vadPreRollMs = 0, vadHangoverMs = 0, vadMinSpeechMs = 0,
              maxQueuedLatencyMs = 500\<rparr>\<rparr>"

fun PROFILES :: "TransportProfileId \<Rightarrow> TransportProfile" where
  "PROFILES Balanced = balanced"
| "PROFILES LowData = low_data"
| "PROFILES VoiceFirst = voice_first"
| "PROFILES MaximumPrivacy = maximum_privacy"

text \<open>The string each identifier is on the wire, and the \<^verbatim>\<open>hasOwnProperty\<close> test.\<close>

fun profileIdString :: "TransportProfileId \<Rightarrow> string" where
  "profileIdString Balanced = ''balanced''"
| "profileIdString LowData = ''low_data''"
| "profileIdString VoiceFirst = ''voice_first''"
| "profileIdString MaximumPrivacy = ''maximum_privacy''"

definition PROFILE_IDS :: "TransportProfileId list" where
  "PROFILE_IDS = [Balanced, LowData, VoiceFirst, MaximumPrivacy]"

definition profileIdOfString :: "string \<Rightarrow> TransportProfileId option" where
  "profileIdOfString s = find (\<lambda>p. profileIdString p = s) PROFILE_IDS"

definition isTransportProfileId :: "string \<Rightarrow> bool" where
  "isTransportProfileId s = (s \<in> set (map profileIdString PROFILE_IDS))"

text \<open>\<^verbatim>\<open>getProfile\<close> is total on the identifier type; its fallback is unreachable there.\<close>

definition getProfile :: "TransportProfileId \<Rightarrow> TransportProfile" where
  "getProfile i = PROFILES i"

definition supportedProfileIds :: "TransportProfileId list" where
  "supportedProfileIds = PROFILE_IDS"

lemmas profile_defs = balanced_def low_data_def voice_first_def maximum_privacy_def

section \<open>Facts about the profiles\<close>

lemma profileIdOfString_string [simp]: "profileIdOfString (profileIdString p) = Some p"
  by (cases p) (simp_all add: profileIdOfString_def PROFILE_IDS_def)

lemma isTransportProfileId_iff: "isTransportProfileId s \<longleftrightarrow> profileIdOfString s \<noteq> None"
  by (auto simp: isTransportProfileId_def profileIdOfString_def PROFILE_IDS_def)

lemma profileId_PROFILES [simp]: "profileId (PROFILES i) = i"
  by (cases i) (simp_all add: profile_defs)

lemma protocolVersion_PROFILES [simp]: "protocolVersion (PROFILES i) = 2"
  by (cases i) (simp_all add: profile_defs)

text \<open>
  What the other components rely on: only the voice lane may drop; the control lane
  outranks every other lane and the file lane is outranked by every other lane; a frame
  of maximal size fits an empty lane and an empty outbox; draining resumes below the
  level at which it pauses; the crypto worker's largest padded plaintext, with the
  16-byte GCM tag and the 38-byte header, fits a frame.
\<close>

definition lanes_ok :: "TransportProfile \<Rightarrow> bool" where
  "lanes_ok p =
     ((\<forall>l \<in> {Control, Text, File, Voice}.
         (dropPolicy (lanes p l) = DropOldest) = (l = Voice) \<and>
         0 < maxPackets (lanes p l) \<and>
         maxFrameBytes p \<le> maxBytes (lanes p l)) \<and>
      (\<forall>l \<in> {Text, File, Voice}. priority (lanes p l) < priority (lanes p Control)) \<and>
      (\<forall>l \<in> {Control, Text, Voice}. priority (lanes p File) < priority (lanes p l)))"

definition sizes_ok :: "TransportProfile \<Rightarrow> bool" where
  "sizes_ok p =
     (0 < outboxMaxPackets (outbox p) \<and>
      maxFrameBytes p \<le> outboxMaxBytes (outbox p) \<and>
      resumeBufferedAmountBytes (outbox p) < maxBufferedAmountBytes (outbox p) \<and>
      paddingBuckets p \<noteq> [] \<and> sorted (paddingBuckets p) \<and> distinct (paddingBuckets p) \<and>
      (\<forall>b \<in> set (paddingBuckets p). 1024 \<le> b \<and> b + 16 + 38 \<le> maxFrameBytes p))"

text \<open>
  A file chunk of maximal size, base64url encoded (\<open>4 * \<lceil>n / 3\<rceil>\<close> characters at most)
  and wrapped in a JSON object with a 160-character file id and 16-digit numbers
  (under 512 characters), still fits a padding bucket with its 4-byte length.
\<close>

definition chunk_fits :: "TransportProfile \<Rightarrow> bool" where
  "chunk_fits p =
     (0 < chunkBytes (files p) \<and> 0 < windowChunks (files p) \<and>
      (\<exists>b \<in> set (paddingBuckets p). 4 * ((chunkBytes (files p) + 2) div 3) + 512 + 4 \<le> b))"

definition profile_ok :: "TransportProfile \<Rightarrow> bool" where
  "profile_ok p = (lanes_ok p \<and> sizes_ok p \<and> chunk_fits p)"

lemma lanes_ok_PROFILES: "lanes_ok (PROFILES i)"
  by (cases i)
    (simp_all add: lanes_ok_def profile_defs cloneLaneBudgets_def no_override_def Let_def)

lemma sizes_ok_PROFILES: "sizes_ok (PROFILES i)"
  by (cases i) (simp_all add: sizes_ok_def profile_defs)

lemma chunk_fits_PROFILES: "chunk_fits (PROFILES i)"
  by (cases i) (simp_all add: chunk_fits_def profile_defs)

lemma profile_ok_PROFILES: "profile_ok (PROFILES i)"
  by (simp add: profile_ok_def lanes_ok_PROFILES sizes_ok_PROFILES chunk_fits_PROFILES)


end
