(* ===== verification/Scheduler.thy ===== *)
theory Scheduler
  imports Profiles
begin

text \<open>
  The outbound packet scheduler (\<^verbatim>\<open>client/src/transport/PacketScheduler.ts\<close>): four
  lane queues with packet and byte budgets, a shared outbox budget, drop-oldest or
  fail on overflow, and strict priority between lanes. The byte and packet counters are
  JavaScript numbers the code keeps by addition and subtraction, so they are \<open>int\<close>
  here; that they always equal the queues' real sizes is a theorem.
\<close>

section \<open>State\<close>

record QueuedPacket =
  qp_lane :: LaneName
  qp_bytes :: bytes

record LaneQueue =
  lq_packets :: "QueuedPacket list"
  lq_bytes :: int

record EnqueueResult =
  er_ok :: bool
  er_dropped :: nat
  er_reason :: "string option"

record PacketScheduler =
  queues :: "LaneName \<Rightarrow> LaneQueue"
  totalPackets :: int
  totalBytes :: int
  sch_profile :: TransportProfile

record QueueSnapshot =
  snap_packets :: int
  snap_bytes :: int
  snap_lanePackets :: "LaneName \<Rightarrow> nat"
  snap_laneBytes :: "LaneName \<Rightarrow> int"

definition LANES :: "LaneName list" where
  "LANES = [Control, Voice, Text, File]"

abbreviation byteLength :: "'a list \<Rightarrow> int" where
  "byteLength bs \<equiv> int (length bs)"

definition emptyLane :: LaneQueue where
  "emptyLane = \<lparr>lq_packets = [], lq_bytes = 0\<rparr>"

definition newScheduler :: "TransportProfile \<Rightarrow> PacketScheduler" where
  "newScheduler p = \<lparr>queues = (\<lambda>_. emptyLane), totalPackets = 0, totalBytes = 0, sch_profile = p\<rparr>"

section \<open>Operations\<close>

definition sch_setProfile :: "TransportProfile \<Rightarrow> PacketScheduler \<Rightarrow> PacketScheduler" where
  "sch_setProfile p s = s\<lparr>sch_profile := p\<rparr>"

definition wouldOverflow :: "PacketScheduler \<Rightarrow> LaneQueue \<Rightarrow> LaneBudget \<Rightarrow> int \<Rightarrow> bool" where
  "wouldOverflow s q cfg nextBytes =
     (int (length (lq_packets q)) \<ge> int (maxPackets cfg) \<or>
      lq_bytes q + nextBytes > int (maxBytes cfg) \<or>
      totalPackets s \<ge> int (outboxMaxPackets (outbox (sch_profile s))) \<or>
      totalBytes s + nextBytes > int (outboxMaxBytes (outbox (sch_profile s))))"

text \<open>\<^verbatim>\<open>q.packets.shift()\<close> with the bookkeeping of lines 54 to 57 and 75 to 79.\<close>

definition shiftLane :: "LaneName \<Rightarrow> PacketScheduler \<Rightarrow> PacketScheduler" where
  "shiftLane lane s =
     (case lq_packets (queues s lane) of
        [] \<Rightarrow> s
      | removed # rest \<Rightarrow>
          s\<lparr>queues := (queues s)(lane :=
               \<lparr>lq_packets = rest,
                lq_bytes = lq_bytes (queues s lane) - byteLength (qp_bytes removed)\<rparr>),
            totalPackets := totalPackets s - 1,
            totalBytes := totalBytes s - byteLength (qp_bytes removed)\<rparr>)"

definition pushLane :: "QueuedPacket \<Rightarrow> PacketScheduler \<Rightarrow> PacketScheduler" where
  "pushLane packet s =
     (let lane = qp_lane packet; q = queues s lane in
      s\<lparr>queues := (queues s)(lane :=
           \<lparr>lq_packets = lq_packets q @ [packet],
            lq_bytes = lq_bytes q + byteLength (qp_bytes packet)\<rparr>),
        totalPackets := totalPackets s + 1,
        totalBytes := totalBytes s + byteLength (qp_bytes packet)\<rparr>)"

text \<open>The \<^verbatim>\<open>while (wouldOverflow)\<close> loop of \<^verbatim>\<open>enqueue\<close>; \<open>Inl\<close> is its early return.\<close>

function makeRoom ::
    "QueuedPacket \<Rightarrow> nat \<Rightarrow> PacketScheduler \<Rightarrow> PacketScheduler \<times> (EnqueueResult + nat)" where
  "makeRoom packet dropped s =
     (let lane = qp_lane packet; q = queues s lane; cfg = lanes (sch_profile s) lane in
      if wouldOverflow s q cfg (byteLength (qp_bytes packet)) then
        if dropPolicy cfg \<noteq> DropOldest \<or> lq_packets q = [] then
          (s, Inl \<lparr>er_ok = False, er_dropped = dropped, er_reason = Some ''queue_full''\<rparr>)
        else makeRoom packet (Suc dropped) (shiftLane lane s)
      else (s, Inr dropped))"
  by pat_completeness auto
termination
  by (relation "measure (\<lambda>(packet, _, s). length (lq_packets (queues s (qp_lane packet))))")
    (auto simp: shiftLane_def split: list.splits)

declare makeRoom.simps [simp del]

definition enqueue :: "QueuedPacket \<Rightarrow> PacketScheduler \<Rightarrow> PacketScheduler \<times> EnqueueResult" where
  "enqueue packet s =
     (if byteLength (qp_bytes packet) > int (maxFrameBytes (sch_profile s)) then
        (s, \<lparr>er_ok = False, er_dropped = 0, er_reason = Some ''frame_too_large''\<rparr>)
      else
        (case makeRoom packet 0 s of
           (s', Inl failure) \<Rightarrow> (s', failure)
         | (s', Inr dropped) \<Rightarrow>
             (pushLane packet s', \<lparr>er_ok = True, er_dropped = dropped, er_reason = None\<rparr>)))"

text \<open>
  \<^verbatim>\<open>Array.prototype.sort\<close> is stable, as \<^const>\<open>sort_key\<close> is; descending priority is
  ascending negated priority.
\<close>

definition nextLane :: "PacketScheduler \<Rightarrow> LaneName option" where
  "nextLane s =
     (case sort_key (\<lambda>l. - int (priority (lanes (sch_profile s) l)))
             (filter (\<lambda>l. lq_packets (queues s l) \<noteq> []) LANES) of
        [] \<Rightarrow> None
      | lane # _ \<Rightarrow> Some lane)"

definition sch_next :: "PacketScheduler \<Rightarrow> PacketScheduler \<times> QueuedPacket option" where
  "sch_next s =
     (case nextLane s of
        None \<Rightarrow> (s, None)
      | Some lane \<Rightarrow>
          (case lq_packets (queues s lane) of
             [] \<Rightarrow> (s, None)
           | packet # _ \<Rightarrow> (shiftLane lane s, Some packet)))"

definition clearLane :: "LaneName \<Rightarrow> PacketScheduler \<Rightarrow> PacketScheduler" where
  "clearLane lane s =
     s\<lparr>totalPackets := totalPackets s - int (length (lq_packets (queues s lane))),
       totalBytes := totalBytes s - lq_bytes (queues s lane),
       queues := (queues s)(lane := emptyLane)\<rparr>"

definition clearVolatile :: "PacketScheduler \<Rightarrow> PacketScheduler" where
  "clearVolatile s = clearLane Voice s"

definition sch_clear :: "PacketScheduler \<Rightarrow> PacketScheduler" where
  "sch_clear s = fold clearLane LANES s"

definition sch_snapshot :: "PacketScheduler \<Rightarrow> QueueSnapshot" where
  "sch_snapshot s =
     \<lparr>snap_packets = totalPackets s, snap_bytes = totalBytes s,
      snap_lanePackets = (\<lambda>l. length (lq_packets (queues s l))),
      snap_laneBytes = (\<lambda>l. lq_bytes (queues s l))\<rparr>"

section \<open>Bookkeeping invariant\<close>

definition packetsBytes :: "QueuedPacket list \<Rightarrow> int" where
  "packetsBytes ps = (\<Sum>p\<leftarrow>ps. byteLength (qp_bytes p))"

lemma packetsBytes_simps [simp]:
  "packetsBytes [] = 0"
  "packetsBytes (p # ps) = byteLength (qp_bytes p) + packetsBytes ps"
  "packetsBytes (ps @ qs) = packetsBytes ps + packetsBytes qs"
  by (simp_all add: packetsBytes_def)

definition lane_counts :: "PacketScheduler \<Rightarrow> bool" where
  "lane_counts s =
     (\<forall>l. lq_bytes (queues s l) = packetsBytes (lq_packets (queues s l)) \<and>
          (\<forall>p \<in> set (lq_packets (queues s l)). qp_lane p = l))"

text \<open>The sum over the four lanes, written out in the code's lane order.\<close>

definition sumLanes :: "(LaneName \<Rightarrow> int) \<Rightarrow> int" where
  "sumLanes f = f Control + f Voice + f Text + f File"

lemma sumLanes_upd [simp]:
  "sumLanes (\<lambda>l. g (if l = lane then x else f l)) = sumLanes (\<lambda>l. g (f l)) - g (f lane) + g x"
  by (cases lane) (simp_all add: sumLanes_def)

lemmas sumLanes_upd_length [simp] = sumLanes_upd [of "\<lambda>q. int (length (lq_packets q))"]

definition accounting :: "PacketScheduler \<Rightarrow> bool" where
  "accounting s =
     (lane_counts s \<and>
      totalPackets s = sumLanes (\<lambda>l. int (length (lq_packets (queues s l)))) \<and>
      totalBytes s = sumLanes (\<lambda>l. lq_bytes (queues s l)))"

lemma accounting_new [wf_intros]: "accounting (newScheduler p)"
  by (simp add: accounting_def lane_counts_def newScheduler_def emptyLane_def sumLanes_def)

lemma accounting_shift [wf_intros]: "accounting s \<Longrightarrow> accounting (shiftLane lane s)"
  by (auto simp: accounting_def lane_counts_def shiftLane_def split: list.splits)

lemma accounting_push [wf_intros]: "accounting s \<Longrightarrow> accounting (pushLane packet s)"
  by (auto simp: accounting_def lane_counts_def pushLane_def Let_def)

lemma accounting_clearLane [wf_intros]: "accounting s \<Longrightarrow> accounting (clearLane lane s)"
  by (auto simp: accounting_def lane_counts_def clearLane_def emptyLane_def)

lemma accounting_makeRoom: "accounting s \<Longrightarrow> accounting (fst (makeRoom packet dropped s))"
proof (induction packet dropped s rule: makeRoom.induct)
  case (1 packet dropped s)
  then show ?case
    by (subst makeRoom.simps) (auto simp: Let_def accounting_shift)
qed

lemma accounting_enqueue [wf_intros]:
  assumes "accounting s" shows "accounting (fst (enqueue packet s))"
  using accounting_makeRoom [OF assms, of packet 0] assms
  by (auto simp: enqueue_def accounting_push split: prod.splits sum.splits)

lemma accounting_next [wf_intros]: "accounting s \<Longrightarrow> accounting (fst (sch_next s))"
  by (auto simp: sch_next_def accounting_shift split: option.splits list.splits)

lemma accounting_clear [wf_intros]: "accounting s \<Longrightarrow> accounting (sch_clear s)"
  by (simp add: sch_clear_def LANES_def accounting_clearLane)

section \<open>Budgets\<close>

definition within_budget :: "PacketScheduler \<Rightarrow> bool" where
  "within_budget s =
     ((\<forall>l. int (length (lq_packets (queues s l))) \<le> int (maxPackets (lanes (sch_profile s) l)) \<and>
           lq_bytes (queues s l) \<le> int (maxBytes (lanes (sch_profile s) l))) \<and>
      totalPackets s \<le> int (outboxMaxPackets (outbox (sch_profile s))) \<and>
      totalBytes s \<le> int (outboxMaxBytes (outbox (sch_profile s))))"

lemma sch_profile_shift [simp]: "sch_profile (shiftLane lane s) = sch_profile s"
  by (simp add: shiftLane_def split: list.splits)

lemma sch_profile_makeRoom [simp]: "sch_profile (fst (makeRoom packet dropped s)) = sch_profile s"
proof (induction packet dropped s rule: makeRoom.induct)
  case (1 packet dropped s)
  then show ?case by (subst makeRoom.simps) (simp add: Let_def)
qed

lemma within_budget_new: "within_budget (newScheduler p)"
  by (simp add: within_budget_def newScheduler_def emptyLane_def)

lemma within_budget_shift: "within_budget s \<Longrightarrow> within_budget (shiftLane lane s)"
  unfolding within_budget_def shiftLane_def
  by (cases "lq_packets (queues s lane)") (auto dest!: spec [of _ lane])

lemma makeRoom_Inr_room:
  "makeRoom packet dropped s = (s', Inr n) \<Longrightarrow>
   \<not> wouldOverflow s' (queues s' (qp_lane packet))
       (lanes (sch_profile s') (qp_lane packet)) (byteLength (qp_bytes packet))"
proof (induction packet dropped s rule: makeRoom.induct)
  case (1 packet dropped s)
  from 1 show ?case
    by (subst (asm) makeRoom.simps) (auto simp: Let_def split: if_splits)
qed

lemma within_budget_makeRoom: "within_budget s \<Longrightarrow> within_budget (fst (makeRoom packet dropped s))"
proof (induction packet dropped s rule: makeRoom.induct)
  case (1 packet dropped s)
  then show ?case
    by (subst makeRoom.simps) (auto simp: Let_def within_budget_shift)
qed

lemma within_budget_push:
  assumes "within_budget s"
    and "\<not> wouldOverflow s (queues s (qp_lane packet))
           (lanes (sch_profile s) (qp_lane packet)) (byteLength (qp_bytes packet))"
  shows "within_budget (pushLane packet s)"
  using assms by (auto simp: within_budget_def wouldOverflow_def pushLane_def Let_def)

lemma within_budget_enqueue:
  assumes "within_budget s" shows "within_budget (fst (enqueue packet s))"
proof -
  obtain s' r where mr: "makeRoom packet 0 s = (s', r)" by (cases "makeRoom packet 0 s")
  have wb: "within_budget s'" using within_budget_makeRoom [OF assms, of packet 0] mr by simp
  show ?thesis
  proof (cases r)
    case (Inl f)
    with mr wb assms show ?thesis by (simp add: enqueue_def)
  next
    case (Inr n)
    with mr have "\<not> wouldOverflow s' (queues s' (qp_lane packet))
       (lanes (sch_profile s') (qp_lane packet)) (byteLength (qp_bytes packet))"
      by (simp add: makeRoom_Inr_room)
    with mr wb assms Inr show ?thesis by (simp add: enqueue_def within_budget_push)
  qed
qed

lemma within_budget_next: "within_budget s \<Longrightarrow> within_budget (fst (sch_next s))"
  by (auto simp: sch_next_def within_budget_shift split: option.splits list.splits)

lemma within_budget_clearLane:
  assumes "accounting s" and "within_budget s" shows "within_budget (clearLane lane s)"
proof -
  have nonneg: "0 \<le> packetsBytes ps" for ps
    by (induction ps) auto
  with assms show ?thesis
    by (auto simp: within_budget_def clearLane_def emptyLane_def accounting_def lane_counts_def
        intro: order_trans [rotated])
qed

lemma sch_profile_clearLane [simp]: "sch_profile (clearLane lane s) = sch_profile s"
  by (simp add: clearLane_def)

lemma within_budget_clear: "accounting s \<Longrightarrow> within_budget s \<Longrightarrow> within_budget (sch_clear s)"
  by (simp add: sch_clear_def LANES_def accounting_clearLane within_budget_clearLane)

section \<open>The scheduler as an event-driven component\<close>

datatype SchedOp = OpEnqueue QueuedPacket | OpNext | OpClearVolatile | OpClear

fun sched_step :: "SchedOp \<Rightarrow> PacketScheduler \<Rightarrow> PacketScheduler" where
  "sched_step (OpEnqueue p) s = fst (enqueue p s)"
| "sched_step OpNext s = fst (sch_next s)"
| "sched_step OpClearVolatile s = clearVolatile s"
| "sched_step OpClear s = sch_clear s"

definition sched_inv :: "PacketScheduler \<Rightarrow> bool" where
  "sched_inv s = (accounting s \<and> within_budget s)"

lemma sched_inv_new: "sched_inv (newScheduler p)"
  by (simp add: sched_inv_def accounting_new within_budget_new)

interpretation sched: invariant_system sched_step sched_inv
proof
  fix s e
  assume "sched_inv s"
  then show "sched_inv (sched_step e s)"
    by (cases e) (simp_all add: sched_inv_def clearVolatile_def accounting_enqueue
        within_budget_enqueue accounting_next within_budget_next accounting_clearLane
        within_budget_clearLane accounting_clear within_budget_clear)
qed

section \<open>Priority\<close>

lemma sort_key_head:
  assumes "sort_key f xs = x # ys"
  shows "x \<in> set xs \<and> (\<forall>y \<in> set xs. f x \<le> f y)"
proof -
  have "set xs = insert x (set ys)" using assms set_sort [of f xs] by (metis list.simps(15))
  moreover have "sorted (map f (x # ys))" using assms sorted_sort_key [of f xs] by simp
  ultimately show ?thesis by auto
qed

lemma set_LANES [simp]: "set LANES = UNIV"
  using LaneName.exhaust by (auto simp: LANES_def)

lemma nextLane_Some:
  assumes "nextLane s = Some lane"
  shows "lq_packets (queues s lane) \<noteq> []"
    and "\<And>l. lq_packets (queues s l) \<noteq> [] \<Longrightarrow>
           priority (lanes (sch_profile s) l) \<le> priority (lanes (sch_profile s) lane)"
proof -
  from assms obtain ls where
    "sort_key (\<lambda>l. - int (priority (lanes (sch_profile s) l)))
       (filter (\<lambda>l. lq_packets (queues s l) \<noteq> []) LANES) = lane # ls"
    by (auto simp: nextLane_def split: list.splits)
  from sort_key_head [OF this] show "lq_packets (queues s lane) \<noteq> []"
    and "\<And>l. lq_packets (queues s l) \<noteq> [] \<Longrightarrow>
           priority (lanes (sch_profile s) l) \<le> priority (lanes (sch_profile s) lane)"
    by auto
qed

lemma nextLane_None: "nextLane s = None \<longleftrightarrow> (\<forall>l. lq_packets (queues s l) = [])"
proof -
  have "nextLane s = None \<longleftrightarrow> filter (\<lambda>l. lq_packets (queues s l) \<noteq> []) LANES = []"
    by (auto simp: nextLane_def split: list.splits) (metis length_0_conv length_sort list.distinct(1))+
  also have "\<dots> \<longleftrightarrow> (\<forall>l. lq_packets (queues s l) = [])"
    by (simp add: filter_empty_conv)
  finally show ?thesis .
qed

lemma sch_next_cases:
  obtains (empty) "\<forall>l. lq_packets (queues s l) = []" "sch_next s = (s, None)"
  | (packet) lane p ps where "nextLane s = Some lane" "lq_packets (queues s lane) = p # ps"
      "sch_next s = (shiftLane lane s, Some p)"
proof (cases "nextLane s")
  case None
  then have "sch_next s = (s, None)" by (simp add: sch_next_def)
  moreover from None have "\<forall>l. lq_packets (queues s l) = []" using nextLane_None [of s] by blast
  ultimately show ?thesis by (rule empty [rotated])
next
  case (Some lane)
  with nextLane_Some(1) [OF Some] show ?thesis
    using packet by (cases "lq_packets (queues s lane)") (auto simp: sch_next_def)
qed

section \<open>Each lane refines a FIFO queue\<close>

text \<open>
  The abstract view of a lane is the list of packets waiting in it. An accepted packet
  goes to the end of its own lane, after the oldest \<open>er_dropped\<close> packets of a
  drop-oldest lane were discarded; no other lane changes.
\<close>

abbreviation waiting :: "PacketScheduler \<Rightarrow> LaneName \<Rightarrow> QueuedPacket list" where
  "waiting s lane \<equiv> lq_packets (queues s lane)"

lemma waiting_shift: "waiting (shiftLane lane s) l = (if l = lane then tl (waiting s l) else waiting s l)"
  by (simp add: shiftLane_def split: list.splits)

lemma waiting_push:
  "waiting (pushLane p s) l = (if l = qp_lane p then waiting s l @ [p] else waiting s l)"
  by (simp add: pushLane_def Let_def)

lemma makeRoom_waiting:
  "makeRoom packet dropped s = (s', r) \<Longrightarrow>
   \<exists>n. waiting s' (qp_lane packet) = drop n (waiting s (qp_lane packet)) \<and>
       n \<le> length (waiting s (qp_lane packet)) \<and>
       (\<forall>l. l \<noteq> qp_lane packet \<longrightarrow> waiting s' l = waiting s l) \<and>
       (n = 0 \<or> dropPolicy (lanes (sch_profile s) (qp_lane packet)) = DropOldest) \<and>
       (case r of Inl f \<Rightarrow> er_dropped f = dropped + n \<and> \<not> er_ok f | Inr m \<Rightarrow> m = dropped + n)"
proof (induction packet dropped s arbitrary: s' r rule: makeRoom.induct)
  case (1 packet dropped s)
  let ?lane = "qp_lane packet"
  let ?cfg = "lanes (sch_profile s) ?lane"
  let ?ov = "wouldOverflow s (queues s ?lane) ?cfg (byteLength (qp_bytes packet))"
  show ?case
  proof (cases "?ov \<and> dropPolicy ?cfg = DropOldest \<and> waiting s ?lane \<noteq> []")
    case True
    then have "makeRoom packet (Suc dropped) (shiftLane ?lane s) = (s', r)"
      using "1.prems" by (subst (asm) makeRoom.simps) (simp add: Let_def)
    with "1.IH" True obtain n where
      n: "waiting s' ?lane = drop n (waiting (shiftLane ?lane s) ?lane)"
         "n \<le> length (waiting (shiftLane ?lane s) ?lane)"
         "\<forall>l. l \<noteq> ?lane \<longrightarrow> waiting s' l = waiting (shiftLane ?lane s) l"
         "case r of Inl f \<Rightarrow> er_dropped f = Suc dropped + n \<and> \<not> er_ok f | Inr m \<Rightarrow> m = Suc dropped + n"
      by blast
    moreover have "drop n (tl (waiting s ?lane)) = drop (Suc n) (waiting s ?lane)"
      by (simp add: drop_Suc)
    moreover have "Suc n \<le> length (waiting s ?lane)"
      using n(2) True by (cases "waiting s ?lane") (auto simp: waiting_shift)
    ultimately show ?thesis
      using True by (intro exI [of _ "Suc n"]) (auto simp: waiting_shift split: sum.splits)
  next
    case False
    then show ?thesis
      using "1.prems"
      by (subst (asm) makeRoom.simps) (intro exI [of _ 0], auto simp: Let_def split: if_splits)
  qed
qed

lemma enqueue_waiting:
  assumes "enqueue p s = (s', r)"
  shows "waiting s' (qp_lane p) =
           drop (er_dropped r) (waiting s (qp_lane p)) @ (if er_ok r then [p] else [])"
    and "\<And>l. l \<noteq> qp_lane p \<Longrightarrow> waiting s' l = waiting s l"
    and "dropPolicy (lanes (sch_profile s) (qp_lane p)) = Fail \<Longrightarrow> er_dropped r = 0"
    and "er_dropped r \<le> length (waiting s (qp_lane p))"
proof -
  obtain s1 r1 where mr: "makeRoom p 0 s = (s1, r1)" by (cases "makeRoom p 0 s")
  from makeRoom_waiting [OF mr] assms mr show
    "waiting s' (qp_lane p) =
       drop (er_dropped r) (waiting s (qp_lane p)) @ (if er_ok r then [p] else [])"
    "\<And>l. l \<noteq> qp_lane p \<Longrightarrow> waiting s' l = waiting s l"
    "dropPolicy (lanes (sch_profile s) (qp_lane p)) = Fail \<Longrightarrow> er_dropped r = 0"
    "er_dropped r \<le> length (waiting s (qp_lane p))"
    by (auto simp: enqueue_def waiting_push split: if_splits sum.splits)
qed

text \<open>
  A run of the scheduler with the packets it accepted and the packets it handed to the
  socket, in order. \<^verbatim>\<open>clear\<close> and \<^verbatim>\<open>clearVolatile\<close> are left out: they empty lanes on purpose.
\<close>

datatype SchedIO = Put QueuedPacket | Get

fun sched_io :: "SchedIO list \<Rightarrow> PacketScheduler \<Rightarrow> PacketScheduler \<times> QueuedPacket list \<times> QueuedPacket list"
where
  "sched_io [] s = (s, [], [])"
| "sched_io (Put p # ops) s =
     (let (s1, r) = enqueue p s; (s2, acc, sent) = sched_io ops s1 in
      (s2, if er_ok r then p # acc else acc, sent))"
| "sched_io (Get # ops) s =
     (let (s1, po) = sch_next s; (s2, acc, sent) = sched_io ops s1 in
      (s2, acc, case po of None \<Rightarrow> sent | Some p \<Rightarrow> p # sent))"

abbreviation on_lane :: "LaneName \<Rightarrow> QueuedPacket list \<Rightarrow> QueuedPacket list" where
  "on_lane lane ps \<equiv> filter (\<lambda>p. qp_lane p = lane) ps"

lemma sch_profile_push [simp]: "sch_profile (pushLane p s) = sch_profile s"
  by (simp add: pushLane_def Let_def)

lemma sch_profile_enqueue [simp]: "sch_profile (fst (enqueue p s)) = sch_profile s"
  using sch_profile_makeRoom [of p 0 s]
  by (cases "makeRoom p 0 s")
    (auto simp: enqueue_def simp del: sch_profile_makeRoom split: sum.splits)

lemma sch_profile_next [simp]: "sch_profile (fst (sch_next s)) = sch_profile s"
  by (simp add: sch_next_def split: option.splits list.splits)

lemma sch_next_lane:
  assumes "lane_counts s" and "sch_next s = (s', Some p)"
  shows "waiting s l = (if l = qp_lane p then p # waiting s' l else waiting s' l)"
proof -
  from assms(2) obtain lane ps where
    *: "waiting s lane = p # ps" "s' = shiftLane lane s"
    by (cases rule: sch_next_cases [of s]) auto
  with assms(1) have "qp_lane p = lane" by (auto simp: lane_counts_def)
  with * show ?thesis by (simp add: waiting_shift)
qed

lemma reliable_lane_fifo:
  assumes "lane_counts s" "accounting s" "dropPolicy (lanes (sch_profile s) lane) = Fail"
    and "sched_io ops s = (s', acc, sent)"
  shows "waiting s lane @ on_lane lane acc = on_lane lane sent @ waiting s' lane"
  using assms
proof (induction ops s arbitrary: s' acc sent rule: sched_io.induct)
  case (1 s)
  then show ?case by simp
next
  case (2 p ops s)
  obtain s1 r where e: "enqueue p s = (s1, r)" by (cases "enqueue p s")
  obtain s2 acc1 sent1 where io: "sched_io ops s1 = (s2, acc1, sent1)"
    by (cases "sched_io ops s1") auto
  have inv: "accounting s1" "sch_profile s1 = sch_profile s"
    using accounting_enqueue [OF "2.prems"(2), of p] sch_profile_enqueue [of p s] e by simp_all
  have "waiting s1 lane @ on_lane lane acc1 = on_lane lane sent1 @ waiting s2 lane"
    using "2.IH" [OF e [symmetric] refl _ _ _ io] inv "2.prems"(3) by (simp add: accounting_def)
  moreover have "waiting s1 lane = waiting s lane @ (if er_ok r \<and> qp_lane p = lane then [p] else [])"
    using enqueue_waiting(1,2,3) [OF e] "2.prems"(3) by (cases "qp_lane p = lane") auto
  ultimately show ?case using "2.prems"(4) e io by (auto split: if_splits)
next
  case (3 ops s)
  obtain s1 po where n: "sch_next s = (s1, po)" by (cases "sch_next s")
  obtain s2 acc1 sent1 where io: "sched_io ops s1 = (s2, acc1, sent1)"
    by (cases "sched_io ops s1") auto
  have inv: "accounting s1" "sch_profile s1 = sch_profile s"
    using accounting_next [OF "3.prems"(2)] sch_profile_next [of s] n by simp_all
  have *: "waiting s1 lane @ on_lane lane acc1 = on_lane lane sent1 @ waiting s2 lane"
    using "3.IH" [OF n [symmetric] refl _ _ _ io] inv "3.prems"(3) by (simp add: accounting_def)
  show ?case
  proof (cases po)
    case None
    then have "s1 = s" using n by (cases rule: sch_next_cases [of s]) auto
    with None * "3.prems"(4) n io show ?thesis by auto
  next
    case (Some p)
    with n have "waiting s lane = (if lane = qp_lane p then p # waiting s1 lane else waiting s1 lane)"
      using sch_next_lane [OF "3.prems"(1)] by simp
    with Some * "3.prems"(4) n io show ?thesis by (auto split: if_splits)
  qed
qed

section \<open>Latest wins on the voice lane\<close>

text \<open>Whether the lanes other than \<open>lane\<close> leave outbox room for a packet of \<open>n\<close> bytes.\<close>

definition others_leave_room :: "PacketScheduler \<Rightarrow> LaneName \<Rightarrow> int \<Rightarrow> bool" where
  "others_leave_room s lane n =
     (totalPackets s - int (length (waiting s lane)) < int (outboxMaxPackets (outbox (sch_profile s))) \<and>
      totalBytes s - lq_bytes (queues s lane) + n \<le> int (outboxMaxBytes (outbox (sch_profile s))))"

lemma others_leave_room_shift [simp]:
  "others_leave_room (shiftLane lane s) lane n = others_leave_room s lane n"
  by (auto simp: others_leave_room_def shiftLane_def split: list.splits)

lemma makeRoom_drop_oldest_ok:
  assumes "accounting s" and "dropPolicy (lanes (sch_profile s) (qp_lane p)) = DropOldest"
    and "0 < maxPackets (lanes (sch_profile s) (qp_lane p))"
    and "length (qp_bytes p) \<le> maxBytes (lanes (sch_profile s) (qp_lane p))"
    and "others_leave_room s (qp_lane p) (byteLength (qp_bytes p))"
  shows "\<exists>s' n. makeRoom p dropped s = (s', Inr n)"
  using assms
proof (induction p dropped s rule: makeRoom.induct)
  case (1 p dropped s)
  let ?lane = "qp_lane p"
  let ?ov = "wouldOverflow s (queues s ?lane) (lanes (sch_profile s) ?lane) (byteLength (qp_bytes p))"
  have "waiting s ?lane = [] \<Longrightarrow> \<not> ?ov"
    using "1.prems" by (auto simp: wouldOverflow_def others_leave_room_def accounting_def lane_counts_def)
  then show ?case
    using "1.IH" "1.prems" by (subst makeRoom.simps) (auto simp: Let_def accounting_shift)
qed

section \<open>Properties\<close>


text \<open>
  Reliable lanes never drop and never reorder: on every canonical profile, for the
  control, text and file lanes, the packets accepted by enqueue are exactly the packets
  handed out by next followed by the packets still waiting, in order.
\<close>

theorem reliable_lanes_are_fifo:
  assumes "lane \<noteq> Voice" and "sched_io ops (newScheduler (PROFILES i)) = (s', acc, sent)"
  shows "on_lane lane acc = on_lane lane sent @ waiting s' lane"
proof -
  have "dropPolicy (lanes (PROFILES i) lane) = Fail"
    using lanes_ok_PROFILES [of i] assms(1)
    by (cases lane; cases "dropPolicy (lanes (PROFILES i) lane)") (auto simp: lanes_ok_def)
  moreover have "lane_counts (newScheduler (PROFILES i))"
    using accounting_new by (simp add: accounting_def)
  ultimately show ?thesis
    using reliable_lane_fifo [OF _ accounting_new _ assms(2)]
    by (simp add: newScheduler_def emptyLane_def)
qed

lemmas sched_eval = enqueue_def makeRoom.simps wouldOverflow_def newScheduler_def emptyLane_def
  pushLane_def shiftLane_def sch_next_def nextLane_def LANES_def profile_defs
  cloneLaneBudgets_def no_override_def Let_def

theorem reliable_lanes_are_fifo_witness:
  "\<exists>s'. sched_io
          [Put \<lparr>qp_lane = Text, qp_bytes = [1]\<rparr>, Put \<lparr>qp_lane = Text, qp_bytes = [2]\<rparr>, Get]
          (newScheduler (PROFILES Balanced)) =
        (s', [\<lparr>qp_lane = Text, qp_bytes = [1]\<rparr>, \<lparr>qp_lane = Text, qp_bytes = [2]\<rparr>],
             [\<lparr>qp_lane = Text, qp_bytes = [1]\<rparr>]) \<and>
        waiting s' Text = [\<lparr>qp_lane = Text, qp_bytes = [2]\<rparr>]"
proof -
  obtain s' where io: "sched_io
          [Put \<lparr>qp_lane = Text, qp_bytes = [1]\<rparr>, Put \<lparr>qp_lane = Text, qp_bytes = [2]\<rparr>, Get]
          (newScheduler (PROFILES Balanced)) =
        (s', [\<lparr>qp_lane = Text, qp_bytes = [1]\<rparr>, \<lparr>qp_lane = Text, qp_bytes = [2]\<rparr>],
             [\<lparr>qp_lane = Text, qp_bytes = [1]\<rparr>])"
    by (simp add: sched_eval)
  from reliable_lanes_are_fifo [OF _ io, of Text] io show ?thesis by auto
qed

text \<open>
  Strict priority: on every canonical profile, next returns nothing exactly when
  every lane is empty; it returns a control packet whenever one is waiting, and a file
  packet only when no control, voice or text packet is waiting.
\<close>

theorem next_respects_priority:
  assumes "accounting s" and "sch_profile s = PROFILES i"
  shows "case snd (sch_next s) of
           None \<Rightarrow> \<forall>l. waiting s l = []
         | Some p \<Rightarrow> hd (waiting s (qp_lane p)) = p \<and>
             (waiting s Control \<noteq> [] \<longrightarrow> qp_lane p = Control) \<and>
             (qp_lane p = File \<longrightarrow> waiting s Control = [] \<and> waiting s Voice = [] \<and> waiting s Text = [])"
proof (cases rule: sch_next_cases [of s])
  case empty
  then show ?thesis by simp
next
  case (packet lane p ps)
  have lane: "qp_lane p = lane" using assms(1) packet(2) by (auto simp: accounting_def lane_counts_def)
  note best = nextLane_Some(2) [OF packet(1)]
  have "waiting s Control \<noteq> [] \<longrightarrow> lane = Control"
    using best [of Control] lanes_ok_PROFILES [of i] assms(2) by (cases lane) (auto simp: lanes_ok_def)
  moreover have "lane = File \<longrightarrow> waiting s l = []" if "l \<in> {Control, Voice, Text}" for l
    using best [of l] lanes_ok_PROFILES [of i] assms(2) that
    by (cases "waiting s l = []") (auto simp: lanes_ok_def)
  ultimately show ?thesis using packet lane by simp
qed

theorem next_respects_priority_witness:
  "let s = pushLane \<lparr>qp_lane = Control, qp_bytes = [7]\<rparr>
             (pushLane \<lparr>qp_lane = File, qp_bytes = [1]\<rparr> (newScheduler (PROFILES VoiceFirst)))
   in accounting s \<and> sch_profile s = PROFILES VoiceFirst \<and>
      snd (sch_next s) = Some \<lparr>qp_lane = Control, qp_bytes = [7]\<rparr>"
proof -
  let ?s = "pushLane \<lparr>qp_lane = Control, qp_bytes = [7]\<rparr>
             (pushLane \<lparr>qp_lane = File, qp_bytes = [1]\<rparr> (newScheduler (PROFILES VoiceFirst)))"
  have acc: "accounting ?s" by (intro accounting_push accounting_new)
  have pr: "sch_profile ?s = PROFILES VoiceFirst" by (simp add: newScheduler_def)
  have "waiting ?s Control = [\<lparr>qp_lane = Control, qp_bytes = [7]\<rparr>]"
    by (simp add: waiting_push newScheduler_def emptyLane_def)
  with next_respects_priority [OF acc pr] acc pr show ?thesis
    by (auto simp: Let_def split: option.splits)
qed

text \<open>
  Latest wins for voice: on every canonical profile, a voice frame that is not larger
  than a frame may be is accepted whenever the other lanes leave it room in the outbox,
  however full the voice lane is, and it is then the newest packet of the voice lane;
  only the oldest voice frames are given up for it.
\<close>

theorem voice_lane_latest_wins:
  assumes "accounting s" and "sch_profile s = PROFILES i" and "qp_lane p = Voice"
    and "length (qp_bytes p) \<le> maxFrameBytes (PROFILES i)"
    and "others_leave_room s Voice (byteLength (qp_bytes p))"
  shows "\<exists>s' n. enqueue p s = (s', \<lparr>er_ok = True, er_dropped = n, er_reason = None\<rparr>) \<and>
           waiting s' Voice = drop n (waiting s Voice) @ [p]"
proof -
  have "dropPolicy (lanes (PROFILES i) Voice) = DropOldest" "0 < maxPackets (lanes (PROFILES i) Voice)"
    "length (qp_bytes p) \<le> maxBytes (lanes (PROFILES i) Voice)"
    using lanes_ok_PROFILES [of i] assms(4) by (auto simp: lanes_ok_def)
  then obtain s1 n where "makeRoom p 0 s = (s1, Inr n)"
    using makeRoom_drop_oldest_ok [of s p 0] assms by auto
  then have e: "enqueue p s = (pushLane p s1, \<lparr>er_ok = True, er_dropped = n, er_reason = None\<rparr>)"
    using assms(2,4) by (simp add: enqueue_def)
  with enqueue_waiting(1) [OF e] assms(3) show ?thesis by auto
qed

theorem voice_lane_latest_wins_witness:
  "let f = \<lparr>qp_lane = Voice, qp_bytes = [5]\<rparr>; p = \<lparr>qp_lane = Voice, qp_bytes = [9]\<rparr>;
       s = fold pushLane ([f, f, f, f, f, f, f, f]) (newScheduler (PROFILES LowData))
   in length (waiting s Voice) = maxPackets (lanes (PROFILES LowData) Voice) \<and>
      (\<exists>s' n. enqueue p s = (s', \<lparr>er_ok = True, er_dropped = n, er_reason = None\<rparr>) \<and>
         waiting s' Voice = drop n ([f, f, f, f, f, f, f, f]) @ [p])"
proof -
  define f where "f = \<lparr>qp_lane = Voice, qp_bytes = [5 :: byte]\<rparr>"
  define s where "s = fold pushLane ([f, f, f, f, f, f, f, f]) (newScheduler (PROFILES LowData))"
  have s: "accounting s" "sch_profile s = PROFILES LowData" "waiting s Voice = [f, f, f, f, f, f, f, f]"
    by (simp_all add: s_def f_def accounting_push accounting_new waiting_push)
      (simp_all add: newScheduler_def emptyLane_def)
  moreover have "others_leave_room s Voice (byteLength [9 :: byte])"
    by (simp add: others_leave_room_def s_def f_def sched_eval)
  ultimately have "\<exists>s' n. enqueue \<lparr>qp_lane = Voice, qp_bytes = [9]\<rparr> s =
      (s', \<lparr>er_ok = True, er_dropped = n, er_reason = None\<rparr>) \<and>
      waiting s' Voice = drop n ([f, f, f, f, f, f, f, f]) @ [\<lparr>qp_lane = Voice, qp_bytes = [9]\<rparr>]"
    using voice_lane_latest_wins [of s LowData "\<lparr>qp_lane = Voice, qp_bytes = [9]\<rparr>"]
    by (simp add: profile_defs)
  moreover have "length (waiting s Voice) = maxPackets (lanes (PROFILES LowData) Voice)"
    by (simp add: s profile_defs cloneLaneBudgets_def no_override_def)
  ultimately show ?thesis
    unfolding Let_def f_def [symmetric] s_def [symmetric] by blast
qed

end
