(* ===== verification/Envelope.thy ===== *)
theory Envelope
  imports Profiles
begin

text \<open>
  The binary frame (\<^verbatim>\<open>client/src/protocol/envelope.ts\<close>) and the relay control frame
  (\<^verbatim>\<open>client/src/protocol/relayControl.ts\<close>). Header fields are JavaScript numbers and a
  bigint, hence \<open>int\<close>; storing them in a \<^verbatim>\<open>DataView\<close> reduces them modulo the field
  width, which is written out. The theorems: a packed frame unpacks to the envelope that
  was packed, an accepted frame is the packing of what it unpacks to, the AEAD associated
  data is the first 34 bytes of the frame, and a relay control frame is never an envelope.
\<close>

section \<open>Constants and types\<close>

abbreviation MAGIC_A :: byte where "MAGIC_A \<equiv> 0x4f"
abbreviation MAGIC_B :: byte where "MAGIC_B \<equiv> 0x54"
abbreviation HEADER_BYTES :: nat where "HEADER_BYTES \<equiv> 38"
abbreviation AAD_BYTES :: nat where "AAD_BYTES \<equiv> 34"
abbreviation NONCE_BYTES :: nat where "NONCE_BYTES \<equiv> 12"

text \<open>The numeric enum \<^verbatim>\<open>OuterType\<close>.\<close>

abbreviation HANDSHAKE :: int where "HANDSHAKE \<equiv> 1"
abbreviation DATA :: int where "DATA \<equiv> 2"

record AadContext =
  ctx_protocolVersion :: int
  outerType :: int
  flags :: int
  streamId :: int
  sequence :: int

record Envelope = AadContext +
  counter :: int
  nonce :: bytes
  payload :: bytes
  env_lane :: LaneName

text \<open>\<^verbatim>\<open>setUint8\<close>, \<^verbatim>\<open>setUint32(\<dots>, x >>> 0)\<close> and \<^verbatim>\<open>setBigUint64\<close>: \<open>x\<close> modulo the width.\<close>

definition field :: "nat \<Rightarrow> int \<Rightarrow> bytes" where
  "field n x = be_bytes n (nat (x mod 256 ^ n))"

lemma length_field [simp]: "length (field n x) = n"
  by (simp add: field_def)

section \<open>Operations\<close>

definition createAadContext :: "('a AadContext_scheme) \<Rightarrow> TransportProfile \<Rightarrow> AadContext" where
  "createAadContext env p =
     \<lparr>ctx_protocolVersion = int (protocolVersion p), outerType = outerType env,
      flags = flags env, streamId = streamId env, sequence = sequence env\<rparr>"

definition encodeAad :: "AadContext \<Rightarrow> int \<Rightarrow> bytes \<Rightarrow> bytes res" where
  "encodeAad context ctr n =
     (if length n \<noteq> NONCE_BYTES then throw ''Invalid nonce length''
      else Inr
       ([MAGIC_A, MAGIC_B] @ field 1 (ctx_protocolVersion context) @ field 1 (outerType context) @
        field 1 (flags context mod 256) @ field 1 (int HEADER_BYTES) @
        field 4 (streamId context) @ field 4 (sequence context) @ field 8 ctr @ n))"

definition packEnvelope :: "Envelope \<Rightarrow> TransportProfile \<Rightarrow> bytes res" where
  "packEnvelope env p =
     (if length (nonce env) \<noteq> NONCE_BYTES then throw ''Invalid nonce length''
      else if ctx_protocolVersion env \<noteq> int (protocolVersion p) then throw ''Protocol/profile mismatch''
      else if outerType env \<noteq> HANDSHAKE \<and> outerType env \<noteq> DATA then throw ''Invalid envelope type''
      else
        let total = HEADER_BYTES + length (payload env) in
        if total > maxFrameBytes p then
          throw (''Frame too large: '' @ js_show_nat total @ '' > '' @ js_show_nat (maxFrameBytes p))
        else Inr
          ([MAGIC_A, MAGIC_B] @ field 1 (int (protocolVersion p)) @ field 1 (outerType env) @
           field 1 (flags env mod 256) @ field 1 (int HEADER_BYTES) @
           field 4 (streamId env) @ field 4 (sequence env) @ field 8 (counter env) @ nonce env @
           field 4 (int (length (payload env))) @ payload env))"

text \<open>\<^verbatim>\<open>getUint8/32\<close> and \<^verbatim>\<open>getBigUint64\<close> at an offset inside the buffer.\<close>

definition getUint :: "nat \<Rightarrow> nat \<Rightarrow> bytes \<Rightarrow> int" where
  "getUint n i bs = int (be_value (subbytes i n bs))"

definition unpackEnvelope :: "bytes \<Rightarrow> TransportProfile \<Rightarrow> Envelope res" where
  "unpackEnvelope bs p =
     (if length bs < HEADER_BYTES then throw ''Frame too small''
      else if length bs > maxFrameBytes p then throw ''Frame too large''
      else if bs ! 0 \<noteq> MAGIC_A \<or> bs ! 1 \<noteq> MAGIC_B then throw ''Invalid frame magic''
      else if getUint 1 2 bs \<noteq> int (protocolVersion p) then
        throw (''Unsupported protocol version: '' @ js_show_nat (nat (getUint 1 2 bs)))
      else if getUint 1 3 bs \<noteq> HANDSHAKE \<and> getUint 1 3 bs \<noteq> DATA then throw ''Unknown frame type''
      else if getUint 1 4 bs \<noteq> 0 then throw ''Reserved frame flags set''
      else if getUint 1 5 bs \<noteq> int HEADER_BYTES then throw ''Invalid frame header length''
      else if getUint 4 34 bs + int HEADER_BYTES \<noteq> int (length bs) then
        throw ''Invalid frame payload length''
      else Inr
        \<lparr>ctx_protocolVersion = getUint 1 2 bs, outerType = getUint 1 3 bs, flags = getUint 1 4 bs,
         streamId = getUint 4 6 bs, sequence = getUint 4 10 bs, counter = getUint 8 14 bs,
         nonce = subbytes 22 12 bs, payload = drop HEADER_BYTES bs,
         env_lane = (if getUint 1 3 bs = HANDSHAKE then Control else Text)\<rparr>)"

section \<open>Packing then unpacking\<close>

text \<open>The envelopes the client builds: reserved flags clear, fields in their ranges.\<close>

definition wire_lane :: "int \<Rightarrow> LaneName" where
  "wire_lane ot = (if ot = HANDSHAKE then Control else Text)"

definition valid_env :: "TransportProfile \<Rightarrow> Envelope \<Rightarrow> bool" where
  "valid_env p env =
     (length (nonce env) = NONCE_BYTES \<and> ctx_protocolVersion env = int (protocolVersion p) \<and>
      protocolVersion p < 256 \<and> outerType env \<in> {HANDSHAKE, DATA} \<and> flags env = 0 \<and>
      streamId env \<in> {0..<2^32} \<and> sequence env \<in> {0..<2^32} \<and> counter env \<in> {0..<2^64} \<and>
      HEADER_BYTES + length (payload env) \<le> maxFrameBytes p \<and> maxFrameBytes p < 2^32)"

lemma getUint_field:
  assumes "0 \<le> x" and "x < 256 ^ n" and "length pre = i"
  shows "getUint n i (pre @ field n x @ post) = x"
proof -
  have "nat x < 256 ^ n" using assms(1,2) by (simp add: nat_less_iff)
  then have "be_value (be_bytes n (nat x)) = nat x" by simp
  with assms show ?thesis by (simp add: getUint_def subbytes_def field_def)
qed

lemma unpack_pack:
  assumes v: "valid_env p env" and pk: "packEnvelope env p = Inr bs"
  shows "unpackEnvelope bs p = Inr (env\<lparr>env_lane := wire_lane (outerType env)\<rparr>)"
proof -
  let ?m = "[MAGIC_A, MAGIC_B]"
  let ?v = "field 1 (int (protocolVersion p))"
  let ?t = "field 1 (outerType env)"
  let ?f = "field 1 (flags env mod 256)"
  let ?h = "field 1 (int HEADER_BYTES)"
  let ?st = "field 4 (streamId env)"
  let ?sq = "field 4 (sequence env)"
  let ?c = "field 8 (counter env)"
  let ?n = "nonce env"
  let ?l = "field 4 (int (length (payload env)))"
  have bs: "bs = ?m @ ?v @ ?t @ ?f @ ?h @ ?st @ ?sq @ ?c @ ?n @ ?l @ payload env"
    using pk by (simp add: packEnvelope_def Let_def split: if_splits)
  note vd = v [unfolded valid_env_def]
  have "getUint 1 2 bs = int (protocolVersion p)"
    unfolding bs using getUint_field [of _ 1 ?m 2] vd by simp
  moreover have "getUint 1 3 bs = outerType env"
    unfolding bs using getUint_field [of _ 1 "?m @ ?v" 3] vd by auto
  moreover have "getUint 1 4 bs = 0"
    unfolding bs using getUint_field [of _ 1 "?m @ ?v @ ?t" 4] vd by simp
  moreover have "getUint 1 5 bs = int HEADER_BYTES"
    unfolding bs using getUint_field [of _ 1 "?m @ ?v @ ?t @ ?f" 5] by simp
  moreover have "getUint 4 6 bs = streamId env"
    unfolding bs using getUint_field [of _ 4 "?m @ ?v @ ?t @ ?f @ ?h" 6] vd by simp
  moreover have "getUint 4 10 bs = sequence env"
    unfolding bs using getUint_field [of _ 4 "?m @ ?v @ ?t @ ?f @ ?h @ ?st" 10] vd by simp
  moreover have "getUint 8 14 bs = counter env"
    unfolding bs using getUint_field [of _ 8 "?m @ ?v @ ?t @ ?f @ ?h @ ?st @ ?sq" 14] vd by simp
  moreover have "getUint 4 34 bs = int (length (payload env))"
    unfolding bs using getUint_field [of _ 4 "?m @ ?v @ ?t @ ?f @ ?h @ ?st @ ?sq @ ?c @ ?n" 34] vd
    by simp
  moreover have "subbytes 22 12 bs = ?n" "drop HEADER_BYTES bs = payload env"
    "length bs = HEADER_BYTES + length (payload env)" "bs ! 0 = MAGIC_A" "bs ! 1 = MAGIC_B"
    unfolding bs using vd by (simp_all add: subbytes_def)
  ultimately show ?thesis
    using vd by (simp add: unpackEnvelope_def wire_lane_def)
qed

lemma pack_ok: "valid_env p env \<Longrightarrow> \<exists>bs. packEnvelope env p = Inr bs"
  by (auto simp: valid_env_def packEnvelope_def)

text \<open>
  The frame codec of a profile, on envelopes whose lane is the one the receiver assigns
  (the lane is local to each side and is not transmitted).
\<close>

definition packedFrame :: "TransportProfile \<Rightarrow> Envelope \<Rightarrow> bytes" where
  "packedFrame p env = projr (packEnvelope env p)"

interpretation frame: codec "packedFrame p" "\<lambda>bs. unpackEnvelope bs p"
  "\<lambda>env. valid_env p env \<and> env_lane env = wire_lane (outerType env)" for p
proof
  fix env assume a: "valid_env p env \<and> env_lane env = wire_lane (outerType env)"
  then obtain bs where "packEnvelope env p = Inr bs" using pack_ok by blast
  with a unpack_pack [of p env bs] show "unpackEnvelope (packedFrame p env) p = Inr env"
    by (simp add: packedFrame_def)
qed

section \<open>Unpacking then packing\<close>

lemma field_getUint:
  assumes "i + n \<le> length bs"
  shows "field n (getUint n i bs) = subbytes i n bs"
proof -
  have l: "length (subbytes i n bs) = n" using assms by simp
  then have b: "be_value (subbytes i n bs) < 256 ^ n" using be_value_bound [of "subbytes i n bs"] by simp
  then have "nat (int (be_value (subbytes i n bs)) mod 256 ^ n) = be_value (subbytes i n bs)"
    by (simp add: nat_mod_distrib nat_power_eq)
  then show ?thesis
    using be_bytes_be_value [of "subbytes i n bs"] l by (simp add: field_def getUint_def)
qed

lemma subbytes_split: "i + n \<le> length bs \<Longrightarrow> subbytes i n bs @ drop (i + n) bs = drop i bs"
  by (simp add: subbytes_def) (metis add.commute append_take_drop_id drop_drop)

lemma header_split:
  assumes "HEADER_BYTES \<le> length bs"
  shows "[bs ! 0, bs ! 1] @ subbytes 2 1 bs @ subbytes 3 1 bs @ subbytes 4 1 bs @ subbytes 5 1 bs @
         subbytes 6 4 bs @ subbytes 10 4 bs @ subbytes 14 8 bs @ subbytes 22 12 bs @
         subbytes 34 4 bs @ drop HEADER_BYTES bs = bs"
proof -
  have "subbytes 34 4 bs @ drop 38 bs = drop 34 bs" using assms subbytes_split [of 34 4 bs] by simp
  moreover have "subbytes 22 12 bs @ drop 34 bs = drop 22 bs" using assms subbytes_split [of 22 12 bs] by simp
  moreover have "subbytes 14 8 bs @ drop 22 bs = drop 14 bs" using assms subbytes_split [of 14 8 bs] by simp
  moreover have "subbytes 10 4 bs @ drop 14 bs = drop 10 bs" using assms subbytes_split [of 10 4 bs] by simp
  moreover have "subbytes 6 4 bs @ drop 10 bs = drop 6 bs" using assms subbytes_split [of 6 4 bs] by simp
  moreover have "subbytes 5 1 bs @ drop 6 bs = drop 5 bs" using assms subbytes_split [of 5 1 bs] by simp
  moreover have "subbytes 4 1 bs @ drop 5 bs = drop 4 bs" using assms subbytes_split [of 4 1 bs] by simp
  moreover have "subbytes 3 1 bs @ drop 4 bs = drop 3 bs" using assms subbytes_split [of 3 1 bs] by simp
  moreover have "subbytes 2 1 bs @ drop 3 bs = drop 2 bs" using assms subbytes_split [of 2 1 bs] by simp
  moreover have "[bs ! 0, bs ! 1] @ drop 2 bs = bs"
    using assms by (cases bs; cases "tl bs") auto
  ultimately show ?thesis by simp
qed

lemma pack_unpack:
  assumes "unpackEnvelope bs p = Inr env"
  shows "packEnvelope env p = Inr bs"
proof -
  have len: "HEADER_BYTES \<le> length bs" "length bs \<le> maxFrameBytes p"
    and magic: "bs ! 0 = MAGIC_A" "bs ! 1 = MAGIC_B"
    and ver: "getUint 1 2 bs = int (protocolVersion p)"
    and ty: "getUint 1 3 bs = HANDSHAKE \<or> getUint 1 3 bs = DATA"
    and fl: "getUint 1 4 bs = 0" and hl: "getUint 1 5 bs = int HEADER_BYTES"
    and pl: "getUint 4 34 bs = int (length bs - HEADER_BYTES)"
    and env: "env = \<lparr>ctx_protocolVersion = getUint 1 2 bs, outerType = getUint 1 3 bs,
         flags = getUint 1 4 bs, streamId = getUint 4 6 bs, sequence = getUint 4 10 bs,
         counter = getUint 8 14 bs, nonce = subbytes 22 12 bs, payload = drop HEADER_BYTES bs,
         env_lane = (if getUint 1 3 bs = HANDSHAKE then Control else Text)\<rparr>"
    using assms by (auto simp: unpackEnvelope_def split: if_splits)
  have "packEnvelope env p = Inr
      ([bs ! 0, bs ! 1] @ field 1 (getUint 1 2 bs) @ field 1 (getUint 1 3 bs) @
       field 1 (getUint 1 4 bs) @ field 1 (getUint 1 5 bs) @ field 4 (getUint 4 6 bs) @
       field 4 (getUint 4 10 bs) @ field 8 (getUint 8 14 bs) @ subbytes 22 12 bs @
       field 4 (getUint 4 34 bs) @ drop HEADER_BYTES bs)"
    using len magic ver ty fl hl pl by (auto simp: env packEnvelope_def)
  also have "\<dots> = Inr bs"
    using len header_split [OF len(1)] by (simp add: field_getUint)
  finally show ?thesis .
qed

section \<open>Associated data\<close>

lemma encodeAad_is_header:
  assumes "packEnvelope env p = Inr bs"
  shows "encodeAad (createAadContext env p) (counter env) (nonce env) = Inr (take AAD_BYTES bs)"
  using assms by (auto simp: packEnvelope_def encodeAad_def createAadContext_def Let_def split: if_splits)

section \<open>Relay control frames\<close>

abbreviation RELAY_MAGIC_B :: byte where "RELAY_MAGIC_B \<equiv> 0x52"
abbreviation RELAY_VERSION :: byte where "RELAY_VERSION \<equiv> 1"
abbreviation FRAME_BYTES :: nat where "FRAME_BYTES \<equiv> 4"

datatype RelayControlType =
  PEER_PRESENT | PEER_DISCONNECTED | PEER_REJOINED | SESSION_END | SESSION_ENDED

fun relayTypeByte :: "RelayControlType \<Rightarrow> byte" where
  "relayTypeByte PEER_PRESENT = 1"
| "relayTypeByte PEER_DISCONNECTED = 2"
| "relayTypeByte PEER_REJOINED = 3"
| "relayTypeByte SESSION_END = 4"
| "relayTypeByte SESSION_ENDED = 5"

datatype RelayEvent = PeerPresent | PeerDisconnected | PeerRejoined | SessionEnded

definition relay_encode :: "RelayControlType \<Rightarrow> bytes" where
  "relay_encode t = [MAGIC_A, RELAY_MAGIC_B, RELAY_VERSION, relayTypeByte t]"

definition encodeSessionEndCommand :: bytes where
  "encodeSessionEndCommand = relay_encode SESSION_END"

text \<open>
  \<^verbatim>\<open>decodeType\<close> checks \<^verbatim>\<open>type < PEER_PRESENT || type > SESSION_ENDED\<close> on the byte; the byte
  then names one of the five constructors.
\<close>

definition decodeType :: "bytes \<Rightarrow> RelayControlType option" where
  "decodeType bs =
     (if length bs \<noteq> FRAME_BYTES then None
      else if bs ! 0 \<noteq> MAGIC_A \<or> bs ! 1 \<noteq> RELAY_MAGIC_B \<or> bs ! 2 \<noteq> RELAY_VERSION then None
      else let t = unat (bs ! 3) in
        if t < 1 \<or> t > 5 then None
        else Some ([PEER_PRESENT, PEER_DISCONNECTED, PEER_REJOINED, SESSION_END, SESSION_ENDED] ! (t - 1)))"

definition decodeRelayEvent :: "bytes \<Rightarrow> RelayEvent option" where
  "decodeRelayEvent bs =
     (case decodeType bs of
        Some PEER_PRESENT \<Rightarrow> Some PeerPresent
      | Some PEER_DISCONNECTED \<Rightarrow> Some PeerDisconnected
      | Some PEER_REJOINED \<Rightarrow> Some PeerRejoined
      | Some SESSION_ENDED \<Rightarrow> Some SessionEnded
      | Some SESSION_END \<Rightarrow> None
      | None \<Rightarrow> None)"

definition isRelayControlFrame :: "bytes \<Rightarrow> bool" where
  "isRelayControlFrame bs = (decodeType bs \<noteq> None)"

lemma decodeType_encode [simp]: "decodeType (relay_encode t) = Some t"
  by (cases t) (simp_all add: decodeType_def relay_encode_def)

lemma isRelayControlFrame_length: "isRelayControlFrame bs \<Longrightarrow> length bs = FRAME_BYTES"
  by (auto simp: isRelayControlFrame_def decodeType_def split: if_splits)

section \<open>Properties\<close>

text \<open>
  C15. Frame round trip: every envelope with a 12-byte nonce, the profile's protocol version,
  a known type, clear flags, in-range stream, sequence and counter, and a payload that fits
  the frame limit is packed, and the receiver unpacks the frame to that envelope with
  the lane the receiver assigns (control for a handshake, text otherwise).
\<close>

theorem envelope_roundtrip:
  assumes "valid_env p env"
  shows "\<exists>bs. packEnvelope env p = Inr bs \<and> length bs = HEADER_BYTES + length (payload env) \<and>
           unpackEnvelope bs p = Inr (env\<lparr>env_lane := wire_lane (outerType env)\<rparr>)"
proof -
  obtain bs where bs: "packEnvelope env p = Inr bs" using pack_ok [OF assms] by blast
  moreover have "length bs = HEADER_BYTES + length (payload env)"
    using bs by (auto simp: packEnvelope_def Let_def split: if_splits)
  ultimately show ?thesis using unpack_pack [OF assms] by blast
qed

definition sample_env :: Envelope where
  "sample_env = \<lparr>ctx_protocolVersion = 2, outerType = DATA, flags = 0, streamId = 3, sequence = 70000,
     counter = 18446744073709551615, nonce = replicate 12 7, payload = [1, 2, 3], env_lane = File\<rparr>"

theorem envelope_roundtrip_witness:
  "\<exists>bs. packEnvelope sample_env (PROFILES Balanced) = Inr bs \<and> length bs = 41 \<and>
        unpackEnvelope bs (PROFILES Balanced) = Inr (sample_env\<lparr>env_lane := Text\<rparr>)"
proof -
  have "valid_env (PROFILES Balanced) sample_env"
    by (simp add: valid_env_def sample_env_def profile_defs)
  from envelope_roundtrip [OF this] show ?thesis
    by (auto simp: sample_env_def wire_lane_def)
qed

text \<open>
  No malleable frames: a frame the receiver accepts is, byte for byte, the packing of
  the envelope it unpacks to; so two different byte strings never unpack to the same envelope.
\<close>

theorem accepted_frames_are_canonical:
  assumes "unpackEnvelope bs p = Inr env"
  shows "packEnvelope env p = Inr bs \<and> (\<forall>bs'. unpackEnvelope bs' p = Inr env \<longrightarrow> bs' = bs)"
  using pack_unpack [OF assms] by (auto dest: pack_unpack)

theorem accepted_frames_are_canonical_witness:
  "packEnvelope (sample_env\<lparr>env_lane := Text\<rparr>) (PROFILES Balanced) =
     Inr (packedFrame (PROFILES Balanced) sample_env)"
proof -
  have "valid_env (PROFILES Balanced) sample_env"
    by (simp add: valid_env_def sample_env_def profile_defs)
  then have "unpackEnvelope (packedFrame (PROFILES Balanced) sample_env) (PROFILES Balanced) =
      Inr (sample_env\<lparr>env_lane := Text\<rparr>)"
    using unpack_pack [of "PROFILES Balanced" sample_env] pack_ok [of "PROFILES Balanced" sample_env]
    by (auto simp: packedFrame_def sample_env_def wire_lane_def)
  from accepted_frames_are_canonical [OF this] show ?thesis by blast
qed

text \<open>
  The associated data is the frame header: what the crypto worker authenticates is
  exactly the first 34 bytes of the frame on the wire (everything before the payload
  length), so every header field through the nonce is covered by the AEAD tag.
\<close>

theorem aad_is_frame_prefix:
  assumes "packEnvelope env p = Inr bs"
  shows "encodeAad (createAadContext env p) (counter env) (nonce env) = Inr (take AAD_BYTES bs) \<and>
         length (take AAD_BYTES bs) = AAD_BYTES"
  using encodeAad_is_header [OF assms] assms
  by (auto simp: packEnvelope_def Let_def split: if_splits)

theorem aad_is_frame_prefix_witness:
  "encodeAad (createAadContext sample_env (PROFILES Balanced)) (counter sample_env) (nonce sample_env) =
     Inr (take AAD_BYTES (packedFrame (PROFILES Balanced) sample_env))"
proof -
  have "packEnvelope sample_env (PROFILES Balanced) = Inr (packedFrame (PROFILES Balanced) sample_env)"
    by (simp add: packedFrame_def packEnvelope_def sample_env_def profile_defs)
  from aad_is_frame_prefix [OF this] show ?thesis by blast
qed

text \<open>
  Relay control and envelopes never collide: each relay control type decodes back to
  itself, the client reacts to every type the relay sends and ignores an echoed end
  command, and no byte string is both a relay control frame and an acceptable envelope.
\<close>

theorem relay_control_separation:
  "decodeType (relay_encode t) = Some t \<and>
   (decodeRelayEvent (relay_encode t) = None \<longleftrightarrow> t = SESSION_END) \<and>
   decodeRelayEvent encodeSessionEndCommand = None \<and>
   (isRelayControlFrame bs \<longrightarrow> unpackEnvelope bs p = throw ''Frame too small'')"
  using isRelayControlFrame_length [of bs]
  by (cases t) (auto simp: decodeRelayEvent_def encodeSessionEndCommand_def unpackEnvelope_def)

theorem relay_control_separation_witness:
  "isRelayControlFrame [0x4f, 0x52, 1, 5] \<and>
   unpackEnvelope [0x4f, 0x52, 1, 5] (PROFILES Balanced) = throw ''Frame too small''"
proof -
  have "isRelayControlFrame [0x4f, 0x52, 1, 5]" by (simp add: isRelayControlFrame_def decodeType_def)
  with relay_control_separation [of SESSION_ENDED "[0x4f, 0x52, 1, 5]" "PROFILES Balanced"]
  show ?thesis by blast
qed

end
