(* ===== verification/Bytes.thy ===== *)
theory Bytes
  imports Prelude
begin

text \<open>
  Byte helpers (\<^verbatim>\<open>client/src/utils/bytes.ts\<close>): UTF-8 encoding, hexadecimal and base64url.
  A JavaScript string is a \<open>string\<close> here: code units up to 255 (Latin-1); every protocol
  keyword, identifier, key and encoding of the program is ASCII. \<^verbatim>\<open>btoa\<close> and
  \<^verbatim>\<open>atob\<close> are modelled after the HTML standard's forgiving-base64 algorithms.
\<close>

section \<open>UTF-8 and hexadecimal\<close>

definition utf8Char :: "char \<Rightarrow> bytes" where
  "utf8Char c =
     (let n = of_char c :: nat in
      if n < 128 then [of_nat n] else [of_nat (192 + n div 64), of_nat (128 + n mod 64)])"

definition utf8Encode :: "string \<Rightarrow> bytes" where
  "utf8Encode s = concat (map utf8Char s)"

definition concatBytes :: "bytes list \<Rightarrow> bytes" where
  "concatBytes parts = concat parts"

definition hexDigit :: "nat \<Rightarrow> char" where
  "hexDigit n = ''0123456789abcdef'' ! n"

definition bytesToHex :: "bytes \<Rightarrow> string" where
  "bytesToHex bs = concat (map (\<lambda>b. [hexDigit (unat b div 16), hexDigit (unat b mod 16)]) bs)"

section \<open>Sizes for people\<close>

text \<open>
  \<^verbatim>\<open>toFixed\<close> on a non-negative number: the nearest decimal, the larger one of two, with exactly
  \<open>p\<close> digits after the point.
\<close>

definition toFixed :: "nat \<Rightarrow> rat \<Rightarrow> string" where
  "toFixed p x =
     (let n = nat \<lfloor>x * 10 ^ p + 1 / 2\<rfloor>; frac = js_show_nat (n mod 10 ^ p) in
      if p = 0 then js_show_nat n
      else js_show_nat (n div 10 ^ p) @ ''.'' @ replicate (p - length frac) (CHR ''0'') @ frac)"

fun scaleUnit :: "nat \<Rightarrow> nat \<Rightarrow> rat \<Rightarrow> nat \<times> rat" where
  "scaleUnit 0 unit value = (unit, value)"
| "scaleUnit (Suc left) unit value =
     (if value \<ge> 1024 then scaleUnit left (unit + 1) (value / 1024) else (unit, value))"

definition formatBytes :: "rat \<Rightarrow> string" where
  "formatBytes bytes =
     (if bytes < 0 then ''0 B''
      else
        let (unit, value) = scaleUnit 3 0 bytes;
            precision = (if unit = 0 then 0 else if value \<ge> 10 then 1 else 2)
        in toFixed precision value @ '' '' @ [''B'', ''KB'', ''MB'', ''GB''] ! unit)"

section \<open>Base64\<close>

definition b64chars :: string where
  "b64chars = ''ABCDEFGHIJKLMNOPQRSTUVWXYZabcdefghijklmnopqrstuvwxyz0123456789+/''"

definition b64char :: "nat \<Rightarrow> char" where
  "b64char v = b64chars ! v"

fun indexOf :: "'a \<Rightarrow> 'a list \<Rightarrow> nat option" where
  "indexOf x [] = None"
| "indexOf x (y # ys) = (if x = y then Some 0 else map_option Suc (indexOf x ys))"

definition b64value :: "char \<Rightarrow> nat option" where
  "b64value c = indexOf c b64chars"

text \<open>The 6-bit groups of a byte string, the last one filled with zero bits.\<close>

fun sextets :: "bytes \<Rightarrow> nat list" where
  "sextets [] = []"
| "sextets [a] = [unat a div 4, unat a mod 4 * 16]"
| "sextets [a, b] = [unat a div 4, unat a mod 4 * 16 + unat b div 16, unat b mod 16 * 4]"
| "sextets (a # b # c # bs) =
     unat a div 4 # (unat a mod 4 * 16 + unat b div 16) # (unat b mod 16 * 4 + unat c div 64) #
     unat c mod 64 # sextets bs"

fun unsextets :: "nat list \<Rightarrow> bytes" where
  "unsextets (p # q # r # s # vs) =
     of_nat (p * 4 + q div 16) # of_nat (q mod 16 * 16 + r div 4) # of_nat (r mod 4 * 64 + s) #
     unsextets vs"
| "unsextets [p, q, r] = [of_nat (p * 4 + q div 16), of_nat (q mod 16 * 16 + r div 4)]"
| "unsextets [p, q] = [of_nat (p * 4 + q div 16)]"
| "unsextets _ = []"

definition btoa :: "bytes \<Rightarrow> string" where
  "btoa bs = map b64char (sextets bs) @ replicate ((3 - length bs mod 3) mod 3) CHR ''=''"

definition is_ascii_whitespace :: "char \<Rightarrow> bool" where
  "is_ascii_whitespace c = ((of_char c :: nat) \<in> {9, 10, 12, 13, 32})"

text \<open>Remove one trailing \<^verbatim>\<open>=\<close>, if there is one.\<close>

definition chopEq :: "string \<Rightarrow> string" where
  "chopEq s = (if s \<noteq> [] \<and> last s = CHR ''='' then butlast s else s)"

definition atob :: "string \<Rightarrow> bytes res" where
  "atob s =
     (let s1 = filter (\<lambda>c. \<not> is_ascii_whitespace c) s;
          s2 = (if length s1 mod 4 = 0 then chopEq (chopEq s1) else s1) in
      if length s2 mod 4 = 1 \<or> (\<exists>c \<in> set s2. b64value c = None) then throw ''InvalidCharacterError''
      else Inr (unsextets (map (the \<circ> b64value) s2)))"

definition toUrlChar :: "char \<Rightarrow> char" where
  "toUrlChar c = (if c = CHR ''+'' then CHR ''-'' else if c = CHR ''/'' then CHR ''_'' else c)"

definition fromUrlChar :: "char \<Rightarrow> char" where
  "fromUrlChar c = (if c = CHR ''-'' then CHR ''+'' else if c = CHR ''_'' then CHR ''/'' else c)"

definition stripTrailingEq :: "string \<Rightarrow> string" where
  "stripTrailingEq s = rev (dropWhile (\<lambda>c. c = CHR ''='') (rev s))"

definition bytesToBase64Url :: "bytes \<Rightarrow> string" where
  "bytesToBase64Url bs = stripTrailingEq (map toUrlChar (btoa bs))"

definition padEnd4 :: "string \<Rightarrow> string" where
  "padEnd4 s = s @ replicate ((length s + 3) div 4 * 4 - length s) CHR ''=''"

definition base64UrlToBytes :: "string \<Rightarrow> bytes res" where
  "base64UrlToBytes s = atob (padEnd4 (map fromUrlChar s))"

section \<open>Round trip\<close>

lemma sextets_bound: "v \<in> set (sextets bs) \<Longrightarrow> v < 64"
proof (induction bs rule: sextets.induct)
  case (2 a)
  then show ?case using unat_byte_less [of a] by auto
next
  case (3 a b)
  then show ?case using unat_byte_less [of a] unat_byte_less [of b] by auto
next
  case (4 a b c bs)
  then show ?case using unat_byte_less [of a] unat_byte_less [of b] unat_byte_less [of c] by auto
qed simp

lemma unsextets_sextets: "unsextets (sextets bs) = bs"
proof (induction bs rule: sextets.induct)
  case (2 a)
  then show ?case using unat_byte_less [of a] by simp
next
  case (3 a b)
  then show ?case using unat_byte_less [of a] unat_byte_less [of b] by simp
next
  case (4 a b c bs)
  then show ?case using unat_byte_less [of a] unat_byte_less [of b] unat_byte_less [of c] by simp
qed simp

lemma length_sextets:
  "length (sextets bs) mod 4 = (case length bs mod 3 of 0 \<Rightarrow> 0 | Suc 0 \<Rightarrow> 2 | _ \<Rightarrow> 3)"
  by (induction bs rule: sextets.induct) (auto split: nat.splits)

lemma b64_table: "\<forall>v < 64. b64value (b64char v) = Some v \<and> b64char v \<noteq> CHR ''='' \<and>
    \<not> is_ascii_whitespace (b64char v) \<and> fromUrlChar (toUrlChar (b64char v)) = b64char v \<and>
    toUrlChar (b64char v) \<noteq> CHR ''=''"
  by code_simp

lemma stripTrailingEq_append:
  assumes "\<forall>c \<in> set s. c \<noteq> CHR ''=''"
  shows "stripTrailingEq (s @ replicate n CHR ''='') = s"
proof -
  have "dropWhile (\<lambda>c. c = x) (replicate n x @ xs) = dropWhile (\<lambda>c. c = x) xs" for x :: char and xs
    by (induction n) simp_all
  moreover have "dropWhile (\<lambda>c. c = CHR ''='') (rev s) = rev s"
    using assms by (intro dropWhile_id) simp
  ultimately show ?thesis by (simp add: stripTrailingEq_def)
qed

lemma bytesToBase64Url_sextets: "bytesToBase64Url bs = map (toUrlChar \<circ> b64char) (sextets bs)"
proof -
  have "\<forall>c \<in> set (map (toUrlChar \<circ> b64char) (sextets bs)). c \<noteq> CHR ''=''"
    using b64_table sextets_bound by fastforce
  from stripTrailingEq_append [OF this] show ?thesis
    by (simp add: bytesToBase64Url_def btoa_def toUrlChar_def comp_def)
qed

lemma fromUrl_b64: "map fromUrlChar (bytesToBase64Url bs) = map b64char (sextets bs)"
  using b64_table sextets_bound [of _ bs] by (simp add: bytesToBase64Url_sextets)

text \<open>Padding to a multiple of four is undone by the two \<^verbatim>\<open>=\<close> that \<^verbatim>\<open>atob\<close> removes.\<close>

lemma chopEq_snoc [simp]: "chopEq (s @ [CHR ''='']) = s"
  by (simp add: chopEq_def)

lemma chopEq_padEnd4:
  assumes "length s mod 4 \<noteq> 1" and "\<forall>c \<in> set s. c \<noteq> CHR ''=''"
  shows "chopEq (chopEq (padEnd4 s)) = s"
proof -
  have chop: "chopEq s = s" using assms(2) last_in_set by (auto simp: chopEq_def)
  consider "length s mod 4 = 0" | "length s mod 4 = 2" | "length s mod 4 = 3"
    using assms(1) mod_less_divisor [of 4 "length s"] by linarith
  then show ?thesis
  proof cases
    case 1
    then have "(length s + 3) div 4 * 4 - length s = 0" by presburger
    with chop show ?thesis by (simp add: padEnd4_def)
  next
    case 2
    then have "(length s + 3) div 4 * 4 - length s = 2" by presburger
    then have "padEnd4 s = (s @ [CHR ''='']) @ [CHR ''='']" by (simp add: padEnd4_def numeral_2_eq_2)
    then show ?thesis by (simp only: chopEq_snoc)
  next
    case 3
    then have "(length s + 3) div 4 * 4 - length s = 1" by presburger
    then have "padEnd4 s = s @ [CHR ''='']" by (simp add: padEnd4_def)
    with chop show ?thesis by simp
  qed
qed

lemma length_padEnd4: "length (padEnd4 s) mod 4 = 0"
proof -
  have "length (padEnd4 s) = (length s + 3) div 4 * 4" by (simp add: padEnd4_def)
  then show ?thesis by simp
qed

lemma filter_padEnd4:
  "(\<forall>c \<in> set s. \<not> is_ascii_whitespace c) \<Longrightarrow> filter (\<lambda>c. \<not> is_ascii_whitespace c) (padEnd4 s) = padEnd4 s"
  by (simp add: padEnd4_def is_ascii_whitespace_def)

lemma base64Url_dec_enc: "base64UrlToBytes (bytesToBase64Url bs) = Inr bs"
proof -
  let ?s = "map b64char (sextets bs)"
  have tbl: "b64value (b64char v) = Some v" "b64char v \<noteq> CHR ''=''" "\<not> is_ascii_whitespace (b64char v)"
    if "v \<in> set (sextets bs)" for v
    using b64_table sextets_bound [OF that] by auto
  have mod: "length ?s mod 4 \<noteq> 1"
    by (simp add: length_sextets split: nat.splits)
  have chop: "chopEq (chopEq (padEnd4 ?s)) = ?s"
    using chopEq_padEnd4 [OF mod] tbl(2) by simp
  have filt: "filter (\<lambda>c. \<not> is_ascii_whitespace c) (padEnd4 ?s) = padEnd4 ?s"
    using filter_padEnd4 tbl(3) by simp
  have "base64UrlToBytes (bytesToBase64Url bs) = atob (padEnd4 ?s)"
    by (simp add: base64UrlToBytes_def fromUrl_b64)
  also have "\<dots> = (if length ?s mod 4 = 1 \<or> (\<exists>c \<in> set ?s. b64value c = None)
      then throw ''InvalidCharacterError'' else Inr (unsextets (map (the \<circ> b64value) ?s)))"
    by (simp add: atob_def Let_def filt length_padEnd4 chop)
  also have "\<dots> = Inr bs"
    using mod tbl(1) by (auto simp: unsextets_sextets cong: map_cong)
  finally show ?thesis .
qed

interpretation base64url: codec bytesToBase64Url base64UrlToBytes "\<lambda>_. True"
  by unfold_locales (rule base64Url_dec_enc)

lemma bytesToHex_length [simp]: "length (bytesToHex bs) = 2 * length bs"
  by (induction bs) (simp_all add: bytesToHex_def)

text \<open>
  Base64url round trip: every byte string is decoded back from its unpadded base64url
  text, and distinct byte strings have distinct texts.
\<close>

theorem base64url_roundtrip:
  "base64UrlToBytes (bytesToBase64Url bs) = Inr bs \<and>
   (bytesToBase64Url bs = bytesToBase64Url bs' \<longleftrightarrow> bs = bs')"
  using base64url.dec_enc [of bs] base64url.enc_inj [of bs bs'] by auto

end
