(* ===== verification/Ratchet.thy ===== *)
theory Ratchet
  imports Bytes Envelope
begin

text \<open>
  The crypto worker (\<^verbatim>\<open>client/src/crypto/cryptoWorker.ts\<close>): identity and session keys,
  the symmetric message-key ratchet with skipped keys, padding, and the request handler.
  The browser's WebCrypto primitives are parameters (a record of functions); what the
  theorems need of them is a named hypothesis. Keys are values here, so
  overwriting a key buffer with zeros has no counterpart; random bytes are arguments.
\<close>

section \<open>WebCrypto\<close>

record webcrypto =
  wc_hkdf :: "bytes \<Rightarrow> bytes \<Rightarrow> bytes \<Rightarrow> nat \<Rightarrow> bytes" \<comment> \<open>key material, salt, info, output length\<close>
  wc_sha256 :: "bytes \<Rightarrow> bytes"
  wc_publicKey :: "bytes \<Rightarrow> bytes" \<comment> \<open>raw X25519 public key of a private key\<close>
  wc_x25519 :: "bytes \<Rightarrow> bytes \<Rightarrow> bytes option" \<comment> \<open>private key, peer public key\<close>
  wc_encrypt :: "bytes \<Rightarrow> bytes \<Rightarrow> bytes \<Rightarrow> bytes \<Rightarrow> bytes" \<comment> \<open>key, iv, associated data, plaintext\<close>
  wc_decrypt :: "bytes \<Rightarrow> bytes \<Rightarrow> bytes \<Rightarrow> bytes \<Rightarrow> bytes option" \<comment> \<open>\<open>None\<close>: the tag does not verify\<close>

text \<open>\<^verbatim>\<open>crypto.getRandomValues\<close> on an array of \<open>n\<close> bytes; the source of bytes is an argument.\<close>

definition randomBytes :: "(nat \<Rightarrow> byte) \<Rightarrow> nat \<Rightarrow> bytes" where
  "randomBytes rnd n = map rnd [0..<n]"

lemma length_randomBytes [simp]: "length (randomBytes rnd n) = n"
  by (simp add: randomBytes_def)

section \<open>State\<close>

abbreviation X25519_PUBLIC_BYTES :: nat where "X25519_PUBLIC_BYTES \<equiv> 32"
abbreviation AES_KEY_BYTES :: nat where "AES_KEY_BYTES \<equiv> 32"

definition ZERO_32 :: bytes where "ZERO_32 = replicate 32 0"
definition ROOT_INFO :: bytes where "ROOT_INFO = utf8Encode ''onlytwo-v2-root''"
definition CHAIN_SEND_INFO :: bytes where "CHAIN_SEND_INFO = utf8Encode ''onlytwo-v2-chain-send''"
definition CHAIN_RECV_INFO :: bytes where "CHAIN_RECV_INFO = utf8Encode ''onlytwo-v2-chain-recv''"
definition CHAIN_STEP_INFO :: bytes where "CHAIN_STEP_INFO = utf8Encode ''onlytwo-v2-chain-step''"

record CryptoConfig =
  cfg_paddingBuckets :: "nat list"
  cfg_maxSkipped :: nat
  cfg_protocolVersion :: nat

record worker =
  config :: CryptoConfig
  identityPrivate :: "bytes option"
  identityPublicRaw :: "bytes option"
  rootKey :: "bytes option"
  sendChainKey :: "bytes option"
  receiveChainKey :: "bytes option"
  outboundCounter :: nat
  highestInboundCounter :: nat
  sessionEstablished :: bool
  skippedKeys :: "(nat, bytes) jsmap"

definition initialWorker :: worker where
  "initialWorker =
     \<lparr>config = \<lparr>cfg_paddingBuckets = [4096, 16384, 65536, 131072], cfg_maxSkipped = 4096,
                cfg_protocolVersion = 2\<rparr>,
      identityPrivate = None, identityPublicRaw = None, rootKey = None, sendChainKey = None,
      receiveChainKey = None, outboundCounter = 0, highestInboundCounter = 0,
      sessionEstablished = False, skippedKeys = []\<rparr>"

section \<open>Operations\<close>

text \<open>Lexicographic comparison; negative, zero or positive as in the source.\<close>

fun compareBytes :: "bytes \<Rightarrow> bytes \<Rightarrow> int" where
  "compareBytes (x # xs) (y # ys) = (if x \<noteq> y then uint x - uint y else compareBytes xs ys)"
| "compareBytes xs ys = int (length xs) - int (length ys)"

definition resetSession :: "worker \<Rightarrow> worker" where
  "resetSession w =
     w\<lparr>rootKey := None, sendChainKey := None, receiveChainKey := None, outboundCounter := 0,
       highestInboundCounter := 0, sessionEstablished := False, skippedKeys := []\<rparr>"

definition resetAll :: "worker \<Rightarrow> worker" where
  "resetAll w = (resetSession w)\<lparr>identityPrivate := None, identityPublicRaw := None\<rparr>"

definition generateIdentity :: "webcrypto \<Rightarrow> bytes \<Rightarrow> worker \<Rightarrow> worker \<times> bytes" where
  "generateIdentity W priv w =
     (let pub = wc_publicKey W priv in
      ((resetAll w)\<lparr>identityPrivate := Some priv, identityPublicRaw := Some pub\<rparr>, pub))"

definition importX25519Public :: "bytes \<Rightarrow> bytes res" where
  "importX25519Public raw =
     (if length raw \<noteq> X25519_PUBLIC_BYTES then throw ''Invalid X25519 public key'' else Inr raw)"

definition importAes :: "bytes \<Rightarrow> bytes res" where
  "importAes raw = (if length raw \<noteq> AES_KEY_BYTES then throw ''Invalid AES key'' else Inr raw)"

text \<open>
  The session is reset before the key agreement, so a failing key agreement leaves a
  worker without a session.
\<close>

definition establishSession :: "webcrypto \<Rightarrow> bytes \<Rightarrow> string \<Rightarrow> worker \<Rightarrow> worker \<times> bool res" where
  "establishSession W peerRaw profileHashValue w =
     (case (identityPrivate w, identityPublicRaw w) of
        (Some priv, Some pub) \<Rightarrow>
          if length peerRaw \<noteq> X25519_PUBLIC_BYTES then (w, throw ''Invalid peer public key'')
          else if compareBytes pub peerRaw = 0 then (w, throw ''Refusing identical peer key'')
          else
            let w1 = resetSession w in
            (case importX25519Public peerRaw of
               Inl e \<Rightarrow> (w1, Inl e)
             | Inr peerKey \<Rightarrow>
                 (case wc_x25519 W priv peerKey of
                    None \<Rightarrow> (w1, throw ''OperationError'')
                  | Some shared \<Rightarrow>
                      let salt = wc_sha256 W (utf8Encode (''onlytwo-v2:'' @ profileHashValue));
                          root = wc_hkdf W shared salt ROOT_INFO AES_KEY_BYTES;
                          localIsLower = compareBytes pub peerRaw < 0;
                          send = wc_hkdf W root ZERO_32
                                   (if localIsLower then CHAIN_SEND_INFO else CHAIN_RECV_INFO) AES_KEY_BYTES;
                          recv = wc_hkdf W root ZERO_32
                                   (if localIsLower then CHAIN_RECV_INFO else CHAIN_SEND_INFO) AES_KEY_BYTES
                      in (w1\<lparr>sendChainKey := Some send, receiveChainKey := Some recv, rootKey := None,
                            sessionEstablished := True\<rparr>, Inr True)))
      | _ \<Rightarrow> (w, throw ''Identity not generated''))"

text \<open>One ratchet step: the next chain key and the message key.\<close>

definition deriveStep :: "webcrypto \<Rightarrow> bytes \<Rightarrow> bytes \<times> bytes" where
  "deriveStep W chainKey =
     (let material = wc_hkdf W chainKey ZERO_32 CHAIN_STEP_INFO (AES_KEY_BYTES * 2)
      in (take AES_KEY_BYTES material, drop AES_KEY_BYTES material))"

definition selectPaddingBucket :: "nat list \<Rightarrow> nat \<Rightarrow> nat res" where
  "selectPaddingBucket buckets actualBytes =
     (case find (\<lambda>bucket. actualBytes + 4 \<le> bucket) (sort buckets) of
        Some bucket \<Rightarrow> Inr bucket
      | None \<Rightarrow> throw ''Payload too large for selected profile'')"

definition buildPlaintext :: "(nat \<Rightarrow> byte) \<Rightarrow> nat list \<Rightarrow> bytes \<Rightarrow> bytes res" where
  "buildPlaintext rnd buckets actual =
     res_bind (selectPaddingBucket buckets (length actual)) (\<lambda>bucket.
       Inr (field 4 (int (length actual)) @ actual @ drop (4 + length actual) (randomBytes rnd bucket)))"

definition parsePlaintext :: "nat list \<Rightarrow> bytes \<Rightarrow> bytes res" where
  "parsePlaintext buckets padded =
     (if length padded \<notin> set buckets then throw ''Invalid padded plaintext size''
      else if getUint 4 0 padded > int (length padded) - 4 then throw ''Invalid plaintext length''
      else Inr (subbytes 4 (nat (getUint 4 0 padded)) padded))"

text \<open>The eviction loop of \<^verbatim>\<open>cacheSkipped\<close>: drop the oldest entry while there are too many.\<close>

function evictOldest :: "nat \<Rightarrow> (nat, bytes) jsmap \<Rightarrow> (nat, bytes) jsmap" where
  "evictOldest mx m = (if length m > mx then evictOldest mx (map_delete (fst (hd m)) m) else m)"
  by pat_completeness auto
termination
proof (relation "measure (\<lambda>(mx, m). length m)", simp)
  fix mx :: nat and m :: "(nat, bytes) jsmap"
  assume "length m > mx"
  then obtain p ps where "m = p # ps" by (cases m) auto
  then show "((mx, map_delete (fst (hd m)) m), mx, m) \<in> measure (\<lambda>(mx, m). length m)"
    using length_delete_le [of "fst p" ps] by (simp add: le_imp_less_Suc)
qed

declare evictOldest.simps [simp del]

definition cacheSkipped :: "nat \<Rightarrow> nat \<Rightarrow> bytes \<Rightarrow> (nat, bytes) jsmap \<Rightarrow> (nat, bytes) jsmap" where
  "cacheSkipped mx c key m = evictOldest mx (map_set c key m)"

record Encrypted =
  ciphertext :: bytes
  enc_nonce :: bytes
  enc_counter :: nat

text \<open>
  \<^verbatim>\<open>encryptBinary\<close>: the chain key and the counter advance before anything that can throw
  (an oversized payload), so a failed encryption leaves a gap in the counters.
\<close>

definition encryptBinary ::
    "webcrypto \<Rightarrow> (nat \<Rightarrow> byte) \<Rightarrow> (nat \<Rightarrow> byte) \<Rightarrow> bytes \<Rightarrow> AadContext \<Rightarrow> worker \<Rightarrow> worker \<times> Encrypted res"
where
  "encryptBinary W rndNonce rndPad data ctx w =
     (case sendChainKey w of
        Some chain \<Rightarrow>
          if \<not> sessionEstablished w then (w, throw ''Session not established'')
          else
            let (nextKey, messageKey) = deriveStep W chain;
                w1 = w\<lparr>sendChainKey := Some nextKey, outboundCounter := outboundCounter w + 1\<rparr>;
                ctr = outboundCounter w1;
                n = randomBytes rndNonce NONCE_BYTES
            in (w1,
              res_bind (encodeAad ctx (int ctr) n) (\<lambda>aad.
              res_bind (importAes messageKey) (\<lambda>aes.
              res_bind (buildPlaintext rndPad (cfg_paddingBuckets (config w1)) data) (\<lambda>plaintext.
                Inr \<lparr>ciphertext = wc_encrypt W aes n aad plaintext, enc_nonce = n, enc_counter = ctr\<rparr>))))
      | None \<Rightarrow> (w, throw ''Session not established''))"

text \<open>The loop that derives and caches the keys of the counters between.\<close>

function skipKeys ::
    "webcrypto \<Rightarrow> nat \<Rightarrow> nat \<Rightarrow> nat \<Rightarrow> bytes \<Rightarrow> (nat, bytes) jsmap \<Rightarrow> bytes \<times> (nat, bytes) jsmap" where
  "skipKeys W mx c ctr cursor m =
     (if c < ctr then
        let (nextKey, messageKey) = deriveStep W cursor
        in skipKeys W mx (c + 1) ctr nextKey (cacheSkipped mx c messageKey m)
      else (cursor, m))"
  by pat_completeness auto
termination
  by (relation "measure (\<lambda>(W, mx, c, ctr, cursor, m). ctr - c)") auto

declare skipKeys.simps [simp del]

record DecryptRequest =
  req_ciphertext :: bytes
  req_nonce :: bytes
  req_counter :: nat
  req_aad :: AadContext

text \<open>
  \<^verbatim>\<open>decryptBinary\<close> in three parts: the key for the counter (with the cache as the loop
  left it), the AEAD opening, and the state after a successful opening.
\<close>

record KeyChoice =
  kc_message :: bytes
  kc_nextChain :: bytes
  kc_nextHighest :: nat
  kc_cached :: bool

definition chooseKey :: "webcrypto \<Rightarrow> nat \<Rightarrow> bytes \<Rightarrow> worker \<Rightarrow> worker \<times> KeyChoice res" where
  "chooseKey W ctr chain w =
     (case map_get (skippedKeys w) ctr of
        Some cached \<Rightarrow>
          (w, Inr \<lparr>kc_message = cached, kc_nextChain = chain,
                   kc_nextHighest = highestInboundCounter w, kc_cached = True\<rparr>)
      | None \<Rightarrow>
          if ctr \<le> highestInboundCounter w then (w, throw ''Replay detected'')
          else
            let (cursor, m) = skipKeys W (cfg_maxSkipped (config w)) (highestInboundCounter w + 1) ctr
                                chain (skippedKeys w);
                (nextKey, messageKey) = deriveStep W cursor
            in (w\<lparr>skippedKeys := m\<rparr>,
                Inr \<lparr>kc_message = messageKey, kc_nextChain = nextKey, kc_nextHighest = ctr,
                     kc_cached = False\<rparr>))"

definition openFrame :: "webcrypto \<Rightarrow> DecryptRequest \<Rightarrow> bytes \<Rightarrow> bytes res" where
  "openFrame W r messageKey =
     res_bind (encodeAad (req_aad r) (int (req_counter r)) (req_nonce r)) (\<lambda>aad.
     res_bind (importAes messageKey) (\<lambda>aes.
       case wc_decrypt W aes (req_nonce r) aad (req_ciphertext r) of
         None \<Rightarrow> throw ''OperationError''
       | Some padded \<Rightarrow> Inr padded))"

definition commitKey :: "nat \<Rightarrow> KeyChoice \<Rightarrow> worker \<Rightarrow> worker" where
  "commitKey ctr k w =
     (if kc_cached k then w\<lparr>skippedKeys := map_delete ctr (skippedKeys w)\<rparr>
      else w\<lparr>receiveChainKey := Some (kc_nextChain k), highestInboundCounter := kc_nextHighest k\<rparr>)"

definition decryptBinary :: "webcrypto \<Rightarrow> DecryptRequest \<Rightarrow> worker \<Rightarrow> worker \<times> bytes res" where
  "decryptBinary W r w =
     (case receiveChainKey w of
        None \<Rightarrow> (w, throw ''Session not established'')
      | Some chain \<Rightarrow>
          if \<not> sessionEstablished w then (w, throw ''Session not established'')
          else if length (req_nonce r) \<noteq> NONCE_BYTES then (w, throw ''Invalid nonce length'')
          else if req_counter r > highestInboundCounter w + (cfg_maxSkipped (config w) + 1) then
            (w, throw ''Counter too far ahead'')
          else
            (case chooseKey W (req_counter r) chain w of
               (w1, Inl e) \<Rightarrow> (w1, Inl e)
             | (w1, Inr k) \<Rightarrow>
                 (case openFrame W r (kc_message k) of
                    Inl e \<Rightarrow> (w1, Inl e)
                  | Inr padded \<Rightarrow>
                      (commitKey (req_counter r) k w1,
                       parsePlaintext (cfg_paddingBuckets (config w1)) padded))))"

definition configure :: "nat list option \<Rightarrow> nat option \<Rightarrow> nat option \<Rightarrow> worker \<Rightarrow> worker" where
  "configure buckets mx ver w =
     (let bs = (case buckets of Some xs \<Rightarrow> filter (\<lambda>n. n \<ge> 1024) xs | None \<Rightarrow> cfg_paddingBuckets (config w)) in
      resetSession (w\<lparr>config :=
        \<lparr>cfg_paddingBuckets = sort (remdups bs),
         cfg_maxSkipped = min 1024 (max 32 (orElse mx (cfg_maxSkipped (config w)))),
         cfg_protocolVersion = orElse ver (cfg_protocolVersion (config w))\<rparr>\<rparr>))"

text \<open>The requests of \<^verbatim>\<open>handle\<close>, with the randomness each of them draws.\<close>

datatype Request =
    Configure "nat list option" "nat option" "nat option"
  | GenerateIdentity bytes
  | EstablishSession bytes string
  | Encrypt "nat \<Rightarrow> byte" "nat \<Rightarrow> byte" bytes AadContext
  | Decrypt DecryptRequest
  | Reset

datatype Response =
    RTrue | RBytes bytes | REncrypted Encrypted | RError js_error

fun respond :: "('a \<Rightarrow> Response) \<Rightarrow> 'a res \<Rightarrow> Response" where
  "respond f (Inl e) = RError e"
| "respond f (Inr x) = f x"

fun handle :: "webcrypto \<Rightarrow> Request \<Rightarrow> worker \<Rightarrow> worker \<times> Response" where
  "handle W (Configure bs mx ver) w = (configure bs mx ver w, RTrue)"
| "handle W (GenerateIdentity priv) w =
     (let (w', pub) = generateIdentity W priv w in (w', RBytes pub))"
| "handle W (EstablishSession peer h) w =
     (let (w', r) = establishSession W peer h w in (w', respond (\<lambda>_. RTrue) r))"
| "handle W (Encrypt rn rp data ctx) w =
     (let (w', r) = encryptBinary W rn rp data ctx w in (w', respond REncrypted r))"
| "handle W (Decrypt req) w =
     (let (w', r) = decryptBinary W req w in (w', respond RBytes r))"
| "handle W Reset w = (resetAll w, RTrue)"

section \<open>Padding\<close>

definition fits_bucket :: "nat list \<Rightarrow> bytes \<Rightarrow> bool" where
  "fits_bucket buckets m = ((\<exists>b \<in> set buckets. length m + 4 \<le> b) \<and> length m < 2 ^ 32)"

lemma selectPaddingBucket_ok:
  assumes "selectPaddingBucket buckets n = Inr b"
  shows "b \<in> set buckets \<and> n + 4 \<le> b \<and> (\<forall>b' \<in> set buckets. n + 4 \<le> b' \<longrightarrow> b \<le> b')"
proof -
  from assms obtain i where i: "find (\<lambda>bucket. n + 4 \<le> bucket) (sort buckets) = Some b"
    by (auto simp: selectPaddingBucket_def split: option.splits)
  then obtain k where k: "k < length (sort buckets)" "n + 4 \<le> sort buckets ! k" "b = sort buckets ! k"
    "\<forall>j < k. \<not> n + 4 \<le> sort buckets ! j"
    by (auto simp: find_Some_iff)
  have "b \<le> b'" if "b' \<in> set buckets" "n + 4 \<le> b'" for b'
  proof -
    from that(1) obtain j where "j < length (sort buckets)" "b' = sort buckets ! j"
      by (metis in_set_conv_nth set_sort)
    moreover from this that(2) k(4) have "k \<le> j" by (metis not_less)
    ultimately show ?thesis using k(3) sorted_nth_mono [OF sorted_sort, of k j buckets] by simp
  qed
  moreover have "b \<in> set buckets" using k(1,3) nth_mem by (metis set_sort)
  ultimately show ?thesis using k(2,3) by auto
qed

lemma selectPaddingBucket_exists:
  "(\<exists>b. selectPaddingBucket buckets n = Inr b) \<longleftrightarrow> (\<exists>b \<in> set buckets. n + 4 \<le> b)"
proof -
  have "find (\<lambda>bucket. n + 4 \<le> bucket) (sort buckets) = None \<longleftrightarrow> \<not> (\<exists>b \<in> set buckets. n + 4 \<le> b)"
    by (auto simp: find_None_iff)
  then show ?thesis
    by (auto simp: selectPaddingBucket_def split: option.splits)
qed

lemma buildPlaintext_length:
  "buildPlaintext rnd buckets m = Inr pt \<Longrightarrow>
   selectPaddingBucket buckets (length m) = Inr (length pt)"
  using selectPaddingBucket_ok [of buckets "length m"]
  by (auto simp: buildPlaintext_def res_bind_Inr_iff)

lemma parse_build:
  assumes "buildPlaintext rnd buckets m = Inr pt" and "length m < 2 ^ 32"
  shows "parsePlaintext buckets pt = Inr m"
proof -
  obtain b where b: "selectPaddingBucket buckets (length m) = Inr b"
    and pt: "pt = field 4 (int (length m)) @ m @ drop (4 + length m) (randomBytes rnd b)"
    using assms(1) by (auto simp: buildPlaintext_def res_bind_Inr_iff)
  have len: "length pt = b" "b \<in> set buckets" "length m + 4 \<le> b"
    using selectPaddingBucket_ok [OF b] by (auto simp: pt)
  have "getUint 4 0 pt = int (length m)"
    unfolding pt using assms(2) getUint_field [of "int (length m)" 4 "[]" 0] by simp
  moreover have "subbytes 4 (length m) pt = m" by (simp add: pt subbytes_def)
  ultimately show ?thesis using len by (simp add: parsePlaintext_def)
qed

lemma build_ok: "fits_bucket buckets m \<Longrightarrow> \<exists>pt. buildPlaintext rnd buckets m = Inr pt"
  using selectPaddingBucket_exists [of buckets "length m"]
  by (auto simp: fits_bucket_def buildPlaintext_def)

interpretation padding: codec "\<lambda>m. projr (buildPlaintext rnd buckets m)" "parsePlaintext buckets"
  "fits_bucket buckets" for rnd buckets
proof
  fix m assume a: "fits_bucket buckets m"
  then obtain pt where "buildPlaintext rnd buckets m = Inr pt" using build_ok by blast
  with a parse_build [of rnd buckets m pt] show "parsePlaintext buckets (projr (buildPlaintext rnd buckets m)) = Inr m"
    by (simp add: fits_bucket_def)
qed

section \<open>The cache of skipped keys\<close>

lemma map_delete_hd: "wf_map m \<Longrightarrow> m \<noteq> [] \<Longrightarrow> map_delete (fst (hd m)) m = tl m"
  by (cases m) (auto simp: wf_map_def)

lemma evictOldest_drop: "wf_map m \<Longrightarrow> evictOldest mx m = drop (length m - mx) m"
proof (induction mx m rule: evictOldest.induct)
  case (1 mx m)
  show ?case
  proof (cases "length m > mx")
    case True
    then have "m \<noteq> []" by auto
    with "1.prems" have "map_delete (fst (hd m)) m = tl m" by (rule map_delete_hd)
    with True "1.IH" "1.prems" have "evictOldest mx m = drop (length (tl m) - mx) (tl m)"
      by (subst evictOldest.simps) (simp add: wf_map_tl)
    also have "\<dots> = drop (length m - mx) m"
      using True by (cases m) (auto simp: Suc_diff_le)
    finally show ?thesis .
  next
    case False
    then show ?thesis by (subst evictOldest.simps) simp
  qed
qed

lemma wf_map_drop: "wf_map m \<Longrightarrow> wf_map (drop n m)"
  unfolding wf_map_def by (metis distinct_drop drop_map)

lemma cacheSkipped_wf:
  assumes "wf_map m"
  shows "wf_map (cacheSkipped mx c key m)" and "length (cacheSkipped mx c key m) \<le> mx"
    and "set (cacheSkipped mx c key m) \<subseteq> insert (c, key) (set m)"
proof -
  have wf: "wf_map (map_set c key m)" using assms by (rule wf_map_set)
  then show "wf_map (cacheSkipped mx c key m)" "length (cacheSkipped mx c key m) \<le> mx"
    unfolding cacheSkipped_def evictOldest_drop [OF wf] by (simp_all add: wf_map_drop)
  have "set (map_set c key m) \<subseteq> insert (c, key) (set m)"
    by (induction m) auto
  then show "set (cacheSkipped mx c key m) \<subseteq> insert (c, key) (set m)"
    unfolding cacheSkipped_def evictOldest_drop [OF wf] by (rule order_trans [OF set_drop_subset])
qed

lemma cacheSkipped_room:
  assumes "wf_map m" and "length m < mx"
  shows "cacheSkipped mx c key m = map_set c key m"
  using assms evictOldest_drop [OF wf_map_set [OF assms(1)], of mx c key]
  by (simp add: cacheSkipped_def length_map_set)

section \<open>The ideal key schedule and the receiver's invariant\<close>

text \<open>
  The chain keys that follow from a session's first chain key \<open>k\<close>, and the message key
  of counter \<open>c\<close> (counters start at 1).
\<close>

fun chain_at :: "webcrypto \<Rightarrow> bytes \<Rightarrow> nat \<Rightarrow> bytes" where
  "chain_at W k 0 = k"
| "chain_at W k (Suc n) = fst (deriveStep W (chain_at W k n))"

definition message_key :: "webcrypto \<Rightarrow> bytes \<Rightarrow> nat \<Rightarrow> bytes" where
  "message_key W k c = snd (deriveStep W (chain_at W k (c - 1)))"

lemma deriveStep_chain:
  "0 < c \<Longrightarrow> deriveStep W (chain_at W k (c - Suc 0)) = (chain_at W k c, message_key W k c)"
  by (cases c) (simp_all add: message_key_def)

text \<open>Every cached key is the right key for its counter, and the cache is bounded.\<close>

definition cache_ok :: "webcrypto \<Rightarrow> bytes \<Rightarrow> nat \<Rightarrow> (nat, bytes) jsmap \<Rightarrow> bool" where
  "cache_ok W k mx m =
     (wf_map m \<and> length m \<le> mx \<and> (\<forall>(c, key) \<in> set m. 0 < c \<and> key = message_key W k c))"

lemma cache_ok_cacheSkipped:
  assumes "cache_ok W k mx m" and "0 < c"
  shows "cache_ok W k mx (cacheSkipped mx c (message_key W k c) m)"
proof -
  have wf: "wf_map m" using assms(1) by (simp add: cache_ok_def)
  show ?thesis
    using assms cacheSkipped_wf(1,2) [OF wf, of mx c "message_key W k c"]
      cacheSkipped_wf(3) [OF wf, of mx c "message_key W k c"]
    unfolding cache_ok_def by blast
qed

lemma skipKeys_spec:
  assumes "cache_ok W k mx m" and "0 < c" and "c \<le> ctr" and "cursor = chain_at W k (c - 1)"
  shows "fst (skipKeys W mx c ctr cursor m) = chain_at W k (ctr - 1) \<and>
         cache_ok W k mx (snd (skipKeys W mx c ctr cursor m)) \<and>
         keyset (snd (skipKeys W mx c ctr cursor m)) \<subseteq> keyset m \<union> {c..<ctr}"
  using assms
proof (induction W mx c ctr cursor m rule: skipKeys.induct)
  case (1 W mx c ctr cursor m)
  show ?case
  proof (cases "c < ctr")
    case True
    let ?m1 = "cacheSkipped mx c (message_key W k c) m"
    have ds: "deriveStep W cursor = (chain_at W k c, message_key W k c)"
      using "1.prems"(2,4) by (simp add: deriveStep_chain)
    have eq: "skipKeys W mx c ctr cursor m = skipKeys W mx (c + 1) ctr (chain_at W k c) ?m1"
      using True by (subst skipKeys.simps) (simp add: ds)
    have ok1: "cache_ok W k mx ?m1" using "1.prems"(1,2) by (rule cache_ok_cacheSkipped)
    have "wf_map m" using "1.prems"(1) by (simp add: cache_ok_def)
    from image_mono [OF cacheSkipped_wf(3) [OF this, of mx c "message_key W k c"], of fst]
    have keys1: "keyset ?m1 \<subseteq> insert c (keyset m)" by (simp add: keyset_def)
    let ?r = "skipKeys W mx (c + 1) ctr (chain_at W k c) ?m1"
    have IH: "fst ?r = chain_at W k (ctr - 1)" "cache_ok W k mx (snd ?r)"
        "keyset (snd ?r) \<subseteq> keyset ?m1 \<union> {c + 1..<ctr}"
      using "1.IH" [OF True ds [symmetric] refl ok1] True by simp_all
    have "keyset ?m1 \<union> {c + 1..<ctr} \<subseteq> keyset m \<union> {c..<ctr}"
      by (rule order_trans [OF Un_mono [OF keys1 order_refl]]) (use True in auto)
    from order_trans [OF IH(3) this] IH(1,2) show ?thesis unfolding eq by blast
  next
    case False
    with "1.prems" have "c = ctr" by simp
    with "1.prems" show ?thesis by (subst (1 2 3) skipKeys.simps) auto
  qed
qed

text \<open>The receiver of a session with first chain key \<open>k\<close>, at any time.\<close>

definition recv_inv :: "webcrypto \<Rightarrow> bytes \<Rightarrow> worker \<Rightarrow> bool" where
  "recv_inv W k w =
     (sessionEstablished w \<and> receiveChainKey w = Some (chain_at W k (highestInboundCounter w)) \<and>
      cache_ok W k (cfg_maxSkipped (config w)) (skippedKeys w))"

lemma chooseKey_spec:
  assumes inv: "recv_inv W k w" and "chooseKey W c (chain_at W k (highestInboundCounter w)) w = (w1, Inr kc)"
  shows "recv_inv W k w1 \<and> kc_message kc = message_key W k c \<and> 0 < c \<and>
         config w1 = config w \<and> highestInboundCounter w1 = highestInboundCounter w \<and>
         keyset (skippedKeys w1) \<subseteq>
           keyset (skippedKeys w) \<union> {highestInboundCounter w + 1..<c} \<and>
         (if kc_cached kc then c \<in> keyset (skippedKeys w) \<and> w1 = w
          else highestInboundCounter w < c \<and> c \<notin> keyset (skippedKeys w) \<and>
               kc_nextChain kc = chain_at W k c \<and> kc_nextHighest kc = c)"
proof (cases "map_get (skippedKeys w) c")
  case (Some cached)
  then have mem: "(c, cached) \<in> set (skippedKeys w)" by (rule map_of_SomeD)
  with inv have "0 < c" "cached = message_key W k c" by (auto simp: recv_inv_def cache_ok_def)
  with Some assms map_get_keyset [OF Some] show ?thesis by (auto simp: chooseKey_def)
next
  case None
  let ?h = "highestInboundCounter w"
  let ?sk = "skipKeys W (cfg_maxSkipped (config w)) (?h + 1) c (chain_at W k ?h) (skippedKeys w)"
  from assms(2) None have lt: "?h < c" by (auto simp: chooseKey_def split: if_splits)
  have sk: "fst ?sk = chain_at W k (c - 1)" "cache_ok W k (cfg_maxSkipped (config w)) (snd ?sk)"
    "keyset (snd ?sk) \<subseteq> keyset (skippedKeys w) \<union> {?h + 1..<c}"
    using skipKeys_spec [of W k "cfg_maxSkipped (config w)" "skippedKeys w" "?h + 1" c "chain_at W k ?h"]
      inv lt by (auto simp: recv_inv_def)
  have "w1 = w\<lparr>skippedKeys := snd ?sk\<rparr>"
    "kc = \<lparr>kc_message = message_key W k c, kc_nextChain = chain_at W k c, kc_nextHighest = c, kc_cached = False\<rparr>"
    using assms(2) None lt sk(1) deriveStep_chain [of c W k]
    by (auto simp: chooseKey_def split: prod.splits)
  with inv sk lt None show ?thesis
    by (auto simp: recv_inv_def map_get_None_iff)
qed

lemma recv_inv_commit:
  assumes "recv_inv W k w" and "kc_cached kc \<or> kc_nextChain kc = chain_at W k (kc_nextHighest kc)"
  shows "recv_inv W k (commitKey c kc w)"
proof -
  have "cache_ok W k (cfg_maxSkipped (config w)) (map_delete c (skippedKeys w))"
    using assms(1) order_trans [OF length_delete_le [of c "skippedKeys w"]]
    by (auto simp: recv_inv_def cache_ok_def wf_map_delete) (auto simp: AList.delete_eq)
  with assms show ?thesis by (auto simp: recv_inv_def commitKey_def)
qed

section \<open>What is assumed of WebCrypto\<close>

text \<open>HKDF returns as many bytes as it is asked for.\<close>

definition hkdf_length_ok :: "webcrypto \<Rightarrow> bool" where
  "hkdf_length_ok W = (\<forall>ikm salt info n. length (wc_hkdf W ikm salt info n) = n)"

text \<open>AES-GCM opens what it sealed under the same 32-byte key, iv and associated data.\<close>

definition aead_roundtrip_ok :: "webcrypto \<Rightarrow> bool" where
  "aead_roundtrip_ok W =
     (\<forall>key iv aad pt. length key = AES_KEY_BYTES \<longrightarrow>
        wc_decrypt W key iv aad (wc_encrypt W key iv aad pt) = Some pt)"

text \<open>X25519: 32-byte public keys, and both sides compute the same shared secret.\<close>

definition dh_ok :: "webcrypto \<Rightarrow> bool" where
  "dh_ok W =
     (\<forall>a b. length (wc_publicKey W a) = X25519_PUBLIC_BYTES \<and>
            wc_x25519 W a (wc_publicKey W b) = wc_x25519 W b (wc_publicKey W a))"

lemma length_message_key: "hkdf_length_ok W \<Longrightarrow> length (message_key W k c) = AES_KEY_BYTES"
  by (simp add: message_key_def deriveStep_def hkdf_length_ok_def Let_def)

section \<open>Authentic frames\<close>

text \<open>The frame with counter \<open>c\<close> that the peer seals around the padded plaintext \<open>pt\<close>.\<close>

definition sealFrame :: "webcrypto \<Rightarrow> bytes \<Rightarrow> nat \<Rightarrow> bytes \<Rightarrow> AadContext \<Rightarrow> bytes \<Rightarrow> DecryptRequest" where
  "sealFrame W k c n ctx pt =
     \<lparr>req_ciphertext = wc_encrypt W (message_key W k c) n (projr (encodeAad ctx (int c) n)) pt,
      req_nonce = n, req_counter = c, req_aad = ctx\<rparr>"

lemma sealFrame_sel [simp]:
  "req_nonce (sealFrame W k c n ctx pt) = n" "req_counter (sealFrame W k c n ctx pt) = c"
  "req_aad (sealFrame W k c n ctx pt) = ctx"
  by (simp_all add: sealFrame_def)

lemma openFrame_seal:
  assumes "hkdf_length_ok W" "aead_roundtrip_ok W" "length n = NONCE_BYTES"
  shows "openFrame W (sealFrame W k c n ctx pt) (message_key W k c) = Inr pt"
  using assms length_message_key [OF assms(1), of k c]
  by (simp add: openFrame_def sealFrame_def encodeAad_def importAes_def aead_roundtrip_ok_def)

text \<open>The counters a receiver can still open: cached, or ahead within the window.\<close>

definition openable :: "worker \<Rightarrow> nat \<Rightarrow> bool" where
  "openable w c =
     (c \<le> highestInboundCounter w + (cfg_maxSkipped (config w) + 1) \<and>
      (c \<in> keyset (skippedKeys w) \<or> highestInboundCounter w < c))"

lemma chooseKey_openable:
  assumes "openable w c"
  shows "\<exists>w1 kc. chooseKey W c chain w = (w1, Inr kc)"
proof (cases "map_get (skippedKeys w) c")
  case None
  then have "c \<notin> keyset (skippedKeys w)" by (simp add: map_get_None_iff)
  with assms None show ?thesis
    by (auto simp: openable_def chooseKey_def split: prod.splits)
qed (simp add: chooseKey_def)

lemma decrypt_sealed:
  assumes W: "hkdf_length_ok W" "aead_roundtrip_ok W" and inv: "recv_inv W k w"
    and c: "openable w c" and n: "length n = NONCE_BYTES"
  obtains w1 kc where
    "chooseKey W c (chain_at W k (highestInboundCounter w)) w = (w1, Inr kc)"
    "decryptBinary W (sealFrame W k c n ctx pt) w =
       (commitKey c kc w1, parsePlaintext (cfg_paddingBuckets (config w)) pt)"
proof -
  obtain w1 kc where ck: "chooseKey W c (chain_at W k (highestInboundCounter w)) w = (w1, Inr kc)"
    using chooseKey_openable [OF c] by blast
  have "kc_message kc = message_key W k c" "config w1 = config w"
    using chooseKey_spec [OF inv ck] by simp_all
  then have "decryptBinary W (sealFrame W k c n ctx pt) w =
       (commitKey c kc w1, parsePlaintext (cfg_paddingBuckets (config w)) pt)"
    using inv c n ck openFrame_seal [OF W n, of k c ctx pt]
    by (simp add: decryptBinary_def recv_inv_def openable_def)
  with ck that show ?thesis by blast
qed

lemma recv_inv_decrypt:
  assumes inv: "recv_inv W k w"
  shows "recv_inv W k (fst (decryptBinary W r w))"
proof (cases "chooseKey W (req_counter r) (chain_at W k (highestInboundCounter w)) w")
  case (Pair w1 res)
  show ?thesis
  proof (cases res)
    case (Inl e)
    with Pair have "w1 = w" by (auto simp: chooseKey_def split: option.splits if_splits prod.splits)
    with Inl Pair inv show ?thesis by (simp add: decryptBinary_def recv_inv_def)
  next
    case (Inr kc)
    note ck = chooseKey_spec [OF inv Pair [unfolded Inr]]
    then have "recv_inv W k (commitKey (req_counter r) kc w1)"
      by (intro recv_inv_commit) (auto split: if_splits)
    with Inr Pair inv ck show ?thesis
      by (auto simp: decryptBinary_def recv_inv_def split: sum.splits)
  qed
qed

section \<open>Delivery in any order\<close>

lemma skipKeys_room:
  assumes "wf_map m" and "length m + (ctr - c) \<le> mx" and "keyset m \<inter> {c..<ctr} = {}"
  shows "keyset (snd (skipKeys W mx c ctr cursor m)) = keyset m \<union> {c..<ctr}"
  using assms
proof (induction W mx c ctr cursor m rule: skipKeys.induct)
  case (1 W mx c ctr cursor m)
  show ?case
  proof (cases "c < ctr")
    case True
    obtain nk mk where ds: "deriveStep W cursor = (nk, mk)" by fastforce
    have room: "cacheSkipped mx c mk m = map_set c mk m"
      using "1.prems" True by (intro cacheSkipped_room) auto
    have "c \<notin> keyset m" using "1.prems"(3) True by force
    then have len: "length (map_set c mk m) = Suc (length m)" by (simp add: length_map_set map_has_iff)
    have "keyset (map_set c mk m) \<inter> {c + 1..<ctr} = {}"
      using "1.prems"(3) by force
    then have "keyset (snd (skipKeys W mx (c + 1) ctr nk (map_set c mk m))) =
        keyset (map_set c mk m) \<union> {c + 1..<ctr}"
      using "1.IH" [OF True ds [symmetric] refl] "1.prems"(1,2) True len room by (simp add: wf_map_set)
    also have "\<dots> = keyset m \<union> {c..<ctr}" using True by force
    finally show ?thesis
      using True by (subst skipKeys.simps) (simp add: ds room)
  next
    case False
    then show ?thesis by (subst skipKeys.simps) simp
  qed
qed

text \<open>
  After the counters \<open>D\<close> among \<open>h + 1, \<dots>, h + n\<close> were delivered: the cache holds exactly
  the counters up to the highest one that are still missing.
\<close>

definition deliver_inv :: "webcrypto \<Rightarrow> bytes \<Rightarrow> nat \<Rightarrow> nat \<Rightarrow> nat set \<Rightarrow> worker \<Rightarrow> bool" where
  "deliver_inv W k h n D w =
     (recv_inv W k w \<and> n \<le> cfg_maxSkipped (config w) + 1 \<and>
      h \<le> highestInboundCounter w \<and> highestInboundCounter w \<le> h + n \<and>
      D \<subseteq> {h + 1..highestInboundCounter w} \<and>
      keyset (skippedKeys w) = {h + 1..highestInboundCounter w} - D)"

lemma deliver_openable:
  "deliver_inv W k h n D w \<Longrightarrow> c \<in> {h + 1..h + n} \<Longrightarrow> c \<notin> D \<Longrightarrow> openable w c"
  by (auto simp: deliver_inv_def openable_def)

lemma deliver_cached:
  assumes inv: "deliver_inv W k h n D w" and rinv': "recv_inv W k (commitKey c kc w)"
    and c: "c \<in> keyset (skippedKeys w)" "kc_cached kc"
  shows "deliver_inv W k h n (insert c D) (commitKey c kc w)"
proof -
  have eq: "commitKey c kc w = w\<lparr>skippedKeys := map_delete c (skippedKeys w)\<rparr>"
    using c(2) by (simp add: commitKey_def)
  have "keyset (map_delete c (skippedKeys w)) = {h + 1..highestInboundCounter w} - insert c D"
    using inv by (simp add: deliver_inv_def) blast
  moreover have "insert c D \<subseteq> {h + 1..highestInboundCounter w}"
    using inv c(1) by (simp add: deliver_inv_def)
  ultimately show ?thesis using inv rinv' unfolding eq deliver_inv_def by simp
qed

lemma deliver_fresh:
  assumes inv: "deliver_inv W k h n D w" and c: "c \<in> {h + 1..h + n}" "highestInboundCounter w < c"
  shows "keyset (snd (skipKeys W (cfg_maxSkipped (config w)) (highestInboundCounter w + 1) c cursor (skippedKeys w)))
     = {h + 1..c} - insert c D"
proof -
  let ?h = "highestInboundCounter w"
  have wf: "wf_map (skippedKeys w)" and keys: "keyset (skippedKeys w) = {h + 1..?h} - D"
    and D: "D \<subseteq> {h + 1..?h}" and b: "h \<le> ?h" "n \<le> cfg_maxSkipped (config w) + 1"
    using inv by (simp_all add: deliver_inv_def recv_inv_def cache_ok_def)
  have "length (skippedKeys w) = card ({h + 1..?h} - D)"
    using keys wf_map_card_keys [OF wf] by simp
  also have "\<dots> \<le> ?h - h" using card_mono [of "{h + 1..?h}" "{h + 1..?h} - D"] by simp
  finally have "length (skippedKeys w) + (c - (?h + 1)) \<le> cfg_maxSkipped (config w)"
    using b c by simp
  moreover have "keyset (skippedKeys w) \<inter> {?h + 1..<c} = {}"
    unfolding keys by auto
  ultimately have "keyset (snd (skipKeys W (cfg_maxSkipped (config w)) (?h + 1) c cursor (skippedKeys w))) =
      ({h + 1..?h} - D) \<union> {?h + 1..<c}"
    using wf keys by (simp add: skipKeys_room)
  also have "\<dots> = {h + 1..c} - insert c D"
    using D b c by auto
  finally show ?thesis .
qed

lemma chooseKey_fresh_cache:
  assumes "chooseKey W c chain w = (w1, Inr kc)" and "c \<notin> keyset (skippedKeys w)"
  shows "w1 = w\<lparr>skippedKeys := snd (skipKeys W (cfg_maxSkipped (config w)) (highestInboundCounter w + 1) c
                              chain (skippedKeys w))\<rparr>"
  using assms by (simp add: chooseKey_def map_get_None_iff [symmetric] split: if_splits prod.splits)

lemma deliver_step:
  assumes inv: "deliver_inv W k h n D w" and c: "c \<in> {h + 1..h + n}" "c \<notin> D"
    and ck: "chooseKey W c (chain_at W k (highestInboundCounter w)) w = (w1, Inr kc)"
  shows "deliver_inv W k h n (insert c D) (commitKey c kc w1)"
proof -
  have rinv: "recv_inv W k w" using inv by (simp add: deliver_inv_def)
  note sp = chooseKey_spec [OF rinv ck]
  have rinv': "recv_inv W k (commitKey c kc w1)"
    using sp by (intro recv_inv_commit) (auto split: if_splits)
  show ?thesis
  proof (cases "kc_cached kc")
    case True
    with sp have "w1 = w" "c \<in> keyset (skippedKeys w)" by auto
    with deliver_cached [OF inv _ _ True] rinv' show ?thesis by simp
  next
    case False
    with sp have lt: "highestInboundCounter w < c" and nc: "c \<notin> keyset (skippedKeys w)"
      and kc: "kc_nextHighest kc = c" by auto
    have "keyset (skippedKeys w1) = {h + 1..c} - insert c D"
      using chooseKey_fresh_cache [OF ck nc] deliver_fresh [OF inv c(1) lt] by simp
    moreover have "insert c D \<subseteq> {h + 1..c}"
      using inv c(1) lt unfolding deliver_inv_def by auto
    ultimately show ?thesis
      using inv rinv' False sp c(1) kc unfolding deliver_inv_def commitKey_def by simp
  qed
qed

section \<open>The sender\<close>

definition send_inv :: "webcrypto \<Rightarrow> bytes \<Rightarrow> worker \<Rightarrow> bool" where
  "send_inv W k w = (sessionEstablished w \<and> sendChainKey w = Some (chain_at W k (outboundCounter w)))"

definition toRequest :: "AadContext \<Rightarrow> Encrypted \<Rightarrow> DecryptRequest" where
  "toRequest ctx e =
     \<lparr>req_ciphertext = ciphertext e, req_nonce = enc_nonce e, req_counter = enc_counter e, req_aad = ctx\<rparr>"

lemma encrypt_sealed:
  assumes "hkdf_length_ok W" and inv: "send_inv W k w"
    and fits: "fits_bucket (cfg_paddingBuckets (config w)) data"
  obtains w' e pt where "encryptBinary W rn rp data ctx w = (w', Inr e)"
    "buildPlaintext rp (cfg_paddingBuckets (config w)) data = Inr pt"
    "toRequest ctx e = sealFrame W k (outboundCounter w + 1) (randomBytes rn NONCE_BYTES) ctx pt"
    "send_inv W k w'" "outboundCounter w' = outboundCounter w + 1" "config w' = config w"
proof -
  obtain pt where pt: "buildPlaintext rp (cfg_paddingBuckets (config w)) data = Inr pt"
    using build_ok [OF fits] by blast
  define c where "c = outboundCounter w + 1"
  define nk where "nk = chain_at W k c"
  define n where "n = randomBytes rn NONCE_BYTES"
  have ds: "deriveStep W (chain_at W k (outboundCounter w)) = (nk, message_key W k c)"
    using deriveStep_chain [of c W k] by (simp add: c_def nk_def del: chain_at.simps)
  have len: "length (message_key W k c) = AES_KEY_BYTES" "length n = NONCE_BYTES"
    using length_message_key [OF assms(1)] by (simp_all add: n_def)
  define w' where "w' = w\<lparr>sendChainKey := Some nk, outboundCounter := c\<rparr>"
  define e where "e = \<lparr>ciphertext = wc_encrypt W (message_key W k c) n (projr (encodeAad ctx (int c) n)) pt,
     enc_nonce = n, enc_counter = c\<rparr>"
  have "encryptBinary W rn rp data ctx w = (w', Inr e)"
    using inv pt ds len
    by (simp add: encryptBinary_def send_inv_def encodeAad_def importAes_def w'_def e_def c_def
        n_def [symmetric])
  moreover have "toRequest ctx e = sealFrame W k (outboundCounter w + 1) (randomBytes rn NONCE_BYTES) ctx pt"
    by (simp add: toRequest_def sealFrame_def e_def c_def n_def)
  moreover have "send_inv W k w'" "outboundCounter w' = outboundCounter w + 1" "config w' = config w"
    using inv by (simp_all add: send_inv_def w'_def nk_def c_def del: chain_at.simps)
  ultimately show ?thesis using pt by (intro that)
qed

text \<open>A message to send: the randomness its encryption draws, its bytes and its header context.\<close>

record Job =
  job_nonce :: "nat \<Rightarrow> byte"
  job_pad :: "nat \<Rightarrow> byte"
  job_data :: bytes
  job_ctx :: AadContext

fun encryptAll :: "webcrypto \<Rightarrow> Job list \<Rightarrow> worker \<Rightarrow> worker \<times> Encrypted res list" where
  "encryptAll W [] w = (w, [])"
| "encryptAll W (j # js) w =
     (let (w1, r) = encryptBinary W (job_nonce j) (job_pad j) (job_data j) (job_ctx j) w;
          (w2, rs) = encryptAll W js w1
      in (w2, r # rs))"

fun decryptAll :: "webcrypto \<Rightarrow> DecryptRequest list \<Rightarrow> worker \<Rightarrow> worker \<times> bytes res list" where
  "decryptAll W [] w = (w, [])"
| "decryptAll W (r # rs) w =
     (let (w1, x) = decryptBinary W r w; (w2, xs) = decryptAll W rs w1 in (w2, x # xs))"

lemma encryptAll_nth:
  assumes "hkdf_length_ok W" and "send_inv W k w"
    and "\<forall>j \<in> set js. fits_bucket (cfg_paddingBuckets (config w)) (job_data j)"
    and "i < length js"
  shows "\<exists>e pt. snd (encryptAll W js w) ! i = Inr e \<and>
           buildPlaintext (job_pad (js ! i)) (cfg_paddingBuckets (config w)) (job_data (js ! i)) = Inr pt \<and>
           toRequest (job_ctx (js ! i)) e =
             sealFrame W k (outboundCounter w + i + 1) (randomBytes (job_nonce (js ! i)) NONCE_BYTES)
               (job_ctx (js ! i)) pt"
  using assms
proof (induction js arbitrary: w i)
  case Nil
  then show ?case by simp
next
  case (Cons j js)
  have fits: "fits_bucket (cfg_paddingBuckets (config w)) (job_data j)" using Cons.prems(3) by simp
  obtain w1 e pt where e: "encryptBinary W (job_nonce j) (job_pad j) (job_data j) (job_ctx j) w = (w1, Inr e)"
    "buildPlaintext (job_pad j) (cfg_paddingBuckets (config w)) (job_data j) = Inr pt"
    "toRequest (job_ctx j) e =
       sealFrame W k (outboundCounter w + 1) (randomBytes (job_nonce j) NONCE_BYTES) (job_ctx j) pt"
    "send_inv W k w1" "outboundCounter w1 = outboundCounter w + 1" "config w1 = config w"
    by (rule encrypt_sealed [OF Cons.prems(1,2) fits])
  show ?case
  proof (cases i)
    case 0
    with e show ?thesis by (cases "encryptAll W js w1") simp
  next
    case (Suc i')
    with Cons.prems e Cons.IH [OF Cons.prems(1) e(4), of i'] show ?thesis
      by (cases "encryptAll W js w1") simp
  qed
qed

section \<open>End to end\<close>

definition in_sync :: "webcrypto \<Rightarrow> bytes \<Rightarrow> worker \<Rightarrow> worker \<Rightarrow> bool" where
  "in_sync W k snd_w rcv_w =
     (send_inv W k snd_w \<and> recv_inv W k rcv_w \<and>
      outboundCounter snd_w = highestInboundCounter rcv_w \<and> skippedKeys rcv_w = [] \<and>
      config snd_w = config rcv_w)"

lemma config_commit [simp]: "config (commitKey c kc w) = config w"
  by (simp add: commitKey_def)

lemma deliver_all:
  assumes W: "hkdf_length_ok W" "aead_roundtrip_ok W"
    and frames: "\<And>i. i < n \<Longrightarrow> length (nn i) = NONCE_BYTES \<and> parsePlaintext B (pts i) = Inr (msgs i)"
    and "deliver_inv W k h n D w" "distinct is" "set is \<subseteq> {..<n}" "D \<inter> (\<lambda>i. h + i + 1) ` set is = {}"
    and "cfg_paddingBuckets (config w) = B"
  shows "snd (decryptAll W (map (\<lambda>i. sealFrame W k (h + i + 1) (nn i) (ctxs i) (pts i)) is) w) =
         map (\<lambda>i. Inr (msgs i)) is"
  using assms(4-)
proof (induction "is" arbitrary: D w)
  case Nil
  then show ?case by simp
next
  case (Cons i "is")
  let ?c = "h + i + 1"
  have rinv: "recv_inv W k w" using Cons.prems(1) by (simp add: deliver_inv_def)
  have i: "i < n" "?c \<in> {h + 1..h + n}" "?c \<notin> D" using Cons.prems by auto
  have op: "openable w ?c" using deliver_openable [OF Cons.prems(1) i(2,3)] .
  obtain w1 kc where ck: "chooseKey W ?c (chain_at W k (highestInboundCounter w)) w = (w1, Inr kc)"
    "decryptBinary W (sealFrame W k ?c (nn i) (ctxs i) (pts i)) w =
       (commitKey ?c kc w1, parsePlaintext (cfg_paddingBuckets (config w)) (pts i))"
    using decrypt_sealed [OF W rinv op] frames [OF i(1)] by metis
  have step: "deliver_inv W k h n (insert ?c D) (commitKey ?c kc w1)"
    using Cons.prems(1) i(2,3) ck(1) by (rule deliver_step)
  have cfg: "config w1 = config w" using chooseKey_spec [OF rinv ck(1)] by simp
  have "insert ?c D \<inter> (\<lambda>i. h + i + 1) ` set is = {}" using Cons.prems(2,4) by auto
  with Cons.IH [OF step] Cons.prems cfg ck(2) frames [OF i(1)] show ?case
    by (simp add: case_prod_beta)
qed

lemma in_sync_fresh:
  "in_sync W k A B"
  if "sessionEstablished A" "sendChainKey A = Some k" "outboundCounter A = 0"
    "sessionEstablished B" "receiveChainKey B = Some k" "highestInboundCounter B = 0"
    "skippedKeys B = []" "config A = config B"
  using that by (simp add: in_sync_def send_inv_def recv_inv_def cache_ok_def wf_map_def)

section \<open>A concrete instance\<close>

text \<open>
  A WebCrypto stand-in that satisfies the hypotheses: it derives constant keys, tags a
  ciphertext with its key and adds private keys byte by byte.
\<close>

definition pad32 :: "bytes \<Rightarrow> bytes" where
  "pad32 p = take 32 (p @ replicate 32 0)"

definition toyCrypto :: webcrypto where
  "toyCrypto =
     \<lparr>wc_hkdf = \<lambda>ikm salt info n. replicate n 7, wc_sha256 = \<lambda>d. d,
      wc_publicKey = pad32,
      wc_x25519 = \<lambda>a pub. Some (map2 (+) (pad32 a) pub),
      wc_encrypt = \<lambda>key iv aad pt. key @ pt,
      wc_decrypt = \<lambda>key iv aad ct. if take (length key) ct = key then Some (drop (length key) ct) else None\<rparr>"

definition toyWorker :: worker where
  "toyWorker = initialWorker
     \<lparr>config := \<lparr>cfg_paddingBuckets = [8, 12], cfg_maxSkipped = 4, cfg_protocolVersion = 2\<rparr>,
      sessionEstablished := True, sendChainKey := Some (replicate 32 9),
      receiveChainKey := Some (replicate 32 9)\<rparr>"

definition toyCtx :: AadContext where
  "toyCtx = \<lparr>ctx_protocolVersion = 2, outerType = 3, flags = 0, streamId = 5, sequence = 1\<rparr>"

definition toyJob :: "bytes \<Rightarrow> Job" where
  "toyJob m = \<lparr>job_nonce = \<lambda>_. 1, job_pad = \<lambda>_. 0, job_data = m, job_ctx = toyCtx\<rparr>"

lemma length_pad32 [simp]: "length (pad32 p) = 32"
  by (simp add: pad32_def)

lemma toyCrypto_ok: "hkdf_length_ok toyCrypto" "aead_roundtrip_ok toyCrypto" "dh_ok toyCrypto"
proof -
  show "hkdf_length_ok toyCrypto" "aead_roundtrip_ok toyCrypto"
    by (simp_all add: hkdf_length_ok_def aead_roundtrip_ok_def toyCrypto_def)
  have "map2 (+) xs ys = map2 (+) ys xs" for xs ys :: bytes
    by (subst zip_commute) (simp add: case_prod_beta add.commute)
  then show "dh_ok toyCrypto" by (simp add: dh_ok_def toyCrypto_def)
qed

lemma toyWorker_sync: "in_sync toyCrypto (replicate 32 9) toyWorker toyWorker"
  by (rule in_sync_fresh) (simp_all add: toyWorker_def initialWorker_def)

lemma toyWorker_sel:
  "skippedKeys toyWorker = []" "highestInboundCounter toyWorker = 0"
  "cfg_maxSkipped (config toyWorker) = 4" "cfg_paddingBuckets (config toyWorker) = [8, 12]"
  by (simp_all add: toyWorker_def initialWorker_def)

definition toyFrame :: DecryptRequest where
  "toyFrame = sealFrame toyCrypto (replicate 32 9) 1 (replicate 12 0) toyCtx [0, 0, 0, 1, 5, 0, 0, 0]"

lemma toyFrame_parse: "parsePlaintext [8, 12] [0, 0, 0, 1, 5, 0, 0, 0] = Inr [5]"
  by (simp add: parsePlaintext_def getUint_def subbytes_def be_value_def eval_nat_numeral)

definition toyForged :: DecryptRequest where
  "toyForged = \<lparr>req_ciphertext = [], req_nonce = replicate 12 0, req_counter = 2, req_aad = toyCtx\<rparr>"

lemma toyForged_fails:
  "openFrame toyCrypto toyForged (message_key toyCrypto k c) = Inl (Error ''OperationError'')"
proof -
  have "message_key toyCrypto k c = replicate 32 7"
    by (simp add: message_key_def deriveStep_def toyCrypto_def)
  then show ?thesis
    by (simp add: openFrame_def toyForged_def encodeAad_def importAes_def)
      (simp add: toyCrypto_def throw_def)
qed

lemma toyWorker_recv: "recv_inv toyCrypto (replicate 32 9) toyWorker"
  using toyWorker_sync by (simp add: in_sync_def)

lemma in_sync_deliver_inv:
  assumes "in_sync W k A B" and "n \<le> cfg_maxSkipped (config B) + 1"
  shows "deliver_inv W k (outboundCounter A) n {} B"
  using assms by (simp add: in_sync_def deliver_inv_def)

text \<open>
  C1. The ratchet delivers in any order. Let a sender and a receiver share a chain key and be
  level, and let the sender encrypt the messages \<open>js\<close>, each small enough for a padding bucket,
  no more of them than the skipped-key window plus one. Whatever selection of the frames reaches
  the receiver, in whatever order, each at most once, the receiver returns for every frame
  exactly the bytes that were sent in it.
\<close>

theorem ratchet_delivers_in_any_order:
  assumes W: "hkdf_length_ok W" "aead_roundtrip_ok W"
    and sync: "in_sync W k A B"
    and fits: "\<forall>j \<in> set js. fits_bucket (cfg_paddingBuckets (config A)) (job_data j)"
    and len: "length js \<le> cfg_maxSkipped (config A) + 1"
    and ord: "distinct is" "set is \<subseteq> {..<length js}"
  shows "snd (decryptAll W
           (map (\<lambda>i. toRequest (job_ctx (js ! i)) (projr (snd (encryptAll W js A) ! i))) is) B) =
         map (\<lambda>i. Inr (job_data (js ! i))) is"
proof -
  let ?B = "cfg_paddingBuckets (config A)"
  define nn where "nn i = randomBytes (job_nonce (js ! i)) NONCE_BYTES" for i
  define pts where "pts i = projr (buildPlaintext (job_pad (js ! i)) ?B (job_data (js ! i)))" for i
  let ?seal = "\<lambda>i. sealFrame W k (outboundCounter A + i + 1) (nn i) (job_ctx (js ! i)) (pts i)"
  have cfg: "config B = config A" and sinv: "send_inv W k A" using sync by (simp_all add: in_sync_def)
  have frame: "toRequest (job_ctx (js ! i)) (projr (snd (encryptAll W js A) ! i)) = ?seal i"
    if "i < length js" for i
    using encryptAll_nth [OF W(1) sinv fits that] by (auto simp: nn_def pts_def)
  have "parsePlaintext ?B (pts i) = Inr (job_data (js ! i))" if "i < length js" for i
    using that fits by (simp add: pts_def padding.dec_enc)
  then have frames: "length (nn i) = NONCE_BYTES \<and> parsePlaintext ?B (pts i) = Inr (job_data (js ! i))"
    if "i < length js" for i using that by (simp add: nn_def)
  have "map (\<lambda>i. toRequest (job_ctx (js ! i)) (projr (snd (encryptAll W js A) ! i))) is = map ?seal is"
    using frame ord(2) by (intro map_cong) auto
  moreover have "snd (decryptAll W (map ?seal is) B) = map (\<lambda>i. Inr (job_data (js ! i))) is"
    using W frames in_sync_deliver_inv [OF sync] ord len cfg
    by (intro deliver_all [where n = "length js" and D = "{}" and B = ?B]) auto
  ultimately show ?thesis by (simp only:)
qed

theorem ratchet_delivers_in_any_order_witness:
  "snd (decryptAll toyCrypto
     (map (\<lambda>i. toRequest (job_ctx ([toyJob [1, 2, 3], toyJob [4]] ! i))
        (projr (snd (encryptAll toyCrypto [toyJob [1, 2, 3], toyJob [4]] toyWorker) ! i))) [1, 0])
     toyWorker) = [Inr [4], Inr [1, 2, 3]]"
  using ratchet_delivers_in_any_order [OF toyCrypto_ok(1,2) toyWorker_sync,
      of "[toyJob [1, 2, 3], toyJob [4]]" "[1, 0]"]
  by (simp add: toyWorker_def toyJob_def fits_bucket_def)

section \<open>Key agreement\<close>

lemma compareBytes_anti: "compareBytes xs ys = - compareBytes ys xs"
  by (induction xs ys rule: compareBytes.induct) auto

lemma compareBytes_eq_0: "compareBytes xs ys = 0 \<longleftrightarrow> xs = ys"
  by (induction xs ys rule: compareBytes.induct) (auto simp: word_uint_eq_iff)

lemma establish_ok:
  assumes "dh_ok W" "wc_publicKey W b \<noteq> wc_publicKey W a"
    "wc_x25519 W a (wc_publicKey W b) = Some s"
  shows "establishSession W (wc_publicKey W b) h (fst (generateIdentity W a w0)) =
    (let root = wc_hkdf W s (wc_sha256 W (utf8Encode (''onlytwo-v2:'' @ h))) ROOT_INFO AES_KEY_BYTES;
         low = compareBytes (wc_publicKey W a) (wc_publicKey W b) < 0
     in ((fst (generateIdentity W a w0))
          \<lparr>sendChainKey := Some (wc_hkdf W root ZERO_32 (if low then CHAIN_SEND_INFO else CHAIN_RECV_INFO) AES_KEY_BYTES),
           receiveChainKey := Some (wc_hkdf W root ZERO_32 (if low then CHAIN_RECV_INFO else CHAIN_SEND_INFO) AES_KEY_BYTES),
           sessionEstablished := True\<rparr>, Inr True))"
  using assms
  by (simp add: establishSession_def generateIdentity_def resetAll_def resetSession_def Let_def
      importX25519Public_def dh_ok_def compareBytes_eq_0)

text \<open>
  C17. Key agreement. Two workers, whatever they did before, generate identities from different
  private keys and establish a session with each other's public key and the same profile hash.
  If X25519 succeeds, both succeed, and each one's sending chain is the other's receiving
  chain with both counters at zero, so that delivery works in both directions.
\<close>

theorem key_agreement:
  assumes W: "dh_ok W" and ne: "wc_publicKey W a \<noteq> wc_publicKey W b"
    and dh: "wc_x25519 W a (wc_publicKey W b) = Some s" and cfg: "config wa = config wb"
  shows "\<exists>A B ka kb.
    establishSession W (wc_publicKey W b) h (fst (generateIdentity W a wa)) = (A, Inr True) \<and>
    establishSession W (wc_publicKey W a) h (fst (generateIdentity W b wb)) = (B, Inr True) \<and>
    in_sync W ka A B \<and> in_sync W kb B A"
proof -
  have dh': "wc_x25519 W b (wc_publicKey W a) = Some s" using W dh by (simp add: dh_ok_def)
  have flip: "compareBytes (wc_publicKey W b) (wc_publicKey W a) < 0 \<longleftrightarrow>
      \<not> compareBytes (wc_publicKey W a) (wc_publicKey W b) < 0"
    using ne compareBytes_anti [of "wc_publicKey W a" "wc_publicKey W b"]
      compareBytes_eq_0 [of "wc_publicKey W a" "wc_publicKey W b"] by auto
  obtain A where A: "establishSession W (wc_publicKey W b) h (fst (generateIdentity W a wa)) = (A, Inr True)"
    using establish_ok [OF W ne [symmetric] dh] by (simp add: Let_def)
  obtain B where B: "establishSession W (wc_publicKey W a) h (fst (generateIdentity W b wb)) = (B, Inr True)"
    using establish_ok [OF W ne dh'] by (simp add: Let_def)
  note AB = A [unfolded establish_ok [OF W ne [symmetric] dh] Let_def, simplified, symmetric]
    B [unfolded establish_ok [OF W ne dh'] Let_def, simplified, symmetric]
  have "\<exists>k. in_sync W k A B" "\<exists>k. in_sync W k B A"
    by (rule exI, rule in_sync_fresh;
        simp add: AB flip generateIdentity_def resetAll_def resetSession_def Let_def cfg)+
  with A B show ?thesis by blast
qed

theorem key_agreement_witness:
  "\<exists>A B ka kb.
    establishSession toyCrypto (pad32 [2]) ''h'' (fst (generateIdentity toyCrypto [1] initialWorker)) = (A, Inr True) \<and>
    establishSession toyCrypto (pad32 [1]) ''h'' (fst (generateIdentity toyCrypto [2] initialWorker)) = (B, Inr True) \<and>
    in_sync toyCrypto ka A B \<and> in_sync toyCrypto kb B A"
  using key_agreement [OF toyCrypto_ok(3), of "[1]" "[2]" _ initialWorker initialWorker "''h''"]
  by (simp add: toyCrypto_def pad32_def)

section \<open>Replays\<close>

text \<open>
  Without forgeries every cached key is below the highest counter, and a counter once
  accepted is neither cached nor ahead.
\<close>

definition spent_inv :: "nat set \<Rightarrow> worker \<Rightarrow> bool" where
  "spent_inv S w =
     ((\<forall>c \<in> keyset (skippedKeys w). c \<le> highestInboundCounter w) \<and>
      (\<forall>c \<in> S. c \<le> highestInboundCounter w \<and> c \<notin> keyset (skippedKeys w)))"

lemma spent_inv_commit:
  assumes inv: "recv_inv W k w" and sp: "spent_inv S w"
    and ck: "chooseKey W c (chain_at W k (highestInboundCounter w)) w = (w1, Inr kc)"
  shows "c \<notin> S \<and> spent_inv (insert c S) (commitKey c kc w1)"
proof (cases "kc_cached kc")
  case True
  with chooseKey_spec [OF inv ck] have "w1 = w" "c \<in> keyset (skippedKeys w)" by auto
  with True sp show ?thesis by (auto simp: spent_inv_def commitKey_def)
next
  case False
  with chooseKey_spec [OF inv ck]
  have lt: "highestInboundCounter w < c" and kc: "kc_nextHighest kc = c"
    and keys: "keyset (skippedKeys w1) \<subseteq> keyset (skippedKeys w) \<union> {highestInboundCounter w + 1..<c}"
    by auto
  have "x < c" if "x \<in> keyset (skippedKeys w1)" for x
    using subsetD [OF keys that] sp lt by (auto simp: spent_inv_def)
  moreover have "x \<notin> keyset (skippedKeys w1)" if "x \<in> S" for x
    using that keys sp by (fastforce simp: spent_inv_def)
  ultimately show ?thesis
    using sp lt False kc by (fastforce simp: spent_inv_def commitKey_def)
qed

lemma openFrame_error:
  assumes "hkdf_length_ok W" "length (req_nonce r) = NONCE_BYTES" "openFrame W r (message_key W k c) = Inl e"
  shows "e = Error ''OperationError''"
  using assms(2,3) length_message_key [OF assms(1), of k c]
  by (auto simp: openFrame_def encodeAad_def importAes_def throw_def split: option.splits)

lemma spent_inv_decrypt:
  assumes W: "hkdf_length_ok W" and inv: "recv_inv W k w" and sp: "spent_inv S w"
    and dec: "decryptBinary W r w = (w', x)" and auth: "x \<noteq> Inl (Error ''OperationError'')"
  shows "if is_ok x then req_counter r \<notin> S \<and> spent_inv (insert (req_counter r) S) w' else spent_inv S w'"
proof (cases "chooseKey W (req_counter r) (chain_at W k (highestInboundCounter w)) w")
  case (Pair w1 res)
  have rk: "sessionEstablished w" "receiveChainKey w = Some (chain_at W k (highestInboundCounter w))"
    using inv by (simp_all add: recv_inv_def)
  show ?thesis
  proof (cases res)
    case (Inl e)
    with Pair have "w1 = w" by (auto simp: chooseKey_def split: option.splits if_splits prod.splits)
    with Inl Pair rk dec sp show ?thesis by (auto simp: decryptBinary_def split: if_splits)
  next
    case (Inr kc)
    note sc = spent_inv_commit [OF inv sp Pair [unfolded Inr]]
    have key: "kc_message kc = message_key W k (req_counter r)"
      using chooseKey_spec [OF inv Pair [unfolded Inr]] by simp
    have "spent_inv S w'" if "spent_inv (insert c S) w'" for c using that by (simp add: spent_inv_def)
    with sc dec auth sp Pair Inr rk openFrame_error [OF W, of r k "req_counter r"] show ?thesis
      by (auto simp: decryptBinary_def key split: if_splits sum.splits)
  qed
qed

lemma replay_refused:
  assumes W: "hkdf_length_ok W" "aead_roundtrip_ok W" and inv: "recv_inv W k w"
    and n: "length n = NONCE_BYTES" and o: "openable w c" and lt: "highestInboundCounter w < c"
    and nc: "c \<notin> keyset (skippedKeys w)"
  shows "snd (decryptAll W [sealFrame W k c n ctx pt, sealFrame W k c n ctx pt] w) =
    [parsePlaintext (cfg_paddingBuckets (config w)) pt, throw ''Replay detected'']"
proof -
  obtain w1 kc where ck: "chooseKey W c (chain_at W k (highestInboundCounter w)) w = (w1, Inr kc)"
    and dec: "decryptBinary W (sealFrame W k c n ctx pt) w =
       (commitKey c kc w1, parsePlaintext (cfg_paddingBuckets (config w)) pt)"
    using decrypt_sealed [OF W inv o n] by blast
  note sp = chooseKey_spec [OF inv ck]
  with nc have kc: "\<not> kc_cached kc" "kc_nextHighest kc = c" "kc_nextChain kc = chain_at W k c"
    and c: "c \<notin> keyset (skippedKeys w1)" and w1: "sessionEstablished w1"
    by (auto simp: recv_inv_def split: if_splits)
  have "decryptBinary W (sealFrame W k c n ctx pt) (commitKey c kc w1) =
      (commitKey c kc w1, throw ''Replay detected'')"
    using kc c w1 n
    by (simp add: decryptBinary_def commitKey_def chooseKey_def map_get_None_iff [symmetric] throw_def)
  with dec show ?thesis by simp
qed

text \<open>The counters of the frames that were accepted, in order.\<close>

definition acceptedCounters :: "DecryptRequest list \<Rightarrow> bytes res list \<Rightarrow> nat list" where
  "acceptedCounters rs xs = map (\<lambda>(r, x). req_counter r) (filter (\<lambda>(r, x). is_ok x) (zip rs xs))"

lemma acceptedCounters_distinct:
  assumes "hkdf_length_ok W" "recv_inv W k w" "spent_inv S w"
    "Inl (Error ''OperationError'') \<notin> set (snd (decryptAll W rs w))"
  shows "distinct (acceptedCounters rs (snd (decryptAll W rs w))) \<and>
         S \<inter> set (acceptedCounters rs (snd (decryptAll W rs w))) = {}"
  using assms(2-)
proof (induction rs arbitrary: w S)
  case Nil
  then show ?case by (simp add: acceptedCounters_def)
next
  case (Cons r rs)
  obtain w' x where dec: "decryptBinary W r w = (w', x)" by fastforce
  have auth: "x \<noteq> Inl (Error ''OperationError'')"
    and rest: "Inl (Error ''OperationError'') \<notin> set (snd (decryptAll W rs w'))"
    using Cons.prems(3) dec by (auto simp: case_prod_beta)
  have inv': "recv_inv W k w'" using recv_inv_decrypt [OF Cons.prems(1), of r] dec by simp
  note step = spent_inv_decrypt [OF assms(1) Cons.prems(1,2) dec auth]
  show ?case
  proof (cases "is_ok x")
    case True
    with step Cons.IH [OF inv' _ rest] dec show ?thesis
      by (auto simp: acceptedCounters_def case_prod_beta)
  next
    case False
    with step Cons.IH [OF inv' _ rest, of S] dec show ?thesis
      by (auto simp: acceptedCounters_def case_prod_beta)
  qed
qed

text \<open>
  C18. No replays on an untampered channel. Starting from a session whose cached keys all lie
  below the highest accepted counter, in any run of decryptions in which no frame fails
  authentication, no counter is accepted twice.
\<close>

theorem no_replay_without_forgery:
  assumes "hkdf_length_ok W" and "recv_inv W k w"
    and "\<forall>c \<in> keyset (skippedKeys w). c \<le> highestInboundCounter w"
    and "Inl (Error ''OperationError'') \<notin> set (snd (decryptAll W rs w))"
  shows "distinct (acceptedCounters rs (snd (decryptAll W rs w)))"
  using acceptedCounters_distinct [OF assms(1,2), of "{}" rs] assms(3,4) by (simp add: spent_inv_def)

theorem no_replay_without_forgery_witness:
  "distinct (acceptedCounters [toyFrame, toyFrame] (snd (decryptAll toyCrypto [toyFrame, toyFrame] toyWorker)))"
  by (rule no_replay_without_forgery [OF toyCrypto_ok(1) toyWorker_recv])
    (use replay_refused [OF toyCrypto_ok(1,2) toyWorker_recv, of "replicate 12 0" 1] in
      \<open>simp_all add: toyWorker_sel toyFrame_def toyFrame_parse throw_def openable_def keyset_def del: decryptAll.simps\<close>)

lemma decrypt_forged:
  assumes inv: "recv_inv W k w" and g: "openable w (req_counter g)" "length (req_nonce g) = NONCE_BYTES"
    and fail: "openFrame W g (message_key W k (req_counter g)) = Inl e"
  obtains w1 kc where
    "chooseKey W (req_counter g) (chain_at W k (highestInboundCounter w)) w = (w1, Inr kc)"
    "decryptBinary W g w = (w1, Inl e)"
proof -
  obtain w1 kc where ck: "chooseKey W (req_counter g) (chain_at W k (highestInboundCounter w)) w = (w1, Inr kc)"
    using chooseKey_openable [OF g(1)] by blast
  have "kc_message kc = message_key W k (req_counter g)" using chooseKey_spec [OF inv ck] by simp
  then have "decryptBinary W g w = (w1, Inl e)"
    using inv g ck fail by (simp add: decryptBinary_def recv_inv_def openable_def)
  with ck that show ?thesis by blast
qed

text \<open>
  C20. A forged frame re-opens a counter. \<^verbatim>\<open>decryptBinary\<close> caches the keys of the counters it
  skips before it has authenticated the frame. Let the receiver's cache be empty and its highest
  counter \<open>h\<close>. After a frame with counter \<open>h + 2\<close> that fails authentication, the authentic
  frame with counter \<open>h + 1\<close> is opened from the cache, which does not raise the highest
  counter, and the very same frame is then accepted a second time.
\<close>

theorem forged_frame_enables_replay:
  assumes W: "hkdf_length_ok W" "aead_roundtrip_ok W" and inv: "recv_inv W k w"
    and start: "skippedKeys w = []" "highestInboundCounter w = h" "1 \<le> cfg_maxSkipped (config w)"
    and n: "length n = NONCE_BYTES" and msg: "parsePlaintext (cfg_paddingBuckets (config w)) pt = Inr m"
    and g: "req_counter g = h + 2" "length (req_nonce g) = NONCE_BYTES"
    and forged: "openFrame W g (message_key W k (h + 2)) = Inl e"
  shows "snd (decryptAll W [g, sealFrame W k (h + 1) n ctx pt, sealFrame W k (h + 1) n ctx pt] w) =
         [Inl e, Inr m, Inr m]"
proof -
  let ?f = "sealFrame W k (h + 1) n ctx pt"
  have og: "openable w (req_counter g)" using start g by (simp add: openable_def)
  obtain w1 kc where ck1: "chooseKey W (req_counter g) (chain_at W k (highestInboundCounter w)) w = (w1, Inr kc)"
    and d1: "decryptBinary W g w = (w1, Inl e)"
    using decrypt_forged [OF inv og g(2)] forged g(1) by auto
  have w1: "recv_inv W k w1" "config w1 = config w" "highestInboundCounter w1 = h"
    using chooseKey_spec [OF inv ck1] start by auto
  have "keyset (skippedKeys w1) = {h + 1}"
    using chooseKey_fresh_cache [OF ck1] start g
      skipKeys_room [of "[]" "h + 2" "h + 1" "cfg_maxSkipped (config w)"] by (auto simp: wf_map_def)
  then have o1: "openable w1 (h + 1)" and c1: "h + 1 \<in> keyset (skippedKeys w1)"
    using w1 by (auto simp: openable_def)
  obtain w2 kc2 where ck2: "chooseKey W (h + 1) (chain_at W k (highestInboundCounter w1)) w1 = (w2, Inr kc2)"
    and d2: "decryptBinary W ?f w1 = (commitKey (h + 1) kc2 w2, parsePlaintext (cfg_paddingBuckets (config w1)) pt)"
    by (rule decrypt_sealed [OF W w1(1) o1 n])
  have kc2: "kc_cached kc2" "w2 = w1" using chooseKey_spec [OF w1(1) ck2] c1 by (auto split: if_splits)
  let ?w3 = "commitKey (h + 1) kc2 w1"
  have w3: "recv_inv W k ?w3" "highestInboundCounter ?w3 = h"
    using recv_inv_commit [OF w1(1), of kc2 "h + 1"] kc2 w1 by (simp_all add: commitKey_def)
  then have o3: "openable ?w3 (h + 1)" using w1 start by (simp add: openable_def)
  obtain w4 kc4 where "decryptBinary W ?f ?w3 =
      (commitKey (h + 1) kc4 w4, parsePlaintext (cfg_paddingBuckets (config ?w3)) pt)"
    by (rule decrypt_sealed [OF W w3(1) o3 n])
  with d1 d2 kc2 msg w1 show ?thesis by simp
qed

theorem forged_frame_enables_replay_witness:
  "snd (decryptAll toyCrypto [toyForged, toyFrame, toyFrame] toyWorker) =
   [throw ''OperationError'', Inr [5], Inr [5]]"
  using forged_frame_enables_replay [OF toyCrypto_ok(1,2) toyWorker_recv, of 0 "replicate 12 0"
      "[0, 0, 0, 1, 5, 0, 0, 0]" "[5]" toyForged "Error ''OperationError''" toyCtx] toyForged_fails
  by (simp add: toyWorker_sel toyFrame_parse toyForged_def toyFrame_def throw_def del: decryptAll.simps)

section \<open>The worker's invariant\<close>

definition config_ok :: "CryptoConfig \<Rightarrow> bool" where
  "config_ok c =
     (sorted (cfg_paddingBuckets c) \<and> distinct (cfg_paddingBuckets c) \<and> (\<forall>b \<in> set (cfg_paddingBuckets c). 1024 \<le> b) \<and>
      32 \<le> cfg_maxSkipped c \<and> cfg_maxSkipped c \<le> 4096)"

definition worker_ok :: "webcrypto \<Rightarrow> worker \<Rightarrow> bool" where
  "worker_ok W w =
     (config_ok (config w) \<and> identityPublicRaw w = map_option (wc_publicKey W) (identityPrivate w) \<and>
      rootKey w = None \<and>
      (if sessionEstablished w then identityPrivate w \<noteq> None \<and> (\<exists>k. send_inv W k w) \<and> (\<exists>k. recv_inv W k w)
       else sendChainKey w = None \<and> receiveChainKey w = None \<and> outboundCounter w = 0 \<and>
            highestInboundCounter w = 0 \<and> skippedKeys w = []))"

lemma worker_ok_initial: "worker_ok W initialWorker"
  by (simp add: worker_ok_def initialWorker_def config_ok_def)

lemma worker_ok_resetSession: "worker_ok W w \<Longrightarrow> worker_ok W (resetSession w)"
  by (simp add: worker_ok_def resetSession_def)

lemma worker_ok_configure: "worker_ok W w \<Longrightarrow> worker_ok W (configure bs mx ver w)"
  by (cases bs) (auto simp: worker_ok_def configure_def resetSession_def config_ok_def Let_def)

lemma worker_ok_generate: "worker_ok W w \<Longrightarrow> worker_ok W (fst (generateIdentity W priv w))"
  by (simp add: worker_ok_def generateIdentity_def resetAll_def resetSession_def Let_def)

lemma worker_ok_establish:
  assumes ok: "worker_ok W w"
  shows "worker_ok W (fst (establishSession W peer h w))"
proof -
  have "\<exists>k. send_inv W k w'" "\<exists>k. recv_inv W k w'"
    if "sessionEstablished w'" "sendChainKey w' = Some s" "receiveChainKey w' = Some r"
      "outboundCounter w' = 0" "highestInboundCounter w' = 0" "skippedKeys w' = []" for w' s r
    using that by (auto simp: send_inv_def recv_inv_def cache_ok_def wf_map_def)
  with ok show ?thesis
    by (auto simp: worker_ok_def establishSession_def resetSession_def Let_def
        split: option.splits sum.splits)
qed

lemma chooseKey_frame:
  "sendChainKey (fst (chooseKey W c ch w)) = sendChainKey w"
  "outboundCounter (fst (chooseKey W c ch w)) = outboundCounter w"
  "identityPrivate (fst (chooseKey W c ch w)) = identityPrivate w"
  "identityPublicRaw (fst (chooseKey W c ch w)) = identityPublicRaw w"
  "rootKey (fst (chooseKey W c ch w)) = rootKey w"
  "sessionEstablished (fst (chooseKey W c ch w)) = sessionEstablished w"
  "config (fst (chooseKey W c ch w)) = config w"
  by (simp_all add: chooseKey_def split: option.splits prod.splits)

lemma decrypt_frame:
  "sendChainKey (fst (decryptBinary W r w)) = sendChainKey w \<and>
   outboundCounter (fst (decryptBinary W r w)) = outboundCounter w \<and>
   identityPrivate (fst (decryptBinary W r w)) = identityPrivate w \<and>
   identityPublicRaw (fst (decryptBinary W r w)) = identityPublicRaw w \<and>
   rootKey (fst (decryptBinary W r w)) = rootKey w \<and>
   sessionEstablished (fst (decryptBinary W r w)) = sessionEstablished w \<and>
   config (fst (decryptBinary W r w)) = config w"
proof (cases "receiveChainKey w")
  case (Some ch)
  then show ?thesis
    using chooseKey_frame [of W "req_counter r" ch w]
    by (cases "chooseKey W (req_counter r) ch w")
      (simp add: decryptBinary_def commitKey_def split: sum.split)
qed (simp add: decryptBinary_def)

lemma worker_ok_decrypt:
  assumes ok: "worker_ok W w"
  shows "worker_ok W (fst (decryptBinary W r w))"
proof (cases "sessionEstablished w")
  case True
  with ok obtain k where "recv_inv W k w" by (auto simp: worker_ok_def)
  from recv_inv_decrypt [OF this, of r]
  have "\<exists>k. recv_inv W k (fst (decryptBinary W r w))" by blast
  with True ok show ?thesis by (simp add: worker_ok_def send_inv_def decrypt_frame)
next
  case False
  with ok show ?thesis by (simp add: worker_ok_def decryptBinary_def split: option.split)
qed

lemma worker_ok_encrypt:
  assumes ok: "worker_ok W w"
  shows "worker_ok W (fst (encryptBinary W rn rp data ctx w))"
proof (cases "sessionEstablished w")
  case True
  with ok obtain k k' where k: "send_inv W k w" and k': "recv_inv W k' w" by (auto simp: worker_ok_def)
  let ?w' = "fst (encryptBinary W rn rp data ctx w)"
  have eq: "?w' = w\<lparr>sendChainKey := Some (chain_at W k (Suc (outboundCounter w))),
                    outboundCounter := Suc (outboundCounter w)\<rparr>"
    using k by (simp add: encryptBinary_def send_inv_def case_prod_beta Let_def)
  have "send_inv W k ?w'" using k unfolding eq by (simp add: send_inv_def)
  moreover have "recv_inv W k' ?w'" using k' unfolding eq by (simp add: recv_inv_def)
  ultimately show ?thesis using ok True unfolding worker_ok_def eq by auto
next
  case False
  with ok show ?thesis by (simp add: worker_ok_def encryptBinary_def split: option.split)
qed

lemma worker_ok_handle: "worker_ok W w \<Longrightarrow> worker_ok W (fst (handle W r w))"
proof (cases r)
  case Reset
  assume "worker_ok W w"
  with Reset worker_ok_resetSession [of W w] show ?thesis
    by (simp add: worker_ok_def resetAll_def resetSession_def)
qed (simp_all add: case_prod_beta worker_ok_configure worker_ok_generate worker_ok_establish
    worker_ok_encrypt worker_ok_decrypt)

interpretation crypto_worker: invariant_system "\<lambda>r w. fst (handle W r w)" "worker_ok W" for W
  by unfold_locales (rule worker_ok_handle)

text \<open>
  C4. The worker's state invariant. After any sequence of requests (configure, generate,
  establish, encrypt, decrypt, reset, in any order and with any arguments, forged frames
  included): the configuration is within its limits; the public key belongs to the private key;
  the root key is not kept; without a session there is no key and no counter; with one, the
  chain keys stand exactly at the counters of one key schedule each, the skipped-key cache has no
  more entries than configured, and every cached key is the right key for its counter.
\<close>

theorem worker_invariant:
  "worker_ok W (fold (\<lambda>r w. fst (handle W r w)) rs initialWorker)"
  using worker_ok_initial by (rule crypto_worker.run_inv)

text \<open>
  C21. Padding. A plaintext is padded to the smallest configured bucket that holds it and its
  four-byte length, whatever its content, so the size of a ciphertext depends on the bucket
  only; unpadding returns the plaintext; and padding fails, with the source's error, exactly
  when no bucket is large enough.
\<close>

theorem padding_hides_length_and_roundtrips:
  assumes "length m < 2 ^ 32"
  shows "case buildPlaintext rnd buckets m of
           Inl e \<Rightarrow> e = Error ''Payload too large for selected profile'' \<and>
             (\<forall>b \<in> set buckets. b < length m + 4)
         | Inr pt \<Rightarrow> length pt \<in> set buckets \<and> length m + 4 \<le> length pt \<and>
             (\<forall>b \<in> set buckets. length m + 4 \<le> b \<longrightarrow> length pt \<le> b) \<and>
             parsePlaintext buckets pt = Inr m"
proof (cases "buildPlaintext rnd buckets m")
  case (Inl e)
  then have "selectPaddingBucket buckets (length m) = Inl e"
    by (cases "selectPaddingBucket buckets (length m)") (simp_all add: buildPlaintext_def)
  with Inl selectPaddingBucket_exists [of buckets "length m"] show ?thesis
    by (force simp: selectPaddingBucket_def throw_def split: option.splits)
next
  case (Inr pt)
  with assms parse_build selectPaddingBucket_ok [OF buildPlaintext_length [OF Inr]] show ?thesis
    by simp
qed

theorem padding_hides_length_and_roundtrips_witness:
  "case buildPlaintext (\<lambda>_. 0) [1024, 4096] [104, 105] of
     Inl e \<Rightarrow> False
   | Inr pt \<Rightarrow> length pt = 1024 \<and> parsePlaintext [1024, 4096] pt = Inr [104, 105]"
  using padding_hides_length_and_roundtrips [of "[104, 105]" "[1024, 4096]" "\<lambda>_. 0"]
  by (auto split: sum.splits)

end
