(* ===== verification/Messages.thy ===== *)
theory Messages
  imports Bytes Profiles
begin

text \<open>
  The application protocol (\<^verbatim>\<open>client/src/protocol/appMessages.ts\<close>,
  \<^verbatim>\<open>streams.ts\<close>, and \<^verbatim>\<open>client/src/utils/safeJson.ts\<close>): the messages, their JSON
  objects, the validating decoders, and the check that a message arrived on its stream.
  The value of \<^verbatim>\<open>Date.now()\<close> is an argument \<open>now\<close>.
\<close>

section \<open>JSON values\<close>

text \<open>
  What \<^verbatim>\<open>JSON.parse\<close> can return. A number is a finite double (a rational) or, for a literal
  too large for a double, an infinity. The entries of an object are in insertion order.
\<close>

datatype js_number = Finite rat | Infinite

datatype json =
    JNull | JBool bool | JNum js_number | JStr string | JArr "json list" | JObj "(string \<times> json) list"

type_synonym jobject = "(string, json) jsmap"

abbreviation JInt :: "int \<Rightarrow> json" where
  "JInt i \<equiv> JNum (Finite (of_int i))"

section \<open>Accessors (safeJson.ts)\<close>

definition objectOf :: "json \<Rightarrow> jobject res" where
  "objectOf v = (case v of JObj obj \<Rightarrow> Inr obj | _ \<Rightarrow> throw ''Expected JSON object'')"

definition requireString :: "jobject \<Rightarrow> string \<Rightarrow> string res" where
  "requireString obj key =
     (case map_get obj key of Some (JStr s) \<Rightarrow> Inr s | _ \<Rightarrow> throw (''Missing string: '' @ key))"

definition optionalString :: "jobject \<Rightarrow> string \<Rightarrow> string \<Rightarrow> string" where
  "optionalString obj key fallback =
     (case map_get obj key of Some (JStr s) \<Rightarrow> s | _ \<Rightarrow> fallback)"

definition requireNumber :: "jobject \<Rightarrow> string \<Rightarrow> rat res" where
  "requireNumber obj key =
     (case map_get obj key of Some (JNum (Finite r)) \<Rightarrow> Inr r | _ \<Rightarrow> throw (''Missing number: '' @ key))"

definition optionalNumber :: "jobject \<Rightarrow> string \<Rightarrow> rat \<Rightarrow> rat" where
  "optionalNumber obj key fallback =
     (case map_get obj key of Some (JNum (Finite r)) \<Rightarrow> r | _ \<Rightarrow> fallback)"

definition MAX_SAFE_INTEGER :: int where
  "MAX_SAFE_INTEGER = 9007199254740991"

definition isSafeInteger :: "rat \<Rightarrow> bool" where
  "isSafeInteger r = (r = of_int \<lfloor>r\<rfloor> \<and> \<bar>\<lfloor>r\<rfloor>\<bar> \<le> MAX_SAFE_INTEGER)"

definition requireInteger :: "jobject \<Rightarrow> string \<Rightarrow> int \<Rightarrow> int res" where
  "requireInteger obj key mn =
     res_bind (requireNumber obj key) (\<lambda>value.
       if \<not> isSafeInteger value \<or> value < of_int mn then throw (''Invalid integer: '' @ key)
       else Inr \<lfloor>value\<rfloor>)"

section \<open>Messages\<close>

abbreviation MAX_TEXT_MESSAGE_CHARS :: nat where "MAX_TEXT_MESSAGE_CHARS \<equiv> 8000"

datatype ReliableChannelName = ChControl | ChText

datatype CoreAppMessage =
    SessionVerified int
  | TextMessage string string int \<comment> \<open>message id, body, created at\<close>
  | FileOffer string string string int int int "string option"
      \<comment> \<open>file id, name, mime, size, chunk size, total chunks, sha256\<close>
  | FileAccept string
  | FileReject string string \<comment> \<open>file id, reason\<close>
  | FileChunk string int int string \<comment> \<open>file id, index, total chunks, data\<close>
  | FileAck string int
  | FileNack string int string
  | FilePause string string
  | FileResume string
  | FileCancel string string
  | FileComplete string "string option"
  | VoiceStart string int int "VoicePrivacyMode option" \<comment> \<open>stream id, sample rate, frame ms, mode\<close>
  | VoiceFrame string int int int int string
      \<comment> \<open>stream id, sequence, sent at, sample rate, frame ms, pcm16\<close>
  | VoiceStop string

text \<open>\<^verbatim>\<open>ReliableBodyMessage\<close> is the subtype of the core messages on which this holds.\<close>

fun isReliableBody :: "CoreAppMessage \<Rightarrow> bool" where
  "isReliableBody (FileChunk _ _ _ _) = False"
| "isReliableBody (FileAck _ _) = False"
| "isReliableBody (FileNack _ _ _) = False"
| "isReliableBody (VoiceFrame _ _ _ _ _ _) = False"
| "isReliableBody _ = True"

datatype AppMessage =
    Core CoreAppMessage
  | ReliableMsg string ReliableChannelName CoreAppMessage int int
      \<comment> \<open>id, channel, body, created at, attempt\<close>
  | ReliableAck string
  | ReliableNack string string

record HandshakeMessage =
  hs_publicKey :: string
  hs_profileId :: TransportProfileId
  hs_profileHash :: string
  hs_appVersion :: string
  hs_featureFlags :: "string list"

section \<open>Decoding\<close>

definition boundedString :: "jobject \<Rightarrow> string \<Rightarrow> nat \<Rightarrow> string res" where
  "boundedString obj key mx =
     res_bind (requireString obj key) (\<lambda>value.
       if length value = 0 \<or> length value > mx then throw (''Invalid string: '' @ key) else Inr value)"

definition boundedOptionalString :: "jobject \<Rightarrow> string \<Rightarrow> string \<Rightarrow> nat \<Rightarrow> string res" where
  "boundedOptionalString obj key fallback mx =
     (let value = optionalString obj key fallback in
      if length value > mx then throw (''Invalid string: '' @ key) else Inr value)"

definition isLowerHex :: "nat \<Rightarrow> string \<Rightarrow> bool" where
  "isLowerHex n s = (length s = n \<and> (\<forall>c \<in> set s. c \<in> set ''abcdef0123456789''))"

text \<open>The empty string stands for an absent hash.\<close>

definition optionalSha256 :: "jobject \<Rightarrow> string res" where
  "optionalSha256 obj =
     (let value = optionalString obj ''sha256'' '''' in
      if value \<noteq> '''' \<and> \<not> isLowerHex 64 value then throw ''Invalid sha256'' else Inr value)"

definition nonempty :: "string \<Rightarrow> string option" where
  "nonempty s = (if s = '''' then None else Some s)"

definition optionalTimestamp :: "int \<Rightarrow> jobject \<Rightarrow> string \<Rightarrow> int" where
  "optionalTimestamp now obj key =
     (let value = optionalNumber obj key (of_int now) in
      if \<not> isSafeInteger value \<or> value < 0 \<or> value > 8640000000000000 then now else \<lfloor>value\<rfloor>)"

definition kindOf :: "jobject \<Rightarrow> string" where
  "kindOf obj = (case map_get obj ''kind'' of Some (JStr k) \<Rightarrow> k | _ \<Rightarrow> '''')"

fun voiceModeString :: "VoicePrivacyMode \<Rightarrow> string" where
  "voiceModeString Efficient = ''efficient''"
| "voiceModeString MaxPrivacyMode = ''maximum_privacy''"

definition voiceModeOf :: "string \<Rightarrow> VoicePrivacyMode option res" where
  "voiceModeOf s =
     (if s = '''' then Inr None
      else if s = ''efficient'' then Inr (Some Efficient)
      else if s = ''maximum_privacy'' then Inr (Some MaxPrivacyMode)
      else throw ''Invalid voice mode'')"

definition decodeFileMessage :: "jobject \<Rightarrow> CoreAppMessage res" where
  "decodeFileMessage obj =
     (if kindOf obj = ''file.offer'' then
        res_bind (optionalSha256 obj) (\<lambda>sha256.
        res_bind (boundedString obj ''fileId'' 160) (\<lambda>fileId.
        res_bind (boundedString obj ''name'' 180) (\<lambda>name.
        res_bind (boundedOptionalString obj ''mime'' ''application/octet-stream'' 160) (\<lambda>mime.
        res_bind (requireInteger obj ''size'' 1) (\<lambda>size.
        res_bind (requireInteger obj ''chunkSize'' 1) (\<lambda>chunkSize.
        res_bind (requireInteger obj ''totalChunks'' 1) (\<lambda>totalChunks.
          Inr (FileOffer fileId name mime size chunkSize totalChunks (nonempty sha256)))))))))
      else if kindOf obj = ''file.accept'' then
        res_bind (boundedString obj ''fileId'' 160) (\<lambda>fileId. Inr (FileAccept fileId))
      else if kindOf obj = ''file.reject'' then
        res_bind (boundedString obj ''fileId'' 160) (\<lambda>fileId.
        res_bind (boundedString obj ''reason'' 240) (\<lambda>reason. Inr (FileReject fileId reason)))
      else if kindOf obj = ''file.chunk'' then
        res_bind (boundedString obj ''fileId'' 160) (\<lambda>fileId.
        res_bind (requireInteger obj ''index'' 0) (\<lambda>index.
        res_bind (requireInteger obj ''totalChunks'' 1) (\<lambda>totalChunks.
        res_bind (boundedString obj ''data'' 400000) (\<lambda>data.
          Inr (FileChunk fileId index totalChunks data)))))
      else if kindOf obj = ''file.ack'' then
        res_bind (boundedString obj ''fileId'' 160) (\<lambda>fileId.
        res_bind (requireInteger obj ''index'' 0) (\<lambda>index. Inr (FileAck fileId index)))
      else if kindOf obj = ''file.nack'' then
        res_bind (boundedString obj ''fileId'' 160) (\<lambda>fileId.
        res_bind (requireInteger obj ''index'' 0) (\<lambda>index.
        res_bind (boundedString obj ''reason'' 240) (\<lambda>reason. Inr (FileNack fileId index reason))))
      else if kindOf obj = ''file.pause'' then
        res_bind (boundedString obj ''fileId'' 160) (\<lambda>fileId.
        res_bind (boundedString obj ''reason'' 240) (\<lambda>reason. Inr (FilePause fileId reason)))
      else if kindOf obj = ''file.resume'' then
        res_bind (boundedString obj ''fileId'' 160) (\<lambda>fileId. Inr (FileResume fileId))
      else if kindOf obj = ''file.cancel'' then
        res_bind (boundedString obj ''fileId'' 160) (\<lambda>fileId.
        res_bind (boundedString obj ''reason'' 240) (\<lambda>reason. Inr (FileCancel fileId reason)))
      else if kindOf obj = ''file.complete'' then
        res_bind (optionalSha256 obj) (\<lambda>sha256.
        res_bind (boundedString obj ''fileId'' 160) (\<lambda>fileId. Inr (FileComplete fileId (nonempty sha256))))
      else throw ''Unknown app message'')"

definition decodeCoreAppMessageObject :: "int \<Rightarrow> jobject \<Rightarrow> CoreAppMessage res" where
  "decodeCoreAppMessageObject now obj =
     (if kindOf obj = ''session.verified'' then Inr (SessionVerified (optionalTimestamp now obj ''at''))
      else if kindOf obj = ''text.message'' then
        res_bind (boundedString obj ''messageId'' 160) (\<lambda>messageId.
        res_bind (boundedString obj ''body'' MAX_TEXT_MESSAGE_CHARS) (\<lambda>body.
          Inr (TextMessage messageId body (optionalTimestamp now obj ''createdAt''))))
      else if kindOf obj = ''voice.start'' then
        res_bind (voiceModeOf (optionalString obj ''mode'' '''')) (\<lambda>mode.
        res_bind (boundedString obj ''streamId'' 80) (\<lambda>streamId.
        res_bind (requireInteger obj ''sampleRate'' 1) (\<lambda>sampleRate.
        res_bind (requireInteger obj ''frameMs'' 1) (\<lambda>frameMs.
          Inr (VoiceStart streamId sampleRate frameMs mode)))))
      else if kindOf obj = ''voice.frame'' then
        res_bind (boundedString obj ''streamId'' 80) (\<lambda>streamId.
        res_bind (requireInteger obj ''seq'' 0) (\<lambda>seq.
        res_bind (requireInteger obj ''sentAt'' 0) (\<lambda>sentAt.
        res_bind (requireInteger obj ''sampleRate'' 1) (\<lambda>sampleRate.
        res_bind (requireInteger obj ''frameMs'' 1) (\<lambda>frameMs.
        res_bind (boundedString obj ''pcm16'' 400000) (\<lambda>pcm16.
          Inr (VoiceFrame streamId seq sentAt sampleRate frameMs pcm16)))))))
      else if kindOf obj = ''voice.stop'' then
        res_bind (boundedString obj ''streamId'' 80) (\<lambda>streamId. Inr (VoiceStop streamId))
      else decodeFileMessage obj)"

fun channelString :: "ReliableChannelName \<Rightarrow> string" where
  "channelString ChControl = ''control''"
| "channelString ChText = ''text''"

definition channelOf :: "string \<Rightarrow> ReliableChannelName res" where
  "channelOf s =
     (if s = ''control'' then Inr ChControl else if s = ''text'' then Inr ChText
      else throw ''Invalid reliable channel'')"

definition decodeAppMessageObject :: "int \<Rightarrow> jobject \<Rightarrow> AppMessage res" where
  "decodeAppMessageObject now obj =
     (if kindOf obj = ''reliable.msg'' then
        res_bind (requireString obj ''channel'') (\<lambda>c.
        res_bind (channelOf c) (\<lambda>ch.
          case map_get obj ''body'' of
            Some (JObj body) \<Rightarrow>
              res_bind (decodeCoreAppMessageObject now body) (\<lambda>decodedBody.
              if \<not> isReliableBody decodedBody then throw ''Message kind is not reliable-wrappable''
              else
                res_bind (boundedString obj ''id'' 160) (\<lambda>i.
                res_bind (requireInteger obj ''attempt'' 1) (\<lambda>attempt.
                  Inr (ReliableMsg i ch decodedBody (optionalTimestamp now obj ''createdAt'') attempt))))
          | _ \<Rightarrow> throw ''Invalid reliable body''))
      else if kindOf obj = ''reliable.ack'' then
        res_bind (boundedString obj ''id'' 160) (\<lambda>i. Inr (ReliableAck i))
      else if kindOf obj = ''reliable.nack'' then
        res_bind (boundedString obj ''id'' 160) (\<lambda>i.
        res_bind (boundedString obj ''reason'' 240) (\<lambda>reason. Inr (ReliableNack i reason)))
      else res_bind (decodeCoreAppMessageObject now obj) (\<lambda>m. Inr (Core m)))"

definition flagOf :: "json \<Rightarrow> string option" where
  "flagOf v = (case v of JStr s \<Rightarrow> if length s = 0 \<or> length s > 64 then None else Some s | _ \<Rightarrow> None)"

definition decodeFlags :: "json option \<Rightarrow> string list res" where
  "decodeFlags v =
     (case v of
        Some (JArr xs) \<Rightarrow>
          if length xs > 64 \<or> (\<exists>x \<in> set xs. flagOf x = None) then throw ''Invalid feature flags''
          else Inr (map (the \<circ> flagOf) xs)
      | _ \<Rightarrow> throw ''Invalid feature flags'')"

definition decodeHandshakeObject :: "jobject \<Rightarrow> HandshakeMessage res" where
  "decodeHandshakeObject obj =
     (if kindOf obj \<noteq> ''handshake.v2'' then throw ''Unsupported handshake''
      else
        res_bind (decodeFlags (map_get obj ''featureFlags'')) (\<lambda>featureFlags.
        res_bind (requireString obj ''profileId'') (\<lambda>profileId.
        res_bind (requireString obj ''profileHash'') (\<lambda>profileHashValue.
          case profileIdOfString profileId of
            None \<Rightarrow> throw ''Invalid room profile''
          | Some pid \<Rightarrow>
              if \<not> isLowerHex 32 profileHashValue then throw ''Invalid profile hash''
              else
                res_bind (boundedString obj ''publicKey'' 100) (\<lambda>publicKey.
                res_bind (boundedOptionalString obj ''appVersion'' ''unknown'' 100) (\<lambda>appVersion.
                  Inr \<lparr>hs_publicKey = publicKey, hs_profileId = pid, hs_profileHash = profileHashValue,
                       hs_appVersion = appVersion, hs_featureFlags = featureFlags\<rparr>))))))"

section \<open>Encoding\<close>

text \<open>
  The object literals the program serialises with \<^verbatim>\<open>JSON.stringify\<close>; an optional property
  that is undefined is left out.
\<close>

definition optProp :: "string \<Rightarrow> json option \<Rightarrow> jobject" where
  "optProp key v = (case v of None \<Rightarrow> [] | Some x \<Rightarrow> [(key, x)])"

fun coreObject :: "CoreAppMessage \<Rightarrow> jobject" where
  "coreObject (SessionVerified ts) = [(''kind'', JStr ''session.verified''), (''at'', JInt ts)]"
| "coreObject (TextMessage i body ts) =
     [(''kind'', JStr ''text.message''), (''messageId'', JStr i), (''body'', JStr body), (''createdAt'', JInt ts)]"
| "coreObject (FileOffer i name mime sz chunkSize n sha) =
     [(''kind'', JStr ''file.offer''), (''fileId'', JStr i), (''name'', JStr name), (''mime'', JStr mime),
      (''size'', JInt sz), (''chunkSize'', JInt chunkSize), (''totalChunks'', JInt n)] @
     optProp ''sha256'' (map_option JStr sha)"
| "coreObject (FileAccept i) = [(''kind'', JStr ''file.accept''), (''fileId'', JStr i)]"
| "coreObject (FileReject i r) = [(''kind'', JStr ''file.reject''), (''fileId'', JStr i), (''reason'', JStr r)]"
| "coreObject (FileChunk i ix n d) =
     [(''kind'', JStr ''file.chunk''), (''fileId'', JStr i), (''index'', JInt ix),
      (''totalChunks'', JInt n), (''data'', JStr d)]"
| "coreObject (FileAck i ix) = [(''kind'', JStr ''file.ack''), (''fileId'', JStr i), (''index'', JInt ix)]"
| "coreObject (FileNack i ix r) =
     [(''kind'', JStr ''file.nack''), (''fileId'', JStr i), (''index'', JInt ix), (''reason'', JStr r)]"
| "coreObject (FilePause i r) = [(''kind'', JStr ''file.pause''), (''fileId'', JStr i), (''reason'', JStr r)]"
| "coreObject (FileResume i) = [(''kind'', JStr ''file.resume''), (''fileId'', JStr i)]"
| "coreObject (FileCancel i r) = [(''kind'', JStr ''file.cancel''), (''fileId'', JStr i), (''reason'', JStr r)]"
| "coreObject (FileComplete i sha) =
     [(''kind'', JStr ''file.complete''), (''fileId'', JStr i)] @ optProp ''sha256'' (map_option JStr sha)"
| "coreObject (VoiceStart i rate ms mode) =
     [(''kind'', JStr ''voice.start''), (''streamId'', JStr i), (''sampleRate'', JInt rate), (''frameMs'', JInt ms)] @
     optProp ''mode'' (map_option (JStr \<circ> voiceModeString) mode)"
| "coreObject (VoiceFrame i sq ts rate ms pcm) =
     [(''kind'', JStr ''voice.frame''), (''streamId'', JStr i), (''seq'', JInt sq), (''sentAt'', JInt ts),
      (''sampleRate'', JInt rate), (''frameMs'', JInt ms), (''pcm16'', JStr pcm)]"
| "coreObject (VoiceStop i) = [(''kind'', JStr ''voice.stop''), (''streamId'', JStr i)]"

fun appObject :: "AppMessage \<Rightarrow> jobject" where
  "appObject (Core m) = coreObject m"
| "appObject (ReliableMsg i ch body ts attempt) =
     [(''kind'', JStr ''reliable.msg''), (''id'', JStr i), (''channel'', JStr (channelString ch)),
      (''body'', JObj (coreObject body)), (''createdAt'', JInt ts), (''attempt'', JInt attempt)]"
| "appObject (ReliableAck i) = [(''kind'', JStr ''reliable.ack''), (''id'', JStr i)]"
| "appObject (ReliableNack i r) = [(''kind'', JStr ''reliable.nack''), (''id'', JStr i), (''reason'', JStr r)]"

definition handshakeObject :: "HandshakeMessage \<Rightarrow> jobject" where
  "handshakeObject h =
     [(''kind'', JStr ''handshake.v2''), (''publicKey'', JStr (hs_publicKey h)),
      (''profileId'', JStr (profileIdString (hs_profileId h))), (''profileHash'', JStr (hs_profileHash h)),
      (''appVersion'', JStr (hs_appVersion h)), (''featureFlags'', JArr (map JStr (hs_featureFlags h)))]"

section \<open>Valid messages\<close>

definition bounded :: "nat \<Rightarrow> string \<Rightarrow> bool" where
  "bounded mx s = (0 < length s \<and> length s \<le> mx)"

definition safe_from :: "int \<Rightarrow> int \<Rightarrow> bool" where
  "safe_from mn i = (mn \<le> i \<and> i \<le> MAX_SAFE_INTEGER)"

definition timestamp :: "int \<Rightarrow> bool" where
  "timestamp t = (0 \<le> t \<and> t \<le> 8640000000000000)"

definition sha_ok :: "string option \<Rightarrow> bool" where
  "sha_ok s = (case s of None \<Rightarrow> True | Some h \<Rightarrow> isLowerHex 64 h)"

fun valid_core :: "CoreAppMessage \<Rightarrow> bool" where
  "valid_core (SessionVerified ts) = timestamp ts"
| "valid_core (TextMessage i body ts) = (bounded 160 i \<and> bounded MAX_TEXT_MESSAGE_CHARS body \<and> timestamp ts)"
| "valid_core (FileOffer i name mime sz chunkSize n sha) =
     (bounded 160 i \<and> bounded 180 name \<and> length mime \<le> 160 \<and> safe_from 1 sz \<and> safe_from 1 chunkSize \<and>
      safe_from 1 n \<and> sha_ok sha)"
| "valid_core (FileAccept i) = bounded 160 i"
| "valid_core (FileReject i r) = (bounded 160 i \<and> bounded 240 r)"
| "valid_core (FileChunk i ix n d) =
     (bounded 160 i \<and> safe_from 0 ix \<and> safe_from 1 n \<and> bounded 400000 d)"
| "valid_core (FileAck i ix) = (bounded 160 i \<and> safe_from 0 ix)"
| "valid_core (FileNack i ix r) = (bounded 160 i \<and> safe_from 0 ix \<and> bounded 240 r)"
| "valid_core (FilePause i r) = (bounded 160 i \<and> bounded 240 r)"
| "valid_core (FileResume i) = bounded 160 i"
| "valid_core (FileCancel i r) = (bounded 160 i \<and> bounded 240 r)"
| "valid_core (FileComplete i sha) = (bounded 160 i \<and> sha_ok sha)"
| "valid_core (VoiceStart i rate ms mode) = (bounded 80 i \<and> safe_from 1 rate \<and> safe_from 1 ms)"
| "valid_core (VoiceFrame i sq ts rate ms pcm) =
     (bounded 80 i \<and> safe_from 0 sq \<and> safe_from 0 ts \<and> safe_from 1 rate \<and> safe_from 1 ms \<and> bounded 400000 pcm)"
| "valid_core (VoiceStop i) = bounded 80 i"

fun valid_app :: "AppMessage \<Rightarrow> bool" where
  "valid_app (Core m) = valid_core m"
| "valid_app (ReliableMsg i ch body ts attempt) =
     (bounded 160 i \<and> isReliableBody body \<and> valid_core body \<and> timestamp ts \<and> safe_from 1 attempt)"
| "valid_app (ReliableAck i) = bounded 160 i"
| "valid_app (ReliableNack i r) = (bounded 160 i \<and> bounded 240 r)"

section \<open>The accessors on an object\<close>

lemma isSafeInteger_of_int [simp]: "isSafeInteger (of_int i) \<longleftrightarrow> \<bar>i\<bar> \<le> MAX_SAFE_INTEGER"
  by (simp add: isSafeInteger_def)

lemma requireString_JStr: "map_get obj k = Some (JStr s) \<Longrightarrow> requireString obj k = Inr s"
  by (simp add: requireString_def)

lemma boundedString_JStr: "map_get obj k = Some (JStr s) \<Longrightarrow> bounded mx s \<Longrightarrow> boundedString obj k mx = Inr s"
  by (simp add: boundedString_def requireString_def bounded_def)

lemma boundedString_bounded: "boundedString obj k mx = Inr s \<Longrightarrow> bounded mx s"
  by (auto simp: boundedString_def res_bind_Inr_iff bounded_def split: if_splits)

lemma boundedOptional_bounded: "boundedOptionalString obj k f mx = Inr s \<Longrightarrow> length s \<le> mx"
  by (auto simp: boundedOptionalString_def Let_def split: if_splits)

lemma requireInteger_JInt:
  "map_get obj k = Some (JInt i) \<Longrightarrow> safe_from mn i \<Longrightarrow> 0 \<le> mn \<Longrightarrow> requireInteger obj k mn = Inr i"
  by (simp add: requireInteger_def requireNumber_def safe_from_def)

lemma requireInteger_safe: "requireInteger obj k mn = Inr i \<Longrightarrow> safe_from mn i"
  by (auto simp: requireInteger_def res_bind_Inr_iff safe_from_def isSafeInteger_def le_floor_iff split: if_splits)

lemma optionalTimestamp_JInt:
  "map_get obj k = Some (JInt t) \<Longrightarrow> timestamp t \<Longrightarrow> optionalTimestamp now obj k = t"
  by (simp add: optionalTimestamp_def optionalNumber_def timestamp_def MAX_SAFE_INTEGER_def)

lemma timestamp_optionalTimestamp: "timestamp now \<Longrightarrow> timestamp (optionalTimestamp now obj k)"
  by (auto simp: optionalTimestamp_def timestamp_def Let_def le_floor_iff floor_le_iff)

lemma optionalSha256_ok: "optionalSha256 obj = Inr s \<Longrightarrow> sha_ok (nonempty s)"
  by (auto simp: optionalSha256_def nonempty_def sha_ok_def Let_def split: if_splits)

lemma voiceModeOf_string [simp]: "voiceModeOf (voiceModeString m) = Inr (Some m)"
  by (cases m) (simp_all add: voiceModeOf_def)

lemma voiceModeOf_empty: "voiceModeOf [] = Inr None"
  by (simp add: voiceModeOf_def)

lemma channelOf_string [simp]: "channelOf (channelString c) = Inr c"
  by (cases c) (simp_all add: channelOf_def)

lemma optProp_get [simp]: "map_get (optProp k v) k' = (if k = k' then v else None)"
  by (simp add: optProp_def split: option.split)

lemma isLowerHex_Nil [simp]: "isLowerHex n [] \<longleftrightarrow> n = 0"
  by (auto simp: isLowerHex_def)

lemma optionalSha256_prop:
  "map_get obj ''sha256'' = map_option JStr sha \<Longrightarrow> sha_ok sha \<Longrightarrow>
   \<exists>s. optionalSha256 obj = Inr s \<and> nonempty s = sha"
  by (cases sha) (auto simp: optionalSha256_def optionalString_def sha_ok_def nonempty_def)

lemmas decode_steps = kindOf_def boundedString_JStr requireInteger_JInt optionalTimestamp_JInt
  requireString_JStr

lemma decode_offer:
  assumes "valid_core (FileOffer i name mime sz cs n sha)"
  shows "decodeFileMessage (coreObject (FileOffer i name mime sz cs n sha)) =
         Inr (FileOffer i name mime sz cs n sha)"
proof -
  obtain s where "optionalSha256 (coreObject (FileOffer i name mime sz cs n sha)) = Inr s" "nonempty s = sha"
    using assms optionalSha256_prop [of "coreObject (FileOffer i name mime sz cs n sha)" sha] by auto
  moreover from assms have "length mime \<le> 160" by simp
  ultimately show ?thesis
    using assms
    by (simp add: decodeFileMessage_def decode_steps boundedOptionalString_def optionalString_def
        map_add_def split: option.split)
qed

lemma decode_complete:
  assumes "valid_core (FileComplete i sha)"
  shows "decodeFileMessage (coreObject (FileComplete i sha)) = Inr (FileComplete i sha)"
proof -
  obtain s where "optionalSha256 (coreObject (FileComplete i sha)) = Inr s" "nonempty s = sha"
    using assms optionalSha256_prop [of "coreObject (FileComplete i sha)" sha] by auto
  then show ?thesis using assms by (simp add: decodeFileMessage_def decode_steps)
qed

lemma decode_core: "valid_core m \<Longrightarrow> decodeCoreAppMessageObject now (coreObject m) = Inr m"
proof (cases m)
  case (FileOffer i name mime sz cs n sha)
  then show "valid_core m \<Longrightarrow> ?thesis"
    using decode_offer by (simp add: decodeCoreAppMessageObject_def kindOf_def)
next
  case (FileComplete i sha)
  then show "valid_core m \<Longrightarrow> ?thesis"
    using decode_complete by (simp add: decodeCoreAppMessageObject_def kindOf_def)
next
  case (VoiceStart i rate ms mode)
  then show "valid_core m \<Longrightarrow> ?thesis"
    by (cases mode) (simp_all add: decodeCoreAppMessageObject_def decode_steps optionalString_def
        voiceModeOf_empty)
qed (simp_all add: decodeCoreAppMessageObject_def decodeFileMessage_def decode_steps)

lemma coreObject_kind: "kindOf (coreObject m) \<notin> {''reliable.msg'', ''reliable.ack'', ''reliable.nack''}"
  by (cases m) (simp_all add: kindOf_def)

lemma decode_app: "valid_app m \<Longrightarrow> decodeAppMessageObject now (appObject m) = Inr m"
proof (cases m)
  case (Core c)
  then show "valid_app m \<Longrightarrow> ?thesis"
    using decode_core [of c now] coreObject_kind [of c] by (simp add: decodeAppMessageObject_def)
next
  case (ReliableMsg i ch body t n)
  then show "valid_app m \<Longrightarrow> ?thesis"
    using decode_core [of body now] by (simp add: decodeAppMessageObject_def decode_steps)
qed (simp_all add: decodeAppMessageObject_def decode_steps)

interpretation appjson: codec appObject "decodeAppMessageObject now" valid_app for now
  by unfold_locales (rule decode_app)

section \<open>Whatever is decoded is valid\<close>

lemma decodeFile_valid: "decodeFileMessage obj = Inr m \<Longrightarrow> valid_core m"
  unfolding decodeFileMessage_def
  by (auto simp: res_bind_Inr_iff boundedString_bounded requireInteger_safe boundedOptional_bounded
      optionalSha256_ok split: if_splits)

lemma decodeCore_valid:
  "timestamp now \<Longrightarrow> decodeCoreAppMessageObject now obj = Inr m \<Longrightarrow> valid_core m"
  unfolding decodeCoreAppMessageObject_def
  by (auto simp: res_bind_Inr_iff boundedString_bounded requireInteger_safe timestamp_optionalTimestamp
      decodeFile_valid split: if_splits)

lemma body_Inr_iff:
  "(case v of Some (JObj body) \<Rightarrow> f body | _ \<Rightarrow> throw msg) = Inr m \<longleftrightarrow>
   (\<exists>body. v = Some (JObj body) \<and> f body = Inr m)"
  by (cases v) (auto split: json.split)

lemma decodeApp_valid:
  "timestamp now \<Longrightarrow> decodeAppMessageObject now obj = Inr m \<Longrightarrow> valid_app m"
  unfolding decodeAppMessageObject_def
  by (auto simp: res_bind_Inr_iff body_Inr_iff boundedString_bounded requireInteger_safe
      timestamp_optionalTimestamp decodeCore_valid split: if_splits)

text \<open>
  C25. Message round trip. Every message within the protocol's bounds is decoded back to itself
  from the object it is serialised as, and distinct such messages have distinct objects.
\<close>

theorem message_roundtrip:
  assumes "valid_app m" "valid_app m'"
  shows "decodeAppMessageObject now (appObject m) = Inr m \<and> (appObject m = appObject m' \<longleftrightarrow> m = m')"
  using appjson.dec_enc [OF assms(1)] appjson.enc_inj [OF assms] by auto

theorem message_roundtrip_witness:
  "decodeAppMessageObject 0 (appObject (ReliableMsg ''r1'' ChText (TextMessage ''m1'' ''hi'' 5) 6 1)) =
     Inr (ReliableMsg ''r1'' ChText (TextMessage ''m1'' ''hi'' 5) 6 1) \<and>
   appObject (ReliableMsg ''r1'' ChText (TextMessage ''m1'' ''hi'' 5) 6 1) \<noteq> appObject (ReliableAck ''r1'')"
  using message_roundtrip [of "ReliableMsg ''r1'' ChText (TextMessage ''m1'' ''hi'' 5) 6 1" "ReliableAck ''r1''" 0]
  by (simp add: bounded_def timestamp_def safe_from_def MAX_SAFE_INTEGER_def)

text \<open>
  C24. Nothing out of bounds is accepted. Whatever object a peer sends, a message that the decoder
  returns has every string within its length limit, every integer safe and at least its minimum,
  hashes of 64 lower-case hex digits, timestamps a \<^verbatim>\<open>Date\<close> can hold, and a reliable wrapper only
  around a wrappable message; and serialising and decoding it again changes nothing.
\<close>

theorem decoded_messages_are_valid:
  assumes "timestamp now" and "decodeAppMessageObject now obj = Inr m"
  shows "valid_app m \<and> decodeAppMessageObject now' (appObject m) = Inr m"
  using decodeApp_valid [OF assms] decode_app by blast

theorem decoded_messages_are_valid_witness:
  "valid_app (Core (FileAck ''f'' 3)) \<and>
   decodeAppMessageObject 9 (appObject (Core (FileAck ''f'' 3))) = Inr (Core (FileAck ''f'' 3))"
  by (rule decoded_messages_are_valid [of 7 "[(''x'', JNull), (''index'', JInt 3), (''kind'', JStr ''file.ack''), (''fileId'', JStr ''f'')]"])
    (simp_all add: timestamp_def decodeAppMessageObject_def decodeCoreAppMessageObject_def decodeFileMessage_def
      decode_steps bounded_def safe_from_def MAX_SAFE_INTEGER_def)

section \<open>The handshake\<close>

definition valid_handshake :: "HandshakeMessage \<Rightarrow> bool" where
  "valid_handshake h =
     (bounded 100 (hs_publicKey h) \<and> isLowerHex 32 (hs_profileHash h) \<and> length (hs_appVersion h) \<le> 100 \<and>
      length (hs_featureFlags h) \<le> 64 \<and> (\<forall>f \<in> set (hs_featureFlags h). bounded 64 f))"

lemma decodeFlags_strings:
  assumes "length fs \<le> 64" "\<forall>f \<in> set fs. bounded 64 f"
  shows "decodeFlags (Some (JArr (map JStr fs))) = Inr fs"
proof -
  have flag: "flagOf (JStr f) = Some f" if "f \<in> set fs" for f
    using that assms(2) by (auto simp: flagOf_def bounded_def)
  then have "map (the \<circ> flagOf) (map JStr fs) = fs" by (simp add: map_idI)
  with flag assms(1) show ?thesis by (auto simp: decodeFlags_def)
qed

lemma decodeFlags_valid:
  "decodeFlags v = Inr fs \<Longrightarrow> length fs \<le> 64 \<and> (\<forall>f \<in> set fs. bounded 64 f)"
proof -
  assume a: "decodeFlags v = Inr fs"
  then obtain xs where v: "v = Some (JArr xs)"
    by (auto simp: decodeFlags_def split: option.splits json.splits)
  have xs: "length xs \<le> 64" "\<forall>x \<in> set xs. flagOf x \<noteq> None" "fs = map (the \<circ> flagOf) xs"
    using a by (auto simp: v decodeFlags_def split: if_splits)
  have "bounded 64 f" if "flagOf x = Some f" for x f
    using that by (auto simp: flagOf_def bounded_def split: json.splits if_splits)
  with xs show ?thesis by fastforce
qed

lemma decode_handshake:
  "valid_handshake h \<Longrightarrow> decodeHandshakeObject (handshakeObject h) = Inr h"
  by (simp add: valid_handshake_def decodeHandshakeObject_def handshakeObject_def kindOf_def
      decodeFlags_strings requireString_def boundedString_JStr boundedOptionalString_def
      optionalString_def)

lemma decodeHandshake_valid: "decodeHandshakeObject obj = Inr h \<Longrightarrow> valid_handshake h"
  by (cases "profileIdOfString (projr (requireString obj ''profileId''))")
    (auto simp: decodeHandshakeObject_def valid_handshake_def res_bind_Inr_iff boundedString_bounded
      boundedOptional_bounded decodeFlags_valid [THEN conjunct1] decodeFlags_valid [THEN conjunct2, rule_format]
      split: if_splits)

interpretation handshake: codec handshakeObject decodeHandshakeObject valid_handshake
  by unfold_locales (rule decode_handshake)

section \<open>Streams\<close>

fun validateInboundStream :: "AppMessage \<Rightarrow> int \<Rightarrow> unit res" where
  "validateInboundStream message streamId =
     (if streamId = 1 then
        (case message of
           ReliableAck _ \<Rightarrow> Inr ()
         | ReliableNack _ _ \<Rightarrow> Inr ()
         | Core (FileAck _ _) \<Rightarrow> Inr ()
         | Core (FileNack _ _ _) \<Rightarrow> Inr ()
         | ReliableMsg _ ChControl (TextMessage _ _ _) _ _ \<Rightarrow> throw ''Message kind does not match control stream''
         | ReliableMsg _ ChControl _ _ _ \<Rightarrow> Inr ()
         | _ \<Rightarrow> throw ''Message kind does not match control stream'')
      else if streamId = 2 then
        (case message of
           ReliableMsg _ ChText (TextMessage _ _ _) _ _ \<Rightarrow> Inr ()
         | _ \<Rightarrow> throw ''Message kind does not match text stream'')
      else if streamId = 3 then
        (case message of
           Core (FileChunk _ _ _ _) \<Rightarrow> Inr ()
         | _ \<Rightarrow> throw ''Message kind does not match file stream'')
      else if streamId = 4 then
        (case message of
           Core (VoiceFrame _ _ _ _ _ _) \<Rightarrow> Inr ()
         | _ \<Rightarrow> throw ''Message kind does not match voice stream'')
      else throw ''Unknown encrypted stream'')"

text \<open>
  Handshake validation. A valid handshake is decoded back from its object; and whatever a
  peer sends, an accepted handshake names one of the built-in profiles, carries a 32-digit
  lower-case hex profile hash, a public-key text of 1 to 100 characters, and at most 64 feature flags
  of 1 to 64 characters.
\<close>

theorem handshake_roundtrip_and_validation:
  "(valid_handshake h \<longrightarrow> decodeHandshakeObject (handshakeObject h) = Inr h) \<and>
   (decodeHandshakeObject obj = Inr h \<longrightarrow> valid_handshake h)"
  using handshake.dec_enc [of h] decodeHandshake_valid [of obj h] by blast

definition sample_handshake :: HandshakeMessage where
  "sample_handshake =
     \<lparr>hs_publicKey = ''AAAA'', hs_profileId = LowData, hs_profileHash = replicate 32 (CHR ''a''),
      hs_appVersion = ''v'', hs_featureFlags = [''text.v2'']\<rparr>"

theorem handshake_roundtrip_and_validation_witness:
  "decodeHandshakeObject (handshakeObject sample_handshake) = Inr sample_handshake"
  using handshake_roundtrip_and_validation [of sample_handshake "[]"]
  by (simp add: valid_handshake_def sample_handshake_def bounded_def isLowerHex_def)

end
