(* ===== verification/Reliable.thy ===== *)
theory Reliable
  imports Messages
begin

text \<open>
  Reliable delivery (\<^verbatim>\<open>client/src/protocol/reliable.ts\<close>): messages wrapped with an id,
  acknowledged, retried with backoff, and de-duplicated by the receiver.

  \<^verbatim>\<open>sendPending\<close> awaits the transport, and \<^verbatim>\<open>receive\<close> awaits the sending of the acknowledgement;
  other calls run in between, so each of the two is split at its await. The objects that a suspended
  \<^verbatim>\<open>sendPending\<close> holds on to are in \<open>flying\<close>, and the armed timers, by the id of their message, in
  \<open>timers\<close> (the \<^verbatim>\<open>timer\<close> field of a pending object). Callbacks are events in an output list;
  ids and times are arguments.
\<close>

section \<open>State\<close>

record ReliablePolicy =
  initialRetryMs :: rat
  maxRetryMs :: rat
  backoffFactor :: rat
  maxAttempts :: nat
  jitterRatio :: rat
  seenTtlMs :: int

definition DEFAULT_POLICY :: ReliablePolicy where
  "DEFAULT_POLICY = \<lparr>initialRetryMs = 1500, maxRetryMs = 12000, backoffFactor = 2, maxAttempts = 5,
     jitterRatio = 1 / 5, seenTtlMs = 10 * 60 * 1000\<rparr>"

record PendingReliable =
  p_id :: string
  p_trackingId :: "string option"
  p_channel :: ReliableChannelName
  p_body :: CoreAppMessage
  p_attempts :: nat
  p_createdAt :: int
  p_lastSentAt :: int

datatype TimerKind = RetryTimer | TimeoutTimer

record ReliableChannel =
  policy :: ReliablePolicy
  pending :: "(string, PendingReliable) jsmap"
  seen :: "(string, int) jsmap"
  flying :: "PendingReliable list"
  timers :: "(string, TimerKind \<times> int) jsmap" \<comment> \<open>with the delay it was armed for\<close>

datatype REvent =
    EvSend AppMessage LaneName
  | EvDelivered string "string option"
  | EvFailed string "string option" string
  | EvDuplicate string

definition newReliable :: "ReliablePolicy \<Rightarrow> ReliableChannel" where
  "newReliable pol = \<lparr>policy = pol, pending = [], seen = [], flying = [], timers = []\<rparr>"

section \<open>Which messages are sent reliably\<close>

fun isReliableEnvelope :: "AppMessage \<Rightarrow> bool" where
  "isReliableEnvelope (Core _) = False"
| "isReliableEnvelope _ = True"

fun shouldSendReliably :: "AppMessage \<Rightarrow> LaneName \<Rightarrow> bool" where
  "shouldSendReliably (Core m) lane = (isReliableBody m \<and> (lane = Control \<or> lane = Text))"
| "shouldSendReliably _ lane = False"

section \<open>Sending\<close>

fun channelLane :: "ReliableChannelName \<Rightarrow> LaneName" where
  "channelLane ChControl = Control"
| "channelLane ChText = Text"

text \<open>\<^verbatim>\<open>Math.round\<close> rounds half up.\<close>

definition js_round :: "rat \<Rightarrow> int" where
  "js_round x = \<lfloor>x + 1 / 2\<rfloor>"

definition retryBase :: "ReliablePolicy \<Rightarrow> nat \<Rightarrow> rat" where
  "retryBase pol attempts =
     min (initialRetryMs pol * backoffFactor pol ^ (attempts - 1)) (maxRetryMs pol)"

text \<open>\<open>rnd\<close> is the value of \<^verbatim>\<open>Math.random()\<close>.\<close>

definition retryDelayMs :: "ReliablePolicy \<Rightarrow> rat \<Rightarrow> nat \<Rightarrow> int" where
  "retryDelayMs pol rnd attempts =
     (let base = retryBase pol attempts; jitter = base * jitterRatio pol
      in max 1 (js_round (base - jitter + rnd * jitter * 2)))"

definition clearPending :: "string \<Rightarrow> ReliableChannel \<Rightarrow> ReliableChannel" where
  "clearPending i s = s\<lparr>timers := map_delete i (timers s), pending := map_delete i (pending s)\<rparr>"

definition failPending ::
    "PendingReliable \<Rightarrow> string \<Rightarrow> ReliableChannel \<Rightarrow> ReliableChannel \<times> REvent list" where
  "failPending p reason s = (clearPending (p_id p) s, [EvFailed (p_id p) (p_trackingId p) reason])"

definition armRetry :: "rat \<Rightarrow> PendingReliable \<Rightarrow> ReliableChannel \<Rightarrow> ReliableChannel" where
  "armRetry rnd p s =
     s\<lparr>timers := map_set (p_id p)
        (if p_attempts p \<ge> maxAttempts (policy s) then TimeoutTimer else RetryTimer,
         retryDelayMs (policy s) rnd (p_attempts p)) (timers s)\<rparr>"

text \<open>\<^verbatim>\<open>sendPending\<close> up to its await.\<close>

definition sendPending :: "int \<Rightarrow> PendingReliable \<Rightarrow> ReliableChannel \<Rightarrow> ReliableChannel \<times> REvent list" where
  "sendPending now p s =
     (if \<not> map_has (pending s) (p_id p) then (s, [])
      else
        let p' = p\<lparr>p_attempts := p_attempts p + 1, p_lastSentAt := now\<rparr> in
        (s\<lparr>pending := map_set (p_id p) p' (pending s), flying := flying s @ [p']\<rparr>,
         [EvSend (ReliableMsg (p_id p') (p_channel p') (p_body p') (p_createdAt p') (int (p_attempts p')))
            (channelLane (p_channel p'))]))"

text \<open>\<^verbatim>\<open>sendPending\<close> after its await, with the transport's answer.\<close>

definition sendPendingDone ::
    "bool \<Rightarrow> rat \<Rightarrow> PendingReliable \<Rightarrow> ReliableChannel \<Rightarrow> ReliableChannel \<times> REvent list" where
  "sendPendingDone ok rnd p s =
     (let s1 = s\<lparr>flying := remove1 p (flying s)\<rparr> in
      if \<not> ok then failPending p ''Message could not be queued for transport'' s1
      else (armRetry rnd p s1, []))"

definition rel_send ::
    "int \<Rightarrow> string \<Rightarrow> CoreAppMessage \<Rightarrow> ReliableChannelName \<Rightarrow> string option \<Rightarrow> ReliableChannel \<Rightarrow>
     ReliableChannel \<times> REvent list" where
  "rel_send now i body channel trackingId s =
     (let p = \<lparr>p_id = i, p_trackingId = trackingId, p_channel = channel, p_body = body, p_attempts = 0,
               p_createdAt = now, p_lastSentAt = 0\<rparr>
      in sendPending now p (s\<lparr>pending := map_set i p (pending s)\<rparr>))"

text \<open>The callbacks of the two kinds of timer; the timer is gone when it fires.\<close>

definition timerFires :: "int \<Rightarrow> string \<Rightarrow> ReliableChannel \<Rightarrow> ReliableChannel \<times> REvent list" where
  "timerFires now i s =
     (case map_get (timers s) i of
        None \<Rightarrow> (s, [])
      | Some (kind, _) \<Rightarrow>
          let s1 = s\<lparr>timers := map_delete i (timers s)\<rparr> in
          (case map_get (pending s1) i of
             None \<Rightarrow> (s1, [])
           | Some p \<Rightarrow>
               (case kind of
                  TimeoutTimer \<Rightarrow> failPending p ''Message delivery timed out'' s1
                | RetryTimer \<Rightarrow> sendPending now p s1)))"

section \<open>Receiving\<close>

definition sweepSeen :: "int \<Rightarrow> ReliableChannel \<Rightarrow> ReliableChannel" where
  "sweepSeen now s = s\<lparr>seen := filter (\<lambda>(i, expiresAt). \<not> expiresAt \<le> now) (seen s)\<rparr>"

text \<open>\<^verbatim>\<open>receive\<close> up to the await: for a wrapped message, up to the sending of the acknowledgement.\<close>

definition rel_receive :: "int \<Rightarrow> AppMessage \<Rightarrow> ReliableChannel \<Rightarrow> ReliableChannel \<times> REvent list" where
  "rel_receive now message s0 =
     (let s = sweepSeen now s0 in
      case message of
        ReliableAck i \<Rightarrow>
          (case map_get (pending s) i of
             None \<Rightarrow> (s, [])
           | Some p \<Rightarrow> (clearPending (p_id p) s, [EvDelivered i (p_trackingId p)]))
      | ReliableNack i reason \<Rightarrow>
          (case map_get (pending s) i of
             None \<Rightarrow> (s, [])
           | Some p \<Rightarrow> (clearPending (p_id p) s, [EvFailed i (p_trackingId p) reason]))
      | ReliableMsg i _ _ _ _ \<Rightarrow> (s, [EvSend (ReliableAck i) Control])
      | Core _ \<Rightarrow> (s, []))"

text \<open>The rest of \<^verbatim>\<open>receive\<close> for a wrapped message: the body to handle, if it is new.\<close>

definition rel_receiveDone ::
    "int \<Rightarrow> string \<Rightarrow> CoreAppMessage \<Rightarrow> ReliableChannel \<Rightarrow> ReliableChannel \<times> REvent list \<times> CoreAppMessage option"
where
  "rel_receiveDone now i body s =
     (if map_has (seen s) i then (s, [EvDuplicate i], None)
      else (s\<lparr>seen := map_set i (now + seenTtlMs (policy s)) (seen s)\<rparr>, [], Some body))"

section \<open>Failing and resetting\<close>

definition failAll :: "string \<Rightarrow> ReliableChannel \<Rightarrow> ReliableChannel \<times> REvent list" where
  "failAll reason s =
     (fold (\<lambda>(i, p) s'. clearPending (p_id p) s') (pending s) s,
      map (\<lambda>(i, p). EvFailed (p_id p) (p_trackingId p) reason) (pending s))"

definition rel_reset :: "ReliableChannel \<Rightarrow> ReliableChannel" where
  "rel_reset s =
     s\<lparr>timers := filter (\<lambda>(i, _). i \<notin> set (map_keys (pending s))) (timers s), pending := [], seen := []\<rparr>"

definition pendingCount :: "ReliableChannel \<Rightarrow> nat" where
  "pendingCount s = length (pending s)"

record ReliablePendingSnapshot =
  ps_id :: string
  ps_trackingId :: "string option"
  ps_attempts :: nat
  ps_channel :: ReliableChannelName
  ps_createdAt :: int
  ps_lastSentAt :: int

definition rel_snapshot :: "ReliableChannel \<Rightarrow> ReliablePendingSnapshot list" where
  "rel_snapshot s =
     map (\<lambda>(i, p). \<lparr>ps_id = p_id p, ps_trackingId = p_trackingId p, ps_attempts = p_attempts p,
            ps_channel = p_channel p, ps_createdAt = p_createdAt p, ps_lastSentAt = p_lastSentAt p\<rparr>)
       (pending s)"

section \<open>Runs\<close>

fun is_tx :: "string \<Rightarrow> REvent \<Rightarrow> bool" where
  "is_tx i (EvSend (ReliableMsg j _ _ _ _) _) = (j = i)"
| "is_tx i _ = False"

fun is_delivered :: "string \<Rightarrow> REvent \<Rightarrow> bool" where
  "is_delivered i (EvDelivered j _) = (j = i)"
| "is_delivered i _ = False"

abbreviation tx :: "string \<Rightarrow> REvent list \<Rightarrow> nat" where
  "tx i es \<equiv> length (filter (is_tx i) es)"

abbreviation delivered :: "string \<Rightarrow> REvent list \<Rightarrow> nat" where
  "delivered i es \<equiv> length (filter (is_delivered i) es)"

text \<open>
  Every interleaving of the operations: \<open>U\<close> is the set of the ids \<^verbatim>\<open>crypto.randomUUID\<close> has returned,
  none of them twice, and \<open>es\<close> what the channel has called back so far.
\<close>

inductive rel_run :: "ReliablePolicy \<Rightarrow> string set \<Rightarrow> REvent list \<Rightarrow> ReliableChannel \<Rightarrow> bool" for pol where
  rel_start: "rel_run pol {} [] (newReliable pol)"
| rel_sends: "rel_run pol U es s \<Longrightarrow> i \<notin> U \<Longrightarrow> rel_send now i body ch tr s = (s', e) \<Longrightarrow>
    rel_run pol (insert i U) (es @ e) s'"
| rel_answers: "rel_run pol U es s \<Longrightarrow> p \<in> set (flying s) \<Longrightarrow> sendPendingDone ok rnd p s = (s', e) \<Longrightarrow>
    rel_run pol U (es @ e) s'"
| rel_fires: "rel_run pol U es s \<Longrightarrow> timerFires now i s = (s', e) \<Longrightarrow> rel_run pol U (es @ e) s'"
| rel_receives: "rel_run pol U es s \<Longrightarrow> rel_receive now m s = (s', e) \<Longrightarrow> rel_run pol U (es @ e) s'"
| rel_received: "rel_run pol U es s \<Longrightarrow> rel_receiveDone now i body s = (s', e, r) \<Longrightarrow> rel_run pol U (es @ e) s'"
| rel_fails: "rel_run pol U es s \<Longrightarrow> failAll reason s = (s', e) \<Longrightarrow> rel_run pol U (es @ e) s'"
| rel_resets: "rel_run pol U es s \<Longrightarrow> rel_run pol U es (rel_reset s)"

text \<open>A pending message has been transmitted as often as it counts, and something will act on it.\<close>

definition pending_ok :: "string set \<Rightarrow> REvent list \<Rightarrow> ReliableChannel \<Rightarrow> string \<Rightarrow> PendingReliable \<Rightarrow> bool" where
  "pending_ok U es s i p =
     (p_id p = i \<and> i \<in> U \<and> 1 \<le> p_attempts p \<and> p_attempts p \<le> maxAttempts (policy s) \<and>
      tx i es = p_attempts p \<and> delivered i es = 0 \<and>
      (p \<in> set (flying s) \<or>
       (\<exists>d. map_get (timers s) i =
          Some (if p_attempts p \<ge> maxAttempts (policy s) then TimeoutTimer else RetryTimer, d))))"

definition flying_ok :: "string set \<Rightarrow> ReliableChannel \<Rightarrow> PendingReliable \<Rightarrow> bool" where
  "flying_ok U s p =
     (p_id p \<in> U \<and> map_get (timers s) (p_id p) = None \<and>
      (\<forall>q. map_get (pending s) (p_id p) = Some q \<longrightarrow> q = p))"

text \<open>The invariant, with exceptions for the messages in \<open>X\<close> a step is about to act on.\<close>

definition rel_inv_but ::
    "string set \<Rightarrow> ReliablePolicy \<Rightarrow> string set \<Rightarrow> REvent list \<Rightarrow> ReliableChannel \<Rightarrow> bool" where
  "rel_inv_but X pol U es s =
     (policy s = pol \<and>
      (\<forall>i p. map_get (pending s) i = Some p \<longrightarrow> i \<notin> X \<longrightarrow> pending_ok U es s i p) \<and>
      (\<forall>p \<in> set (flying s). flying_ok U s p) \<and> distinct (map p_id (flying s)) \<and>
      (\<forall>i. tx i es \<le> maxAttempts pol \<and> delivered i es \<le> 1) \<and>
      (\<forall>i. i \<notin> U \<longrightarrow> tx i es = 0 \<and> delivered i es = 0 \<and> map_get (timers s) i = None))"

abbreviation rel_inv :: "ReliablePolicy \<Rightarrow> string set \<Rightarrow> REvent list \<Rightarrow> ReliableChannel \<Rightarrow> bool" where
  "rel_inv \<equiv> rel_inv_but {}"

lemma rel_inv_quiet:
  assumes inv: "rel_inv pol U es s" and st: "policy s' = policy s" "flying s' = flying s"
    and sub: "\<And>i p. map_get (pending s') i = Some p \<Longrightarrow>
       map_get (pending s) i = Some p \<and> (i \<notin> X \<longrightarrow> map_get (timers s') i = map_get (timers s) i)"
    and tm: "\<And>i. map_get (timers s) i = None \<Longrightarrow> map_get (timers s') i = None"
    and ev: "\<And>i. tx i e = 0" "\<And>i. delivered i e \<le> 1"
      "\<And>i. delivered i e = 1 \<Longrightarrow> map_get (pending s) i \<noteq> None \<and> map_get (pending s') i = None"
  shows "rel_inv_but X pol U (es @ e) s'"
proof -
  have del: "delivered i (es @ e) \<le> 1 \<and> (i \<notin> U \<longrightarrow> delivered i (es @ e) = 0) \<and>
      (map_get (pending s') i \<noteq> None \<longrightarrow> delivered i (es @ e) = delivered i es)" for i
  proof (cases "delivered i e = 1")
    case True
    with ev(3) obtain p where "map_get (pending s) i = Some p" "map_get (pending s') i = None" by blast
    with inv True show ?thesis by (auto simp: rel_inv_but_def pending_ok_def)
  next
    case False
    with ev(2) [of i] have "delivered i e = 0" by linarith
    with inv show ?thesis by (auto simp: rel_inv_but_def)
  qed
  have "pending_ok U (es @ e) s' i p" if "map_get (pending s') i = Some p" "i \<notin> X" for i p
  proof -
    have "pending_ok U es s i p" using sub [OF that(1)] inv by (auto simp: rel_inv_but_def)
    with sub [OF that(1)] that del [of i] ev(1) [of i] st show ?thesis by (simp add: pending_ok_def)
  qed
  moreover have "flying_ok U s' p" if "p \<in> set (flying s')" for p
    using that inv st sub tm by (auto simp: rel_inv_but_def flying_ok_def)
  ultimately show ?thesis
    using inv del ev(1) st tm by (auto simp: rel_inv_but_def)
qed

lemma rel_inv_transmit:
  assumes inv: "rel_inv_but {j} pol U es s"
    and p: "map_get (pending s) j = Some p" "p_id p = j" "p_attempts p < maxAttempts pol" "j \<in> U"
      "tx j es = p_attempts p" "delivered j es = 0"
      "map_get (timers s) j = None" "j \<notin> p_id ` set (flying s)"
    and send: "sendPending now p s = (s', e)"
  shows "rel_inv pol U (es @ e) s'"
proof -
  define p' where "p' = p\<lparr>p_attempts := p_attempts p + 1, p_lastSentAt := now\<rparr>"
  have s': "s' = s\<lparr>pending := map_set j p' (pending s), flying := flying s @ [p']\<rparr>"
    and e: "e = [EvSend (ReliableMsg j (p_channel p') (p_body p') (p_createdAt p') (int (p_attempts p')))
            (channelLane (p_channel p'))]"
    using send p(1,2) by (auto simp: sendPending_def p'_def map_has_def Let_def)
  have p': "p_id p' = j" "p_attempts p' = p_attempts p + 1" using p(2) by (simp_all add: p'_def)
  have tx': "tx i e = (if i = j then 1 else 0)" and del': "delivered i e = 0" for i
    by (simp_all add: e)
  have "pending_ok U (es @ e) s' i q" if q: "map_get (pending s') i = Some q" for i q
  proof (cases "i = j")
    case True
    with q have "q = p'" by (simp add: s' update_conv')
    moreover have "policy s = pol" using inv by (simp add: rel_inv_but_def)
    ultimately show ?thesis
      using True p(3-6) p' tx' [of j] del' [of j] by (simp add: pending_ok_def s')
  next
    case False
    with q have "map_get (pending s) i = Some q" by (simp add: s' update_conv')
    with False inv have "pending_ok U es s i q" by (simp add: rel_inv_but_def)
    with False tx' [of i] del' [of i] show ?thesis by (auto simp: pending_ok_def s')
  qed
  moreover have "flying_ok U s' q" if "q \<in> set (flying s')" for q
  proof (cases "q = p'")
    case True
    with p(4,7) p' show ?thesis by (simp add: flying_ok_def s' update_conv')
  next
    case False
    with that have q: "q \<in> set (flying s)" by (simp add: s')
    with p(8) have "p_id q \<noteq> j" by blast
    with q inv show ?thesis by (simp add: flying_ok_def s' update_conv' rel_inv_but_def)
  qed
  moreover have "distinct (map p_id (flying s'))"
    using inv p(8) p' by (simp add: s' rel_inv_but_def)
  moreover have "tx i (es @ e) \<le> maxAttempts pol \<and> delivered i (es @ e) \<le> 1" for i
    using inv tx' [of i] del' [of i] p(3,5) by (cases "i = j") (simp_all add: rel_inv_but_def)
  moreover have "tx i (es @ e) = 0 \<and> delivered i (es @ e) = 0 \<and> map_get (timers s') i = None" if "i \<notin> U" for i
    using inv tx' [of i] del' [of i] that p(4) by (auto simp: rel_inv_but_def s')
  moreover have "policy s' = pol" using inv by (simp add: rel_inv_but_def s')
  ultimately show ?thesis unfolding rel_inv_but_def by blast
qed

lemma rel_inv_send:
  assumes inv: "rel_inv pol U es s" and pol: "1 \<le> maxAttempts pol" and i: "i \<notin> U"
    and send: "rel_send now i body ch tr s = (s', e)"
  shows "rel_inv pol (insert i U) (es @ e) s'"
proof -
  define p where "p = \<lparr>p_id = i, p_trackingId = tr, p_channel = ch, p_body = body, p_attempts = 0,
     p_createdAt = now, p_lastSentAt = 0\<rparr>"
  let ?s = "s\<lparr>pending := map_set i p (pending s)\<rparr>"
  have fl: "i \<notin> p_id ` set (flying s)" using inv i by (auto simp: rel_inv_but_def flying_ok_def)
  have "pending_ok (insert i U) es ?s k q" if "map_get (pending ?s) k = Some q" "k \<noteq> i" for k q
  proof -
    have "pending_ok U es s k q" using that inv by (simp add: rel_inv_but_def update_conv')
    then show ?thesis by (simp add: pending_ok_def)
  qed
  moreover have "flying_ok (insert i U) ?s q" if "q \<in> set (flying ?s)" for q
    using that inv i by (auto simp: rel_inv_but_def flying_ok_def update_conv')
  ultimately have "rel_inv_but {i} pol (insert i U) es ?s"
    using inv by (auto simp: rel_inv_but_def)
  moreover have "tx i es = 0" "delivered i es = 0" "map_get (timers s) i = None"
    using inv i by (auto simp: rel_inv_but_def)
  ultimately show ?thesis
    using pol fl send
    by (intro rel_inv_transmit [where j = i and p = p and s = ?s and now = now])
      (simp_all add: p_def rel_send_def update_conv' Let_def)
qed

lemma rel_inv_fires:
  assumes inv: "rel_inv pol U es s" and fire: "timerFires now i s = (s', e)"
  shows "rel_inv pol U (es @ e) s'"
proof (cases "map_get (timers s) i")
  case None
  with fire inv show ?thesis by (simp add: timerFires_def)
next
  case (Some kd)
  then obtain kind d where kd: "map_get (timers s) i = Some (kind, d)" by (cases kd) simp
  let ?s1 = "s\<lparr>timers := map_delete i (timers s)\<rparr>"
  show ?thesis
  proof (cases "map_get (pending s) i")
    case None
    with kd fire have "s' = ?s1" "e = []" by (auto simp: timerFires_def)
    with None show ?thesis
      by (intro rel_inv_quiet [OF inv]) (auto simp: delete_conv')
  next
    case (Some p)
    with inv have ok: "pending_ok U es s i p" by (simp add: rel_inv_but_def)
    have nofly: "i \<notin> p_id ` set (flying s)" using inv kd by (auto simp: rel_inv_but_def flying_ok_def)
    have pid: "p_id p = i" using ok by (simp add: pending_ok_def)
    show ?thesis
    proof (cases kind)
      case TimeoutTimer
      with fire kd Some pid have "s' = clearPending i ?s1" "e = [EvFailed i (p_trackingId p) ''Message delivery timed out'']"
        by (auto simp: timerFires_def failPending_def Let_def)
      then show ?thesis
        by (intro rel_inv_quiet [OF inv]) (auto simp: clearPending_def delete_conv' split: if_splits)
    next
      case RetryTimer
      have "rel_inv_but {i} pol U es ?s1"
        using rel_inv_quiet [OF inv, of ?s1 "{i}" "[]"] by (simp add: delete_conv')
      moreover have "p_attempts p < maxAttempts pol"
        using ok kd RetryTimer nofly pid inv by (auto simp: pending_ok_def rel_inv_but_def split: if_splits)
      moreover have "sendPending now p ?s1 = (s', e)"
        using fire kd Some RetryTimer by (simp add: timerFires_def)
      ultimately show ?thesis
        using ok Some nofly pid
        by (intro rel_inv_transmit [where j = i and p = p and s = ?s1])
          (simp_all add: pending_ok_def delete_conv')
    qed
  qed
qed

lemma rel_inv_answer:
  assumes inv: "rel_inv pol U es s" and p: "p \<in> set (flying s)"
    and ans: "sendPendingDone ok rnd p s = (s', e)"
  shows "rel_inv pol U (es @ e) s'"
proof -
  let ?s1 = "s\<lparr>flying := remove1 p (flying s)\<rparr>"
  have dist: "distinct (map p_id (flying s))" and fok: "flying_ok U s p"
    using inv p by (auto simp: rel_inv_but_def)
  then have rest: "q \<in> set (remove1 p (flying s)) \<longleftrightarrow> q \<in> set (flying s) \<and> q \<noteq> p" for q
    by (simp add: distinct_map)
  have other: "p_id q \<noteq> p_id p" if "q \<in> set (flying s)" "q \<noteq> p" for q
    using that dist p by (auto simp: distinct_map inj_on_def)
  have dist1: "distinct (map p_id (remove1 p (flying s)))"
    using dist by (simp add: distinct_map inj_on_def rest)
  define s2 where "s2 = (if ok then armRetry rnd p ?s1 else clearPending (p_id p) ?s1)"
  have s': "s' = s2" and e: "tx i e = 0" "delivered i e = 0" for i
    using ans by (auto simp: sendPendingDone_def failPending_def s2_def Let_def split: if_splits)
  have pend: "pending_ok U (es @ e) s2 i q" if q: "map_get (pending s2) i = Some q" for i q
  proof -
    have q0: "map_get (pending s) i = Some q" and ne: "\<not> ok \<Longrightarrow> i \<noteq> p_id p"
      using q by (auto simp: s2_def armRetry_def clearPending_def delete_conv' split: if_splits)
    have ok0: "pending_ok U es s i q" using inv q0 by (simp add: rel_inv_but_def)
    show ?thesis
    proof (cases "i = p_id p")
      case True
      with ne fok q0 have "ok" "q = p" by (auto simp: flying_ok_def)
      with ok0 True e [of i] show ?thesis
        by (simp add: pending_ok_def s2_def armRetry_def update_conv')
    next
      case False
      then have "q \<noteq> p" using ok0 by (auto simp: pending_ok_def)
      with ok0 False e [of i] show ?thesis
        by (simp add: pending_ok_def s2_def armRetry_def clearPending_def rest update_conv' delete_conv')
    qed
  qed
  have "flying_ok U s2 q" if "q \<in> set (flying s2)" for q
  proof -
    have "q \<in> set (flying s)" "q \<noteq> p" using that rest
      by (auto simp: s2_def armRetry_def clearPending_def split: if_splits)
    with inv other [OF this] show ?thesis
      by (auto simp: rel_inv_but_def flying_ok_def s2_def armRetry_def clearPending_def update_conv' delete_conv')
  qed
  moreover have "map_get (timers s2) i = None" if "i \<notin> U" for i
    using inv that fok by (auto simp: rel_inv_but_def flying_ok_def s2_def armRetry_def clearPending_def
        update_conv' delete_conv')
  moreover have "policy s2 = pol" "distinct (map p_id (flying s2))"
    using inv dist1 by (auto simp: rel_inv_but_def s2_def armRetry_def clearPending_def)
  ultimately show ?thesis
    using inv pend e unfolding s' rel_inv_but_def by simp
qed

lemma rel_inv_clear:
  assumes inv: "rel_inv pol U es s" and e: "\<And>j. tx j e = 0" "\<And>j. delivered j e \<le> (if j = i then 1 else 0)"
    and p: "map_get (pending s) i \<noteq> None"
    and s1: "pending s1 = pending s" "flying s1 = flying s" "timers s1 = timers s" "policy s1 = policy s"
  shows "rel_inv pol U (es @ e) (clearPending i s1)"
proof (rule rel_inv_quiet [OF inv])
  show "delivered j e \<le> 1" for j using e(2) [of j] by (simp split: if_splits)
  show "map_get (pending s) j \<noteq> None \<and> map_get (pending (clearPending i s1)) j = None"
    if "delivered j e = 1" for j
    using e(2) [of j] that p by (auto simp: clearPending_def delete_conv' split: if_splits)
qed (use e(1) s1 in \<open>auto simp: clearPending_def delete_conv' split: if_splits\<close>)

lemma rel_inv_seen: "rel_inv pol U es s \<Longrightarrow> rel_inv pol U es (s\<lparr>seen := m\<rparr>)"
  using rel_inv_quiet [of pol U es s "s\<lparr>seen := m\<rparr>" "{}" "[]"] by simp

lemma rel_inv_silent: "rel_inv pol U es s \<Longrightarrow> (\<And>i. tx i e = 0) \<Longrightarrow> (\<And>i. delivered i e = 0) \<Longrightarrow>
    rel_inv pol U (es @ e) s"
  by (rule rel_inv_quiet) auto

lemma rel_inv_receive:
  assumes inv: "rel_inv pol U es s" and r: "rel_receive now m s = (s', e)"
  shows "rel_inv pol U (es @ e) s'"
proof -
  let ?s = "sweepSeen now s"
  have sw: "pending ?s = pending s" "flying ?s = flying s" "timers ?s = timers s" "policy ?s = policy s"
    "rel_inv pol U es ?s" using rel_inv_seen [OF inv] by (simp_all add: sweepSeen_def)
  have pid: "p_id p = i" if "map_get (pending s) i = Some p" for i p
    using that inv by (auto simp: rel_inv_but_def pending_ok_def)
  show ?thesis
  proof (cases m)
    case (Core c)
    with r sw show ?thesis by (simp add: rel_receive_def)
  next
    case (ReliableMsg i ch b t n)
    with r sw show ?thesis by (auto simp: rel_receive_def intro: rel_inv_silent)
  next
    case (ReliableAck i)
    show ?thesis
    proof (cases "map_get (pending s) i")
      case None
      with ReliableAck r sw show ?thesis by (simp add: rel_receive_def)
    next
      case (Some p)
      with ReliableAck r sw pid have "s' = clearPending i ?s" "e = [EvDelivered i (p_trackingId p)]"
        by (auto simp: rel_receive_def)
      with Some sw show ?thesis by (simp only:) (rule rel_inv_clear [OF inv], auto)
    qed
  next
    case (ReliableNack i reason)
    show ?thesis
    proof (cases "map_get (pending s) i")
      case None
      with ReliableNack r sw show ?thesis by (simp add: rel_receive_def)
    next
      case (Some p)
      with ReliableNack r sw pid have "s' = clearPending i ?s" "e = [EvFailed i (p_trackingId p) reason]"
        by (auto simp: rel_receive_def)
      with Some sw show ?thesis by (simp only:) (rule rel_inv_clear [OF inv], auto)
    qed
  qed
qed

lemma fold_clearPending:
  "policy (fold (\<lambda>(i, p) s'. clearPending (p_id p) s') xs s) = policy s \<and>
   flying (fold (\<lambda>(i, p) s'. clearPending (p_id p) s') xs s) = flying s \<and>
   map_get (pending (fold (\<lambda>(i, p) s'. clearPending (p_id p) s') xs s)) i =
     (if i \<in> p_id ` snd ` set xs then None else map_get (pending s) i) \<and>
   map_get (timers (fold (\<lambda>(i, p) s'. clearPending (p_id p) s') xs s)) i =
     (if i \<in> p_id ` snd ` set xs then None else map_get (timers s) i)"
  by (induction xs arbitrary: s) (auto simp: clearPending_def delete_conv')

lemma rel_inv_failAll:
  assumes inv: "rel_inv pol U es s" and f: "failAll reason s = (s', e)"
  shows "rel_inv pol U (es @ e) s'"
proof (rule rel_inv_quiet [OF inv])
  have no: "filter (is_tx i) e = []" "filter (is_delivered i) e = []" for i
    using f by (auto simp: failAll_def filter_empty_conv)
  then show "tx i e = 0" "delivered i e \<le> 1" for i by simp_all
  show "map_get (pending s) i \<noteq> None \<and> map_get (pending s') i = None" if "delivered i e = 1" for i
    using that no [of i] by simp
qed (use f fold_clearPending [of "pending s" s] in \<open>auto simp: failAll_def split: if_splits\<close>)

lemma rel_inv_reset: "rel_inv pol U es s \<Longrightarrow> rel_inv pol U es (rel_reset s)"
  using rel_inv_quiet [of pol U es s "rel_reset s" "{}" "[]"]
  by (simp add: rel_reset_def map_of_eq_None_iff image_iff)

lemma rel_run_inv:
  assumes "rel_run pol U es s" and "1 \<le> maxAttempts pol"
  shows "rel_inv pol U es s"
  using assms
proof (induction rule: rel_run.induct)
  case rel_start
  then show ?case by (simp add: rel_inv_but_def newReliable_def)
next
  case (rel_sends U es s i now body ch tr s' e)
  then show ?case by (intro rel_inv_send) auto
next
  case (rel_answers U es s p ok rnd s' e)
  then show ?case by (intro rel_inv_answer) auto
next
  case (rel_fires U es s now i s' e)
  then show ?case by (intro rel_inv_fires) auto
next
  case (rel_receives U es s now m s' e)
  then show ?case by (intro rel_inv_receive) auto
next
  case (rel_received U es s now i body s' e r)
  then show ?case
    by (auto simp: rel_receiveDone_def intro: rel_inv_seen rel_inv_silent split: if_splits)
next
  case (rel_fails U es s reason s' e)
  then show ?case by (intro rel_inv_failAll) auto
next
  case (rel_resets U es s)
  then show ?case by (intro rel_inv_reset) auto
qed

section \<open>Properties\<close>

text \<open>
  No reliable message is forgotten. In every interleaving of sends, transport answers, timers,
  acknowledgements, failures and resets, a message that is still pending has been transmitted
  at least once and at most \<^verbatim>\<open>maxAttempts\<close> times, exactly as often as it counts, has not been reported
  as delivered, and either waits for the transport's answer or has the timer armed that retries
  it, or, after the last attempt, the timer that fails it.
\<close>

theorem pending_message_is_driven:
  assumes run: "rel_run pol U es s" and pol: "1 \<le> maxAttempts pol" and p: "map_get (pending s) i = Some p"
  shows "1 \<le> p_attempts p \<and> p_attempts p \<le> maxAttempts pol \<and> tx i es = p_attempts p \<and> delivered i es = 0 \<and>
    (p \<in> set (flying s) \<or>
     (\<exists>d. map_get (timers s) i = Some (if p_attempts p = maxAttempts pol then TimeoutTimer else RetryTimer, d)))"
proof -
  have inv: "rel_inv pol U es s" using run pol by (rule rel_run_inv)
  with p have "pending_ok U es s i p" "policy s = pol" by (auto simp: rel_inv_but_def)
  then show ?thesis by (auto simp: pending_ok_def)
qed

lemma rel_run_two:
  "rel_run DEFAULT_POLICY {''a''} [EvSend (ReliableMsg ''a'' ChText (TextMessage ''m'' ''hi'' 5) 7 1) Text]
     (fst (sendPendingDone True 0
        \<lparr>p_id = ''a'', p_trackingId = None, p_channel = ChText, p_body = TextMessage ''m'' ''hi'' 5,
         p_attempts = 1, p_createdAt = 7, p_lastSentAt = 7\<rparr>
        (fst (rel_send 7 ''a'' (TextMessage ''m'' ''hi'' 5) ChText None (newReliable DEFAULT_POLICY)))))"
proof -
  let ?s = "fst (rel_send 7 ''a'' (TextMessage ''m'' ''hi'' 5) ChText None (newReliable DEFAULT_POLICY))"
  have "rel_run DEFAULT_POLICY {''a''} ([] @ [EvSend (ReliableMsg ''a'' ChText (TextMessage ''m'' ''hi'' 5) 7 1) Text]) ?s"
    by (rule rel_sends [OF rel_start, where now = 7 and ch = ChText and tr = None and body = "TextMessage ''m'' ''hi'' 5"])
      (simp_all add: rel_send_def sendPending_def newReliable_def map_has_def Let_def)
  from rel_answers [OF this, of _ True 0] show ?thesis
    by (simp add: rel_send_def sendPending_def newReliable_def map_has_def Let_def sendPendingDone_def)
qed

theorem pending_message_is_driven_witness:
  "tx ''a'' [EvSend (ReliableMsg ''a'' ChText (TextMessage ''m'' ''hi'' 5) 7 1) Text] = 1"
  using pending_message_is_driven [OF rel_run_two, of "''a''"
     "\<lparr>p_id = ''a'', p_trackingId = None, p_channel = ChText, p_body = TextMessage ''m'' ''hi'' 5,
         p_attempts = 1, p_createdAt = 7, p_lastSentAt = 7\<rparr>"]
  by (simp add: rel_send_def sendPending_def newReliable_def map_has_def Let_def sendPendingDone_def armRetry_def
      DEFAULT_POLICY_def)

text \<open>
  Bounded retransmission, single delivery report. In every interleaving no message is handed to
  the transport more than \<^verbatim>\<open>maxAttempts\<close> times, and \<^verbatim>\<open>onDelivered\<close> is called at most once for it.
\<close>

theorem transmissions_bounded:
  assumes "rel_run pol U es s" and "1 \<le> maxAttempts pol"
  shows "tx i es \<le> maxAttempts pol \<and> delivered i es \<le> 1"
  using rel_run_inv [OF assms] by (simp add: rel_inv_but_def)

theorem transmissions_bounded_witness:
  "tx ''a'' [EvSend (ReliableMsg ''a'' ChText (TextMessage ''m'' ''hi'' 5) 7 1) Text] \<le> 5 \<and>
   delivered ''a'' [EvSend (ReliableMsg ''a'' ChText (TextMessage ''m'' ''hi'' 5) 7 1) Text] \<le> 1"
  using transmissions_bounded [OF rel_run_two, of "''a''"] by (simp add: DEFAULT_POLICY_def)

subsection \<open>A peer that never answers\<close>

text \<open>The transport accepts the message, then its timer fires: one round without an acknowledgement.\<close>

definition unansweredRound :: "(nat \<Rightarrow> int) \<Rightarrow> (nat \<Rightarrow> rat) \<Rightarrow> string \<Rightarrow> nat \<Rightarrow> ReliableChannel \<times> REvent list \<Rightarrow> ReliableChannel \<times> REvent list"
where
  "unansweredRound clock rnd i n st =
     (let (s, es) = st in
      case map_get (pending s) i of
        None \<Rightarrow> (s, es)
      | Some p \<Rightarrow>
          let (s1, e1) = sendPendingDone True (rnd n) p s;
              (s2, e2) = timerFires (clock n) i s1
          in (s2, es @ e1 @ e2))"

lemma unanswered_step:
  assumes "map_get (pending s) i = Some p" "p_id p = i" "p \<in> set (flying s)" "map_get (timers s) i = None"
    and "policy s = pol" "tx i es = p_attempts p" "1 \<le> p_attempts p" "distinct (flying s)"
  shows "let (s', es') = unansweredRound clock rnd i n (s, es) in
    if p_attempts p < maxAttempts pol then
      (\<exists>p'. map_get (pending s') i = Some p' \<and> p_id p' = i \<and> p_attempts p' = p_attempts p + 1 \<and>
         p_trackingId p' = p_trackingId p \<and> p' \<in> set (flying s') \<and> map_get (timers s') i = None \<and>
         policy s' = pol \<and> tx i es' = p_attempts p' \<and>
         (distinct (map p_id (flying s)) \<longrightarrow> distinct (map p_id (flying s'))))
    else map_get (pending s') i = None \<and> tx i es' = p_attempts p \<and>
      es' = es @ [EvFailed i (p_trackingId p) ''Message delivery timed out'']"
proof -
  have dm: "distinct (map p_id (flying s)) \<Longrightarrow> q \<in> set (remove1 p (flying s)) \<Longrightarrow> p_id q \<noteq> i" for q
    using assms(2,3) by (auto simp: distinct_map inj_on_def)
  show ?thesis
    using assms dm
    by (auto simp: unansweredRound_def sendPendingDone_def armRetry_def timerFires_def update_conv' delete_conv'
        sendPending_def failPending_def clearPending_def map_has_def Let_def distinct_map inj_on_def)
qed

definition waiting_round :: "ReliablePolicy \<Rightarrow> string \<Rightarrow> string option \<Rightarrow> nat \<Rightarrow> ReliableChannel \<times> REvent list \<Rightarrow> bool" where
  "waiting_round pol i tr n st =
     (\<exists>p. map_get (pending (fst st)) i = Some p \<and> p_id p = i \<and> p_attempts p = n \<and> p_trackingId p = tr \<and>
        p \<in> set (flying (fst st)) \<and> map_get (timers (fst st)) i = None \<and> policy (fst st) = pol \<and>
        tx i (snd st) = n \<and> distinct (map p_id (flying (fst st))))"

lemma waiting_round_step:
  assumes "waiting_round pol i tr n st" "1 \<le> n"
  shows "if n < maxAttempts pol then waiting_round pol i tr (n + 1) (unansweredRound clock rnd i k st)
    else map_get (pending (fst (unansweredRound clock rnd i k st))) i = None \<and>
      tx i (snd (unansweredRound clock rnd i k st)) = n \<and>
      last (snd (unansweredRound clock rnd i k st)) = EvFailed i tr ''Message delivery timed out''"
proof -
  obtain s es where st: "st = (s, es)" by fastforce
  obtain p where p: "map_get (pending s) i = Some p" "p_id p = i" "p_attempts p = n" "p_trackingId p = tr"
      "p \<in> set (flying s)" "map_get (timers s) i = None" "policy s = pol" "tx i es = n"
      "distinct (map p_id (flying s))"
    using assms(1) by (auto simp: waiting_round_def st)
  have "distinct (flying s)" using p(9) by (simp add: distinct_map)
  with unanswered_step [OF p(1,2,5,6,7), of es clock rnd k] p assms(2) show ?thesis
    by (cases "unansweredRound clock rnd i k (s, es)") (auto simp: st waiting_round_def)
qed

lemma waiting_rounds:
  assumes "waiting_round pol i tr 1 st" "k < maxAttempts pol"
  shows "waiting_round pol i tr (k + 1) (fold (unansweredRound clock rnd i) [0..<k] st)"
  using assms(2)
proof (induction k)
  case 0
  then show ?case using assms(1) by simp
next
  case (Suc k)
  with waiting_round_step [of pol i tr "k + 1" "fold (unansweredRound clock rnd i) [0..<k] st" clock rnd k]
  show ?case by simp
qed

text \<open>
  C8. An unanswered message is reported as failed. Send a message in any reachable state; if the
  transport accepts it each time, no acknowledgement ever arrives and its timers fire, then
  after \<^verbatim>\<open>maxAttempts\<close> rounds it has been transmitted exactly \<^verbatim>\<open>maxAttempts\<close> times, is no longer pending,
  and \<^verbatim>\<open>onFailed\<close> has been called for it with its tracking id.
\<close>

theorem unanswered_message_fails:
  assumes run: "rel_run pol U es s" and pol: "1 \<le> maxAttempts pol" and i: "i \<notin> U"
  shows "case fold (unansweredRound clock rnd i) [0..<maxAttempts pol] (rel_send now i body ch tr s) of
    (s', es') \<Rightarrow> map_get (pending s') i = None \<and> tx i es' = maxAttempts pol \<and>
      last es' = EvFailed i tr ''Message delivery timed out''"
proof -
  have inv: "rel_inv pol U es s" using run pol by (rule rel_run_inv)
  have fl: "i \<notin> p_id ` set (flying s)" using inv i by (auto simp: rel_inv_but_def flying_ok_def)
  have start: "waiting_round pol i tr 1 (rel_send now i body ch tr s)"
    using inv i fl
    by (simp add: waiting_round_def rel_send_def sendPending_def map_has_def update_conv' Let_def rel_inv_but_def)
  obtain k where k: "maxAttempts pol = Suc k" using pol by (cases "maxAttempts pol") auto
  have "waiting_round pol i tr (k + 1) (fold (unansweredRound clock rnd i) [0..<k] (rel_send now i body ch tr s))"
    by (intro waiting_rounds [OF start]) (simp add: k)
  from waiting_round_step [OF this, of clock rnd k] show ?thesis
    by (simp add: k case_prod_beta)
qed

theorem unanswered_message_fails_witness:
  "tx ''a'' (snd (fold (unansweredRound (\<lambda>n. 2000 * int n) (\<lambda>_. 1 / 2) ''a'') [0..<5]
     (rel_send 7 ''a'' (TextMessage ''m'' ''hi'' 5) ChText None (newReliable DEFAULT_POLICY)))) = 5"
  using unanswered_message_fails [OF rel_start, where pol = DEFAULT_POLICY and i = "''a''" and tr = None and ch = ChText
      and clock = "\<lambda>n. 2000 * int n" and rnd = "\<lambda>_. 1 / 2" and now = 7 and body = "TextMessage ''m'' ''hi'' 5"]
  by (simp add: case_prod_beta DEFAULT_POLICY_def del: upt_rec_numeral)

subsection \<open>Duplicates\<close>

text \<open>A series of wrapped messages, each received at its time: which of them are handed on.\<close>

fun receiveAll :: "(int \<times> string \<times> CoreAppMessage) list \<Rightarrow> ReliableChannel \<Rightarrow> (string \<times> CoreAppMessage) list" where
  "receiveAll [] s = []"
| "receiveAll ((now, i, body) # ms) s =
     (let (s1, e1) = rel_receive now (ReliableMsg i ChControl body now 1) s;
          (s2, e2, r) = rel_receiveDone now i body s1
      in (case r of None \<Rightarrow> [] | Some b \<Rightarrow> [(i, b)]) @ receiveAll ms s2)"

lemma receiveAll_seen:
  assumes "\<forall>(t, _, _) \<in> set ms. t0 \<le> t \<and> t < t0 + seenTtlMs (policy s)"
    and "\<forall>(i, x) \<in> set (seen s). x \<ge> t0 + seenTtlMs (policy s)"
  shows "distinct (map fst (receiveAll ms s)) \<and> keyset (seen s) \<inter> set (map fst (receiveAll ms s)) = {} \<and>
    fst ` snd ` set ms \<subseteq> keyset (seen s) \<union> set (map fst (receiveAll ms s))"
  using assms
proof (induction ms arbitrary: s)
  case Nil
  then show ?case by simp
next
  case (Cons m ms)
  obtain now i body where m: "m = (now, i, body)" by (cases m)
  have now: "t0 \<le> now" "now < t0 + seenTtlMs (policy s)" using Cons.prems(1) by (auto simp: m)
  have sweep: "sweepSeen now s = s"
  proof -
    have "filter (\<lambda>(i, expiresAt). \<not> expiresAt \<le> now) (seen s) = seen s"
      using Cons.prems(2) now by (intro filter_True) force
    then show ?thesis by (simp add: sweepSeen_def)
  qed
  show ?case
  proof (cases "map_has (seen s) i")
    case True
    with Cons.IH [of s] Cons.prems sweep show ?thesis
      by (auto simp: m rel_receive_def rel_receiveDone_def map_has_iff)
  next
    case False
    let ?s2 = "s\<lparr>seen := map_set i (now + seenTtlMs (policy s)) (seen s)\<rparr>"
    have "set (map_set i v xs) \<subseteq> insert (i, v) (set xs)" for v :: int and xs
      by (induction xs) auto
    then have "\<forall>(j, x) \<in> set (seen ?s2). x \<ge> t0 + seenTtlMs (policy ?s2)"
      using Cons.prems(2) now by fastforce
    with Cons.IH [of ?s2] Cons.prems(1) sweep False show ?thesis
      by (auto simp: m rel_receive_def rel_receiveDone_def map_has_iff)
  qed
qed

text \<open>
  C23. Duplicates are suppressed. Of any series of wrapped messages that arrive within the
  time-to-live of a fresh channel's memory, retransmissions included, every id is handed on exactly once.
\<close>

theorem each_message_handled_once:
  assumes "\<forall>(t, _, _) \<in> set ms. t0 \<le> t \<and> t < t0 + seenTtlMs pol"
  shows "distinct (map fst (receiveAll ms (newReliable pol))) \<and>
    set (map fst (receiveAll ms (newReliable pol))) = fst ` snd ` set ms"
proof -
  have sub: "set (map fst (receiveAll ms s)) \<subseteq> fst ` snd ` set ms" for s
  proof (induction ms arbitrary: s)
    case (Cons m ms)
    then show ?case
      by (cases m) (force simp: rel_receive_def rel_receiveDone_def)
  qed simp
  show ?thesis
    using receiveAll_seen [of ms t0 "newReliable pol"] assms sub [of "newReliable pol"]
    by (auto simp: newReliable_def)
qed

theorem each_message_handled_once_witness:
  "set (map fst (receiveAll [(10, ''a'', FileAccept ''f''), (1510, ''a'', FileAccept ''f''), (1600, ''b'', FileResume ''f'')]
     (newReliable DEFAULT_POLICY))) = {''a'', ''b''}"
  using each_message_handled_once [of "[(10, ''a'', FileAccept ''f''), (1510, ''a'', FileAccept ''f''), (1600, ''b'', FileResume ''f'')]"
      10 DEFAULT_POLICY]
  by (simp add: DEFAULT_POLICY_def)

subsection \<open>Backoff\<close>

lemma retryBase_default: "retryBase DEFAULT_POLICY n \<le> 12000" "1500 \<le> retryBase DEFAULT_POLICY n"
proof -
  have "1 \<le> (2 :: rat) ^ (n - 1)" by (rule one_le_power) simp
  then show "retryBase DEFAULT_POLICY n \<le> 12000" "1500 \<le> retryBase DEFAULT_POLICY n"
    by (auto simp: retryBase_def DEFAULT_POLICY_def)
qed

lemma js_round_bounds: "x - 1 / 2 \<le> of_int (js_round x)" "of_int (js_round x) \<le> x + 1 / 2"
  by (simp_all add: js_round_def) linarith

text \<open>
  The default backoff. Whatever \<^verbatim>\<open>Math.random\<close> returns, a retry is scheduled between 1.2 and
  14.4 seconds ahead, within a fifth (and half a millisecond of rounding) of the base delay, and the
  base delay doubles with each attempt until it reaches twelve seconds.
\<close>

theorem retry_delay_bounds:
  assumes "0 \<le> rnd" "rnd < 1"
  shows "1200 \<le> retryDelayMs DEFAULT_POLICY rnd n \<and> retryDelayMs DEFAULT_POLICY rnd n \<le> 14400 \<and>
    \<bar>of_int (retryDelayMs DEFAULT_POLICY rnd n) - retryBase DEFAULT_POLICY n\<bar> \<le> retryBase DEFAULT_POLICY n / 5 + 1 / 2 \<and>
    (1 \<le> n \<longrightarrow> retryBase DEFAULT_POLICY (n + 1) = min (2 * retryBase DEFAULT_POLICY n) 12000)"
proof -
  define b where "b = retryBase DEFAULT_POLICY n"
  define x where "x = b - b / 5 + rnd * (b / 5) * 2"
  have b: "1500 \<le> b" "b \<le> 12000" using retryBase_default by (simp_all add: b_def)
  have "0 \<le> rnd * (b / 5)" "rnd * (b / 5) \<le> 1 * (b / 5)"
    using assms b by (auto intro!: mult_right_mono mult_nonneg_nonneg)
  then have x: "4 * b / 5 \<le> x" "x \<le> 6 * b / 5" by (auto simp: x_def field_simps)
  have lo: "1200 \<le> js_round x" and hi: "js_round x \<le> 14400"
    using x b by (auto simp: js_round_def le_floor_iff floor_le_iff)
  have d: "retryDelayMs DEFAULT_POLICY rnd n = js_round x"
    using lo by (simp add: retryDelayMs_def x_def b_def DEFAULT_POLICY_def Let_def max_def)
  have "\<bar>of_int (js_round x) - b\<bar> \<le> b / 5 + 1 / 2"
    using x js_round_bounds [of x] by linarith
  moreover have "1 \<le> n \<longrightarrow> retryBase DEFAULT_POLICY (n + 1) = min (2 * retryBase DEFAULT_POLICY n) 12000"
    by (cases n) (auto simp: retryBase_def DEFAULT_POLICY_def min_def)
  ultimately show ?thesis using lo hi d by (simp add: b_def)
qed

theorem retry_delay_bounds_witness:
  "1200 \<le> retryDelayMs DEFAULT_POLICY (1 / 4) 3 \<and> retryDelayMs DEFAULT_POLICY (1 / 4) 3 \<le> 14400"
  using retry_delay_bounds [of "1 / 4" 3] by simp

subsection \<open>A failure reported twice\<close>

text \<open>
  A failure is reported twice. \<^verbatim>\<open>failAll\<close> and \<^verbatim>\<open>reset\<close> do not stop a \<^verbatim>\<open>sendPending\<close> that is awaiting the
  transport, and after the await \<^verbatim>\<open>failPending\<close> does not look whether the message is still pending.
  When the session changes while a message is being encrypted, the transport answers with a
  refusal, and \<^verbatim>\<open>onFailed\<close> is called a second time for the same message, on a channel that has been
  reset and has nothing pending.
\<close>

theorem failure_reported_twice:
  "case rel_send now i body ch tr (newReliable pol) of (s1, e1) \<Rightarrow>
   case failAll reason s1 of (s2, e2) \<Rightarrow>
   case sendPendingDone False rnd (hd (flying s1)) (rel_reset s2) of (s3, e3) \<Rightarrow>
     pending s2 = [] \<and> e2 = [EvFailed i tr reason] \<and>
     e3 = [EvFailed i tr ''Message could not be queued for transport'']"
  by (simp add: rel_send_def sendPending_def newReliable_def map_has_def failAll_def clearPending_def
      sendPendingDone_def failPending_def rel_reset_def Let_def)

end
