(* ===== verification/FileReceiver.thy ===== *)
theory FileReceiver
  imports Messages
begin

text \<open>
  Receiving files (\<^verbatim>\<open>client/src/features/file/FileReceiver.ts\<close> and \<^verbatim>\<open>fileProtocol.ts\<close>).

  A transfer object stays reachable from a suspended call after it has left the \<^verbatim>\<open>Map\<close>, so
  objects live in a store and the map holds their addresses. The awaits whose continuation
  changes state (\<^verbatim>\<open>accept\<close>, \<^verbatim>\<open>chunk\<close>, the digest in \<^verbatim>\<open>complete\<close>) leave a task behind. An object
  URL is the blob it stands for. What the class sends and calls back is an effect list.
\<close>

section \<open>fileProtocol.ts\<close>

record File =
  file_name :: string
  file_type :: string
  file_bytes :: bytes

record CompletedFile =
  cf_fileId :: string
  cf_name :: string
  cf_mime :: string
  cf_size :: int
  cf_blob :: bytes

definition isForbiddenChar :: "char \<Rightarrow> bool" where
  "isForbiddenChar c = (c \<in> set [CHR 0x5C, CHR ''/'', CHR ''?'', CHR ''%'', CHR ''*'', CHR '':'', CHR ''|'',
     CHR 0x22, CHR ''<'', CHR ''>''])"

text \<open>White space and line terminators that \<^verbatim>\<open>trim\<close> removes, among code units up to 255.\<close>

definition isJsSpace :: "char \<Rightarrow> bool" where
  "isJsSpace c = ((of_char c :: nat) \<in> {9, 10, 11, 12, 13, 32, 160})"

definition js_trim :: "string \<Rightarrow> string" where
  "js_trim s = rev (dropWhile isJsSpace (rev (dropWhile isJsSpace s)))"

definition validateFilename :: "string \<Rightarrow> string" where
  "validateFilename name =
     (let clean = js_trim (take 180 (map (\<lambda>c. if isForbiddenChar c then CHR ''_'' else c) name)) in
      if clean = '''' then ''download'' else clean)"

definition validateOutboundFile :: "File \<Rightarrow> TransportProfile \<Rightarrow> unit res" where
  "validateOutboundFile f p =
     (if length (file_bytes f) \<le> 0 then throw ''Empty files are not supported''
      else if length (file_bytes f) > maxFileBytes (files p) then throw ''File is larger than this profile allows''
      else if length (file_name f) > 180 then throw ''Filename is too long''
      else Inr ())"

definition encodeChunk :: "bytes \<Rightarrow> string" where
  "encodeChunk = bytesToBase64Url"

definition decodeChunk :: "string \<Rightarrow> bytes res" where
  "decodeChunk = base64UrlToBytes"

text \<open>\<open>sha\<close> is SHA-256, a WebCrypto primitive.\<close>

definition digestBlob :: "(bytes \<Rightarrow> bytes) \<Rightarrow> bytes \<Rightarrow> string" where
  "digestBlob sha blob = bytesToHex (sha blob)"

definition ceilDiv :: "int \<Rightarrow> int \<Rightarrow> int" where
  "ceilDiv a b = - ((- a) div b)"

section \<open>State\<close>

datatype ReceiverStatus = RvOffered | RvReceiving | RvCompleted | RvCancelled | RvFailed

record ReceiverSnapshot =
  rs_fileId :: string
  rs_name :: string
  rs_size :: int
  rs_receivedBytes :: int
  rs_totalBytes :: int
  rs_progress :: rat
  rs_status :: ReceiverStatus
  rs_reason :: "string option"
  rs_blobUrl :: "bytes option"

record ReceiveTransfer =
  rt_fileId :: string
  rt_name :: string
  rt_mime :: string
  rt_size :: int
  rt_chunkSize :: int
  rt_totalChunks :: int
  rt_sha256 :: "string option"
  rt_status :: ReceiverStatus
  rt_chunks :: "bytes option list"
  rt_received :: "int set"
  rt_blobUrl :: "bytes option"
  rt_reason :: "string option"

text \<open>What a suspended call does next: the rest of \<^verbatim>\<open>accept\<close>, of \<^verbatim>\<open>chunk\<close>, and of \<^verbatim>\<open>complete\<close>.\<close>

datatype ReceiverTask = AfterAccept nat | AfterAck nat | AfterDigest nat bytes

record FileReceiver =
  fr_profile :: TransportProfile
  fr_transfers :: "(string, nat) jsmap"
  fr_objs :: "nat \<Rightarrow> ReceiveTransfer"
  fr_next :: nat \<comment> \<open>the next free address\<close>
  fr_tasks :: "ReceiverTask list"

datatype ReceiverEffect =
    RSend CoreAppMessage
  | RUpdate ReceiverSnapshot
  | RComplete CompletedFile

type_synonym 'a recv = "FileReceiver \<Rightarrow> 'a"

definition updObj :: "nat \<Rightarrow> (ReceiveTransfer \<Rightarrow> ReceiveTransfer) \<Rightarrow> FileReceiver \<Rightarrow> FileReceiver" where
  "updObj a f s = s\<lparr>fr_objs := (fr_objs s)(a := f (fr_objs s a))\<rparr>"

definition spawn :: "ReceiverTask \<Rightarrow> FileReceiver \<Rightarrow> FileReceiver" where
  "spawn t s = s\<lparr>fr_tasks := fr_tasks s @ [t]\<rparr>"

definition finished :: "ReceiverStatus \<Rightarrow> bool" where
  "finished st = (st \<in> {RvCompleted, RvCancelled, RvFailed})"

section \<open>Operations\<close>

definition emitSnapshot :: "ReceiveTransfer \<Rightarrow> ReceiverEffect" where
  "emitSnapshot t = RUpdate
     \<lparr>rs_fileId = rt_fileId t, rs_name = rt_name t, rs_size = rt_size t,
      rs_receivedBytes = min (rt_size t) (int (card (rt_received t)) * rt_chunkSize t),
      rs_totalBytes = rt_size t,
      rs_progress = (if rt_totalChunks t = 0 then 0
                     else min 1 (of_nat (card (rt_received t)) / of_int (rt_totalChunks t))),
      rs_status = rt_status t, rs_reason = rt_reason t, rs_blobUrl = rt_blobUrl t\<rparr>"

definition rv_emit :: "nat \<Rightarrow> FileReceiver \<Rightarrow> ReceiverEffect" where
  "rv_emit a s = emitSnapshot (fr_objs s a)"

definition release :: "ReceiveTransfer \<Rightarrow> ReceiveTransfer" where
  "release t = t\<lparr>rt_chunks := [], rt_received := {}, rt_blobUrl := None\<rparr>"

definition rv_setProfile :: "TransportProfile \<Rightarrow> FileReceiver \<Rightarrow> FileReceiver" where
  "rv_setProfile p s = s\<lparr>fr_profile := p\<rparr>"

definition rv_reset :: "FileReceiver \<Rightarrow> FileReceiver" where
  "rv_reset s = (fold (\<lambda>(i, a). updObj a release) (fr_transfers s) s)\<lparr>fr_transfers := []\<rparr>"

definition rv_remove :: "string \<Rightarrow> FileReceiver \<Rightarrow> FileReceiver" where
  "rv_remove fileId s =
     (case map_get (fr_transfers s) fileId of
        None \<Rightarrow> s
      | Some a \<Rightarrow>
          if \<not> finished (rt_status (fr_objs s a)) then s
          else (updObj a release s)\<lparr>fr_transfers := map_delete fileId (fr_transfers s)\<rparr>)"

definition rejectOffer :: "string \<Rightarrow> string \<Rightarrow> ReceiverEffect list" where
  "rejectOffer fileId reason = [RSend (FileReject fileId reason)]"

definition badSize :: "TransportProfile \<Rightarrow> int \<Rightarrow> bool" where
  "badSize p sz = (sz \<le> 0 \<or> sz > int (maxFileBytes (files p)) \<or> sz > int (maxMemoryReceiveBytes (files p)))"

definition badMetadata :: "TransportProfile \<Rightarrow> int \<Rightarrow> int \<Rightarrow> int \<Rightarrow> bool" where
  "badMetadata p sz chunkSize totalChunks =
     (chunkSize \<le> 0 \<or> chunkSize > int (chunkBytes (files p)) \<or> totalChunks \<le> 0 \<or>
      totalChunks \<noteq> (if chunkSize > 0 then ceilDiv sz chunkSize else 0) \<or>
      totalChunks > ceilDiv (int (maxFileBytes (files p))) (max 1 chunkSize))"

definition newTransfer ::
    "string \<Rightarrow> string \<Rightarrow> string \<Rightarrow> int \<Rightarrow> int \<Rightarrow> int \<Rightarrow> string option \<Rightarrow> ReceiveTransfer" where
  "newTransfer fileId name mime sz chunkSize totalChunks sha256 =
     \<lparr>rt_fileId = fileId, rt_name = name,
      rt_mime = (if mime = '''' then ''application/octet-stream'' else mime), rt_size = sz,
      rt_chunkSize = chunkSize, rt_totalChunks = totalChunks, rt_sha256 = sha256, rt_status = RvOffered,
      rt_chunks = replicate (nat totalChunks) None, rt_received = {}, rt_blobUrl = None, rt_reason = None\<rparr>"

definition newReceiver :: "TransportProfile \<Rightarrow> FileReceiver" where
  "newReceiver p = \<lparr>fr_profile = p, fr_transfers = [], fr_objs = \<lambda>_. newTransfer [] [] [] 0 0 0 None, fr_next = 0, fr_tasks = []\<rparr>"

text \<open>The part of \<^verbatim>\<open>offer\<close> after the checks of the metadata and of an active previous transfer.\<close>

definition admitOffer :: "ReceiveTransfer \<Rightarrow> FileReceiver \<Rightarrow> FileReceiver \<times> ReceiverEffect list" where
  "admitOffer t s =
     (let fileId = rt_fileId t;
          s1 = (case map_get (fr_transfers s) fileId of
                  None \<Rightarrow> s
                | Some a \<Rightarrow> (updObj a release s)\<lparr>fr_transfers := map_delete fileId (fr_transfers s)\<rparr>)
      in
      if \<exists>(i, a) \<in> set (fr_transfers s1). rt_fileId (fr_objs s1 a) \<noteq> fileId \<and>
           rt_status (fr_objs s1 a) \<in> {RvOffered, RvReceiving}
      then (s1, rejectOffer fileId ''Another incoming file transfer is already active'')
      else
        let a = fr_next s1;
            s2 = s1\<lparr>fr_objs := (fr_objs s1)(a := t), fr_next := a + 1,
                    fr_transfers := map_set fileId a (fr_transfers s1)\<rparr>
        in (s2, [rv_emit a s2]))"

definition rv_offer ::
    "string \<Rightarrow> string \<Rightarrow> string \<Rightarrow> int \<Rightarrow> int \<Rightarrow> int \<Rightarrow> string option \<Rightarrow> FileReceiver \<Rightarrow>
     FileReceiver \<times> ReceiverEffect list" where
  "rv_offer fileId rawName mime sz chunkSize totalChunks sha256 s =
     (let name = validateFilename rawName in
      if badSize (fr_profile s) sz then
        (s, rejectOffer fileId (''File is too large for this browser ('' @ formatBytes (of_int sz) @ '')''))
      else if badMetadata (fr_profile s) sz chunkSize totalChunks then
        (s, rejectOffer fileId ''Invalid file metadata'')
      else if (case map_get (fr_transfers s) fileId of
                 None \<Rightarrow> False | Some a \<Rightarrow> \<not> finished (rt_status (fr_objs s a))) then
        (s, rejectOffer fileId ''Duplicate active file transfer'')
      else admitOffer (newTransfer fileId name mime sz chunkSize totalChunks sha256) s)"

definition rv_accept :: "string \<Rightarrow> FileReceiver \<Rightarrow> FileReceiver \<times> ReceiverEffect list" where
  "rv_accept fileId s =
     (case map_get (fr_transfers s) fileId of
        None \<Rightarrow> (s, [])
      | Some a \<Rightarrow>
          if rt_status (fr_objs s a) \<noteq> RvOffered then (s, [])
          else
            let s1 = updObj a (\<lambda>t. t\<lparr>rt_status := RvReceiving, rt_reason := None\<rparr>) s
            in (spawn (AfterAccept a) s1, [rv_emit a s1, RSend (FileAccept fileId)]))"

definition afterAccept :: "nat \<Rightarrow> bool \<Rightarrow> FileReceiver \<Rightarrow> FileReceiver \<times> ReceiverEffect list" where
  "afterAccept a ok s =
     (if ok then (s, [])
      else
        let s1 = updObj a (\<lambda>t. release (t\<lparr>rt_status := RvFailed, rt_reason := Some ''Could not accept file transfer''\<rparr>)) s
        in (s1, [rv_emit a s1]))"

definition cancelWith :: "nat \<Rightarrow> string \<Rightarrow> FileReceiver \<Rightarrow> FileReceiver" where
  "cancelWith a reason s = updObj a (\<lambda>t. release (t\<lparr>rt_status := RvCancelled, rt_reason := Some reason\<rparr>)) s"

definition rv_reject :: "string \<Rightarrow> string \<Rightarrow> FileReceiver \<Rightarrow> FileReceiver \<times> ReceiverEffect list" where
  "rv_reject fileId reason s =
     (case map_get (fr_transfers s) fileId of
        None \<Rightarrow> (s, [])
      | Some a \<Rightarrow>
          let s1 = cancelWith a reason s in (s1, [rv_emit a s1, RSend (FileReject fileId reason)]))"

definition rv_cancel :: "string \<Rightarrow> string \<Rightarrow> bool \<Rightarrow> FileReceiver \<Rightarrow> FileReceiver \<times> ReceiverEffect list" where
  "rv_cancel fileId reason notify s =
     (case map_get (fr_transfers s) fileId of
        None \<Rightarrow> (s, [])
      | Some a \<Rightarrow>
          let s1 = cancelWith a reason s in
          (s1, rv_emit a s1 # (if notify then [RSend (FileCancel fileId reason)] else [])))"

definition peerCancel :: "string \<Rightarrow> string \<Rightarrow> FileReceiver \<Rightarrow> FileReceiver \<times> ReceiverEffect list" where
  "peerCancel fileId reason s = rv_cancel fileId reason False s"

definition sendAck :: "string \<Rightarrow> int \<Rightarrow> ReceiverEffect list" where
  "sendAck fileId index = [RSend (FileAck fileId index)]"

definition sendNack :: "string \<Rightarrow> int \<Rightarrow> string \<Rightarrow> ReceiverEffect list" where
  "sendNack fileId index reason = [RSend (FileNack fileId index reason)]"

definition expectedBytes :: "ReceiveTransfer \<Rightarrow> int \<Rightarrow> int" where
  "expectedBytes t index =
     (if index = rt_totalChunks t - 1 then rt_size t - index * rt_chunkSize t else rt_chunkSize t)"

definition storeChunk :: "int \<Rightarrow> bytes \<Rightarrow> ReceiveTransfer \<Rightarrow> ReceiveTransfer" where
  "storeChunk index bytes t =
     t\<lparr>rt_chunks := (rt_chunks t)[nat index := Some bytes], rt_received := insert index (rt_received t)\<rparr>"

text \<open>\<^verbatim>\<open>chunk\<close> up to the await of the acknowledgement of a new chunk.\<close>

definition rv_chunk ::
    "string \<Rightarrow> int \<Rightarrow> int \<Rightarrow> string \<Rightarrow> FileReceiver \<Rightarrow> FileReceiver \<times> ReceiverEffect list" where
  "rv_chunk fileId index totalChunks data s =
     (case map_get (fr_transfers s) fileId of
        None \<Rightarrow> (s, [])
      | Some a \<Rightarrow>
          let t = fr_objs s a in
          if rt_status t \<noteq> RvReceiving then (s, [])
          else if totalChunks \<noteq> rt_totalChunks t \<or> index < 0 \<or> index \<ge> rt_totalChunks t then
            (s, sendNack fileId (max 0 index) ''invalid chunk'')
          else if index \<in> rt_received t then (s, sendAck fileId index)
          else
            (case decodeChunk data of
               Inl e \<Rightarrow> (s, sendNack fileId index ''invalid chunk data'')
             | Inr bytes \<Rightarrow>
                 if int (length bytes) \<noteq> expectedBytes t index then (s, sendNack fileId index ''wrong chunk size'')
                 else (spawn (AfterAck a) (updObj a (storeChunk index bytes) s), sendAck fileId index)))"

text \<open>
  The blob of the chunk array: \<^verbatim>\<open>map\<close> skips a hole, which the \<^verbatim>\<open>Blob\<close> constructor then reads as
  \<^verbatim>\<open>undefined\<close> and converts to text.
\<close>

definition blobOf :: "bytes option list \<Rightarrow> bytes" where
  "blobOf chunks = concat (map (\<lambda>c. case c of Some b \<Rightarrow> b | None \<Rightarrow> utf8Encode ''undefined'') chunks)"

definition completeOk :: "nat \<Rightarrow> bytes \<Rightarrow> FileReceiver \<Rightarrow> FileReceiver \<times> ReceiverEffect list" where
  "completeOk a blob s =
     (let s1 = updObj a (\<lambda>t. t\<lparr>rt_status := RvCompleted, rt_reason := None, rt_chunks := [],
                               rt_blobUrl := Some blob\<rparr>) s;
          t = fr_objs s1 a
      in (s1, [rv_emit a s1,
               RComplete \<lparr>cf_fileId = rt_fileId t, cf_name = rt_name t, cf_mime = rt_mime t,
                          cf_size = rt_size t, cf_blob = blob\<rparr>]))"

definition completeFailed :: "nat \<Rightarrow> string \<Rightarrow> FileReceiver \<Rightarrow> FileReceiver \<times> ReceiverEffect list" where
  "completeFailed a reason s =
     (let s1 = updObj a (\<lambda>t. t\<lparr>rt_status := RvFailed, rt_reason := Some reason, rt_chunks := [],
                               rt_received := {}\<rparr>) s
      in (s1, [rv_emit a s1, RSend (FileCancel (rt_fileId (fr_objs s1 a)) ''receiver validation failed'')]))"

text \<open>\<^verbatim>\<open>complete\<close>; with a hash it awaits the digest. An empty hash is falsy.\<close>

definition rv_complete :: "nat \<Rightarrow> FileReceiver \<Rightarrow> FileReceiver \<times> ReceiverEffect list" where
  "rv_complete a s =
     (let t = fr_objs s a; blob = blobOf (rt_chunks t) in
      if int (length blob) \<noteq> rt_size t then completeFailed a ''File size mismatch'' s
      else if rt_sha256 t \<noteq> None \<and> rt_sha256 t \<noteq> Some '''' then (spawn (AfterDigest a blob) s, [])
      else completeOk a blob s)"

definition afterAck :: "nat \<Rightarrow> FileReceiver \<Rightarrow> FileReceiver \<times> ReceiverEffect list" where
  "afterAck a s =
     (let t = fr_objs s a in
      if int (card (rt_received t)) = rt_totalChunks t then
        (let (s1, es) = rv_complete a s in (s1, rv_emit a s # es))
      else (s, [rv_emit a s]))"

definition afterDigest :: "(bytes \<Rightarrow> bytes) \<Rightarrow> nat \<Rightarrow> bytes \<Rightarrow> FileReceiver \<Rightarrow> FileReceiver \<times> ReceiverEffect list" where
  "afterDigest sha a blob s =
     (if Some (digestBlob sha blob) \<noteq> rt_sha256 (fr_objs s a) then completeFailed a ''Integrity check failed'' s
      else completeOk a blob s)"

definition completeNotice :: "string \<Rightarrow> FileReceiver \<Rightarrow> FileReceiver \<times> ReceiverEffect list" where
  "completeNotice fileId s =
     (case map_get (fr_transfers s) fileId of
        None \<Rightarrow> (s, [])
      | Some a \<Rightarrow>
          let t = fr_objs s a in
          if rt_status t = RvCompleted then (s, [])
          else if int (card (rt_received t)) \<noteq> rt_totalChunks t then
            (let s1 = updObj a (\<lambda>t. t\<lparr>rt_reason := Some ''Waiting for missing chunks''\<rparr>) s
             in (s1, [rv_emit a s1]))
          else (s, []))"

section \<open>Interleavings\<close>

text \<open>
  Messages from the peer are handled one after the other (the session awaits \<^verbatim>\<open>chunk\<close>), but the
  user's actions, a reset, and the answer to an acceptance come at any time.
\<close>

datatype RecvOp =
    InOffer string string string int int int "string option"
  | InChunk string int int string
  | InComplete string
  | InCancel string string
  | UiAccept string
  | UiReject string string
  | UiCancel string string
  | UiRemove string
  | DoReset
  | Resume ReceiverTask bool

fun inbound :: "RecvOp \<Rightarrow> bool" where
  "inbound (InOffer _ _ _ _ _ _ _) = True"
| "inbound (InChunk _ _ _ _) = True"
| "inbound (InComplete _) = True"
| "inbound (InCancel _ _) = True"
| "inbound _ = False"

fun inboundTask :: "ReceiverTask \<Rightarrow> bool" where
  "inboundTask (AfterAccept _) = False"
| "inboundTask _ = True"

fun enabled :: "RecvOp \<Rightarrow> FileReceiver \<Rightarrow> bool" where
  "enabled (Resume t ok) s = (t \<in> set (fr_tasks s))"
| "enabled op s = (inbound op \<longrightarrow> (\<forall>t \<in> set (fr_tasks s). \<not> inboundTask t))"

fun resumeTask :: "(bytes \<Rightarrow> bytes) \<Rightarrow> ReceiverTask \<Rightarrow> bool \<Rightarrow> FileReceiver \<Rightarrow> FileReceiver \<times> ReceiverEffect list" where
  "resumeTask sha (AfterAccept a) ok s = afterAccept a ok s"
| "resumeTask sha (AfterAck a) ok s = afterAck a s"
| "resumeTask sha (AfterDigest a blob) ok s = afterDigest sha a blob s"

fun recv_step :: "(bytes \<Rightarrow> bytes) \<Rightarrow> RecvOp \<Rightarrow> FileReceiver \<Rightarrow> FileReceiver \<times> ReceiverEffect list" where
  "recv_step sha (InOffer i n m sz cs tot h) s = rv_offer i n m sz cs tot h s"
| "recv_step sha (InChunk i ix tot d) s = rv_chunk i ix tot d s"
| "recv_step sha (InComplete i) s = completeNotice i s"
| "recv_step sha (InCancel i r) s = peerCancel i r s"
| "recv_step sha (UiAccept i) s = rv_accept i s"
| "recv_step sha (UiReject i r) s = rv_reject i r s"
| "recv_step sha (UiCancel i r) s = rv_cancel i r True s"
| "recv_step sha (UiRemove i) s = (rv_remove i s, [])"
| "recv_step sha DoReset s = (rv_reset s, [])"
| "recv_step sha (Resume t ok) s = resumeTask sha t ok (s\<lparr>fr_tasks := remove1 t (fr_tasks s)\<rparr>)"

text \<open>
  The contents a peer is known to send: for a file id with an entry, offers announce its size and chunk
  size and chunks are the slices of its bytes; without an entry, anything may arrive.
\<close>

type_synonym sources = "string \<Rightarrow> (int \<times> bytes) option"

definition chunk_from :: "sources \<Rightarrow> string \<Rightarrow> int \<Rightarrow> bytes \<Rightarrow> bool" where
  "chunk_from src i ix b =
     (\<forall>cs c. src i = Some (cs, c) \<longrightarrow> b = subbytes (nat ix * nat cs) (nat cs) c)"

fun faithful :: "sources \<Rightarrow> RecvOp \<Rightarrow> bool" where
  "faithful src (InOffer i _ _ sz cs _ _) =
     (\<forall>cs0 c. src i = Some (cs0, c) \<longrightarrow> sz = int (length c) \<and> cs = cs0)"
| "faithful src (InChunk i ix _ d) = (\<forall>b. decodeChunk d = Inr b \<longrightarrow> chunk_from src i ix b)"
| "faithful src _ = True"

inductive recv_run :: "(bytes \<Rightarrow> bytes) \<Rightarrow> sources \<Rightarrow> TransportProfile \<Rightarrow> ReceiverEffect list \<Rightarrow> FileReceiver \<Rightarrow> bool"
  for sha src p where
  recv_start: "recv_run sha src p [] (newReceiver p)"
| recv_next: "recv_run sha src p es s \<Longrightarrow> faithful src op \<Longrightarrow> enabled op s \<Longrightarrow> recv_step sha op s = (s', e) \<Longrightarrow>
    recv_run sha src p (es @ e) s'"

section \<open>The invariant\<close>

definition active :: "ReceiverStatus \<Rightarrow> bool" where
  "active st = (st = RvOffered \<or> st = RvReceiving)"

definition meta_ok :: "sources \<Rightarrow> TransportProfile \<Rightarrow> ReceiveTransfer \<Rightarrow> bool" where
  "meta_ok src p t =
     (\<not> badSize p (rt_size t) \<and> \<not> badMetadata p (rt_size t) (rt_chunkSize t) (rt_totalChunks t) \<and>
      (\<forall>cs c. src (rt_fileId t) = Some (cs, c) \<longrightarrow> rt_size t = int (length c) \<and> rt_chunkSize t = cs))"

definition blob_ok :: "sources \<Rightarrow> ReceiveTransfer \<Rightarrow> bytes \<Rightarrow> bool" where
  "blob_ok src t b =
     (int (length b) = rt_size t \<and> (\<forall>cs c. src (rt_fileId t) = Some (cs, c) \<longrightarrow> b = c))"

definition digest_ok :: "(bytes \<Rightarrow> bytes) \<Rightarrow> ReceiveTransfer \<Rightarrow> bytes \<Rightarrow> bool" where
  "digest_ok sha t b = (\<forall>h. rt_sha256 t = Some h \<longrightarrow> h \<noteq> '''' \<longrightarrow> digestBlob sha b = h)"

definition live :: "sources \<Rightarrow> ReceiveTransfer \<Rightarrow> bool" where
  "live src t =
     (length (rt_chunks t) = nat (rt_totalChunks t) \<and>
      (\<forall>i. i \<in> rt_received t \<longleftrightarrow> 0 \<le> i \<and> i < rt_totalChunks t \<and> rt_chunks t ! nat i \<noteq> None) \<and>
      (\<forall>i b. 0 \<le> i \<longrightarrow> i < rt_totalChunks t \<longrightarrow> rt_chunks t ! nat i = Some b \<longrightarrow>
         int (length b) = expectedBytes t i \<and> chunk_from src (rt_fileId t) i b))"

definition obj_ok :: "(bytes \<Rightarrow> bytes) \<Rightarrow> sources \<Rightarrow> TransportProfile \<Rightarrow> ReceiveTransfer \<Rightarrow> bool" where
  "obj_ok sha src p t =
     (meta_ok src p t \<and> (\<forall>b. rt_blobUrl t = Some b \<longrightarrow> blob_ok src t b \<and> digest_ok sha t b) \<and>
      (active (rt_status t) \<and> live src t \<or> rt_chunks t = [] \<and> (rt_received t = {} \<or> rt_status t = RvCompleted)))"

definition attached_ok :: "sources \<Rightarrow> ReceiveTransfer \<Rightarrow> bool" where
  "attached_ok src t =
     ((active (rt_status t) \<longrightarrow> live src t) \<and> (rt_status t = RvCompleted \<longrightarrow> rt_blobUrl t \<noteq> None))"

fun task_ok :: "sources \<Rightarrow> FileReceiver \<Rightarrow> ReceiverTask \<Rightarrow> bool" where
  "task_ok src s (AfterAccept a) = (a < fr_next s)"
| "task_ok src s (AfterAck a) =
     (a < fr_next s \<and> (rt_status (fr_objs s a) = RvReceiving \<or> rt_received (fr_objs s a) = {}))"
| "task_ok src s (AfterDigest a b) = (a < fr_next s \<and> blob_ok src (fr_objs s a) b)"

definition recv_inv :: "(bytes \<Rightarrow> bytes) \<Rightarrow> sources \<Rightarrow> TransportProfile \<Rightarrow> FileReceiver \<Rightarrow> bool" where
  "recv_inv sha src p s =
     (fr_profile s = p \<and>
      (\<forall>i a. map_get (fr_transfers s) i = Some a \<longrightarrow>
         a < fr_next s \<and> rt_fileId (fr_objs s a) = i \<and> attached_ok src (fr_objs s a)) \<and>
      (\<forall>i a j b. map_get (fr_transfers s) i = Some a \<longrightarrow> map_get (fr_transfers s) j = Some b \<longrightarrow>
         active (rt_status (fr_objs s a)) \<longrightarrow> active (rt_status (fr_objs s b)) \<longrightarrow> i = j) \<and>
      (\<forall>a < fr_next s. obj_ok sha src p (fr_objs s a) \<and>
         (rt_chunks (fr_objs s a) \<noteq> [] \<longrightarrow> map_get (fr_transfers s) (rt_fileId (fr_objs s a)) = Some a)) \<and>
      (\<forall>t \<in> set (fr_tasks s). task_ok src s t) \<and> length (filter inboundTask (fr_tasks s)) \<le> 1)"

text \<open>An update that keeps an object's metadata and does not revive it.\<close>

definition tame :: "ReceiveTransfer \<Rightarrow> ReceiveTransfer \<Rightarrow> bool" where
  "tame t t' =
     (rt_fileId t' = rt_fileId t \<and> rt_size t' = rt_size t \<and> rt_chunkSize t' = rt_chunkSize t \<and>
      rt_totalChunks t' = rt_totalChunks t \<and> rt_sha256 t' = rt_sha256 t \<and>
      (active (rt_status t') \<longrightarrow> active (rt_status t)) \<and>
      (rt_chunks t' \<noteq> [] \<longrightarrow> rt_chunks t \<noteq> []))"

lemma recv_invD:
  assumes "recv_inv sha src p s"
  shows "fr_profile s = p" and "length (filter inboundTask (fr_tasks s)) \<le> 1"
    and "t \<in> set (fr_tasks s) \<Longrightarrow> task_ok src s t"
    and "a < fr_next s \<Longrightarrow> obj_ok sha src p (fr_objs s a)"
    and "a < fr_next s \<Longrightarrow> rt_chunks (fr_objs s a) \<noteq> [] \<Longrightarrow>
      map_get (fr_transfers s) (rt_fileId (fr_objs s a)) = Some a"
    and "map_get (fr_transfers s) i = Some a \<Longrightarrow>
      a < fr_next s \<and> rt_fileId (fr_objs s a) = i \<and> attached_ok src (fr_objs s a)"
    and "map_get (fr_transfers s) i = Some a \<Longrightarrow> map_get (fr_transfers s) j = Some b \<Longrightarrow>
      active (rt_status (fr_objs s a)) \<Longrightarrow> active (rt_status (fr_objs s b)) \<Longrightarrow> i = j"
  using assms unfolding recv_inv_def by blast+

lemma recv_invI:
  assumes "fr_profile s = p" and "length (filter inboundTask (fr_tasks s)) \<le> 1"
    and "\<And>t. t \<in> set (fr_tasks s) \<Longrightarrow> task_ok src s t"
    and "\<And>a. a < fr_next s \<Longrightarrow> obj_ok sha src p (fr_objs s a)"
    and "\<And>a. a < fr_next s \<Longrightarrow> rt_chunks (fr_objs s a) \<noteq> [] \<Longrightarrow>
      map_get (fr_transfers s) (rt_fileId (fr_objs s a)) = Some a"
    and "\<And>i a. map_get (fr_transfers s) i = Some a \<Longrightarrow>
      a < fr_next s \<and> rt_fileId (fr_objs s a) = i \<and> attached_ok src (fr_objs s a)"
    and "\<And>i a j b. map_get (fr_transfers s) i = Some a \<Longrightarrow> map_get (fr_transfers s) j = Some b \<Longrightarrow>
      active (rt_status (fr_objs s a)) \<Longrightarrow> active (rt_status (fr_objs s b)) \<Longrightarrow> i = j"
  shows "recv_inv sha src p s"
  using assms unfolding recv_inv_def by blast

lemma updObj_sel [simp]:
  "fr_profile (updObj a f s) = fr_profile s" "fr_transfers (updObj a f s) = fr_transfers s"
  "fr_next (updObj a f s) = fr_next s" "fr_tasks (updObj a f s) = fr_tasks s"
  "fr_objs (updObj a f s) = (fr_objs s)(a := f (fr_objs s a))"
  by (simp_all add: updObj_def)

lemma tameD:
  assumes "tame t t'"
  shows "rt_fileId t' = rt_fileId t" "active (rt_status t') \<Longrightarrow> active (rt_status t)"
    "rt_chunks t' \<noteq> [] \<Longrightarrow> rt_chunks t \<noteq> []" "blob_ok src t' b = blob_ok src t b"
  using assms by (simp_all add: tame_def blob_ok_def)

lemma recv_inv_upd:
  assumes inv: "recv_inv sha src p s" and a: "a < fr_next s"
    and ok: "obj_ok sha src p (f (fr_objs s a))" and tame: "tame (fr_objs s a) (f (fr_objs s a))"
    and att: "map_get (fr_transfers s) (rt_fileId (fr_objs s a)) = Some a \<Longrightarrow> attached_ok src (f (fr_objs s a))"
    and tk: "AfterAck a \<in> set (fr_tasks s) \<Longrightarrow>
      rt_status (f (fr_objs s a)) = RvReceiving \<or> rt_received (f (fr_objs s a)) = {}"
  shows "recv_inv sha src p (updObj a f s)"
proof (rule recv_invI)
  fix t assume "t \<in> set (fr_tasks (updObj a f s))"
  then have t: "t \<in> set (fr_tasks s)" "task_ok src s t" using recv_invD(3) [OF inv] by simp_all
  show "task_ok src (updObj a f s) t"
  proof (cases t)
    case (AfterAck b)
    with t tk show ?thesis by (cases "b = a") auto
  qed (use t tameD(4) [OF tame] in auto)
next
  fix b assume b: "b < fr_next (updObj a f s)"
  then show "obj_ok sha src p (fr_objs (updObj a f s) b)"
    using recv_invD(4) [OF inv] ok by simp
  assume "rt_chunks (fr_objs (updObj a f s) b) \<noteq> []"
  then show "map_get (fr_transfers (updObj a f s)) (rt_fileId (fr_objs (updObj a f s) b)) = Some b"
    using b recv_invD(5) [OF inv, of b] tameD(1,3) [OF tame] by (cases "b = a") auto
next
  fix i b assume "map_get (fr_transfers (updObj a f s)) i = Some b"
  then show "b < fr_next (updObj a f s) \<and> rt_fileId (fr_objs (updObj a f s) b) = i \<and>
      attached_ok src (fr_objs (updObj a f s) b)"
    using recv_invD(6) [OF inv, of i b] tameD(1) [OF tame] att by (cases "b = a") auto
next
  fix i b j c
  assume m: "map_get (fr_transfers (updObj a f s)) i = Some b" "map_get (fr_transfers (updObj a f s)) j = Some c"
    and ac: "active (rt_status (fr_objs (updObj a f s) b))" "active (rt_status (fr_objs (updObj a f s) c))"
  have "active (rt_status (fr_objs s b))" "active (rt_status (fr_objs s c))"
    using ac tameD(2) [OF tame] by (auto split: if_splits)
  with m show "i = j" using recv_invD(7) [OF inv, of i b j c] by simp
qed (use recv_invD(1,2) [OF inv] in simp_all)

section \<open>Every operation keeps the invariant\<close>

lemma obj_ok_meta: "obj_ok sha src p t \<Longrightarrow> meta_ok src p t"
  by (simp add: obj_ok_def)

lemma meta_cong:
  "rt_fileId t' = rt_fileId t \<Longrightarrow> rt_size t' = rt_size t \<Longrightarrow> rt_chunkSize t' = rt_chunkSize t \<Longrightarrow>
   rt_totalChunks t' = rt_totalChunks t \<Longrightarrow> meta_ok src p t' = meta_ok src p t"
  by (simp add: meta_ok_def)

lemma totalChunks_pos: "meta_ok src p t \<Longrightarrow> 0 < rt_totalChunks t"
  unfolding meta_ok_def badMetadata_def by linarith

lemma recv_inv_close:
  assumes inv: "recv_inv sha src p s" and a: "a < fr_next s" and st: "st = RvCancelled \<or> st = RvFailed"
  shows "recv_inv sha src p (updObj a (\<lambda>t. release (t\<lparr>rt_status := st, rt_reason := r\<rparr>)) s)"
  using st recv_invD(4) [OF inv a]
  by (intro recv_inv_upd [OF inv a])
    (auto simp: obj_ok_def tame_def attached_ok_def release_def active_def meta_ok_def)

lemma recv_inv_reason:
  assumes inv: "recv_inv sha src p s" and a: "a < fr_next s"
  shows "recv_inv sha src p (updObj a (\<lambda>t. t\<lparr>rt_reason := r\<rparr>) s)"
proof (rule recv_inv_upd [OF inv a])
  let ?t = "fr_objs s a"
  have same: "live src (?t\<lparr>rt_reason := r\<rparr>) = live src ?t" "blob_ok src (?t\<lparr>rt_reason := r\<rparr>) b = blob_ok src ?t b"
    "digest_ok sha (?t\<lparr>rt_reason := r\<rparr>) b = digest_ok sha ?t b" for b
    by (simp_all add: live_def blob_ok_def digest_ok_def expectedBytes_def)
  show "obj_ok sha src p (?t\<lparr>rt_reason := r\<rparr>)"
    using recv_invD(4) [OF inv a] by (simp add: obj_ok_def same meta_ok_def)
  show "tame ?t (?t\<lparr>rt_reason := r\<rparr>)" by (simp add: tame_def)
  show "attached_ok src (?t\<lparr>rt_reason := r\<rparr>)" if "map_get (fr_transfers s) (rt_fileId ?t) = Some a"
    using recv_invD(6) [OF inv that] by (simp add: attached_ok_def same)
  show "rt_status (?t\<lparr>rt_reason := r\<rparr>) = RvReceiving \<or> rt_received (?t\<lparr>rt_reason := r\<rparr>) = {}"
    if "AfterAck a \<in> set (fr_tasks s)" using recv_invD(3) [OF inv that] by simp
qed

lemma recv_inv_detach:
  assumes inv: "recv_inv sha src p s"
    and objs: "\<And>a. fr_objs s' a = fr_objs s a \<or> fr_objs s' a = release (fr_objs s a)"
    and tr: "\<And>i a. map_get (fr_transfers s') i = Some a \<Longrightarrow> map_get (fr_transfers s) i = Some a \<and> fr_objs s' a = fr_objs s a"
    and rel: "\<And>i a. map_get (fr_transfers s) i = Some a \<Longrightarrow> map_get (fr_transfers s') i \<noteq> Some a \<Longrightarrow>
      fr_objs s' a = release (fr_objs s a)"
    and same: "fr_profile s' = fr_profile s" "fr_next s' = fr_next s" "fr_tasks s' = fr_tasks s"
  shows "recv_inv sha src p s'"
proof (rule recv_invI)
  have f: "rt_fileId (fr_objs s' a) = rt_fileId (fr_objs s a)" "blob_ok src (fr_objs s' a) b = blob_ok src (fr_objs s a) b"
    "rt_received (fr_objs s a) = {} \<Longrightarrow> rt_received (fr_objs s' a) = {}"
    "rt_status (fr_objs s' a) = rt_status (fr_objs s a)" for a b
    using objs [of a] by (auto simp: release_def blob_ok_def)
  fix t assume "t \<in> set (fr_tasks s')"
  then have "task_ok src s t" using recv_invD(3) [OF inv] same by simp
  then show "task_ok src s' t"
    using f by (cases t) (auto simp: same)
next
  fix a assume a: "a < fr_next s'"
  then show "obj_ok sha src p (fr_objs s' a)"
    using recv_invD(4) [OF inv, of a] objs [of a] same
    by (auto simp: obj_ok_def release_def meta_ok_def)
  assume c: "rt_chunks (fr_objs s' a) \<noteq> []"
  then have eq: "fr_objs s' a = fr_objs s a" using objs [of a] by (auto simp: release_def)
  have m: "map_get (fr_transfers s) (rt_fileId (fr_objs s a)) = Some a"
    using recv_invD(5) [OF inv] a c eq same by simp
  have nr: "fr_objs s' a \<noteq> release (fr_objs s a)"
  proof
    assume "fr_objs s' a = release (fr_objs s a)"
    then have "rt_chunks (fr_objs s' a) = []" by (simp add: release_def)
    with c show False by simp
  qed
  show "map_get (fr_transfers s') (rt_fileId (fr_objs s' a)) = Some a"
    using rel [OF m] nr eq by auto
next
  fix i a assume "map_get (fr_transfers s') i = Some a"
  with tr [OF this] recv_invD(6) [OF inv, of i a] same
  show "a < fr_next s' \<and> rt_fileId (fr_objs s' a) = i \<and> attached_ok src (fr_objs s' a)" by simp
next
  fix i a j b
  assume "map_get (fr_transfers s') i = Some a" "map_get (fr_transfers s') j = Some b"
    "active (rt_status (fr_objs s' a))" "active (rt_status (fr_objs s' b))"
  then show "i = j" using tr recv_invD(7) [OF inv, of i a j b] by auto
qed (use recv_invD(1,2) [OF inv] same in simp_all)

lemma recv_inv_delete:
  assumes inv: "recv_inv sha src p s" and a: "map_get (fr_transfers s) i = Some a"
  shows "recv_inv sha src p ((updObj a release s)\<lparr>fr_transfers := map_delete i (fr_transfers s)\<rparr>)"
proof (rule recv_inv_detach [OF inv])
  have id: "rt_fileId (fr_objs s a) = i" using recv_invD(6) [OF inv a] by simp
  fix j b
  show "map_get (fr_transfers s) j = Some b \<and>
      fr_objs ((updObj a release s)\<lparr>fr_transfers := map_delete i (fr_transfers s)\<rparr>) b = fr_objs s b"
    if "map_get (fr_transfers ((updObj a release s)\<lparr>fr_transfers := map_delete i (fr_transfers s)\<rparr>)) j = Some b"
    using that id recv_invD(6) [OF inv, of j b] by (auto simp: delete_conv' split: if_splits)
qed (use a in \<open>auto simp: delete_conv' split: if_splits\<close>)

lemma fold_release:
  "fold (\<lambda>(i, a). updObj a release) xs s =
   s\<lparr>fr_objs := \<lambda>b. if b \<in> snd ` set xs then release (fr_objs s b) else fr_objs s b\<rparr>"
  by (induction xs arbitrary: s) (auto simp: updObj_def release_def fun_eq_iff)

lemma recv_inv_reset:
  assumes inv: "recv_inv sha src p s"
  shows "recv_inv sha src p (rv_reset s)"
  by (rule recv_inv_detach [OF inv])
    (auto simp: rv_reset_def fold_release dest: map_of_SomeD intro: rev_image_eqI)

lemma recv_inv_remove: "recv_inv sha src p s \<Longrightarrow> recv_inv sha src p (rv_remove i s)"
  by (auto simp: rv_remove_def recv_inv_delete split: option.split)

lemma recv_inv_spawn:
  assumes inv: "recv_inv sha src p s" and t: "task_ok src s t"
    and one: "inboundTask t \<Longrightarrow> \<forall>t' \<in> set (fr_tasks s). \<not> inboundTask t'"
  shows "recv_inv sha src p (spawn t s)"
proof -
  have tk: "task_ok src (spawn t s) t' = task_ok src s t'" for t'
    by (cases t') (simp_all add: spawn_def)
  have "length (filter inboundTask (fr_tasks (spawn t s))) \<le> 1"
    using one recv_invD(2) [OF inv] by (cases "inboundTask t") (auto simp: spawn_def filter_empty_conv)
  with inv t tk show ?thesis unfolding recv_inv_def by (auto simp: spawn_def)
qed

lemma recv_inv_untask:
  assumes inv: "recv_inv sha src p s"
  shows "recv_inv sha src p (s\<lparr>fr_tasks := remove1 t (fr_tasks s)\<rparr>)"
proof -
  have tk: "task_ok src (s\<lparr>fr_tasks := x\<rparr>) t' = task_ok src s t'" for t' x
    by (cases t') simp_all
  have "length (filter inboundTask (remove1 t (fr_tasks s))) \<le> 1"
    using recv_invD(2) [OF inv] by (simp add: filter_remove1 length_remove1)
  with inv tk notin_set_remove1 show ?thesis unfolding recv_inv_def by auto
qed

lemma no_inbound_left:
  assumes inv: "recv_inv sha src p s" and t: "t \<in> set (fr_tasks s)" "inboundTask t"
  shows "\<forall>t' \<in> set (remove1 t (fr_tasks s)). \<not> inboundTask t'"
proof -
  have "length (filter inboundTask (remove1 t (fr_tasks s))) = 0"
    using recv_invD(2) [OF inv] t by (simp add: filter_remove1 length_remove1)
  then show ?thesis by (simp add: filter_empty_conv)
qed

lemma live_new:
  "live src (newTransfer i n m sz cs tot h)"
  by (auto simp: live_def newTransfer_def)

lemma recv_inv_admit:
  assumes inv: "recv_inv sha src p s" and t: "t = newTransfer i n m sz cs tot h" and ok: "meta_ok src p t"
    and fin: "\<And>a. map_get (fr_transfers s) i = Some a \<Longrightarrow> finished (rt_status (fr_objs s a))"
  shows "recv_inv sha src p (fst (admitOffer t s))"
proof -
  define s1 where "s1 = (case map_get (fr_transfers s) i of None \<Rightarrow> s
     | Some a \<Rightarrow> (updObj a release s)\<lparr>fr_transfers := map_delete i (fr_transfers s)\<rparr>)"
  have inv1: "recv_inv sha src p s1"
    using inv recv_inv_delete [OF inv] by (auto simp: s1_def split: option.split)
  have no1: "map_get (fr_transfers s1) i = None"
    by (auto simp: s1_def delete_conv' split: option.split)
  have id: "rt_fileId t = i" by (simp add: t newTransfer_def)
  show ?thesis
  proof (cases "\<exists>(j, a) \<in> set (fr_transfers s1). rt_fileId (fr_objs s1 a) \<noteq> i \<and> rt_status (fr_objs s1 a) \<in> {RvOffered, RvReceiving}")
    case True
    then have "fst (admitOffer t s) = s1" by (simp add: admitOffer_def id s1_def [symmetric] Let_def)
    with inv1 show ?thesis by simp
  next
    case False
    define s2 where "s2 = s1\<lparr>fr_objs := (fr_objs s1)(fr_next s1 := t), fr_next := fr_next s1 + 1,
                    fr_transfers := map_set i (fr_next s1) (fr_transfers s1)\<rparr>"
    have eq: "fst (admitOffer t s) = s2"
      using False by (simp add: admitOffer_def id s1_def [symmetric] s2_def Let_def)
    have idle: "\<not> active (rt_status (fr_objs s1 a))" if "map_get (fr_transfers s1) j = Some a" for j a
      using False map_of_SomeD [OF that] recv_invD(6) [OF inv1 that] that no1
      by (auto simp: active_def)
    have tr: "map_get (fr_transfers s2) j = (if j = i then Some (fr_next s1) else map_get (fr_transfers s1) j)" for j
      by (simp add: s2_def update_conv')
    have "recv_inv sha src p s2"
    proof (rule recv_invI)
      fix k assume "k \<in> set (fr_tasks s2)"
      then have "task_ok src s1 k" using recv_invD(3) [OF inv1] by (simp add: s2_def)
      then show "task_ok src s2 k" by (cases k) (auto simp: s2_def)
    next
      fix a assume a: "a < fr_next s2"
      have "obj_ok sha src p t"
        using ok live_new [of src i n m sz cs tot h] by (simp add: obj_ok_def t newTransfer_def active_def)
      with a recv_invD(4) [OF inv1, of a] show "obj_ok sha src p (fr_objs s2 a)" by (auto simp: s2_def)
      assume "rt_chunks (fr_objs s2 a) \<noteq> []"
      with a recv_invD(5) [OF inv1, of a] no1 id
      show "map_get (fr_transfers s2) (rt_fileId (fr_objs s2 a)) = Some a"
        unfolding tr by (auto simp: s2_def)
    next
      fix j a assume "map_get (fr_transfers s2) j = Some a"
      with recv_invD(6) [OF inv1, of j a] live_new [of src i n m sz cs tot h] id
      show "a < fr_next s2 \<and> rt_fileId (fr_objs s2 a) = j \<and> attached_ok src (fr_objs s2 a)"
        unfolding tr by (auto simp: s2_def attached_ok_def t newTransfer_def split: if_splits)
    next
      fix j a k b
      assume m: "map_get (fr_transfers s2) j = Some a" "map_get (fr_transfers s2) k = Some b"
        and ac: "active (rt_status (fr_objs s2 a))" "active (rt_status (fr_objs s2 b))"
      have "x = i" if "map_get (fr_transfers s2) x = Some c" "active (rt_status (fr_objs s2 c))" for x c
        using that idle [of x c] recv_invD(6) [OF inv1, of x c] unfolding tr
        by (auto simp: s2_def split: if_splits)
      with m ac show "j = k" by metis
    qed (use recv_invD(1,2) [OF inv1] in \<open>simp_all add: s2_def\<close>)
    with eq show ?thesis by simp
  qed
qed

lemma recv_inv_offer:
  assumes inv: "recv_inv sha src p s" and f: "faithful src (InOffer i n m sz cs tot h)"
  shows "recv_inv sha src p (fst (rv_offer i n m sz cs tot h s))"
proof -
  let ?t = "newTransfer i (validateFilename n) m sz cs tot h"
  have "meta_ok src p ?t" if "\<not> badSize p sz" "\<not> badMetadata p sz cs tot"
    using that f by (simp add: meta_ok_def newTransfer_def)
  then show ?thesis
    using inv recv_inv_admit [OF inv, of ?t i "validateFilename n" m sz cs tot h] recv_invD(1) [OF inv]
    by (auto simp: rv_offer_def split: option.splits)
qed

lemma live_store:
  assumes l: "live src t" and i: "0 \<le> ix" "ix < rt_totalChunks t"
    and b: "int (length b) = expectedBytes t ix" "chunk_from src (rt_fileId t) ix b"
  shows "live src (storeChunk ix b t)"
proof -
  have len: "nat ix < length (rt_chunks t)" using l i by (simp add: live_def)
  have nth: "rt_chunks (storeChunk ix b t) ! nat k = (if k = ix then Some b else rt_chunks t ! nat k)"
    if "0 \<le> k" for k using len i that by (auto simp: storeChunk_def nth_list_update)
  have eb: "expectedBytes (storeChunk ix b t) k = expectedBytes t k" for k
    by (simp add: expectedBytes_def storeChunk_def)
  show ?thesis
    using l i b nth eb unfolding live_def by (auto simp: storeChunk_def split: if_splits)
qed

lemma recv_inv_store:
  assumes inv: "recv_inv sha src p s" and a: "map_get (fr_transfers s) i = Some a" "rt_status (fr_objs s a) = RvReceiving"
    and ix: "0 \<le> ix" "ix < rt_totalChunks (fr_objs s a)"
    and b: "int (length b) = expectedBytes (fr_objs s a) ix" "chunk_from src i ix b"
  shows "recv_inv sha src p (updObj a (storeChunk ix b) s)"
proof -
  let ?t = "fr_objs s a" and ?t' = "storeChunk ix b (fr_objs s a)"
  note at = recv_invD(6) [OF inv a(1)]
  have live: "live src ?t" using at a(2) by (simp add: attached_ok_def active_def)
  have live': "live src ?t'"
    using live ix b at by (intro live_store) auto
  have same: "rt_status ?t' = RvReceiving" "rt_blobUrl ?t' = rt_blobUrl ?t" "meta_ok src p ?t' = meta_ok src p ?t"
    "blob_ok src ?t' x = blob_ok src ?t x" "digest_ok sha ?t' x = digest_ok sha ?t x" for x
    using a(2) by (simp_all add: storeChunk_def meta_ok_def blob_ok_def digest_ok_def)
  show ?thesis
  proof (rule recv_inv_upd [OF inv])
    show "a < fr_next s" using at by simp
    then show "obj_ok sha src p ?t'"
      using recv_invD(4) [OF inv, of a] live' by (simp add: obj_ok_def same active_def)
    show "tame ?t ?t'" by (auto simp: tame_def storeChunk_def)
  qed (use live' same in \<open>simp_all add: attached_ok_def\<close>)
qed

lemma recv_inv_chunk:
  assumes inv: "recv_inv sha src p s" and f: "faithful src (InChunk i ix tot d)"
    and no: "\<forall>t \<in> set (fr_tasks s). \<not> inboundTask t"
  shows "recv_inv sha src p (fst (rv_chunk i ix tot d s))"
proof (cases "fst (rv_chunk i ix tot d s) = s")
  case False
  then obtain a b where a: "map_get (fr_transfers s) i = Some a" "rt_status (fr_objs s a) = RvReceiving"
    and ix: "0 \<le> ix" "ix < rt_totalChunks (fr_objs s a)" and d: "decodeChunk d = Inr b"
    and len: "int (length b) = expectedBytes (fr_objs s a) ix"
    and eq: "fst (rv_chunk i ix tot d s) = spawn (AfterAck a) (updObj a (storeChunk ix b) s)"
    by (auto simp: rv_chunk_def Let_def split: option.splits if_splits sum.splits)
  have "recv_inv sha src p (updObj a (storeChunk ix b) s)"
    using f d by (intro recv_inv_store [OF inv a ix len]) simp
  then show ?thesis
    unfolding eq using recv_invD(6) [OF inv a(1)] a(2) no
    by (intro recv_inv_spawn) (auto simp: storeChunk_def)
qed (simp add: inv)

section \<open>Assembling the file\<close>

lemma concat_slices:
  "concat (map (\<lambda>i. take k (drop (i * k) c)) [0..<n]) = take (n * k) c"
proof (induction n)
  case (Suc n)
  have "concat (map (\<lambda>i. take k (drop (i * k) c)) [0..<Suc n]) = take (n * k) c @ take k (drop (n * k) c)"
    using Suc by simp
  also have "\<dots> = take (n * k + k) c" by (rule take_add [symmetric])
  finally show ?case by (simp add: add.commute)
qed simp

lemma ceilDiv_covers: "0 < b \<Longrightarrow> a \<le> ceilDiv a b * b"
  unfolding ceilDiv_def by (smt (verit) div_mult_mod_eq minus_mult_left pos_mod_sign)

lemma blobOf_complete:
  assumes l: "live src t" and m: "meta_ok src p t" and all: "int (card (rt_received t)) = rt_totalChunks t"
  shows "\<forall>cs c. src (rt_fileId t) = Some (cs, c) \<longrightarrow> blobOf (rt_chunks t) = c"
proof (intro allI impI)
  fix cs c assume src: "src (rt_fileId t) = Some (cs, c)"
  let ?n = "nat (rt_totalChunks t)"
  have rec: "rt_received t \<subseteq> {0..<rt_totalChunks t}" using l by (auto simp: live_def)
  have "card (rt_received t) = card {0..<rt_totalChunks t}" using all by simp
  then have full: "rt_received t = {0..<rt_totalChunks t}"
    using rec card_subset_eq [OF _ rec] by simp
  have sz: "rt_size t = int (length c)" "rt_chunkSize t = cs" "0 < cs" "rt_totalChunks t = ceilDiv (rt_size t) cs"
    using m src by (auto simp: meta_ok_def badMetadata_def split: if_splits)
  have chunk: "rt_chunks t ! k = Some (take (nat cs) (drop (k * nat cs) c))" if "k < ?n" for k
  proof -
    have k: "0 \<le> int k" "int k < rt_totalChunks t" using that by simp_all
    then have "int k \<in> rt_received t" by (simp add: full)
    then obtain b where b: "rt_chunks t ! k = Some b" using l k by (force simp: live_def)
    with l k have "chunk_from src (rt_fileId t) (int k) b" by (simp add: live_def)
    with b src show ?thesis by (simp add: chunk_from_def subbytes_def)
  qed
  have len: "length (rt_chunks t) = ?n" using l by (simp add: live_def)
  have chunks: "rt_chunks t = map (\<lambda>k. Some (take (nat cs) (drop (k * nat cs) c))) [0..<?n]"
    by (rule nth_equalityI) (simp_all add: len chunk)
  have "blobOf (rt_chunks t) = concat (map (\<lambda>k. take (nat cs) (drop (k * nat cs) c)) [0..<?n])"
    by (simp add: blobOf_def chunks comp_def)
  also have "\<dots> = take (?n * nat cs) c" by (rule concat_slices)
  also have "\<dots> = c"
  proof (rule take_all)
    have "int (length c) \<le> rt_totalChunks t * cs"
      using ceilDiv_covers [of cs "rt_size t"] sz by simp
    then have "int (length c) \<le> int (?n * nat cs)" using totalChunks_pos [OF m] sz(3) by simp
    then show "length c \<le> ?n * nat cs" by linarith
  qed
  finally show "blobOf (rt_chunks t) = c" .
qed

lemma recv_inv_completeOk:
  assumes inv: "recv_inv sha src p s" and a: "a < fr_next s" and no: "\<forall>t \<in> set (fr_tasks s). \<not> inboundTask t"
    and b: "blob_ok src (fr_objs s a) b" "digest_ok sha (fr_objs s a) b"
  shows "recv_inv sha src p (fst (completeOk a b s))"
proof -
  have "recv_inv sha src p (updObj a (\<lambda>t. t\<lparr>rt_status := RvCompleted, rt_reason := None, rt_chunks := [], rt_blobUrl := Some b\<rparr>) s)"
    using recv_invD(4) [OF inv a] b no
    by (intro recv_inv_upd [OF inv a])
      (auto simp: obj_ok_def tame_def attached_ok_def active_def meta_ok_def blob_ok_def digest_ok_def)
  then show ?thesis by (simp add: completeOk_def Let_def)
qed

lemma recv_inv_completeFailed:
  assumes inv: "recv_inv sha src p s" and a: "a < fr_next s"
  shows "recv_inv sha src p (fst (completeFailed a r s))"
proof -
  have "recv_inv sha src p (updObj a (\<lambda>t. t\<lparr>rt_status := RvFailed, rt_reason := Some r, rt_chunks := [], rt_received := {}\<rparr>) s)"
    using recv_invD(4) [OF inv a]
    by (intro recv_inv_upd [OF inv a])
      (auto simp: obj_ok_def tame_def attached_ok_def active_def meta_ok_def blob_ok_def digest_ok_def)
  then show ?thesis by (simp add: completeFailed_def Let_def)
qed

lemma recv_inv_complete:
  assumes inv: "recv_inv sha src p s" and a: "a < fr_next s" and no: "\<forall>t \<in> set (fr_tasks s). \<not> inboundTask t"
    and l: "live src (fr_objs s a)" and all: "int (card (rt_received (fr_objs s a))) = rt_totalChunks (fr_objs s a)"
  shows "recv_inv sha src p (fst (rv_complete a s))"
proof -
  let ?t = "fr_objs s a"
  have m: "meta_ok src p ?t" using recv_invD(4) [OF inv a] by (rule obj_ok_meta)
  have b: "blob_ok src ?t (blobOf (rt_chunks ?t))" if "int (length (blobOf (rt_chunks ?t))) = rt_size ?t"
    using that blobOf_complete [OF l m all] by (simp add: blob_ok_def)
  show ?thesis
    using recv_inv_completeFailed [OF inv a] recv_inv_completeOk [OF inv a no b]
      recv_inv_spawn [OF inv, of "AfterDigest a (blobOf (rt_chunks ?t))"] b a no
    by (auto simp: rv_complete_def Let_def digest_ok_def)
qed

definition delivered_ok :: "sources \<Rightarrow> ReceiverEffect list \<Rightarrow> bool" where
  "delivered_ok src es =
     (\<forall>f. RComplete f \<in> set es \<longrightarrow> int (length (cf_blob f)) = cf_size f \<and>
        (\<forall>cs c. src (cf_fileId f) = Some (cs, c) \<longrightarrow> cf_blob f = c))"

lemma delivered_ok_append [simp]: "delivered_ok src (es @ e) \<longleftrightarrow> delivered_ok src es \<and> delivered_ok src e"
  by (auto simp: delivered_ok_def)

lemma delivered_quiet: "(\<And>f. RComplete f \<notin> set e) \<Longrightarrow> delivered_ok src e"
  by (simp add: delivered_ok_def)

lemma delivered_completeOk:
  "blob_ok src (fr_objs s a) b \<Longrightarrow> delivered_ok src (snd (completeOk a b s))"
  by (auto simp: completeOk_def delivered_ok_def blob_ok_def rv_emit_def emitSnapshot_def Let_def)

lemma quiet_effects:
  "rv_emit a s \<noteq> RComplete f" "RComplete f \<noteq> rv_emit a s" "RComplete f \<notin> set (snd (completeFailed a' r s'))"
  "RComplete f \<notin> set (snd (admitOffer t s'))"
  by (simp_all add: completeFailed_def admitOffer_def rejectOffer_def rv_emit_def emitSnapshot_def Let_def)

lemma recv_inv_resume:
  assumes inv: "recv_inv sha src p s" and t: "t \<in> set (fr_tasks s)"
  shows "recv_inv sha src p (fst (recv_step sha (Resume t ok) s)) \<and> delivered_ok src (snd (recv_step sha (Resume t ok) s))"
proof -
  define s1 where "s1 = s\<lparr>fr_tasks := remove1 t (fr_tasks s)\<rparr>"
  have inv1: "recv_inv sha src p s1" using recv_inv_untask [OF inv] by (simp add: s1_def)
  have no: "inboundTask t \<Longrightarrow> \<forall>t' \<in> set (fr_tasks s1). \<not> inboundTask t'"
    using no_inbound_left [OF inv t] by (simp add: s1_def)
  have sel: "fr_objs s1 = fr_objs s" "fr_next s1 = fr_next s" by (simp_all add: s1_def)
  have tok: "task_ok src s t" using recv_invD(3) [OF inv t] .
  have "recv_inv sha src p (fst (resumeTask sha t ok s1)) \<and> delivered_ok src (snd (resumeTask sha t ok s1))"
  proof (cases t)
    case (AfterAccept a)
    with tok sel recv_inv_close [OF inv1, of a RvFailed] inv1 show ?thesis
      by (auto simp: afterAccept_def Let_def quiet_effects intro!: delivered_quiet)
  next
    case (AfterAck a)
    let ?t = "fr_objs s1 a"
    have a: "a < fr_next s1" using tok sel AfterAck by simp
    have m: "meta_ok src p ?t" using recv_invD(4) [OF inv1 a] by (rule obj_ok_meta)
    show ?thesis
    proof (cases "int (card (rt_received ?t)) = rt_totalChunks ?t")
      case True
      with totalChunks_pos [OF m] have "rt_received ?t \<noteq> {}" by auto
      with tok AfterAck sel have "rt_status ?t = RvReceiving" by simp
      with recv_invD(4) [OF inv1 a] \<open>rt_received ?t \<noteq> {}\<close> have l: "live src ?t" by (auto simp: obj_ok_def)
      have "recv_inv sha src p (fst (rv_complete a s1))"
        using recv_inv_complete [OF inv1 a no l True] AfterAck by simp
      moreover have "delivered_ok src (snd (rv_complete a s1))"
        using blobOf_complete [OF l m True] delivered_completeOk [of src s1 a "blobOf (rt_chunks ?t)"]
        by (auto simp: rv_complete_def Let_def quiet_effects blob_ok_def intro: delivered_quiet)
      ultimately show ?thesis
        using AfterAck True delivered_quiet [of "[rv_emit a s1]" src]
        by (simp add: afterAck_def case_prod_beta Let_def quiet_effects delivered_ok_def)
    next
      case False
      with AfterAck inv1 show ?thesis
        by (auto simp: afterAck_def Let_def quiet_effects intro: delivered_quiet)
    qed
  next
    case (AfterDigest a b)
    then have a: "a < fr_next s1" "blob_ok src (fr_objs s1 a) b" using tok sel by simp_all
    have "recv_inv sha src p (fst (completeOk a b s1))" if "Some (digestBlob sha b) = rt_sha256 (fr_objs s1 a)"
    proof -
      have "digest_ok sha (fr_objs s1 a) b" using that [symmetric] by (simp add: digest_ok_def)
      with recv_inv_completeOk [OF inv1 a(1) no a(2)] AfterDigest show ?thesis by simp
    qed
    then show ?thesis
      using AfterDigest recv_inv_completeFailed [OF inv1 a(1)] delivered_completeOk [OF a(2)]
      by (auto simp: afterDigest_def quiet_effects intro: delivered_quiet)
  qed
  then show ?thesis by (simp add: s1_def)
qed

lemma recv_inv_step:
  assumes inv: "recv_inv sha src p s" and f: "faithful src op" and en: "enabled op s"
  shows "recv_inv sha src p (fst (recv_step sha op s)) \<and> delivered_ok src (snd (recv_step sha op s))"
proof -
  have close: "recv_inv sha src p (cancelWith a r s)" if "map_get (fr_transfers s) i = Some a" for i a r
    using recv_inv_close [OF inv] recv_invD(6) [OF inv that] by (simp add: cancelWith_def)
  show ?thesis
  proof (cases op)
    case (InOffer i n m sz cs tot h)
    have "delivered_ok src (snd (rv_offer i n m sz cs tot h s))"
      by (intro delivered_quiet) (simp add: rv_offer_def rejectOffer_def quiet_effects Let_def)
    with InOffer recv_inv_offer [OF inv] f show ?thesis by simp
  next
    case (InChunk i ix tot d)
    have "delivered_ok src (snd (rv_chunk i ix tot d s))"
      by (auto simp: rv_chunk_def sendAck_def sendNack_def Let_def intro!: delivered_quiet split: option.splits sum.splits)
    with InChunk recv_inv_chunk [OF inv] f en show ?thesis by simp
  next
    case (InComplete i)
    with inv recv_inv_reason [OF inv] recv_invD(6) [OF inv] show ?thesis
      by (auto simp: completeNotice_def Let_def quiet_effects intro!: delivered_quiet split: option.splits)
  next
    case (InCancel i r)
    with inv close show ?thesis
      by (auto simp: peerCancel_def rv_cancel_def Let_def quiet_effects intro!: delivered_quiet split: option.splits)
  next
    case (UiAccept i)
    show ?thesis
    proof (cases "map_get (fr_transfers s) i")
      case None
      with UiAccept inv show ?thesis by (simp add: rv_accept_def delivered_ok_def)
    next
      case (Some a)
      note at = recv_invD(6) [OF inv Some]
      let ?f = "\<lambda>t. t\<lparr>rt_status := RvReceiving, rt_reason := None\<rparr>"
      have "recv_inv sha src p (updObj a ?f s)" if "rt_status (fr_objs s a) = RvOffered"
      proof (rule recv_inv_upd [OF inv])
        have l: "live src (fr_objs s a)" using at that by (simp add: attached_ok_def active_def)
        then have l': "live src (?f (fr_objs s a))" by (simp add: live_def expectedBytes_def)
        then show "obj_ok sha src p (?f (fr_objs s a))"
          using recv_invD(4) [OF inv] at
          by (auto simp: obj_ok_def active_def meta_ok_def blob_ok_def digest_ok_def)
        show "attached_ok src (?f (fr_objs s a))" using l' by (simp add: attached_ok_def)
      qed (use at that in \<open>auto simp: tame_def active_def\<close>)
      then have "rt_status (fr_objs s a) = RvOffered \<Longrightarrow> recv_inv sha src p (spawn (AfterAccept a) (updObj a ?f s))"
        using at by (intro recv_inv_spawn) auto
      with UiAccept Some inv show ?thesis
        by (auto simp: rv_accept_def Let_def quiet_effects intro!: delivered_quiet)
    qed
  next
    case (UiReject i r)
    with inv close show ?thesis
      by (auto simp: rv_reject_def Let_def quiet_effects intro!: delivered_quiet split: option.splits)
  next
    case (UiCancel i r)
    with inv close show ?thesis
      by (auto simp: rv_cancel_def Let_def quiet_effects intro!: delivered_quiet split: option.splits)
  next
    case (UiRemove i)
    with recv_inv_remove [OF inv] show ?thesis by (simp add: delivered_ok_def)
  next
    case DoReset
    with recv_inv_reset [OF inv] show ?thesis by (simp add: delivered_ok_def)
  next
    case (Resume t ok)
    with recv_inv_resume [OF inv] en show ?thesis by simp
  qed
qed

lemma recv_run_inv:
  "recv_run sha src p es s \<Longrightarrow> recv_inv sha src p s \<and> delivered_ok src es"
proof (induction rule: recv_run.induct)
  case recv_start
  show ?case by (simp add: recv_inv_def newReceiver_def delivered_ok_def)
next
  case (recv_next es s op s' e)
  with recv_inv_step [of sha src p s op] show ?case by simp
qed

section \<open>Memory\<close>

definition heldBytes :: "ReceiveTransfer \<Rightarrow> nat" where
  "heldBytes t = sum_list (map (\<lambda>c. case c of None \<Rightarrow> 0 | Some b \<Rightarrow> length b) (rt_chunks t))"

lemma ceilDiv_tight: "0 < b \<Longrightarrow> 0 < a \<Longrightarrow> (ceilDiv a b - 1) * b < a"
  unfolding ceilDiv_def
  by (smt (verit) div_mult_mod_eq minus_mult_left pos_mod_bound left_diff_distrib mult_cancel_right2)

lemma sum_expected:
  assumes "rt_totalChunks t = int n" "0 < n"
  shows "(\<Sum>k < n. expectedBytes t (int k)) = rt_size t"
proof -
  obtain m where m: "n = Suc m" using assms(2) by (cases n) auto
  have "(\<Sum>k < m. expectedBytes t (int k)) = (\<Sum>k < m. rt_chunkSize t)"
    using assms(1) m by (intro sum.cong) (auto simp: expectedBytes_def)
  then show ?thesis using assms(1) m by (simp add: expectedBytes_def)
qed

lemma heldBytes_live:
  assumes l: "live src t" and m: "meta_ok src p t"
  shows "int (heldBytes t) \<le> rt_size t"
proof -
  define n where "n = nat (rt_totalChunks t)"
  have n: "rt_totalChunks t = int n" "0 < n" using totalChunks_pos [OF m] by (simp_all add: n_def)
  have len: "length (rt_chunks t) = n" using l by (simp add: live_def n_def)
  have pos: "0 < rt_chunkSize t" "rt_totalChunks t = ceilDiv (rt_size t) (rt_chunkSize t)" "0 < rt_size t"
    using m by (auto simp: meta_ok_def badMetadata_def badSize_def split: if_splits)
  have nn: "0 \<le> expectedBytes t (int k)" if "k < n" for k
    using that pos ceilDiv_tight [of "rt_chunkSize t" "rt_size t"] n by (auto simp: expectedBytes_def)
  have "int (heldBytes t) = (\<Sum>k < n. int (case rt_chunks t ! k of None \<Rightarrow> 0 | Some b \<Rightarrow> length b))"
    by (simp add: heldBytes_def sum_list_sum_nth len atLeast0LessThan)
  also have "\<dots> \<le> (\<Sum>k < n. expectedBytes t (int k))"
  proof (rule sum_mono)
    fix k assume "k \<in> {..<n}"
    then have k: "k < n" by simp
    show "int (case rt_chunks t ! k of None \<Rightarrow> 0 | Some b \<Rightarrow> length b) \<le> expectedBytes t (int k)"
    proof (cases "rt_chunks t ! k")
      case None
      with nn [OF k] show ?thesis by simp
    next
      case (Some b)
      with l k n have "int (length b) = expectedBytes t (int k)" by (simp add: live_def)
      with Some show ?thesis by simp
    qed
  qed
  also have "\<dots> = rt_size t" using n by (rule sum_expected)
  finally show ?thesis .
qed

lemma heldBytes_total:
  assumes inv: "recv_inv sha src p s"
  shows "(\<Sum>a < fr_next s. heldBytes (fr_objs s a)) \<le> maxMemoryReceiveBytes (files p)"
proof (cases "\<exists>a < fr_next s. rt_chunks (fr_objs s a) \<noteq> []")
  case True
  then obtain a where a: "a < fr_next s" "rt_chunks (fr_objs s a) \<noteq> []" by blast
  have act: "active (rt_status (fr_objs s b)) \<and> live src (fr_objs s b) \<and>
      map_get (fr_transfers s) (rt_fileId (fr_objs s b)) = Some b"
    if "b < fr_next s" "rt_chunks (fr_objs s b) \<noteq> []" for b
    using recv_invD(4,5) [OF inv that(1)] that(2) by (auto simp: obj_ok_def)
  have only: "heldBytes (fr_objs s b) = 0" if "b < fr_next s" "b \<noteq> a" for b
  proof (rule ccontr)
    assume "heldBytes (fr_objs s b) \<noteq> 0"
    then have "rt_chunks (fr_objs s b) \<noteq> []" by (auto simp: heldBytes_def)
    with act [OF a] act [OF that(1)] recv_invD(7) [OF inv] that(2) show False by (metis option.inject)
  qed
  have "(\<Sum>b < fr_next s. heldBytes (fr_objs s b)) = (\<Sum>b < fr_next s. if b = a then heldBytes (fr_objs s a) else 0)"
    using only by (intro sum.cong) auto
  also have "\<dots> = heldBytes (fr_objs s a)" using a(1) by simp
  finally have eq: "(\<Sum>b < fr_next s. heldBytes (fr_objs s b)) = heldBytes (fr_objs s a)" .
  have m: "meta_ok src p (fr_objs s a)" using recv_invD(4) [OF inv a(1)] by (rule obj_ok_meta)
  have "int (heldBytes (fr_objs s a)) \<le> rt_size (fr_objs s a)"
    using act [OF a] m by (intro heldBytes_live) auto
  also have "\<dots> \<le> int (maxMemoryReceiveBytes (files p))" using m by (auto simp: meta_ok_def badSize_def)
  finally show ?thesis using eq by simp
next
  case False
  then have "(\<Sum>a < fr_next s. heldBytes (fr_objs s a)) = 0" by (simp add: heldBytes_def)
  then show ?thesis by simp
qed

section \<open>Properties\<close>

text \<open>
  C7. A received file is the sent file. Consider any interleaving of the peer's messages, of the user's
  actions and of suspended calls. If the peer's offer and chunks for a file id announce and carry the bytes \<open>c\<close>
  in slices of \<open>cs\<close> bytes (in any order, repeated or not, mixed with anything for other ids), then
  every file that is handed to \<^verbatim>\<open>onComplete\<close> under that id has exactly the bytes \<open>c\<close>; and
  under any id, whatever the peer sends, a completed file has exactly the announced size.
\<close>

theorem received_file_is_the_sent_file:
  assumes "recv_run sha src p es s" and "RComplete f \<in> set es"
  shows "int (length (cf_blob f)) = cf_size f \<and> (\<forall>cs c. src (cf_fileId f) = Some (cs, c) \<longrightarrow> cf_blob f = c)"
  using recv_run_inv [OF assms(1)] assms(2) by (auto simp: delivered_ok_def)

text \<open>
  C26. The receiver's state is safe. In every reachable state, at most one incoming transfer is offered or
  being received; the chunk bytes held by all transfer objects together, detached ones included,
  do not exceed the profile's memory limit; and a transfer shown as completed has a blob of the
  announced size whose SHA-256 digest is the announced one, if one was announced.
\<close>

theorem receiver_state_safe:
  assumes "recv_run sha src p es s"
  shows "(\<forall>i j a b. map_get (fr_transfers s) i = Some a \<longrightarrow> map_get (fr_transfers s) j = Some b \<longrightarrow>
      active (rt_status (fr_objs s a)) \<longrightarrow> active (rt_status (fr_objs s b)) \<longrightarrow> i = j) \<and>
    (\<Sum>a < fr_next s. heldBytes (fr_objs s a)) \<le> maxMemoryReceiveBytes (files p) \<and>
    (\<forall>i a. map_get (fr_transfers s) i = Some a \<longrightarrow> rt_status (fr_objs s a) = RvCompleted \<longrightarrow>
      (\<exists>b. rt_blobUrl (fr_objs s a) = Some b \<and> int (length b) = rt_size (fr_objs s a) \<and>
        (\<forall>h. rt_sha256 (fr_objs s a) = Some h \<longrightarrow> h \<noteq> '''' \<longrightarrow> digestBlob sha b = h)))"
proof -
  have inv: "recv_inv sha src p s" using recv_run_inv [OF assms] by simp
  have "\<exists>b. rt_blobUrl (fr_objs s a) = Some b \<and> int (length b) = rt_size (fr_objs s a) \<and>
        (\<forall>h. rt_sha256 (fr_objs s a) = Some h \<longrightarrow> h \<noteq> '''' \<longrightarrow> digestBlob sha b = h)"
    if "map_get (fr_transfers s) i = Some a" "rt_status (fr_objs s a) = RvCompleted" for i a
    using recv_invD(6) [OF inv that(1)] recv_invD(4) [OF inv, of a] that(2)
    by (auto simp: attached_ok_def obj_ok_def blob_ok_def digest_ok_def)
  with recv_invD(7) [OF inv] heldBytes_total [OF inv] show ?thesis by blast
qed

text \<open>
  Acknowledgements are honest. When \<^verbatim>\<open>chunk\<close> sends an acknowledgement, it is for the file and index of the
  message it is handling, and that chunk is stored in the transfer of that id.
\<close>

theorem acks_are_honest:
  assumes "RSend (FileAck j jx) \<in> set (snd (rv_chunk i ix tot d s))"
  shows "j = i \<and> jx = ix \<and>
    (\<exists>a. map_get (fr_transfers (fst (rv_chunk i ix tot d s))) i = Some a \<and>
       rt_status (fr_objs s a) = RvReceiving \<and>
       ix \<in> rt_received (fr_objs (fst (rv_chunk i ix tot d s)) a))"
  using assms
  by (auto simp: rv_chunk_def sendAck_def sendNack_def spawn_def storeChunk_def Let_def
      split: option.splits if_splits sum.splits)

section \<open>A transfer completes\<close>

text \<open>Resume the peer's suspended calls: at most an acknowledgement and a digest, so twice is enough.\<close>

fun settle :: "(bytes \<Rightarrow> bytes) \<Rightarrow> nat \<Rightarrow> FileReceiver \<Rightarrow> FileReceiver" where
  "settle sha 0 s = s"
| "settle sha (Suc n) s =
     (case filter inboundTask (fr_tasks s) of
        [] \<Rightarrow> s
      | t # _ \<Rightarrow> settle sha n (fst (recv_step sha (Resume t True) s)))"

definition fileSlice :: "int \<Rightarrow> bytes \<Rightarrow> int \<Rightarrow> bytes" where
  "fileSlice cs c ix = subbytes (nat ix * nat cs) (nat cs) c"

definition deliverChunk :: "(bytes \<Rightarrow> bytes) \<Rightarrow> string \<Rightarrow> int \<Rightarrow> int \<Rightarrow> bytes \<Rightarrow> int \<Rightarrow> FileReceiver \<Rightarrow> FileReceiver" where
  "deliverChunk sha i tot cs c ix s =
     settle sha 2 (fst (recv_step sha (InChunk i ix tot (encodeChunk (fileSlice cs c ix))) s))"

lemma length_slice:
  assumes m: "meta_ok src p t" and src: "src (rt_fileId t) = Some (cs, c)" and ix: "0 \<le> ix" "ix < rt_totalChunks t"
  shows "int (length (fileSlice cs c ix)) = expectedBytes t ix"
proof -
  have f: "rt_size t = int (length c)" "rt_chunkSize t = cs" "0 < cs" "rt_totalChunks t = ceilDiv (rt_size t) cs" "0 < rt_size t"
    using m src by (auto simp: meta_ok_def badMetadata_def badSize_def split: if_splits)
  have lo: "(rt_totalChunks t - 1) * cs < rt_size t" and hi: "rt_size t \<le> rt_totalChunks t * cs"
    using f ceilDiv_tight [of cs "rt_size t"] ceilDiv_covers [of cs "rt_size t"] by simp_all
  have start: "int (nat ix * nat cs) = ix * cs" using ix f(3) by simp
  have "ix * cs \<le> (rt_totalChunks t - 1) * cs" using ix f(3) by (intro mult_right_mono) auto
  with lo f(1) start have "nat ix * nat cs \<le> length c" by linarith
  then have dropped: "int (length (drop (nat ix * nat cs) c)) = rt_size t - ix * cs"
    using start f(1) by (simp add: of_nat_diff)
  show ?thesis
  proof (cases "ix = rt_totalChunks t - 1")
    case True
    have "rt_size t - ix * cs \<le> cs" using hi by (simp add: True left_diff_distrib)
    with dropped True f(3) show ?thesis by (simp add: fileSlice_def subbytes_def expectedBytes_def f(2))
  next
    case False
    with ix have "(ix + 1) * cs \<le> (rt_totalChunks t - 1) * cs" using f(3) by (intro mult_right_mono) auto
    with lo have "cs \<le> rt_size t - ix * cs" by (simp add: distrib_right)
    with dropped False f(3) show ?thesis by (simp add: fileSlice_def subbytes_def expectedBytes_def f(2))
  qed
qed

text \<open>A transfer under way, with nothing suspended; and one that has been completed with the bytes \<open>c\<close>.\<close>

definition underway :: "(bytes \<Rightarrow> bytes) \<Rightarrow> sources \<Rightarrow> TransportProfile \<Rightarrow> string \<Rightarrow> nat \<Rightarrow> FileReceiver \<Rightarrow> bool" where
  "underway sha src p i a s =
     (recv_inv sha src p s \<and> (\<forall>t \<in> set (fr_tasks s). \<not> inboundTask t) \<and> map_get (fr_transfers s) i = Some a \<and>
      rt_status (fr_objs s a) = RvReceiving)"

definition completed_as :: "string \<Rightarrow> nat \<Rightarrow> bytes \<Rightarrow> FileReceiver \<Rightarrow> bool" where
  "completed_as i a c s =
     (map_get (fr_transfers s) i = Some a \<and> rt_status (fr_objs s a) = RvCompleted \<and> rt_blobUrl (fr_objs s a) = Some c \<and>
      (\<forall>t \<in> set (fr_tasks s). \<not> inboundTask t))"

lemma filter_no_inbound: "\<forall>t \<in> set xs. \<not> inboundTask t \<Longrightarrow> filter inboundTask xs = []"
  by (simp add: filter_empty_conv)

lemma remove1_last: "x \<notin> set xs \<Longrightarrow> remove1 x (xs @ [x]) = xs"
  by (induction xs) auto

lemma deliverChunk_completed:
  "completed_as i a c s \<Longrightarrow> deliverChunk sha i tot cs c' ix s = s"
  by (simp add: deliverChunk_def completed_as_def rv_chunk_def filter_no_inbound numeral_2_eq_2)

lemma settle_complete:
  assumes u: "underway sha src p i a s" and src: "src i = Some (cs, c)"
    and h: "rt_sha256 (fr_objs s a) = None \<or> rt_sha256 (fr_objs s a) = Some (digestBlob sha c)"
    and all: "int (card (rt_received (fr_objs s a))) = rt_totalChunks (fr_objs s a)"
  shows "completed_as i a c (settle sha 2 (spawn (AfterAck a) s))"
proof -
  have inv: "recv_inv sha src p s" and no: "\<forall>t \<in> set (fr_tasks s). \<not> inboundTask t"
    and at: "map_get (fr_transfers s) i = Some a" "rt_status (fr_objs s a) = RvReceiving"
    using u by (auto simp: underway_def)
  note A = recv_invD(6) [OF inv at(1)]
  have l: "live src (fr_objs s a)" using A at(2) by (simp add: attached_ok_def active_def)
  have m: "meta_ok src p (fr_objs s a)" using recv_invD(4) [OF inv] A by (auto intro: obj_ok_meta)
  have blob: "blobOf (rt_chunks (fr_objs s a)) = c" using blobOf_complete [OF l m all] src A by simp
  have sz: "int (length c) = rt_size (fr_objs s a)" using m src A by (simp add: meta_ok_def)
  have nt: "t \<notin> set (fr_tasks s)" if "inboundTask t" for t using no that by blast
  have s0: "recv_step sha (Resume (AfterAck a) True) (spawn (AfterAck a) s) = afterAck a s"
    using nt [of "AfterAck a"] by (simp add: spawn_def remove1_last)
  have s1: "recv_step sha (Resume (AfterDigest a c) True) (spawn (AfterDigest a c) s) = afterDigest sha a c s"
    using nt [of "AfterDigest a c"] by (simp add: spawn_def remove1_last)
  have first: "settle sha 2 (spawn (AfterAck a) s) = settle sha 1 (fst (afterAck a s))"
    using no s0 by (simp add: numeral_2_eq_2 spawn_def filter_no_inbound)
  show ?thesis
  proof (cases "rt_sha256 (fr_objs s a) = None \<or> rt_sha256 (fr_objs s a) = Some []")
    case True
    then have "fst (afterAck a s) = fst (completeOk a c s)"
      using all sz blob by (auto simp: afterAck_def rv_complete_def Let_def case_prod_beta)
    with first at no show ?thesis
      by (simp add: completed_as_def completeOk_def Let_def filter_no_inbound)
  next
    case False
    then have "fst (afterAck a s) = spawn (AfterDigest a c) s"
      using all sz blob by (auto simp: afterAck_def rv_complete_def Let_def case_prod_beta)
    moreover have "settle sha 1 (spawn (AfterDigest a c) s) = fst (afterDigest sha a c s)"
      using no s1 by (simp add: spawn_def filter_no_inbound)
    moreover have "afterDigest sha a c s = completeOk a c s" using h False by (auto simp: afterDigest_def)
    ultimately show ?thesis using first at no by (simp add: completed_as_def completeOk_def Let_def)
  qed
qed

lemma deliverChunk_step:
  assumes u: "underway sha src p i a s" and src: "src i = Some (cs, c)"
    and h: "rt_sha256 (fr_objs s a) = None \<or> rt_sha256 (fr_objs s a) = Some (digestBlob sha c)"
    and ix: "0 \<le> ix" "ix < rt_totalChunks (fr_objs s a)"
    and part: "rt_received (fr_objs s a) \<noteq> {0..<rt_totalChunks (fr_objs s a)}"
    and s': "s' = deliverChunk sha i (rt_totalChunks (fr_objs s a)) cs c ix s"
  shows "if insert ix (rt_received (fr_objs s a)) = {0..<rt_totalChunks (fr_objs s a)} then completed_as i a c s'
    else underway sha src p i a s' \<and> rt_received (fr_objs s' a) = insert ix (rt_received (fr_objs s a)) \<and>
      rt_totalChunks (fr_objs s' a) = rt_totalChunks (fr_objs s a) \<and> rt_sha256 (fr_objs s' a) = rt_sha256 (fr_objs s a)"
proof -
  let ?t = "fr_objs s a" and ?b = "fileSlice cs c ix"
  have inv: "recv_inv sha src p s" and no: "\<forall>t \<in> set (fr_tasks s). \<not> inboundTask t"
    and at: "map_get (fr_transfers s) i = Some a" "rt_status ?t = RvReceiving"
    using u by (auto simp: underway_def)
  note A = recv_invD(6) [OF inv at(1)]
  have m: "meta_ok src p ?t" using recv_invD(4) [OF inv] A by (auto intro: obj_ok_meta)
  have rec: "rt_received ?t \<subseteq> {0..<rt_totalChunks ?t}"
    using A at(2) by (auto simp: attached_ok_def active_def live_def)
  have dec: "decodeChunk (encodeChunk ?b) = Inr ?b" by (simp add: decodeChunk_def encodeChunk_def base64Url_dec_enc)
  have len: "int (length ?b) = expectedBytes ?t ix" using length_slice [OF m] src ix A by simp
  show ?thesis
  proof (cases "ix \<in> rt_received ?t")
    case True
    then have "s' = s"
      using at ix no by (simp add: s' deliverChunk_def rv_chunk_def filter_no_inbound numeral_2_eq_2)
    with True u part show ?thesis by (simp add: insert_absorb)
  next
    case False
    let ?s1 = "updObj a (storeChunk ix ?b) s"
    have chunk: "fst (rv_chunk i ix (rt_totalChunks ?t) (encodeChunk ?b) s) = spawn (AfterAck a) ?s1"
      using at ix False dec len by (simp add: rv_chunk_def)
    have s2: "s' = settle sha 2 (spawn (AfterAck a) ?s1)" by (simp add: s' deliverChunk_def chunk)
    have t1: "rt_received (fr_objs ?s1 a) = insert ix (rt_received ?t)" "rt_totalChunks (fr_objs ?s1 a) = rt_totalChunks ?t"
      "rt_sha256 (fr_objs ?s1 a) = rt_sha256 ?t" "rt_status (fr_objs ?s1 a) = RvReceiving" "fr_tasks ?s1 = fr_tasks s"
      using at(2) by (simp_all add: storeChunk_def)
    have "chunk_from src i ix ?b" using src by (simp add: chunk_from_def fileSlice_def)
    then have inv1: "recv_inv sha src p ?s1" using recv_inv_store [OF inv at ix len] by simp
    have u1: "underway sha src p i a ?s1" using inv1 no at t1 by (simp add: underway_def)
    have card: "int (card (insert ix (rt_received ?t))) = rt_totalChunks ?t \<longleftrightarrow>
        insert ix (rt_received ?t) = {0..<rt_totalChunks ?t}"
    proof
      assume "int (card (insert ix (rt_received ?t))) = rt_totalChunks ?t"
      then show "insert ix (rt_received ?t) = {0..<rt_totalChunks ?t}"
        using rec ix by (intro card_subset_eq) auto
    qed (use ix in simp)
    show ?thesis
    proof (cases "insert ix (rt_received ?t) = {0..<rt_totalChunks ?t}")
      case True
      with settle_complete [OF u1 src] h t1 card s2 show ?thesis by simp
    next
      case False
      have "AfterAck a \<notin> set (fr_tasks s)" using no by auto
      then have "recv_step sha (Resume (AfterAck a) True) (spawn (AfterAck a) ?s1) = (?s1, [rv_emit a ?s1])"
        using False card t1 by (simp add: spawn_def remove1_last afterAck_def Let_def updObj_def)
      then have "s' = ?s1"
        using no by (simp add: s2 numeral_2_eq_2 spawn_def filter_no_inbound)
      with u1 t1 False show ?thesis by simp
    qed
  qed
qed

lemma deliver_all_chunks:
  assumes u: "underway sha src p i a s" and src: "src i = Some (cs, c)"
    and h: "rt_sha256 (fr_objs s a) = None \<or> rt_sha256 (fr_objs s a) = Some (digestBlob sha c)"
    and part: "rt_received (fr_objs s a) \<noteq> {0..<tot}" and tot: "rt_totalChunks (fr_objs s a) = tot"
    and ixs: "set ixs \<subseteq> {0..<tot}" "rt_received (fr_objs s a) \<union> set ixs = {0..<tot}"
  shows "completed_as i a c (fold (deliverChunk sha i tot cs c) ixs s)"
  using u h part tot ixs
proof (induction ixs arbitrary: s)
  case Nil
  then show ?case by simp
next
  case (Cons ix ixs)
  let ?s' = "deliverChunk sha i tot cs c ix s"
  have ix: "0 \<le> ix" "ix < rt_totalChunks (fr_objs s a)" using Cons.prems(4,5) by auto
  have fin: "completed_as i a c (fold (deliverChunk sha i tot cs c) xs s1)" if "completed_as i a c s1" for xs s1
    using that by (induction xs) (simp_all add: deliverChunk_completed)
  note step = deliverChunk_step [OF Cons.prems(1) src Cons.prems(2) ix Cons.prems(3) [folded Cons.prems(4)] refl,
      unfolded Cons.prems(4)]
  show ?case
  proof (cases "insert ix (rt_received (fr_objs s a)) = {0..<tot}")
    case True
    with step fin show ?thesis by simp
  next
    case False
    with step have s': "underway sha src p i a ?s'" "rt_received (fr_objs ?s' a) = insert ix (rt_received (fr_objs s a))"
      "rt_totalChunks (fr_objs ?s' a) = tot" "rt_sha256 (fr_objs ?s' a) = rt_sha256 (fr_objs s a)" by simp_all
    have "completed_as i a c (fold (deliverChunk sha i tot cs c) ixs ?s')"
      using Cons.prems False s' by (intro Cons.IH) auto
    then show ?thesis by simp
  qed
qed

text \<open>
  C16. A transfer completes. In any reachable state in which a transfer of the file \<open>c\<close> has just been accepted and
  no earlier message is still being handled: once every chunk has arrived, in whatever order and
  however often, the transfer is completed and its blob is \<open>c\<close>, provided the offer announced either
  no hash or the right one.
\<close>

theorem transfer_completes:
  assumes run: "recv_run sha src p es s" and src: "src i = Some (cs, c)"
    and idle: "\<forall>t \<in> set (fr_tasks s). \<not> inboundTask t"
    and a: "map_get (fr_transfers s) i = Some a" "rt_status (fr_objs s a) = RvReceiving" "rt_received (fr_objs s a) = {}"
    and h: "rt_sha256 (fr_objs s a) = None \<or> rt_sha256 (fr_objs s a) = Some (digestBlob sha c)"
    and ixs: "set ixs = {0..<rt_totalChunks (fr_objs s a)}"
  shows "case fold (deliverChunk sha i (rt_totalChunks (fr_objs s a)) cs c) ixs s of s' \<Rightarrow>
    map_get (fr_transfers s') i = Some a \<and> rt_status (fr_objs s' a) = RvCompleted \<and> rt_blobUrl (fr_objs s' a) = Some c"
proof -
  have inv: "recv_inv sha src p s" using recv_run_inv [OF run] by simp
  have m: "meta_ok src p (fr_objs s a)" using recv_invD(4,6) [OF inv] a(1) by (auto intro: obj_ok_meta)
  have u: "underway sha src p i a s" using inv idle a(1,2) by (simp add: underway_def)
  have "completed_as i a c (fold (deliverChunk sha i (rt_totalChunks (fr_objs s a)) cs c) ixs s)"
    using totalChunks_pos [OF m] a(3) ixs by (intro deliver_all_chunks [OF u src h]) auto
  then show ?thesis by (simp add: completed_as_def)
qed

section \<open>Defects\<close>

text \<open>
  C27. A cancelled file completes. \<^verbatim>\<open>complete\<close> does not look at the status again after it has awaited the
  digest. If the user cancels the transfer in the meantime, it becomes completed all the
  same, and the file is handed to \<^verbatim>\<open>onComplete\<close>.
\<close>

theorem cancelled_file_completes:
  assumes "AfterDigest a blob \<in> set (fr_tasks s)" and "map_get (fr_transfers s) i = Some a"
    and "rt_sha256 (fr_objs s a) = Some (digestBlob sha blob)"
  shows "let s1 = fst (recv_step sha (UiCancel i r) s); (s2, es) = recv_step sha (Resume (AfterDigest a blob) True) s1 in
    rt_status (fr_objs s1 a) = RvCancelled \<and> rt_status (fr_objs s2 a) = RvCompleted \<and>
    (\<exists>f. RComplete f \<in> set es \<and> cf_blob f = blob)"
  using assms
  by (simp add: rv_cancel_def cancelWith_def release_def afterDigest_def completeOk_def Let_def quiet_effects)

text \<open>
  A lost acknowledgement destroys a completed file. Once a transfer is completed, a repeated chunk is not
  acknowledged again, so a sender that missed the acknowledgement retries until it gives up and sends
  \<^verbatim>\<open>file.cancel\<close>; the receiver then marks the completed file cancelled and revokes its blob.
\<close>

theorem completed_file_is_lost:
  assumes "map_get (fr_transfers s) i = Some a" and "rt_status (fr_objs s a) = RvCompleted"
  shows "recv_step sha (InChunk i ix tot d) s = (s, []) \<and>
    (let s' = fst (recv_step sha (InCancel i ''transfer failed'') s) in
     rt_status (fr_objs s' a) = RvCancelled \<and> rt_blobUrl (fr_objs s' a) = None)"
  using assms by (simp add: rv_chunk_def peerCancel_def rv_cancel_def cancelWith_def release_def Let_def)

section \<open>File names\<close>

lemma js_trim_sub: "set (js_trim s) \<subseteq> set s" "length (js_trim s) \<le> length s"
proof -
  show "set (js_trim s) \<subseteq> set s" 
  proof
    fix x assume "x \<in> set (js_trim s)"
    then have "x \<in> set (dropWhile isJsSpace (rev (dropWhile isJsSpace s)))" by (simp add: js_trim_def)
    then have "x \<in> set (rev (dropWhile isJsSpace s))" by (rule set_dropWhileD)
    then show "x \<in> set s" using set_dropWhileD [of x isJsSpace s] by simp
  qed
  show "length (js_trim s) \<le> length s"
    using length_dropWhile_le [of isJsSpace "rev (dropWhile isJsSpace s)"] length_dropWhile_le [of isJsSpace s]
    by (simp add: js_trim_def)
qed

text \<open>
  Safe file names. The name under which a file is stored has 1 to 180 characters and none that
  is special to a path, a shell or a URL, whatever the peer sent.
\<close>

theorem filenames_are_safe:
  "0 < length (validateFilename n) \<and> length (validateFilename n) \<le> 180 \<and>
   filter isForbiddenChar (validateFilename n) = []"
proof -
  define m where "m = take 180 (map (\<lambda>c. if isForbiddenChar c then CHR ''_'' else c) n)"
  have us: "\<not> isForbiddenChar (CHR ''_'')" by (simp add: isForbiddenChar_def)
  have dl: "\<forall>c \<in> set ''download''. \<not> isForbiddenChar c" by (simp add: isForbiddenChar_def)
  have "\<not> isForbiddenChar c" if "c \<in> set m" for c
    using that us by (auto simp: m_def dest!: in_set_takeD)
  then have ok: "\<forall>c \<in> set (js_trim m). \<not> isForbiddenChar c" using js_trim_sub(1) [of m] by blast
  have len: "length (js_trim m) \<le> 180" using js_trim_sub(2) [of m] by (simp add: m_def)
  have eq: "validateFilename n = (if js_trim m = [] then ''download'' else js_trim m)"
    by (simp only: validateFilename_def m_def Let_def)
  show ?thesis
  proof (cases "js_trim m = []")
    case True
    then have "validateFilename n = ''download''" unfolding eq by simp
    then show ?thesis using dl by (simp add: filter_empty_conv)
  next
    case False
    with eq ok len show ?thesis by (simp add: filter_empty_conv)
  qed
qed

section \<open>A concrete transfer\<close>

text \<open>A file of three bytes in slices of two, offered with its (stand-in) hash and accepted.\<close>

definition demoSources :: sources where
  "demoSources i = (if i = ''f'' then Some (2, [1, 2, 3]) else None)"

definition demoHash :: "bytes \<Rightarrow> bytes" where
  "demoHash b = take 2 b"

definition demoOffer :: RecvOp where
  "demoOffer = InOffer ''f'' ''a/b.txt'' '''' 3 2 2 (Some (digestBlob demoHash [1, 2, 3]))"

definition demoChunk :: "int \<Rightarrow> RecvOp" where
  "demoChunk ix = InChunk ''f'' ix 2 (encodeChunk (fileSlice 2 [1, 2, 3] ix))"

fun demoRun :: "RecvOp list \<Rightarrow> FileReceiver \<Rightarrow> FileReceiver \<times> ReceiverEffect list" where
  "demoRun [] s = (s, [])"
| "demoRun (op # ops) s =
     (let (s1, e1) = recv_step demoHash op s; (s2, e2) = demoRun ops s1 in (s2, e1 @ e2))"

fun demoEnabled :: "RecvOp list \<Rightarrow> FileReceiver \<Rightarrow> bool" where
  "demoEnabled [] s = True"
| "demoEnabled (op # ops) s =
     (faithful demoSources op \<and> enabled op s \<and> demoEnabled ops (fst (recv_step demoHash op s)))"

lemma demo_run:
  "recv_run demoHash demoSources p es s \<Longrightarrow> demoEnabled ops s \<Longrightarrow>
   recv_run demoHash demoSources p (es @ snd (demoRun ops s)) (fst (demoRun ops s))"
proof (induction ops arbitrary: es s)
  case (Cons op ops)
  obtain s1 e1 where st: "recv_step demoHash op s = (s1, e1)" by fastforce
  have "recv_run demoHash demoSources p (es @ e1) s1"
    using Cons.prems st by (intro recv_next [OF Cons.prems(1)]) auto
  from Cons.IH [OF this] Cons.prems(2) st show ?case by (simp add: case_prod_beta)
qed simp

abbreviation demoStart :: FileReceiver where
  "demoStart \<equiv> newReceiver (getProfile Balanced)"

lemmas demo_defs = demoOffer_def demoChunk_def newReceiver_def rv_offer_def badSize_def badMetadata_def ceilDiv_def
  admitOffer_def newTransfer_def rv_accept_def spawn_def updObj_def rv_chunk_def storeChunk_def expectedBytes_def
  afterAck_def rv_complete_def afterDigest_def completeOk_def blobOf_def sendAck_def afterAccept_def
  getProfile_def balanced_def Let_def

lemma demo_slice: "fileSlice 2 [1, 2, 3] 0 = [1, 2]" "fileSlice 2 [1, 2, 3] 1 = [3]"
  "decodeChunk (encodeChunk b) = Inr b"
  by (simp_all add: fileSlice_def subbytes_def decodeChunk_def encodeChunk_def base64Url_dec_enc)

lemma demo_hash: "digestBlob demoHash [1, 2, 3] = ''0102''"
  by (simp add: digestBlob_def demoHash_def bytesToHex_def hexDigit_def)

lemma demo_faithful: "faithful demoSources demoOffer" "0 \<le> ix \<Longrightarrow> faithful demoSources (demoChunk ix)"
  by (auto simp: demoOffer_def demoChunk_def demoSources_def chunk_from_def demo_slice fileSlice_def
      decodeChunk_def encodeChunk_def base64Url_dec_enc)

lemma demo_accepted:
  "recv_run demoHash demoSources (getProfile Balanced) (snd (demoRun [demoOffer, UiAccept ''f''] demoStart))
     (fst (demoRun [demoOffer, UiAccept ''f''] demoStart))"
  using demo_run [OF recv_start, of "[demoOffer, UiAccept ''f'']"] demo_faithful
  by (simp add: demoOffer_def newReceiver_def)

definition demoAccepted :: FileReceiver where
  "demoAccepted = fst (demoRun [demoOffer, UiAccept ''f''] demoStart)"

lemma demoAccepted_state:
  "fr_tasks demoAccepted = [AfterAccept 0]" "fr_transfers demoAccepted = [(''f'', 0)]"
  "fr_objs demoAccepted 0 = (newTransfer ''f'' ''a_b.txt'' '''' 3 2 2 (Some (digestBlob demoHash [1, 2, 3])))\<lparr>rt_status := RvReceiving\<rparr>"
  "fr_next demoAccepted = 1"
proof -
  have name: "validateFilename ''a/b.txt'' = ''a_b.txt''"
    by (simp add: validateFilename_def isForbiddenChar_def js_trim_def isJsSpace_def)
  show "fr_tasks demoAccepted = [AfterAccept 0]" "fr_transfers demoAccepted = [(''f'', 0)]"
    "fr_objs demoAccepted 0 = (newTransfer ''f'' ''a_b.txt'' '''' 3 2 2 (Some (digestBlob demoHash [1, 2, 3])))\<lparr>rt_status := RvReceiving\<rparr>"
    "fr_next demoAccepted = 1"
    by (simp_all add: demoAccepted_def demo_defs name case_prod_beta)
qed

lemma demo_indices: "{0..<2} = {1, 0, 1 :: int}"
  by auto

theorem transfer_completes_witness:
  "case fold (deliverChunk demoHash ''f'' 2 2 [1, 2, 3]) [1, 0, 1] demoAccepted of s' \<Rightarrow>
    map_get (fr_transfers s') ''f'' = Some 0 \<and> rt_status (fr_objs s' 0) = RvCompleted \<and>
    rt_blobUrl (fr_objs s' 0) = Some [1, 2, 3]"
  using transfer_completes [OF demo_accepted [folded demoAccepted_def], of "''f''" 2 "[1, 2, 3]" 0 "[1, 0, 1]"]
  by (simp add: demoAccepted_state demoSources_def newTransfer_def demo_indices del: fold_simps)

definition demoOps :: "RecvOp list" where
  "demoOps = [demoOffer, UiAccept ''f'', demoChunk 1, Resume (AfterAck 0) True, demoChunk 0, Resume (AfterAck 0) True]"

definition demoDigesting :: FileReceiver where
  "demoDigesting = fst (demoRun demoOps demoStart)"

definition demoDone :: FileReceiver where
  "demoDone = fst (recv_step demoHash (Resume (AfterDigest 0 [1, 2, 3]) True) demoDigesting)"

lemma demoDigesting_step:
  "demoDigesting = fst (demoRun [demoChunk 1, Resume (AfterAck 0) True, demoChunk 0, Resume (AfterAck 0) True] demoAccepted)"
  by (simp add: demoDigesting_def demoAccepted_def demoOps_def case_prod_beta)

lemma demo_replicate: "replicate 2 x = [x, x]"
  by (simp add: numeral_2_eq_2)

lemmas demo_chunk_defs = demo_replicate demoChunk_def rv_chunk_def storeChunk_def expectedBytes_def spawn_def updObj_def
  afterAck_def rv_complete_def blobOf_def Let_def demo_slice demoAccepted_state newTransfer_def

lemma demoDigesting_state:
  "fr_tasks demoDigesting = [AfterAccept 0, AfterDigest 0 [1, 2, 3]]" "fr_transfers demoDigesting = [(''f'', 0)]"
  "rt_sha256 (fr_objs demoDigesting 0) = Some (digestBlob demoHash [1, 2, 3])"
  "rt_status (fr_objs demoDigesting 0) = RvReceiving"
  "rt_fileId (fr_objs demoDigesting 0) = ''f''" "rt_size (fr_objs demoDigesting 0) = 3"
  "rt_received (fr_objs demoDigesting 0) = {0, 1}" "rt_totalChunks (fr_objs demoDigesting 0) = 2"
  by (simp_all add: demoDigesting_step demo_chunk_defs digestBlob_def demoHash_def bytesToHex_def case_prod_beta)

lemma demoDigesting_run:
  "\<exists>es. recv_run demoHash demoSources (getProfile Balanced) es demoDigesting"
proof -
  have "demoEnabled [demoChunk 1, Resume (AfterAck 0) True, demoChunk 0, Resume (AfterAck 0) True] demoAccepted"
    by (simp add: demo_chunk_defs case_prod_beta chunk_from_def demoSources_def subbytes_def)
  from demo_run [OF demo_accepted [folded demoAccepted_def] this]
  show ?thesis unfolding demoDigesting_step by (rule exI)
qed

lemma demoDone_run:
  "\<exists>es. recv_run demoHash demoSources (getProfile Balanced)
     (es @ snd (recv_step demoHash (Resume (AfterDigest 0 [1, 2, 3]) True) demoDigesting)) demoDone"
proof -
  obtain es where "recv_run demoHash demoSources (getProfile Balanced) es demoDigesting"
    using demoDigesting_run by blast
  from recv_next [OF this, of "Resume (AfterDigest 0 [1, 2, 3]) True"] show ?thesis
    by (intro exI [of _ es]) (simp add: demoDigesting_state demoDone_def prod_eq_iff)
qed

lemma demoDone_state:
  "fr_transfers demoDone = [(''f'', 0)]" "rt_status (fr_objs demoDone 0) = RvCompleted"
  by (simp_all add: demoDone_def demoDigesting_state afterDigest_def completeOk_def Let_def)

theorem received_file_is_the_sent_file_witness:
  "\<exists>f. RComplete f \<in> set (snd (recv_step demoHash (Resume (AfterDigest 0 [1, 2, 3]) True) demoDigesting)) \<and>
     cf_blob f = [1, 2, 3] \<and> cf_size f = 3"
proof -
  let ?f = "\<lparr>cf_fileId = ''f'', cf_name = rt_name (fr_objs demoDigesting 0), cf_mime = rt_mime (fr_objs demoDigesting 0),
             cf_size = 3, cf_blob = [1, 2, 3]\<rparr>"
  have mem: "RComplete ?f \<in> set (snd (recv_step demoHash (Resume (AfterDigest 0 [1, 2, 3]) True) demoDigesting))"
    by (simp add: demoDigesting_state afterDigest_def completeOk_def Let_def)
  obtain es where "recv_run demoHash demoSources (getProfile Balanced)
     (es @ snd (recv_step demoHash (Resume (AfterDigest 0 [1, 2, 3]) True) demoDigesting)) demoDone"
    using demoDone_run by blast
  from received_file_is_the_sent_file [OF this, of ?f] mem
  have "int (length (cf_blob ?f)) = cf_size ?f \<and>
      (\<forall>cs c. demoSources (cf_fileId ?f) = Some (cs, c) \<longrightarrow> cf_blob ?f = c)"
    by simp
  with mem show ?thesis by (intro exI [of _ ?f]) simp
qed

theorem receiver_state_safe_witness:
  "(\<Sum>a < fr_next demoDone. heldBytes (fr_objs demoDone a)) \<le> maxMemoryReceiveBytes (files (getProfile Balanced)) \<and>
   (\<exists>b. rt_blobUrl (fr_objs demoDone 0) = Some b \<and> int (length b) = rt_size (fr_objs demoDone 0))"
proof -
  obtain es where "recv_run demoHash demoSources (getProfile Balanced)
     (es @ snd (recv_step demoHash (Resume (AfterDigest 0 [1, 2, 3]) True) demoDigesting)) demoDone"
    using demoDone_run by blast
  note R = receiver_state_safe [OF this, THEN conjunct2]
  have "\<exists>b. rt_blobUrl (fr_objs demoDone 0) = Some b \<and> int (length b) = rt_size (fr_objs demoDone 0)"
    using R [THEN conjunct2, rule_format, of "''f''" 0] demoDone_state by fastforce
  with R [THEN conjunct1] show ?thesis by blast
qed

theorem acks_are_honest_witness:
  "1 \<in> rt_received (fr_objs (fst (rv_chunk ''f'' 1 2 (encodeChunk [3]) demoAccepted)) 0)"
proof -
  have "RSend (FileAck ''f'' 1) \<in> set (snd (rv_chunk ''f'' 1 2 (encodeChunk [3]) demoAccepted))"
    by (simp add: demo_chunk_defs sendAck_def)
  from acks_are_honest [OF this] show ?thesis by (auto simp: demo_chunk_defs)
qed

theorem cancelled_file_completes_witness:
  "let s1 = fst (recv_step demoHash (UiCancel ''f'' ''cancelled'') demoDigesting);
       (s2, es) = recv_step demoHash (Resume (AfterDigest 0 [1, 2, 3]) True) s1 in
    rt_status (fr_objs s1 0) = RvCancelled \<and> rt_status (fr_objs s2 0) = RvCompleted \<and>
    (\<exists>f. RComplete f \<in> set es \<and> cf_blob f = [1, 2, 3])"
  by (rule cancelled_file_completes) (simp_all add: demoDigesting_state)

theorem completed_file_is_lost_witness:
  "recv_step demoHash (demoChunk 1) demoDone = (demoDone, []) \<and>
    (let s' = fst (recv_step demoHash (InCancel ''f'' ''transfer failed'') demoDone) in
     rt_status (fr_objs s' 0) = RvCancelled \<and> rt_blobUrl (fr_objs s' 0) = None)"
  unfolding demoChunk_def by (rule completed_file_is_lost) (simp_all add: demoDone_state)

end
