(* ===== verification/FileSender.thy ===== *)
theory FileSender
  imports FileReceiver
begin

text \<open>
  Sending files (\<^verbatim>\<open>client/src/features/file/FileSender.ts\<close>).

  Timers and suspended calls keep references to a transfer object after it has left the \<^verbatim>\<open>Map\<close>,
  so objects live in a store, the map holds addresses, and the pending timers are a map of their
  own. A method runs up to its first suspending await; what follows is a task that is resumed with
  the outcome of what was awaited. Awaiting a call that did not suspend continues at once.
  What the class sends and reports is an effect list.
\<close>

section \<open>State\<close>

datatype SenderStatus = SnQueued | SnOffered | SnSending | SnPaused | SnCompleted | SnCancelled | SnFailed

record SenderSnapshot =
  ss_fileId :: string
  ss_name :: string
  ss_size :: int
  ss_sentBytes :: int
  ss_totalBytes :: int
  ss_progress :: rat
  ss_status :: SenderStatus
  ss_reason :: "string option"

datatype ChunkState = CsSending | CsWaitingAck | CsRetryWait

record InflightChunk =
  ic_attempts :: nat
  ic_state :: ChunkState
  ic_timer :: "nat option"

record Transfer =
  tr_file :: File
  tr_fileId :: string
  tr_name :: string
  tr_mime :: string
  tr_size :: int
  tr_chunkSize :: int
  tr_totalChunks :: int
  tr_sha256 :: "string option"
  tr_status :: SenderStatus
  tr_accepted :: bool
  tr_paused :: bool
  tr_cancelled :: bool
  tr_pumping :: bool
  tr_nextIndex :: int
  tr_acked :: "int set"
  tr_inflight :: "(int, InflightChunk) jsmap"
  tr_reason :: "string option"

text \<open>The two callbacks given to \<^verbatim>\<open>setTimeout\<close>: address, chunk index, number of the next attempt.\<close>

datatype STimer = AckTimeout nat int nat | RetrySend nat int nat

text \<open>
  What a suspended call does next: \<^verbatim>\<open>offer\<close> after the digest (and whether it queues),
  \<^verbatim>\<open>sendOffer\<close>, \<^verbatim>\<open>sendChunk\<close> after reading the file and after sending, the end of \<^verbatim>\<open>pump\<close>.
\<close>

datatype STask =
    OfferDigest nat bool
  | AfterOffer nat
  | ReadChunk nat int nat
  | SentChunk nat int nat
  | PumpEnd nat

text \<open>How an awaited call ends: true, false, or an exception with its message.\<close>

datatype Outcome = Succeeded | Refused | Threw string

record FileSender =
  fs_profile :: TransportProfile
  fs_transfers :: "(string, nat) jsmap"
  fs_globalPaused :: bool
  fs_objs :: "nat \<Rightarrow> Transfer"
  fs_next :: nat \<comment> \<open>the next free address\<close>
  fs_timers :: "(nat, STimer \<times> nat) jsmap" \<comment> \<open>pending timers with their delays\<close>
  fs_nextTimer :: nat
  fs_tasks :: "STask list"

datatype SenderEffect = SSend CoreAppMessage LaneName | SUpdate SenderSnapshot

definition updT :: "nat \<Rightarrow> (Transfer \<Rightarrow> Transfer) \<Rightarrow> FileSender \<Rightarrow> FileSender" where
  "updT a f s = s\<lparr>fs_objs := (fs_objs s)(a := f (fs_objs s a))\<rparr>"

definition await :: "STask \<Rightarrow> FileSender \<Rightarrow> FileSender" where
  "await t s = s\<lparr>fs_tasks := fs_tasks s @ [t]\<rparr>"

definition setTimeout :: "STimer \<Rightarrow> nat \<Rightarrow> FileSender \<Rightarrow> FileSender \<times> nat" where
  "setTimeout cb delay s =
     (s\<lparr>fs_timers := fs_timers s @ [(fs_nextTimer s, cb, delay)], fs_nextTimer := fs_nextTimer s + 1\<rparr>,
      fs_nextTimer s)"

definition closed :: "SenderStatus \<Rightarrow> bool" where
  "closed st = (st \<in> {SnCompleted, SnCancelled, SnFailed})"

definition showChunk :: "int \<Rightarrow> string" where
  "showChunk index = js_show_nat (nat (index + 1))"

section \<open>Private helpers\<close>

definition snapshotOf :: "Transfer \<Rightarrow> SenderSnapshot" where
  "snapshotOf t =
     \<lparr>ss_fileId = tr_fileId t, ss_name = tr_name t, ss_size = tr_size t,
      ss_sentBytes = min (tr_size t) (int (card (tr_acked t)) * tr_chunkSize t),
      ss_totalBytes = tr_size t,
      ss_progress = (if tr_totalChunks t = 0 then 0
                     else min 1 (of_nat (card (tr_acked t)) / of_int (tr_totalChunks t))),
      ss_status = tr_status t, ss_reason = tr_reason t\<rparr>"

definition snd_emit :: "nat \<Rightarrow> FileSender \<Rightarrow> SenderEffect" where
  "snd_emit a s = SUpdate (snapshotOf (fs_objs s a))"

definition clearInflightTimer :: "InflightChunk option \<Rightarrow> FileSender \<Rightarrow> FileSender" where
  "clearInflightTimer item s =
     (case item of
        None \<Rightarrow> s
      | Some c \<Rightarrow>
          (case ic_timer c of
             None \<Rightarrow> s
           | Some tid \<Rightarrow> s\<lparr>fs_timers := map_delete tid (fs_timers s)\<rparr>))"

definition clearTimers :: "nat \<Rightarrow> FileSender \<Rightarrow> FileSender" where
  "clearTimers a s =
     updT a (\<lambda>t. t\<lparr>tr_inflight := []\<rparr>)
       (fold (\<lambda>(i, c). clearInflightTimer (Some c)) (tr_inflight (fs_objs s a)) s)"

definition snd_fail :: "nat \<Rightarrow> string \<Rightarrow> FileSender \<Rightarrow> FileSender \<times> SenderEffect list" where
  "snd_fail a reason s =
     (let s1 = clearTimers a
            (updT a (\<lambda>t. t\<lparr>tr_status := SnFailed, tr_reason := Some reason, tr_cancelled := True\<rparr>) s)
      in (s1, [snd_emit a s1]))"

definition failAndNotify :: "nat \<Rightarrow> string \<Rightarrow> FileSender \<Rightarrow> FileSender \<times> SenderEffect list" where
  "failAndNotify a reason s =
     (let (s1, es) = snd_fail a reason s
      in (s1, es @ [SSend (FileCancel (tr_fileId (fs_objs s1 a)) ''transfer failed'') Control]))"

definition setInflight :: "nat \<Rightarrow> int \<Rightarrow> nat \<Rightarrow> ChunkState \<Rightarrow> nat option \<Rightarrow> FileSender \<Rightarrow> FileSender" where
  "setInflight a index attempts st timer s =
     updT a (\<lambda>t. t\<lparr>tr_inflight := map_set index
       \<lparr>ic_attempts = attempts, ic_state = st, ic_timer = timer\<rparr> (tr_inflight t)\<rparr>) s"

definition setReason :: "nat \<Rightarrow> string option \<Rightarrow> FileSender \<Rightarrow> FileSender" where
  "setReason a reason s = updT a (\<lambda>t. t\<lparr>tr_reason := reason\<rparr>) s"

definition isHeld :: "nat \<Rightarrow> FileSender \<Rightarrow> bool" where
  "isHeld a s = (tr_paused (fs_objs s a) \<or> fs_globalPaused s)"

definition tooMany :: "nat \<Rightarrow> FileSender \<Rightarrow> bool" where
  "tooMany attempts s = (attempts > maxRetries (files (fs_profile s)) + 1)"

definition retryLimit :: "int \<Rightarrow> string" where
  "retryLimit index = ''Chunk '' @ showChunk index @ '' failed after retry limit''"

definition retryDelay :: "nat \<Rightarrow> nat" where
  "retryDelay nextAttempts = min 5000 (400 * 2 ^ min 4 (nextAttempts - 2))"

definition scheduleRetry ::
    "nat \<Rightarrow> int \<Rightarrow> nat \<Rightarrow> string \<Rightarrow> FileSender \<Rightarrow> FileSender \<times> SenderEffect list" where
  "scheduleRetry a index nextAttempts reason s =
     (let t = fs_objs s a in
      if tr_cancelled t \<or> index \<in> tr_acked t then (s, [])
      else
        let s1 = clearInflightTimer (map_get (tr_inflight t) index) s in
        if tooMany nextAttempts s1 then failAndNotify a (retryLimit index) s1
        else
          let s2 = setReason a (Some reason) s1;
              (s3, timer) =
                (if isHeld a s2 then (s2, None)
                 else (let (s', tid) = setTimeout (RetrySend a index nextAttempts) (retryDelay nextAttempts) s2
                       in (s', Some tid)));
              s4 = setInflight a index (nextAttempts - 1) CsRetryWait timer s3
          in (s4, [snd_emit a s4]))"

text \<open>\<^verbatim>\<open>sendChunk\<close> up to reading the file.\<close>

definition sendChunk :: "nat \<Rightarrow> int \<Rightarrow> nat \<Rightarrow> FileSender \<Rightarrow> FileSender \<times> SenderEffect list" where
  "sendChunk a index attempts s =
     (let t = fs_objs s a in
      if tr_cancelled t \<or> index \<in> tr_acked t then (s, [])
      else if isHeld a s then (setInflight a index attempts CsRetryWait None s, [])
      else if tooMany attempts s then failAndNotify a (retryLimit index) s
      else
        let s1 = clearInflightTimer (map_get (tr_inflight t) index) s;
            s2 = setInflight a index attempts CsSending None s1;
            s3 = setReason a (if attempts > 1 then Some (''Retrying chunk '' @ showChunk index) else None) s2
        in (await (ReadChunk a index attempts) s3, [snd_emit a s3]))"

text \<open>\<^verbatim>\<open>file.slice(start, min(start + chunkSize, size))\<close>.\<close>

definition chunkBytesOf :: "Transfer \<Rightarrow> int \<Rightarrow> bytes" where
  "chunkBytesOf t index =
     (let start = index * tr_chunkSize t; stop = min (start + tr_chunkSize t) (tr_size t)
      in subbytes (nat start) (nat (stop - start)) (file_bytes (tr_file t)))"

definition errorMessage :: "Outcome \<Rightarrow> string" where
  "errorMessage r = (case r of Threw m \<Rightarrow> m | _ \<Rightarrow> ''Chunk send failed'')"

definition afterRead ::
    "nat \<Rightarrow> int \<Rightarrow> nat \<Rightarrow> Outcome \<Rightarrow> FileSender \<Rightarrow> FileSender \<times> SenderEffect list" where
  "afterRead a index attempts r s =
     (case r of
        Succeeded \<Rightarrow>
          (let t = fs_objs s a in
           (await (SentChunk a index attempts) s,
            [SSend (FileChunk (tr_fileId t) index (tr_totalChunks t) (encodeChunk (chunkBytesOf t index))) File]))
      | _ \<Rightarrow> scheduleRetry a index (attempts + 1) (errorMessage r) s)"

definition afterSend ::
    "nat \<Rightarrow> int \<Rightarrow> nat \<Rightarrow> Outcome \<Rightarrow> FileSender \<Rightarrow> FileSender \<times> SenderEffect list" where
  "afterSend a index attempts r s =
     (case r of
        Threw m \<Rightarrow> scheduleRetry a index (attempts + 1) m s
      | Refused \<Rightarrow> scheduleRetry a index (attempts + 1) ''Retrying after browser backpressure'' s
      | Succeeded \<Rightarrow>
          if tr_cancelled (fs_objs s a) \<or> index \<in> tr_acked (fs_objs s a) then (s, [])
          else
            let (s1, tid) = setTimeout (AckTimeout a index (attempts + 1)) (ackTimeoutMs (files (fs_profile s))) s;
                s2 = setReason a None (setInflight a index attempts CsWaitingAck (Some tid) s1)
            in (s2, [snd_emit a s2]))"

fun fireTimer :: "STimer \<Rightarrow> FileSender \<Rightarrow> FileSender \<times> SenderEffect list" where
  "fireTimer (AckTimeout a index n) s = scheduleRetry a index n ''Retrying after missing ACK'' s"
| "fireTimer (RetrySend a index n) s = sendChunk a index n s"

text \<open>\<^verbatim>\<open>completeIfDone\<close> up to its await; the flag says whether it sends, and so suspends.\<close>

definition shaField :: "string option \<Rightarrow> string option" where
  "shaField h = (if h = Some '''' then None else h)"

definition completeIfDone :: "nat \<Rightarrow> FileSender \<Rightarrow> FileSender \<times> SenderEffect list \<times> bool" where
  "completeIfDone a s =
     (let t = fs_objs s a in
      if tr_cancelled t then (s, [], False)
      else if tr_nextIndex t < tr_totalChunks t \<or> tr_inflight t \<noteq> [] \<or>
              int (card (tr_acked t)) < tr_totalChunks t then (s, [], False)
      else
        let s1 = updT a (\<lambda>t. t\<lparr>tr_status := SnCompleted, tr_reason := None\<rparr>) s
        in (s1, [snd_emit a s1, SSend (FileComplete (tr_fileId t) (shaField (tr_sha256 t))) Control], True))"

section \<open>The pump\<close>

lemma updT_sel [simp]:
  "fs_profile (updT a f s) = fs_profile s" "fs_transfers (updT a f s) = fs_transfers s"
  "fs_globalPaused (updT a f s) = fs_globalPaused s" "fs_next (updT a f s) = fs_next s"
  "fs_timers (updT a f s) = fs_timers s" "fs_nextTimer (updT a f s) = fs_nextTimer s"
  "fs_tasks (updT a f s) = fs_tasks s" "fs_objs (updT a f s) = (fs_objs s)(a := f (fs_objs s a))"
  by (simp_all add: updT_def)

lemma await_sel [simp]:
  "fs_profile (await t s) = fs_profile s" "fs_transfers (await t s) = fs_transfers s"
  "fs_globalPaused (await t s) = fs_globalPaused s" "fs_next (await t s) = fs_next s"
  "fs_timers (await t s) = fs_timers s" "fs_nextTimer (await t s) = fs_nextTimer s"
  "fs_tasks (await t s) = fs_tasks s @ [t]" "fs_objs (await t s) = fs_objs s"
  by (simp_all add: await_def)

lemma clearInflightTimer_sel [simp]:
  "fs_profile (clearInflightTimer c s) = fs_profile s"
  "fs_transfers (clearInflightTimer c s) = fs_transfers s"
  "fs_globalPaused (clearInflightTimer c s) = fs_globalPaused s"
  "fs_next (clearInflightTimer c s) = fs_next s"
  "fs_nextTimer (clearInflightTimer c s) = fs_nextTimer s"
  "fs_tasks (clearInflightTimer c s) = fs_tasks s" "fs_objs (clearInflightTimer c s) = fs_objs s"
  by (simp_all add: clearInflightTimer_def split: option.splits)

lemma clearInflight_fold_sel [simp]:
  "fs_profile (fold (\<lambda>(i, c). clearInflightTimer (Some c)) m s) = fs_profile s"
  "fs_transfers (fold (\<lambda>(i, c). clearInflightTimer (Some c)) m s) = fs_transfers s"
  "fs_globalPaused (fold (\<lambda>(i, c). clearInflightTimer (Some c)) m s) = fs_globalPaused s"
  "fs_next (fold (\<lambda>(i, c). clearInflightTimer (Some c)) m s) = fs_next s"
  "fs_nextTimer (fold (\<lambda>(i, c). clearInflightTimer (Some c)) m s) = fs_nextTimer s"
  "fs_tasks (fold (\<lambda>(i, c). clearInflightTimer (Some c)) m s) = fs_tasks s"
  "fs_objs (fold (\<lambda>(i, c). clearInflightTimer (Some c)) m s) = fs_objs s"
  by (induction m arbitrary: s) auto

text \<open>What \<^verbatim>\<open>sendChunk\<close> does to the object; it never touches the counters of the pump.\<close>

lemma sendChunk_counters:
  "tr_nextIndex (fs_objs (fst (sendChunk a index n s)) a) = tr_nextIndex (fs_objs s a) \<and>
   tr_totalChunks (fs_objs (fst (sendChunk a index n s)) a) = tr_totalChunks (fs_objs s a)"
  by (simp add: sendChunk_def failAndNotify_def snd_fail_def clearTimers_def setInflight_def
      setReason_def Let_def split: prod.splits)

function pumpLoop :: "nat \<Rightarrow> FileSender \<Rightarrow> FileSender \<times> SenderEffect list" where
  "pumpLoop a s =
     (let t = fs_objs s a in
      if \<not> tr_cancelled t \<and> \<not> tr_paused t \<and> \<not> fs_globalPaused s \<and>
         length (tr_inflight t) < windowChunks (files (fs_profile s)) \<and> tr_nextIndex t < tr_totalChunks t
      then
        let (s1, es) = sendChunk a (tr_nextIndex t) 1 (updT a (\<lambda>t. t\<lparr>tr_nextIndex := tr_nextIndex t + 1\<rparr>) s);
            (s2, es') = pumpLoop a s1
        in (s2, es @ es')
      else (s, []))"
  by pat_completeness auto
termination
proof (relation "measure (\<lambda>(a, s). nat (tr_totalChunks (fs_objs s a) - tr_nextIndex (fs_objs s a)))", simp)
  fix a s t x s1 es
  assume "t = fs_objs s a"
    and "\<not> tr_cancelled t \<and> \<not> tr_paused t \<and> \<not> fs_globalPaused s \<and>
         length (tr_inflight t) < windowChunks (files (fs_profile s)) \<and> tr_nextIndex t < tr_totalChunks t"
    and "x = sendChunk a (tr_nextIndex t) 1 (updT a (\<lambda>t. t\<lparr>tr_nextIndex := tr_nextIndex t + 1\<rparr>) s)"
    and "(s1, es) = x"
  then have "s1 = fst (sendChunk a (tr_nextIndex t) 1 (updT a (\<lambda>t. t\<lparr>tr_nextIndex := tr_nextIndex t + 1\<rparr>) s))"
    and "t = fs_objs s a" "tr_nextIndex t < tr_totalChunks t" by (metis fst_conv)+
  then show "((a, s1), a, s) \<in> measure (\<lambda>(a, s). nat (tr_totalChunks (fs_objs s a) - tr_nextIndex (fs_objs s a)))"
    using sendChunk_counters [of a "tr_nextIndex t" 1 "updT a (\<lambda>t. t\<lparr>tr_nextIndex := tr_nextIndex t + 1\<rparr>) s"]
    by simp
qed

declare pumpLoop.simps [simp del]

text \<open>
  \<^verbatim>\<open>pump\<close>: an early return resets \<^verbatim>\<open>pumping\<close> at once, and so does a \<^verbatim>\<open>completeIfDone\<close> that sent nothing,
  before any further event; otherwise the flag stays set until the completion notice is sent.
\<close>

definition setPumping :: "nat \<Rightarrow> bool \<Rightarrow> FileSender \<Rightarrow> FileSender" where
  "setPumping a b s = updT a (\<lambda>t. t\<lparr>tr_pumping := b\<rparr>) s"

definition snd_pump :: "nat \<Rightarrow> FileSender \<Rightarrow> FileSender \<times> SenderEffect list" where
  "snd_pump a s =
     (let t = fs_objs s a in
      if tr_pumping t then (s, [])
      else if tr_cancelled t \<or> \<not> tr_accepted t \<or> tr_paused t \<or> fs_globalPaused s \<or> tr_status t \<noteq> SnSending
      then (setPumping a False (setPumping a True s), [])
      else
        let (s1, es) = pumpLoop a (setPumping a True s);
            (s2, es', sent) = completeIfDone a s1
        in ((if sent then await (PumpEnd a) s2 else setPumping a False s2), es @ es'))"

definition holdOutstanding :: "nat \<Rightarrow> FileSender \<Rightarrow> FileSender" where
  "holdOutstanding a s =
     fold (\<lambda>(index, item). setInflight a index (ic_attempts item) CsRetryWait None \<circ> clearInflightTimer (Some item))
       (tr_inflight (fs_objs s a)) s"

text \<open>One turn of the loop of \<^verbatim>\<open>resumeOutstanding\<close>: an entry deleted meanwhile is not visited.\<close>

definition resumeItem :: "nat \<Rightarrow> int \<Rightarrow> FileSender \<times> SenderEffect list \<Rightarrow> FileSender \<times> SenderEffect list" where
  "resumeItem a index acc =
     (let (s, es) = acc in
      case map_get (tr_inflight (fs_objs s a)) index of
        None \<Rightarrow> (s, es)
      | Some item \<Rightarrow>
          if ic_state item = CsRetryWait \<and> ic_timer item = None then
            (let (s1, es1) = sendChunk a index (ic_attempts item + 1) s in (s1, es @ es1))
          else (s, es))"

definition resumeOutstanding :: "nat \<Rightarrow> FileSender \<Rightarrow> FileSender \<times> SenderEffect list" where
  "resumeOutstanding a s =
     (if tr_cancelled (fs_objs s a) \<or> isHeld a s then (s, [])
      else
        let (s1, es) = fold (resumeItem a) (map_keys (tr_inflight (fs_objs s a))) (s, []);
            (s2, es') = snd_pump a s1
        in (s2, es @ es'))"

section \<open>Public operations\<close>

definition snd_setProfile :: "TransportProfile \<Rightarrow> FileSender \<Rightarrow> FileSender" where
  "snd_setProfile p s = s\<lparr>fs_profile := p\<rparr>"

definition snd_reset :: "FileSender \<Rightarrow> FileSender" where
  "snd_reset s = (fold (\<lambda>(i, a). clearTimers a) (fs_transfers s) s)\<lparr>fs_transfers := [], fs_globalPaused := False\<rparr>"

definition snd_remove :: "string \<Rightarrow> FileSender \<Rightarrow> FileSender" where
  "snd_remove fileId s =
     (case map_get (fs_transfers s) fileId of
        None \<Rightarrow> s
      | Some a \<Rightarrow>
          if \<not> closed (tr_status (fs_objs s a)) then s
          else (clearTimers a s)\<lparr>fs_transfers := map_delete fileId (fs_transfers s)\<rparr>)"

definition pauseTransfer ::
    "bool \<Rightarrow> string \<Rightarrow> nat \<Rightarrow> FileSender \<times> SenderEffect list \<Rightarrow> FileSender \<times> SenderEffect list" where
  "pauseTransfer paused reason a acc =
     (let (s, es) = acc in
      if tr_status (fs_objs s a) \<noteq> SnSending \<and> tr_status (fs_objs s a) \<noteq> SnPaused then (s, es)
      else
        let s1 = updT a (\<lambda>t. t\<lparr>tr_paused := paused, tr_status := (if paused then SnPaused else SnSending),
                              tr_reason := (if paused then Some reason else None)\<rparr>) s;
            s2 = (if paused then holdOutstanding a s1 else s1);
            (s3, es') = (if paused then (s2, []) else resumeOutstanding a s2)
        in (s3, es @ snd_emit a s2 # es'))"

definition setGlobalPaused :: "bool \<Rightarrow> string \<Rightarrow> FileSender \<Rightarrow> FileSender \<times> SenderEffect list" where
  "setGlobalPaused paused reason s =
     fold (\<lambda>(i, a). pauseTransfer paused reason a) (fs_transfers s) (s\<lparr>fs_globalPaused := paused\<rparr>, [])"

definition sendOffer :: "nat \<Rightarrow> FileSender \<Rightarrow> FileSender \<times> SenderEffect list" where
  "sendOffer a s =
     (let t = fs_objs s a in
      (await (AfterOffer a) s,
       [SSend (FileOffer (tr_fileId t) (tr_name t) (tr_mime t) (tr_size t) (tr_chunkSize t) (tr_totalChunks t)
                 (shaField (tr_sha256 t))) Control]))"

definition afterOffer :: "nat \<Rightarrow> Outcome \<Rightarrow> FileSender \<Rightarrow> FileSender \<times> SenderEffect list" where
  "afterOffer a r s = (if r = Refused then snd_fail a ''Could not send file offer'' s else (s, []))"

text \<open>The object \<^verbatim>\<open>offer\<close> builds, for the id \<^verbatim>\<open>makeId\<close> gave.\<close>

definition newOutgoing :: "TransportProfile \<Rightarrow> string \<Rightarrow> File \<Rightarrow> bool \<Rightarrow> Transfer" where
  "newOutgoing p fileId file queued =
     (let size = int (length (file_bytes file)); chunkSize = int (chunkBytes (files p)) in
      \<lparr>tr_file = file, tr_fileId = fileId, tr_name = validateFilename (file_name file),
       tr_mime = (if file_type file = '''' then ''application/octet-stream'' else file_type file),
       tr_size = size, tr_chunkSize = chunkSize, tr_totalChunks = ceilDiv size chunkSize, tr_sha256 = None,
       tr_status = (if queued then SnQueued else SnOffered), tr_accepted = False, tr_paused = queued,
       tr_cancelled = False, tr_pumping = False, tr_nextIndex = 0, tr_acked = {}, tr_inflight = [],
       tr_reason = Some (if queued then ''Waiting for earlier work'' else ''Waiting for peer acceptance'')\<rparr>)"

text \<open>The end of \<^verbatim>\<open>offer\<close>: the transfer is entered in the map and, unless it is queued, offered.\<close>

definition registerTransfer :: "nat \<Rightarrow> bool \<Rightarrow> FileSender \<Rightarrow> FileSender \<times> SenderEffect list" where
  "registerTransfer a queued s =
     (let s1 = s\<lparr>fs_transfers := map_set (tr_fileId (fs_objs s a)) a (fs_transfers s)\<rparr>;
          (s2, es) = (if queued then (s1, []) else sendOffer a s1)
      in (s2, snd_emit a s1 # es))"

definition snd_offer :: "string \<Rightarrow> File \<Rightarrow> bool \<Rightarrow> FileSender \<Rightarrow> (FileSender \<times> SenderEffect list) res" where
  "snd_offer fileId file queued s =
     res_bind (validateOutboundFile file (fs_profile s)) (\<lambda>_.
       let a = fs_next s;
           s1 = s\<lparr>fs_objs := (fs_objs s)(a := newOutgoing (fs_profile s) fileId file queued), fs_next := a + 1\<rparr>
       in Inr (if length (file_bytes file) \<le> smallBytes (files (fs_profile s))
               then (await (OfferDigest a queued) s1, [])
               else registerTransfer a queued s1))"

text \<open>A digest that cannot be computed is left out.\<close>

definition afterOfferDigest ::
    "(bytes \<Rightarrow> bytes) \<Rightarrow> nat \<Rightarrow> bool \<Rightarrow> Outcome \<Rightarrow> FileSender \<Rightarrow> FileSender \<times> SenderEffect list" where
  "afterOfferDigest sha a queued r s =
     registerTransfer a queued
       (updT a (\<lambda>t. t\<lparr>tr_sha256 := (if r = Succeeded then Some (digestBlob sha (file_bytes (tr_file t))) else None)\<rparr>) s)"

definition startQueued :: "string \<Rightarrow> FileSender \<Rightarrow> FileSender \<times> SenderEffect list" where
  "startQueued fileId s =
     (case map_get (fs_transfers s) fileId of
        None \<Rightarrow> (s, [])
      | Some a \<Rightarrow>
          if tr_cancelled (fs_objs s a) \<or> tr_status (fs_objs s a) \<noteq> SnQueued then (s, [])
          else
            let s1 = updT a (\<lambda>t. t\<lparr>tr_status := SnOffered, tr_paused := False,
                                  tr_reason := Some ''Waiting for peer acceptance''\<rparr>) s;
                (s2, es) = sendOffer a s1
            in (s2, snd_emit a s1 # es))"

definition snd_accept :: "string \<Rightarrow> FileSender \<Rightarrow> FileSender \<times> SenderEffect list" where
  "snd_accept fileId s =
     (case map_get (fs_transfers s) fileId of
        None \<Rightarrow> (s, [])
      | Some a \<Rightarrow>
          if tr_cancelled (fs_objs s a) then (s, [])
          else
            let gp = fs_globalPaused s;
                s1 = updT a (\<lambda>t. t\<lparr>tr_accepted := True, tr_status := (if gp then SnPaused else SnSending),
                                  tr_paused := gp, tr_reason := (if gp then Some ''Paused during voice'' else None)\<rparr>) s;
                (s2, es) = snd_pump a s1
            in (s2, snd_emit a s1 # es))"

definition snd_ack :: "string \<Rightarrow> int \<Rightarrow> FileSender \<Rightarrow> FileSender \<times> SenderEffect list" where
  "snd_ack fileId index s =
     (case map_get (fs_transfers s) fileId of
        None \<Rightarrow> (s, [])
      | Some a \<Rightarrow>
          let t = fs_objs s a in
          if tr_cancelled t \<or> index < 0 \<or> index \<ge> tr_totalChunks t then (s, [])
          else
            (case map_get (tr_inflight t) index of
               None \<Rightarrow> (s, [])
             | Some item \<Rightarrow>
                 let s1 = updT a (\<lambda>t. t\<lparr>tr_inflight := map_delete index (tr_inflight t),
                                       tr_acked := insert index (tr_acked t), tr_reason := None\<rparr>)
                            (clearInflightTimer (Some item) s);
                     (s2, es) = snd_pump a s1
                 in (s2, snd_emit a s1 # es)))"

definition snd_nack :: "string \<Rightarrow> int \<Rightarrow> string \<Rightarrow> FileSender \<Rightarrow> FileSender \<times> SenderEffect list" where
  "snd_nack fileId index reason s =
     (case map_get (fs_transfers s) fileId of
        None \<Rightarrow> (s, [])
      | Some a \<Rightarrow>
          let t = fs_objs s a in
          if tr_cancelled t \<or> index < 0 \<or> index \<ge> tr_totalChunks t then (s, [])
          else
            (case map_get (tr_inflight t) index of
               None \<Rightarrow> (s, [])
             | Some item \<Rightarrow> scheduleRetry a index (ic_attempts item + 1) reason s))"

definition snd_pause :: "string \<Rightarrow> string \<Rightarrow> FileSender \<Rightarrow> FileSender \<times> SenderEffect list" where
  "snd_pause fileId reason s =
     (case map_get (fs_transfers s) fileId of
        None \<Rightarrow> (s, [])
      | Some a \<Rightarrow>
          if closed (tr_status (fs_objs s a)) then (s, [])
          else
            let s1 = holdOutstanding a
                  (updT a (\<lambda>t. t\<lparr>tr_paused := True, tr_status := SnPaused, tr_reason := Some reason\<rparr>) s)
            in (s1, [snd_emit a s1]))"

definition snd_resume :: "string \<Rightarrow> FileSender \<Rightarrow> FileSender \<times> SenderEffect list" where
  "snd_resume fileId s =
     (case map_get (fs_transfers s) fileId of
        None \<Rightarrow> (s, [])
      | Some a \<Rightarrow>
          if tr_status (fs_objs s a) \<noteq> SnPaused then (s, [])
          else
            let s1 = updT a (\<lambda>t. t\<lparr>tr_paused := False, tr_status := (if tr_accepted t then SnSending else SnOffered),
                    tr_reason := (if tr_accepted t then None else Some ''Waiting for peer acceptance'')\<rparr>) s;
                (s2, es) = resumeOutstanding a s1
            in (s2, snd_emit a s1 # es))"

definition snd_cancel :: "string \<Rightarrow> string \<Rightarrow> bool \<Rightarrow> FileSender \<Rightarrow> FileSender \<times> SenderEffect list" where
  "snd_cancel fileId reason notify s =
     (case map_get (fs_transfers s) fileId of
        None \<Rightarrow> (s, [])
      | Some a \<Rightarrow>
          let s1 = clearTimers a
                (updT a (\<lambda>t. t\<lparr>tr_cancelled := True, tr_status := SnCancelled, tr_reason := Some reason\<rparr>) s)
          in (s1, snd_emit a s1 # (if notify then [SSend (FileCancel fileId reason) Control] else [])))"

definition activeCount :: "FileSender \<Rightarrow> nat" where
  "activeCount s = length (filter (\<lambda>(i, a). \<not> closed (tr_status (fs_objs s a))) (fs_transfers s))"

definition newSender :: "TransportProfile \<Rightarrow> FileSender" where
  "newSender p =
     \<lparr>fs_profile = p, fs_transfers = [], fs_globalPaused = False,
      fs_objs = \<lambda>_. newOutgoing p [] \<lparr>file_name = [], file_type = [], file_bytes = []\<rparr> False,
      fs_next = 0, fs_timers = [], fs_nextTimer = 1, fs_tasks = []\<rparr>"

section \<open>Interleavings\<close>

datatype SendOp =
    DoOffer string File bool
  | DoStart string
  | PeerAccept string
  | PeerAck string int
  | PeerNack string int string
  | DoPause string string
  | DoResume string
  | DoCancel string string bool
  | DoGlobalPause bool string
  | DoRemove string
  | DoResetSender
  | DoSetProfile TransportProfile
  | Fire nat
  | Continue STask Outcome

fun continueTask :: "(bytes \<Rightarrow> bytes) \<Rightarrow> STask \<Rightarrow> Outcome \<Rightarrow> FileSender \<Rightarrow> FileSender \<times> SenderEffect list" where
  "continueTask sha (OfferDigest a q) r s = afterOfferDigest sha a q r s"
| "continueTask sha (AfterOffer a) r s = afterOffer a r s"
| "continueTask sha (ReadChunk a i n) r s = afterRead a i n r s"
| "continueTask sha (SentChunk a i n) r s = afterSend a i n r s"
| "continueTask sha (PumpEnd a) r s = (setPumping a False s, [])"

fun send_step :: "(bytes \<Rightarrow> bytes) \<Rightarrow> SendOp \<Rightarrow> FileSender \<Rightarrow> FileSender \<times> SenderEffect list" where
  "send_step sha (DoOffer i f q) s = (case snd_offer i f q s of Inl e \<Rightarrow> (s, []) | Inr r \<Rightarrow> r)"
| "send_step sha (DoStart i) s = startQueued i s"
| "send_step sha (PeerAccept i) s = snd_accept i s"
| "send_step sha (PeerAck i ix) s = snd_ack i ix s"
| "send_step sha (PeerNack i ix r) s = snd_nack i ix r s"
| "send_step sha (DoPause i r) s = snd_pause i r s"
| "send_step sha (DoResume i) s = snd_resume i s"
| "send_step sha (DoCancel i r n) s = snd_cancel i r n s"
| "send_step sha (DoGlobalPause b r) s = setGlobalPaused b r s"
| "send_step sha (DoRemove i) s = (snd_remove i s, [])"
| "send_step sha DoResetSender s = (snd_reset s, [])"
| "send_step sha (DoSetProfile p) s = (snd_setProfile p s, [])"
| "send_step sha (Fire tid) s =
     (case map_get (fs_timers s) tid of
        None \<Rightarrow> (s, [])
      | Some (cb, delay) \<Rightarrow> fireTimer cb (s\<lparr>fs_timers := map_delete tid (fs_timers s)\<rparr>))"
| "send_step sha (Continue t r) s =
     (if t \<in> set (fs_tasks s) then continueTask sha t r (s\<lparr>fs_tasks := remove1 t (fs_tasks s)\<rparr>) else (s, []))"

end
