(* ===== verification/SenderSteps.thy ===== *)
theory SenderSteps
  imports FileSender
begin

text \<open>
  The invariant of the file sender (\<^verbatim>\<open>FileSender.ts\<close>) and what the private methods do to it. Every
  private method changes one transfer object; a method on one chunk ends in one of three ways
  (nothing to do, a new in-flight entry, failure of the transfer), and the pump leaves either a
  full window or an exhausted file.
\<close>

section \<open>The invariant\<close>

text \<open>The object and the chunk a timer is about.\<close>

fun timerRef :: "STimer \<Rightarrow> nat \<times> int" where
  "timerRef (AckTimeout a i n) = (a, i)"
| "timerRef (RetrySend a i n) = (a, i)"

definition digestAddrs :: "STask list \<Rightarrow> nat list" where
  "digestAddrs ts = concat (map (\<lambda>t. case t of OfferDigest a q \<Rightarrow> [a] | _ \<Rightarrow> []) ts)"

definition attached :: "nat \<Rightarrow> FileSender \<Rightarrow> bool" where
  "attached a s = (map_get (fs_transfers s) (tr_fileId (fs_objs s a)) = Some a)"

text \<open>An object that is in the map or about to enter it.\<close>

definition liveT :: "nat \<Rightarrow> FileSender \<Rightarrow> bool" where
  "liveT a s = (attached a s \<or> a \<in> set (digestAddrs (fs_tasks s)))"

definition tr_wf :: "Transfer \<Rightarrow> bool" where
  "tr_wf t =
     (0 < tr_chunkSize t \<and> 0 < tr_size t \<and> tr_size t = int (length (file_bytes (tr_file t))) \<and>
      tr_totalChunks t = ceilDiv (tr_size t) (tr_chunkSize t) \<and>
      0 \<le> tr_nextIndex t \<and> tr_nextIndex t \<le> tr_totalChunks t \<and>
      keyset (tr_inflight t) \<subseteq> {0..<tr_nextIndex t} \<and> tr_acked t \<subseteq> {0..<tr_nextIndex t} \<and>
      tr_acked t \<inter> keyset (tr_inflight t) = {} \<and> wf_map (tr_inflight t))"

text \<open>The chunks handed to \<^verbatim>\<open>sendChunk\<close> and not acknowledged.\<close>

definition outstanding :: "Transfer \<Rightarrow> int set" where
  "outstanding t = {0..<tr_nextIndex t} - tr_acked t"

text \<open>\<open>X\<close> holds the indices that a running operation is about to put in flight.\<close>

definition tr_live :: "nat \<Rightarrow> int set \<Rightarrow> Transfer \<Rightarrow> bool" where
  "tr_live W X t =
     (if tr_cancelled t then tr_inflight t = [] \<and> tr_status t \<in> {SnCancelled, SnFailed}
      else outstanding t \<subseteq> keyset (tr_inflight t) \<union> X \<and> card (outstanding t) \<le> W \<and>
           (outstanding t \<noteq> {} \<longrightarrow> tr_accepted t \<and> tr_status t \<in> {SnSending, SnPaused}) \<and>
           tr_status t \<notin> {SnCancelled, SnFailed} \<and>
           (tr_status t = SnCompleted \<longrightarrow> tr_acked t = {0..<tr_totalChunks t}))"

text \<open>Something will happen to an unacknowledged chunk: a call in progress, a timer, or the end of a pause.\<close>

definition driven :: "nat \<Rightarrow> int \<Rightarrow> InflightChunk \<Rightarrow> FileSender \<Rightarrow> bool" where
  "driven a i c s =
     (case ic_state c of
        CsSending \<Rightarrow> ic_timer c = None \<and> (\<exists>n. ReadChunk a i n \<in> set (fs_tasks s) \<or> SentChunk a i n \<in> set (fs_tasks s))
      | CsWaitingAck \<Rightarrow> (\<exists>tid n d. ic_timer c = Some tid \<and> map_get (fs_timers s) tid = Some (AckTimeout a i n, d))
      | CsRetryWait \<Rightarrow>
          (case ic_timer c of
             None \<Rightarrow> isHeld a s
           | Some tid \<Rightarrow> (\<exists>n d. map_get (fs_timers s) tid = Some (RetrySend a i n, d))))"

definition ref_ok :: "FileSender \<Rightarrow> nat \<times> int \<Rightarrow> bool" where
  "ref_ok s r = (fst r < fs_next s \<and> 0 \<le> snd r \<and> snd r < tr_nextIndex (fs_objs s (fst r)))"

fun staskOk :: "FileSender \<Rightarrow> STask \<Rightarrow> bool" where
  "staskOk s (OfferDigest a q) = (a < fs_next s \<and> tr_nextIndex (fs_objs s a) = 0 \<and> \<not> tr_accepted (fs_objs s a) \<and> \<not> attached a s)"
| "staskOk s (AfterOffer a) = (a < fs_next s)"
| "staskOk s (ReadChunk a i n) = ref_ok s (a, i)"
| "staskOk s (SentChunk a i n) = ref_ok s (a, i)"
| "staskOk s (PumpEnd a) = (a < fs_next s)"

text \<open>A timer an entry refers to is its own.\<close>

definition owned :: "nat \<Rightarrow> FileSender \<Rightarrow> bool" where
  "owned a s =
     (\<forall>i c tid. map_get (tr_inflight (fs_objs s a)) i = Some c \<longrightarrow> ic_timer c = Some tid \<longrightarrow>
        tid < fs_nextTimer s \<and> (\<forall>x. map_get (fs_timers s) tid = Some x \<longrightarrow> timerRef (fst x) = (a, i)))"

definition snd_profile_ok :: "nat \<Rightarrow> TransportProfile \<Rightarrow> bool" where
  "snd_profile_ok W p = (0 < windowChunks (files p) \<and> windowChunks (files p) \<le> W \<and> 0 < chunkBytes (files p))"

definition snd_base :: "nat \<Rightarrow> FileSender \<Rightarrow> bool" where
  "snd_base W s =
     (snd_profile_ok W (fs_profile s) \<and> wf_map (fs_transfers s) \<and>
      (\<forall>i a. map_get (fs_transfers s) i = Some a \<longrightarrow> a < fs_next s \<and> tr_fileId (fs_objs s a) = i) \<and>
      (\<forall>a < fs_next s. tr_wf (fs_objs s a) \<and> owned a s) \<and>
      (\<forall>t \<in> set (fs_tasks s). staskOk s t) \<and> distinct (digestAddrs (fs_tasks s)) \<and>
      (\<forall>tid x. map_get (fs_timers s) tid = Some x \<longrightarrow> tid < fs_nextTimer s \<and> ref_ok s (timerRef (fst x))))"

definition snd_live :: "bool \<Rightarrow> nat \<Rightarrow> (nat \<times> int) set \<Rightarrow> FileSender \<Rightarrow> bool" where
  "snd_live D W X s =
     (\<forall>a < fs_next s. liveT a s \<longrightarrow>
        tr_live W {i. (a, i) \<in> X} (fs_objs s a) \<and>
        (D \<longrightarrow> (\<forall>i c. (a, i) \<notin> X \<longrightarrow> map_get (tr_inflight (fs_objs s a)) i = Some c \<longrightarrow> driven a i c s)))"

definition snd_inv :: "bool \<Rightarrow> nat \<Rightarrow> (nat \<times> int) set \<Rightarrow> FileSender \<Rightarrow> bool" where
  "snd_inv D W X s = (snd_base W s \<and> snd_live D W X s)"

lemma tr_live_mono: "tr_live W X t \<Longrightarrow> X \<subseteq> Y \<Longrightarrow> tr_live W Y t"
  unfolding tr_live_def by (cases "tr_cancelled t"; simp; blast)

lemma snd_liveI:
  assumes "\<And>a. a < fs_next s \<Longrightarrow> liveT a s \<Longrightarrow> tr_live W {i. (a, i) \<in> X} (fs_objs s a)"
    and "\<And>a i c. a < fs_next s \<Longrightarrow> liveT a s \<Longrightarrow> D \<Longrightarrow> (a, i) \<notin> X \<Longrightarrow>
      map_get (tr_inflight (fs_objs s a)) i = Some c \<Longrightarrow> driven a i c s"
  shows "snd_live D W X s"
  using assms by (simp add: snd_live_def)

lemma snd_liveD:
  assumes "snd_live D W X s" and "a < fs_next s" and "liveT a s"
  shows "tr_live W {i. (a, i) \<in> X} (fs_objs s a)"
    and "D \<Longrightarrow> (a, i) \<notin> X \<Longrightarrow> map_get (tr_inflight (fs_objs s a)) i = Some c \<Longrightarrow> driven a i c s"
  using assms by (simp_all add: snd_live_def)

lemma snd_live_mono:
  assumes "snd_live D W X s" and "X \<subseteq> Y"
  shows "snd_live D W Y s"
proof (rule snd_liveI)
  fix a assume "a < fs_next s" "liveT a s"
  then show "tr_live W {i. (a, i) \<in> Y} (fs_objs s a)"
    using snd_liveD(1) [OF assms(1)] assms(2) by (blast intro: tr_live_mono)
qed (use snd_liveD(2) [OF assms(1)] assms(2) in blast)

lemma snd_baseD:
  assumes "snd_base W s"
  shows "snd_profile_ok W (fs_profile s)" and "wf_map (fs_transfers s)"
    and "map_get (fs_transfers s) i = Some a \<Longrightarrow> a < fs_next s \<and> tr_fileId (fs_objs s a) = i"
    and "a < fs_next s \<Longrightarrow> tr_wf (fs_objs s a)" and "a < fs_next s \<Longrightarrow> owned a s"
    and "t \<in> set (fs_tasks s) \<Longrightarrow> staskOk s t" and "distinct (digestAddrs (fs_tasks s))"
    and "map_get (fs_timers s) tid = Some x \<Longrightarrow> tid < fs_nextTimer s \<and> ref_ok s (timerRef (fst x))"
  using assms unfolding snd_base_def by blast+

lemma snd_baseI:
  assumes "snd_profile_ok W (fs_profile s)" and "wf_map (fs_transfers s)"
    and "\<And>i a. map_get (fs_transfers s) i = Some a \<Longrightarrow> a < fs_next s \<and> tr_fileId (fs_objs s a) = i"
    and "\<And>a. a < fs_next s \<Longrightarrow> tr_wf (fs_objs s a)" and "\<And>a. a < fs_next s \<Longrightarrow> owned a s"
    and "\<And>t. t \<in> set (fs_tasks s) \<Longrightarrow> staskOk s t" and "distinct (digestAddrs (fs_tasks s))"
    and "\<And>tid x. map_get (fs_timers s) tid = Some x \<Longrightarrow> tid < fs_nextTimer s \<and> ref_ok s (timerRef (fst x))"
  shows "snd_base W s"
  using assms unfolding snd_base_def by blast

lemma attached_get: "snd_base W s \<Longrightarrow> map_get (fs_transfers s) i = Some a \<Longrightarrow> attached a s"
  using snd_baseD(3) [of W s i a] by (simp add: attached_def)

lemma digestAddrs_simps [simp]:
  "digestAddrs [] = []" "digestAddrs (ts @ us) = digestAddrs ts @ digestAddrs us"
  "digestAddrs [OfferDigest a q] = [a]" "digestAddrs [AfterOffer a] = []" "digestAddrs [ReadChunk a i n] = []"
  "digestAddrs [SentChunk a i n] = []" "digestAddrs [PumpEnd a] = []"
  by (simp_all add: digestAddrs_def)

lemma digestAddrs_iff: "a \<in> set (digestAddrs ts) \<longleftrightarrow> (\<exists>q. OfferDigest a q \<in> set ts)"
  by (auto simp: digestAddrs_def split: STask.splits)

section \<open>Steps on one object\<close>

text \<open>
  Every private method changes one object, drops and adds only timers and tasks about it, and leaves the
  rest alone. \<open>P\<close> says which timers may be dropped or added.
\<close>

definition same_env :: "FileSender \<Rightarrow> FileSender \<Rightarrow> bool" where
  "same_env s s' =
     (fs_profile s' = fs_profile s \<and> fs_transfers s' = fs_transfers s \<and>
      fs_globalPaused s' = fs_globalPaused s \<and> fs_next s' = fs_next s)"

definition timers_step :: "(nat \<times> int \<Rightarrow> bool) \<Rightarrow> FileSender \<Rightarrow> FileSender \<Rightarrow> bool" where
  "timers_step P s s' =
     (fs_nextTimer s \<le> fs_nextTimer s' \<and>
      (\<forall>tid x. map_get (fs_timers s') tid = Some x \<longrightarrow>
         map_get (fs_timers s) tid = Some x \<or>
         fs_nextTimer s \<le> tid \<and> tid < fs_nextTimer s' \<and> P (timerRef (fst x))) \<and>
      (\<forall>tid x. map_get (fs_timers s) tid = Some x \<longrightarrow> \<not> P (timerRef (fst x)) \<longrightarrow>
         map_get (fs_timers s') tid = Some x))"

lemma timers_stepD:
  assumes "timers_step P s s'"
  shows "fs_nextTimer s \<le> fs_nextTimer s'"
    and "map_get (fs_timers s') tid = Some x \<Longrightarrow> map_get (fs_timers s) tid = Some x \<or>
      fs_nextTimer s \<le> tid \<and> tid < fs_nextTimer s' \<and> P (timerRef (fst x))"
    and "map_get (fs_timers s) tid = Some x \<Longrightarrow> \<not> P (timerRef (fst x)) \<Longrightarrow> map_get (fs_timers s') tid = Some x"
  using assms unfolding timers_step_def by blast+

text \<open>The tasks that stay, and the new ones, which are about chunk \<open>r\<close>.\<close>

definition tasks_step :: "nat \<times> int \<Rightarrow> FileSender \<Rightarrow> FileSender \<Rightarrow> bool" where
  "tasks_step r s s' =
     (fs_tasks s' = fs_tasks s \<or> (\<exists>n. fs_tasks s' = fs_tasks s @ [ReadChunk (fst r) (snd r) n]) \<or>
      fs_tasks s' = fs_tasks s @ [PumpEnd (fst r)])"

text \<open>Fields of an object that never change.\<close>

definition same_file :: "Transfer \<Rightarrow> Transfer \<Rightarrow> bool" where
  "same_file t t' =
     (tr_file t' = tr_file t \<and> tr_fileId t' = tr_fileId t \<and> tr_size t' = tr_size t \<and>
      tr_chunkSize t' = tr_chunkSize t \<and> tr_totalChunks t' = tr_totalChunks t)"

definition obj_step :: "(nat \<times> int \<Rightarrow> bool) \<Rightarrow> nat \<times> int \<Rightarrow> FileSender \<Rightarrow> FileSender \<Rightarrow> bool" where
  "obj_step P r s s' =
     (same_env s s' \<and> timers_step P s s' \<and> tasks_step r s s' \<and>
      (\<forall>b. b \<noteq> fst r \<longrightarrow> fs_objs s' b = fs_objs s b) \<and>
      same_file (fs_objs s (fst r)) (fs_objs s' (fst r)) \<and>
      tr_nextIndex (fs_objs s (fst r)) \<le> tr_nextIndex (fs_objs s' (fst r)))"

lemma obj_step_attached: "obj_step P r s s' \<Longrightarrow> attached b s' = attached b s"
  by (cases "b = fst r") (auto simp: obj_step_def attached_def same_env_def same_file_def)

lemma tasks_step_digest: "tasks_step r s s' \<Longrightarrow> digestAddrs (fs_tasks s') = digestAddrs (fs_tasks s)"
  by (auto simp: tasks_step_def)

lemma obj_step_live: "obj_step P r s s' \<Longrightarrow> liveT b s' = liveT b s"
  using obj_step_attached [of P r s s'] tasks_step_digest [of r s s'] by (simp add: obj_step_def liveT_def)

lemma obj_step_ref: "obj_step P r s s' \<Longrightarrow> ref_ok s q \<Longrightarrow> ref_ok s' q"
  by (cases "fst q = fst r") (auto simp: obj_step_def ref_ok_def same_env_def)

text \<open>
  The base invariant after a step on \<open>a\<close>: only the changed object has to be looked at, and a
  digest never waits on an object whose counter moves.
\<close>

lemma snd_base_step:
  assumes base: "snd_base W s" and st: "obj_step P (a, i) s s'" and a: "a < fs_next s"
    and P: "\<And>r. P r \<Longrightarrow> fst r = a \<and> (r = (a, i) \<or> fs_nextTimer s' = fs_nextTimer s)"
    and ref: "fs_tasks s' \<noteq> fs_tasks s \<or> fs_nextTimer s' \<noteq> fs_nextTimer s \<Longrightarrow> ref_ok s' (a, i)"
    and wf: "tr_wf (fs_objs s' a)" and own: "owned a s'"
    and dg: "a \<in> set (digestAddrs (fs_tasks s)) \<Longrightarrow>
      tr_nextIndex (fs_objs s' a) = tr_nextIndex (fs_objs s a) \<and> tr_accepted (fs_objs s' a) = tr_accepted (fs_objs s a)"
  shows "snd_base W s'"
proof -
  have env: "same_env s s'" and tm: "timers_step P s s'" and tk: "tasks_step (a, i) s s'"
    and oth: "\<And>b. b \<noteq> a \<Longrightarrow> fs_objs s' b = fs_objs s b" and sf: "same_file (fs_objs s a) (fs_objs s' a)"
    using st by (simp_all add: obj_step_def)
  have own': "owned b s'" if b: "b < fs_next s" "b \<noteq> a" for b
  proof (unfold owned_def, intro allI impI)
    fix j c tid assume c: "map_get (tr_inflight (fs_objs s' b)) j = Some c" "ic_timer c = Some tid"
    have o: "tid < fs_nextTimer s" "\<And>x. map_get (fs_timers s) tid = Some x \<Longrightarrow> timerRef (fst x) = (b, j)"
      using snd_baseD(5) [OF base b(1)] c oth [OF b(2)] unfolding owned_def by metis+
    then show "tid < fs_nextTimer s' \<and> (\<forall>x. map_get (fs_timers s') tid = Some x \<longrightarrow> timerRef (fst x) = (b, j))"
      using timers_stepD(1,2) [OF tm] by (meson leD less_le_trans)
  qed
  have task: "staskOk s' t" if t: "t \<in> set (fs_tasks s')" for t
  proof (cases "t \<in> set (fs_tasks s)")
    case True
    then have ok: "staskOk s t" by (rule snd_baseD(6) [OF base])
    show ?thesis
    proof (cases t)
      case (OfferDigest b q)
      then have "b \<in> set (digestAddrs (fs_tasks s))" using True by (auto simp: digestAddrs_iff)
      then show ?thesis using ok OfferDigest dg oth env obj_step_attached [OF st]
        by (cases "b = a") (auto simp: same_env_def)
    qed (use ok env obj_step_ref [OF st] in \<open>auto simp: same_env_def\<close>)
  next
    case False
    then have "(\<exists>n. t = ReadChunk a i n) \<or> t = PumpEnd a" "fs_tasks s' \<noteq> fs_tasks s"
      using t tk by (auto simp: tasks_step_def)
    then show ?thesis using ref a env by (auto simp: same_env_def)
  qed
  have timer: "tid < fs_nextTimer s' \<and> ref_ok s' (timerRef (fst x))" if x: "map_get (fs_timers s') tid = Some x" for tid x
  proof (cases "map_get (fs_timers s) tid = Some x")
    case True
    then show ?thesis using snd_baseD(8) [OF base True] timers_stepD(1) [OF tm] obj_step_ref [OF st]
      by (meson less_le_trans)
  next
    case False
    then have "fs_nextTimer s \<le> tid" "tid < fs_nextTimer s'" "P (timerRef (fst x))"
      using timers_stepD(2) [OF tm x] by blast+
    then show ?thesis using P [of "timerRef (fst x)"] ref by auto
  qed
  have "fs_profile s' = fs_profile s" "fs_transfers s' = fs_transfers s" "fs_next s' = fs_next s"
    using env by (simp_all add: same_env_def)
  moreover have "b < fs_next s \<Longrightarrow> tr_wf (fs_objs s' b) \<and> owned b s'" for b
    using snd_baseD(4) [OF base, of b] wf own own' [of b] oth [of b] by (cases "b = a") auto
  moreover have "map_get (fs_transfers s) j = Some b \<Longrightarrow> b < fs_next s \<and> tr_fileId (fs_objs s' b) = j" for j b
    using snd_baseD(3) [OF base, of j b] oth [of b] sf by (cases "b = a") (auto simp: same_file_def)
  ultimately show ?thesis
    unfolding snd_base_def
    using snd_baseD(1,2,7) [OF base] tasks_step_digest [OF tk] task timer by simp
qed

text \<open>Entries of other objects, and other entries than \<open>r\<close>, stay driven.\<close>

lemma driven_step:
  assumes st: "obj_step P (a, i) s s'" and d: "driven b j c s" and nP: "\<not> P (b, j)"
    and held: "b = a \<Longrightarrow> isHeld a s \<Longrightarrow> isHeld a s'"
  shows "driven b j c s'"
proof -
  have tm: "timers_step P s s'" and tk: "set (fs_tasks s) \<subseteq> set (fs_tasks s')" and env: "same_env s s'"
    and oth: "b \<noteq> a \<Longrightarrow> fs_objs s' b = fs_objs s b"
    using st by (auto simp: obj_step_def tasks_step_def)
  have keep: "map_get (fs_timers s) tid = Some (cb, dl) \<Longrightarrow> timerRef cb = (b, j) \<Longrightarrow>
      map_get (fs_timers s') tid = Some (cb, dl)" for tid cb dl
    using timers_stepD(3) [OF tm, of tid "(cb, dl)"] nP by simp
  have "isHeld b s \<Longrightarrow> isHeld b s'"
    using oth held env by (cases "b = a") (auto simp: isHeld_def same_env_def)
  then show ?thesis
    using d keep tk unfolding driven_def by (fastforce split: ChunkState.splits option.splits)
qed

section \<open>Steps on one chunk\<close>

definition put_item :: "nat \<Rightarrow> int \<Rightarrow> InflightChunk \<Rightarrow> string option \<Rightarrow> FileSender \<Rightarrow> Transfer" where
  "put_item a i c r s =
     (fs_objs s a)\<lparr>tr_inflight := map_set i c (tr_inflight (fs_objs s a)), tr_reason := r\<rparr>"

text \<open>The three ways a method on chunk \<open>i\<close> of \<open>a\<close> ends: nothing to do, a new entry, failure of the transfer.\<close>

definition item_step :: "nat \<Rightarrow> int \<Rightarrow> FileSender \<Rightarrow> FileSender \<Rightarrow> bool" where
  "item_step a i s s' =
     (obj_step (\<lambda>r. r = (a, i)) (a, i) s s' \<and>
      (\<exists>c r. fs_objs s' a = put_item a i c r s \<and> driven a i c s' \<and>
        (\<forall>tid. ic_timer c = Some tid \<longrightarrow> tid = fs_nextTimer s \<and> fs_nextTimer s < fs_nextTimer s')))"

definition fail_step :: "nat \<Rightarrow> int \<Rightarrow> FileSender \<Rightarrow> FileSender \<Rightarrow> bool" where
  "fail_step a i s s' =
     (obj_step (\<lambda>r. fst r = a) (a, i) s s' \<and> fs_tasks s' = fs_tasks s \<and> fs_nextTimer s' = fs_nextTimer s \<and>
      (\<exists>st r. (st = SnFailed \<or> st = SnCancelled) \<and> fs_objs s' a =
         (fs_objs s a)\<lparr>tr_status := st, tr_reason := r, tr_cancelled := True, tr_inflight := []\<rparr>))"

definition chunk_step :: "nat \<Rightarrow> int \<Rightarrow> FileSender \<Rightarrow> FileSender \<Rightarrow> bool" where
  "chunk_step a i s s' =
     ((tr_cancelled (fs_objs s a) \<or> i \<in> tr_acked (fs_objs s a)) \<and> s' = s \<or>
      \<not> tr_cancelled (fs_objs s a) \<and> i \<notin> tr_acked (fs_objs s a) \<and> (item_step a i s s' \<or> fail_step a i s s'))"

lemma owned_put:
  assumes base: "snd_base W s" and a: "a < fs_next s" and tm: "timers_step (\<lambda>r. r = (a, i)) s s'"
    and obj: "fs_objs s' a = put_item a i c r s"
    and tid: "\<And>tid. ic_timer c = Some tid \<Longrightarrow> tid = fs_nextTimer s \<and> fs_nextTimer s < fs_nextTimer s'"
  shows "owned a s'"
proof (unfold owned_def, intro allI impI)
  fix j d t assume d: "map_get (tr_inflight (fs_objs s' a)) j = Some d" "ic_timer d = Some t"
  have new: "map_get (fs_timers s) t = None" if "j = i"
  proof (rule ccontr)
    assume "map_get (fs_timers s) t \<noteq> None"
    then obtain x where "map_get (fs_timers s) t = Some x" by blast
    moreover have "t = fs_nextTimer s"
      using that d tid obj by (simp add: put_item_def js_simps)
    ultimately show False using snd_baseD(8) [OF base] by blast
  qed
  show "t < fs_nextTimer s' \<and> (\<forall>x. map_get (fs_timers s') t = Some x \<longrightarrow> timerRef (fst x) = (a, j))"
  proof (cases "j = i")
    case True
    then have "t < fs_nextTimer s'" using d tid obj by (auto simp: put_item_def js_simps)
    then show ?thesis using True new timers_stepD(2) [OF tm] by fastforce
  next
    case False
    then have "map_get (tr_inflight (fs_objs s a)) j = Some d" using d obj by (simp add: put_item_def js_simps)
    then have "t < fs_nextTimer s" "\<And>x. map_get (fs_timers s) t = Some x \<Longrightarrow> timerRef (fst x) = (a, j)"
      using snd_baseD(5) [OF base a] d unfolding owned_def by metis+
    then show ?thesis using timers_stepD(1,2) [OF tm] by (meson leD less_le_trans)
  qed
qed

lemma tr_wf_put:
  assumes "tr_wf t" and "0 \<le> i" and "i < tr_nextIndex t" and "i \<notin> tr_acked t"
  shows "tr_wf (t\<lparr>tr_inflight := map_set i c (tr_inflight t), tr_reason := r\<rparr>)"
  using assms by (auto simp: tr_wf_def wf_map_set)

lemma snd_inv_item:
  assumes inv: "snd_inv D W (insert (a, i) X) s" and st: "item_step a i s s'"
    and ref: "ref_ok s (a, i)" and open_i: "i \<notin> tr_acked (fs_objs s a)" "\<not> tr_cancelled (fs_objs s a)"
  shows "snd_inv D W (X - {(a, i)}) s'"
proof -
  have base: "snd_base W s" and live: "snd_live D W (insert (a, i) X) s" using inv by (simp_all add: snd_inv_def)
  obtain c r where os: "obj_step (\<lambda>r. r = (a, i)) (a, i) s s'" and obj: "fs_objs s' a = put_item a i c r s"
    and dr: "driven a i c s'"
    and tid: "\<And>tid. ic_timer c = Some tid \<Longrightarrow> tid = fs_nextTimer s \<and> fs_nextTimer s < fs_nextTimer s'"
    using st unfolding item_step_def by blast
  have tm: "timers_step (\<lambda>r. r = (a, i)) s s'" and env: "same_env s s'"
    and oth: "\<And>b. b \<noteq> a \<Longrightarrow> fs_objs s' b = fs_objs s b" using os by (simp_all add: obj_step_def)
  have a: "a < fs_next s" and i: "0 \<le> i" "i < tr_nextIndex (fs_objs s a)" using ref by (simp_all add: ref_ok_def)
  have held: "isHeld a s \<Longrightarrow> isHeld a s'"
    using env by (simp add: isHeld_def same_env_def obj put_item_def)
  have "tr_wf (fs_objs s' a)"
    unfolding obj put_item_def by (rule tr_wf_put [OF snd_baseD(4) [OF base a] i open_i(1)])
  then have base': "snd_base W s'"
    using obj by (intro snd_base_step [OF base os a] owned_put [OF base a tm obj tid])
      (auto intro: obj_step_ref [OF os ref] simp: put_item_def)
  have tl: "tr_live W {j. (a, j) \<in> X - {(a, i)}} (fs_objs s' a)" if "liveT a s"
    using snd_liveD(1) [OF live a that] open_i unfolding obj put_item_def tr_live_def outstanding_def by auto
  have "snd_live D W (X - {(a, i)}) s'"
  proof (rule snd_liveI)
    fix b assume b: "b < fs_next s'" "liveT b s'"
    then have "b < fs_next s" "liveT b s" using env obj_step_live [OF os] by (simp_all add: same_env_def)
    then show "tr_live W {j. (b, j) \<in> X - {(a, i)}} (fs_objs s' b)"
      using tl snd_liveD(1) [OF live, of b] oth [of b]
      by (cases "b = a") (auto elim: tr_live_mono [rotated])
  next
    fix b j d assume b: "b < fs_next s'" "liveT b s'" and D and x: "(b, j) \<notin> X - {(a, i)}"
      and d: "map_get (tr_inflight (fs_objs s' b)) j = Some d"
    show "driven b j d s'"
    proof (cases "(b, j) = (a, i)")
      case True
      with d obj dr show ?thesis by (simp add: put_item_def js_simps)
    next
      case False
      then have "map_get (tr_inflight (fs_objs s b)) j = Some d"
        using d obj oth [of b] by (cases "b = a") (auto simp: put_item_def js_simps)
      then have "driven b j d s"
        using b False x \<open>D\<close> env obj_step_live [OF os] by (intro snd_liveD(2) [OF live]) (auto simp: same_env_def)
      then show ?thesis using False held by (intro driven_step [OF os]) auto
    qed
  qed
  with base' show ?thesis by (simp add: snd_inv_def)
qed

lemma snd_inv_fail:
  assumes inv: "snd_inv D W X s" and st: "fail_step a i s s'" and a: "a < fs_next s"
  shows "snd_inv D W (X - {a} \<times> UNIV) s'"
proof -
  have base: "snd_base W s" and live: "snd_live D W X s" using inv by (simp_all add: snd_inv_def)
  obtain st r where os: "obj_step (\<lambda>r. fst r = a) (a, i) s s'" and st_: "st = SnFailed \<or> st = SnCancelled" and tk: "fs_tasks s' = fs_tasks s"
    and nt: "fs_nextTimer s' = fs_nextTimer s"
    and obj: "fs_objs s' a = (fs_objs s a)\<lparr>tr_status := st, tr_reason := r, tr_cancelled := True, tr_inflight := []\<rparr>"
    using st unfolding fail_step_def by blast
  have env: "same_env s s'" and oth: "\<And>b. b \<noteq> a \<Longrightarrow> fs_objs s' b = fs_objs s b"
    using os by (simp_all add: obj_step_def)
  have wf: "tr_wf (fs_objs s' a)" using snd_baseD(4) [OF base a] obj by (auto simp: tr_wf_def)
  have base': "snd_base W s'"
    using wf by (intro snd_base_step [OF base os a]) (simp_all add: tk nt owned_def obj)
  have "snd_live D W (X - {a} \<times> UNIV) s'"
  proof (rule snd_liveI)
    fix b assume b: "b < fs_next s'" "liveT b s'"
    then have "b < fs_next s" "liveT b s" using env obj_step_live [OF os] by (simp_all add: same_env_def)
    then show "tr_live W {j. (b, j) \<in> X - {a} \<times> UNIV} (fs_objs s' b)"
      using snd_liveD(1) [OF live, of b] oth [of b] obj st_ by (cases "b = a") (auto simp: tr_live_def)
  next
    fix b j d assume b: "b < fs_next s'" "liveT b s'" and D and x: "(b, j) \<notin> X - {a} \<times> UNIV"
      and d: "map_get (tr_inflight (fs_objs s' b)) j = Some d"
    have ne: "b \<noteq> a" using d obj by auto
    then have "driven b j d s"
      using b d x \<open>D\<close> env obj_step_live [OF os] oth [OF ne]
      by (intro snd_liveD(2) [OF live]) (auto simp: same_env_def)
    then show "driven b j d s'" using ne by (intro driven_step [OF os]) auto
  qed
  with base' show ?thesis by (simp add: snd_inv_def)
qed

lemma snd_inv_chunk:
  assumes inv: "snd_inv D W (insert (a, i) X) s" and st: "chunk_step a i s s'" and ref: "ref_ok s (a, i)"
  shows "snd_inv D W (X - {(a, i)}) s'"
proof (cases "tr_cancelled (fs_objs s a) \<or> i \<in> tr_acked (fs_objs s a)")
  case True
  then have s': "s' = s" using st by (auto simp: chunk_step_def)
  have base: "snd_base W s" and live: "snd_live D W (insert (a, i) X) s" using inv by (simp_all add: snd_inv_def)
  have a: "a < fs_next s" using ref by (simp add: ref_ok_def)
  have no: "i \<notin> keyset (tr_inflight (fs_objs s a))" if "liveT a s"
    using True snd_liveD(1) [OF live a that] snd_baseD(4) [OF base a]
    by (auto simp: tr_live_def tr_wf_def)
  have "snd_live D W (X - {(a, i)}) s"
  proof (rule snd_liveI)
    fix b assume b: "b < fs_next s" "liveT b s"
    have "tr_live W {j. (b, j) \<in> insert (a, i) X} (fs_objs s b)" by (rule snd_liveD(1) [OF live b])
    then show "tr_live W {j. (b, j) \<in> X - {(a, i)}} (fs_objs s b)"
      using True by (cases "b = a") (auto simp: tr_live_def outstanding_def split: if_splits)
  next
    fix b j d assume b: "b < fs_next s" "liveT b s" and D and x: "(b, j) \<notin> X - {(a, i)}"
      and d: "map_get (tr_inflight (fs_objs s b)) j = Some d"
    then have "(b, j) \<noteq> (a, i)" using no map_get_keyset [OF d] by auto
    then show "driven b j d s" using x b d \<open>D\<close> by (intro snd_liveD(2) [OF live]) auto
  qed
  then show ?thesis using base s' by (simp add: snd_inv_def)
next
  case False
  show ?thesis
  proof (cases "item_step a i s s'")
    case True
    then show ?thesis using snd_inv_item [OF inv True ref] False by simp
  next
    case n: False
    then have "fail_step a i s s'" using st False by (auto simp: chunk_step_def)
    then have "snd_inv D W (insert (a, i) X - {a} \<times> UNIV) s'"
      by (rule snd_inv_fail [OF inv]) (use ref in \<open>simp add: ref_ok_def\<close>)
    moreover have "insert (a, i) X - {a} \<times> UNIV \<subseteq> X - {(a, i)}" by auto
    ultimately show ?thesis using snd_live_mono by (auto simp: snd_inv_def)
  qed
qed

lemma timers_clear:
  assumes base: "snd_base W s" and a: "a < fs_next s"
    and item: "\<And>c. item = Some c \<Longrightarrow> map_get (tr_inflight (fs_objs s a)) i = Some c"
  shows "timers_step (\<lambda>r. r = (a, i)) s (clearInflightTimer item s)"
proof (cases "\<exists>c tid. item = Some c \<and> ic_timer c = Some tid")
  case False
  then show ?thesis by (auto simp: clearInflightTimer_def timers_step_def split: option.splits)
next
  case True
  then obtain c tid where c: "item = Some c" "ic_timer c = Some tid" by blast
  have "x = (cb, d) \<Longrightarrow> map_get (fs_timers s) tid = Some x \<Longrightarrow> timerRef cb = (a, i)" for x cb d
    using snd_baseD(5) [OF base a] item [OF c(1)] c(2) unfolding owned_def by fastforce
  then show ?thesis using c
    by (auto simp: clearInflightTimer_def timers_step_def js_simps)
qed

lemma timers_set:
  assumes base: "snd_base W s" and cb: "timerRef cb = (a, i)"
  shows "timers_step (\<lambda>r. r = (a, i)) s (fst (setTimeout cb d s))"
    and "map_get (fs_timers (fst (setTimeout cb d s))) (fs_nextTimer s) = Some (cb, d)"
proof -
  have "map_get (fs_timers s) (fs_nextTimer s) = None"
  proof (rule ccontr)
    assume "map_get (fs_timers s) (fs_nextTimer s) \<noteq> None"
    then obtain x where "map_get (fs_timers s) (fs_nextTimer s) = Some x" by blast
    then show False using snd_baseD(8) [OF base] by blast
  qed
  then show "timers_step (\<lambda>r. r = (a, i)) s (fst (setTimeout cb d s))"
    and "map_get (fs_timers (fst (setTimeout cb d s))) (fs_nextTimer s) = Some (cb, d)"
    using cb by (auto simp: timers_step_def setTimeout_def map_add_Some_iff)
qed

lemma timers_step_trans:
  assumes "timers_step P s s1" and "timers_step P s1 s2"
  shows "timers_step P s s2"
  unfolding timers_step_def
  using timers_stepD [OF assms(1)] timers_stepD [OF assms(2)] by (meson le_trans less_le_trans)

lemma timers_step_cong:
  assumes "timers_step P s s1" and "fs_timers s2 = fs_timers s1" and "fs_nextTimer s2 = fs_nextTimer s1"
  shows "timers_step P s s2"
  using assms unfolding timers_step_def by simp

lemma timers_step_same: "fs_timers s' = fs_timers s \<Longrightarrow> fs_nextTimer s' = fs_nextTimer s \<Longrightarrow> timers_step P s s'"
  by (simp add: timers_step_def)

lemma setTimeout_sel [simp]:
  "fs_profile (fst (setTimeout cb d s)) = fs_profile s" "fs_transfers (fst (setTimeout cb d s)) = fs_transfers s"
  "fs_globalPaused (fst (setTimeout cb d s)) = fs_globalPaused s" "fs_next (fst (setTimeout cb d s)) = fs_next s"
  "fs_nextTimer (fst (setTimeout cb d s)) = fs_nextTimer s + 1"
  "fs_tasks (fst (setTimeout cb d s)) = fs_tasks s" "fs_objs (fst (setTimeout cb d s)) = fs_objs s"
  "snd (setTimeout cb d s) = fs_nextTimer s"
  by (simp_all add: setTimeout_def)

lemma setInflight_sel [simp]:
  "fs_profile (setInflight a i n st tm s) = fs_profile s" "fs_transfers (setInflight a i n st tm s) = fs_transfers s"
  "fs_globalPaused (setInflight a i n st tm s) = fs_globalPaused s" "fs_next (setInflight a i n st tm s) = fs_next s"
  "fs_timers (setInflight a i n st tm s) = fs_timers s" "fs_nextTimer (setInflight a i n st tm s) = fs_nextTimer s"
  "fs_tasks (setInflight a i n st tm s) = fs_tasks s"
  "fs_objs (setInflight a i n st tm s) = (fs_objs s)(a := (fs_objs s a)\<lparr>tr_inflight := map_set i
     \<lparr>ic_attempts = n, ic_state = st, ic_timer = tm\<rparr> (tr_inflight (fs_objs s a))\<rparr>)"
  by (simp_all add: setInflight_def)

lemma setReason_sel [simp]:
  "fs_profile (setReason a r s) = fs_profile s" "fs_transfers (setReason a r s) = fs_transfers s"
  "fs_globalPaused (setReason a r s) = fs_globalPaused s" "fs_next (setReason a r s) = fs_next s"
  "fs_timers (setReason a r s) = fs_timers s" "fs_nextTimer (setReason a r s) = fs_nextTimer s"
  "fs_tasks (setReason a r s) = fs_tasks s"
  "fs_objs (setReason a r s) = (fs_objs s)(a := (fs_objs s a)\<lparr>tr_reason := r\<rparr>)"
  by (simp_all add: setReason_def)

text \<open>The clearing of all timers of \<open>a\<close>.\<close>

lemma timers_clear_all:
  assumes "\<And>i c tid x. (i, c) \<in> set m \<Longrightarrow> ic_timer c = Some tid \<Longrightarrow> map_get (fs_timers s) tid = Some x \<Longrightarrow>
      fst (timerRef (fst x)) = a"
  shows "timers_step (\<lambda>r. fst r = a) s (fold (\<lambda>(i, c). clearInflightTimer (Some c)) m s)"
  using assms
proof (induction m arbitrary: s)
  case Nil
  then show ?case by (simp add: timers_step_same)
next
  case (Cons p m)
  obtain i c where p: "p = (i, c)" by (cases p)
  have one: "timers_step (\<lambda>r. fst r = a) s (clearInflightTimer (Some c) s)"
    using Cons.prems [of i c] p by (fastforce simp: clearInflightTimer_def timers_step_def js_simps split: option.splits)
  have "timers_step (\<lambda>r. fst r = a) (clearInflightTimer (Some c) s)
      (fold (\<lambda>(i, c). clearInflightTimer (Some c)) m (clearInflightTimer (Some c) s))"
  proof (rule Cons.IH)
    fix j d tid x assume "(j, d) \<in> set m" "ic_timer d = Some tid"
      "map_get (fs_timers (clearInflightTimer (Some c) s)) tid = Some x"
    moreover from this have "map_get (fs_timers s) tid = Some x"
      by (auto simp: clearInflightTimer_def js_simps split: option.splits if_splits)
    ultimately show "fst (timerRef (fst x)) = a" using Cons.prems [of j d tid x] by simp
  qed
  then show ?case using one p by (auto intro: timers_step_trans)
qed

lemma clearTimers_sel [simp]:
  "fs_profile (clearTimers a s) = fs_profile s" "fs_transfers (clearTimers a s) = fs_transfers s"
  "fs_globalPaused (clearTimers a s) = fs_globalPaused s" "fs_next (clearTimers a s) = fs_next s"
  "fs_nextTimer (clearTimers a s) = fs_nextTimer s" "fs_tasks (clearTimers a s) = fs_tasks s"
  "fs_objs (clearTimers a s) = (fs_objs s)(a := (fs_objs s a)\<lparr>tr_inflight := []\<rparr>)"
  by (simp_all add: clearTimers_def)

lemma owned_fst:
  assumes "owned a s" and "wf_map (tr_inflight (fs_objs s a))" and "(i, c) \<in> set (tr_inflight (fs_objs s a))"
    and "ic_timer c = Some tid" and "map_get (fs_timers s) tid = Some x"
  shows "fst (timerRef (fst x)) = a"
proof -
  have "map_get (tr_inflight (fs_objs s a)) i = Some c"
    using assms(2,3) by (simp add: wf_map_def)
  then show ?thesis using assms(1,4,5) unfolding owned_def by fastforce
qed

lemma clearTimers_step:
  assumes "owned a s" and "wf_map (tr_inflight (fs_objs s a))"
  shows "timers_step (\<lambda>r. fst r = a) s (clearTimers a s)"
proof -
  have "timers_step (\<lambda>r. fst r = a) s
      (fold (\<lambda>(i, c). clearInflightTimer (Some c)) (tr_inflight (fs_objs s a)) s)"
    by (rule timers_clear_all) (rule owned_fst [OF assms])
  then show ?thesis by (rule timers_step_cong) (simp_all add: clearTimers_def)
qed

lemma timers_step_weaken: "timers_step P s s' \<Longrightarrow> (\<And>r. P r \<Longrightarrow> Q r) \<Longrightarrow> timers_step Q s s'"
  unfolding timers_step_def by blast

lemma owned_clear:
  assumes "owned a s"
  shows "owned a (clearInflightTimer item s)"
  using assms unfolding owned_def
  by (auto simp: clearInflightTimer_def js_simps split: option.splits)

lemma fail_step_close:
  assumes base: "snd_base W s" and a: "a < fs_next s" and st: "st = SnFailed \<or> st = SnCancelled"
    and item: "\<And>c. item = Some c \<Longrightarrow> map_get (tr_inflight (fs_objs s a)) i = Some c"
  shows "fail_step a i s (clearTimers a (updT a (\<lambda>t. t\<lparr>tr_status := st, tr_reason := Some reason, tr_cancelled := True\<rparr>)
    (clearInflightTimer item s)))"
proof -
  let ?s1 = "clearInflightTimer item s"
  let ?s2 = "updT a (\<lambda>t. t\<lparr>tr_status := st, tr_reason := Some reason, tr_cancelled := True\<rparr>) ?s1"
  have "owned a ?s1" by (rule owned_clear [OF snd_baseD(5) [OF base a]])
  then have own: "owned a ?s2" by (simp add: owned_def)
  have "wf_map (tr_inflight (fs_objs ?s2 a))" using snd_baseD(4) [OF base a] by (simp add: tr_wf_def)
  then have "timers_step (\<lambda>r. fst r = a) ?s2 (clearTimers a ?s2)" by (rule clearTimers_step [OF own])
  moreover have "timers_step (\<lambda>r. fst r = a) s ?s2"
    by (rule timers_step_weaken [OF timers_step_cong [OF timers_clear [OF base a item]]]) simp_all
  ultimately have "timers_step (\<lambda>r. fst r = a) s (clearTimers a ?s2)" by (rule timers_step_trans [rotated])
  then show ?thesis
    using st by (auto simp: fail_step_def obj_step_def same_env_def tasks_step_def same_file_def)
qed

lemma fail_step_fail:
  assumes "snd_base W s" and "a < fs_next s"
    and "\<And>c. item = Some c \<Longrightarrow> map_get (tr_inflight (fs_objs s a)) i = Some c"
  shows "fail_step a i s (fst (snd_fail a reason (clearInflightTimer item s)))"
  using fail_step_close [OF assms(1,2) _ assms(3), of SnFailed] by (simp add: snd_fail_def Let_def)

lemma fst_failAndNotify: "fst (failAndNotify a reason s) = fst (snd_fail a reason s)"
  by (simp add: failAndNotify_def split: prod.splits)

lemma obj_stepI:
  assumes "same_env s s'" and "timers_step P s s'" and "tasks_step (a, i) s s'"
    and "fs_objs s' = (fs_objs s)(a := fs_objs s' a)" and "same_file (fs_objs s a) (fs_objs s' a)"
    and "tr_nextIndex (fs_objs s a) \<le> tr_nextIndex (fs_objs s' a)"
  shows "obj_step P (a, i) s s'"
proof -
  have "fs_objs s' b = fs_objs s b" if "b \<noteq> a" for b using that by (subst assms(4)) simp
  then show ?thesis using assms(1,2,3,5,6) by (simp add: obj_step_def)
qed

lemma item_stepI:
  assumes "obj_step (\<lambda>r. r = (a, i)) (a, i) s s'" and "driven a i c s'"
    and "fs_objs s' a = put_item a i c (tr_reason (fs_objs s' a)) s"
    and "\<And>tid. ic_timer c = Some tid \<Longrightarrow> tid = fs_nextTimer s \<and> fs_nextTimer s < fs_nextTimer s'"
  shows "item_step a i s s'"
  using assms unfolding item_step_def by blast

lemma sendChunk_step:
  assumes base: "snd_base W s" and a: "a < fs_next s"
  shows "chunk_step a i s (fst (sendChunk a i n s))"
proof (cases "tr_cancelled (fs_objs s a) \<or> i \<in> tr_acked (fs_objs s a)")
  case True
  then show ?thesis by (auto simp: chunk_step_def sendChunk_def)
next
  case open_i: False
  consider (held) "isHeld a s" | (fail) "\<not> isHeld a s" "tooMany n s" | (send) "\<not> isHeld a s" "\<not> tooMany n s"
    by blast
  then show ?thesis
  proof cases
    case held
    let ?s = "setInflight a i n CsRetryWait None s"
    have "obj_step (\<lambda>r. r = (a, i)) (a, i) s ?s"
      by (rule obj_stepI)
        (auto simp: same_env_def same_file_def tasks_step_def intro: timers_step_same)
    moreover have "driven a i \<lparr>ic_attempts = n, ic_state = CsRetryWait, ic_timer = None\<rparr> ?s"
      using held by (simp add: driven_def isHeld_def)
    ultimately have "item_step a i s ?s"
      by (rule item_stepI) (simp_all add: put_item_def)
    then show ?thesis using open_i held by (simp add: chunk_step_def sendChunk_def)
  next
    case fail
    then have "fst (sendChunk a i n s) = fst (snd_fail a (retryLimit i) (clearInflightTimer None s))"
      using open_i by (simp add: sendChunk_def fst_failAndNotify clearInflightTimer_def)
    then show ?thesis using open_i fail_step_fail [OF base a, of None i] by (simp add: chunk_step_def)
  next
    case send
    let ?s1 = "clearInflightTimer (map_get (tr_inflight (fs_objs s a)) i) s"
    let ?s = "fst (sendChunk a i n s)"
    have s: "?s = await (ReadChunk a i n) (setReason a (if n > 1 then Some (''Retrying chunk '' @ showChunk i) else None)
        (setInflight a i n CsSending None ?s1))"
      using open_i send by (simp add: sendChunk_def Let_def)
    have "obj_step (\<lambda>r. r = (a, i)) (a, i) s ?s"
      unfolding s
      by (rule obj_stepI)
        (auto simp: same_env_def same_file_def tasks_step_def intro: timers_step_cong [OF timers_clear [OF base a]])
    moreover have "driven a i \<lparr>ic_attempts = n, ic_state = CsSending, ic_timer = None\<rparr> ?s"
      unfolding s by (auto simp: driven_def)
    ultimately have "item_step a i s ?s"
      by (rule item_stepI) (simp_all add: s put_item_def)
    then show ?thesis using open_i by (simp add: chunk_step_def)
  qed
qed

lemma scheduleRetry_step:
  assumes base: "snd_base W s" and a: "a < fs_next s"
  shows "chunk_step a i s (fst (scheduleRetry a i n reason s))"
proof (cases "tr_cancelled (fs_objs s a) \<or> i \<in> tr_acked (fs_objs s a)")
  case True
  then show ?thesis by (auto simp: chunk_step_def scheduleRetry_def)
next
  case open_i: False
  let ?s1 = "clearInflightTimer (map_get (tr_inflight (fs_objs s a)) i) s"
  let ?s2 = "setReason a (Some reason) ?s1"
  let ?s = "fst (scheduleRetry a i n reason s)"
  have clear: "timers_step (\<lambda>r. r = (a, i)) s ?s2"
    by (rule timers_step_cong [OF timers_clear [OF base a]]) simp_all
  have hd: "isHeld a ?s2 = isHeld a s" by (simp add: isHeld_def)
  consider (fail) "tooMany n ?s1" | (held) "\<not> tooMany n ?s1" "isHeld a s" | (wait) "\<not> tooMany n ?s1" "\<not> isHeld a s"
    by blast
  then show ?thesis
  proof cases
    case fail
    then show ?thesis using open_i fail_step_fail [OF base a, of "map_get (tr_inflight (fs_objs s a)) i" i]
      by (simp add: chunk_step_def scheduleRetry_def fst_failAndNotify Let_def)
  next
    case held
    then have s: "?s = setInflight a i (n - 1) CsRetryWait None ?s2"
      using open_i hd by (simp add: scheduleRetry_def Let_def)
    have "obj_step (\<lambda>r. r = (a, i)) (a, i) s ?s"
      unfolding s
      by (rule obj_stepI)
        (auto simp: same_env_def same_file_def tasks_step_def intro: timers_step_cong [OF clear])
    moreover have "driven a i \<lparr>ic_attempts = n - 1, ic_state = CsRetryWait, ic_timer = None\<rparr> ?s"
      unfolding s using held by (simp add: driven_def isHeld_def)
    ultimately have "item_step a i s ?s"
      by (rule item_stepI) (simp_all add: s put_item_def)
    then show ?thesis using open_i by (simp add: chunk_step_def)
  next
    case wait
    let ?cb = "RetrySend a i n" and ?d = "retryDelay n"
    have s: "?s = setInflight a i (n - 1) CsRetryWait (Some (fs_nextTimer ?s2)) (fst (setTimeout ?cb ?d ?s2))"
      using open_i hd wait by (simp add: scheduleRetry_def Let_def setTimeout_def)
    have base2: "\<And>tid x. map_get (fs_timers ?s2) tid = Some x \<Longrightarrow> tid < fs_nextTimer ?s2"
      using timers_stepD(2) [OF clear] snd_baseD(8) [OF base] by fastforce
    have new: "map_get (fs_timers (fst (setTimeout ?cb ?d ?s2))) (fs_nextTimer ?s2) = Some (?cb, ?d)"
      using base2 [of "fs_nextTimer ?s2"]
      by (cases "map_get (fs_timers ?s2) (fs_nextTimer ?s2)") (auto simp: setTimeout_def map_add_Some_iff)
    have "timers_step (\<lambda>r. r = (a, i)) ?s2 (fst (setTimeout ?cb ?d ?s2))"
      using base2 by (fastforce simp: timers_step_def setTimeout_def map_add_Some_iff map_of_eq_None_iff)
    then have tm: "timers_step (\<lambda>r. r = (a, i)) s (fst (setTimeout ?cb ?d ?s2))" by (rule timers_step_trans [OF clear])
    have "obj_step (\<lambda>r. r = (a, i)) (a, i) s ?s"
      unfolding s
      by (rule obj_stepI) (auto simp: same_env_def same_file_def tasks_step_def intro: timers_step_cong [OF tm])
    moreover have "driven a i \<lparr>ic_attempts = n - 1, ic_state = CsRetryWait, ic_timer = Some (fs_nextTimer ?s2)\<rparr> ?s"
      unfolding s using new by (simp add: driven_def)
    ultimately have "item_step a i s ?s"
      by (rule item_stepI) (simp_all add: s put_item_def)
    then show ?thesis using open_i by (simp add: chunk_step_def)
  qed
qed

lemma afterSend_step:
  assumes base: "snd_base W s" and a: "a < fs_next s"
  shows "chunk_step a i s (fst (afterSend a i n r s))"
proof (cases "r = Succeeded \<and> \<not> (tr_cancelled (fs_objs s a) \<or> i \<in> tr_acked (fs_objs s a))")
  case False
  then show ?thesis using scheduleRetry_step [OF base a]
    by (auto simp: afterSend_def chunk_step_def split: Outcome.splits)
next
  case True
  let ?cb = "AckTimeout a i (n + 1)" and ?d = "ackTimeoutMs (files (fs_profile s))"
  let ?s = "fst (afterSend a i n r s)"
  have s: "?s = setReason a None (setInflight a i n CsWaitingAck (Some (fs_nextTimer s)) (fst (setTimeout ?cb ?d s)))"
    using True by (simp add: afterSend_def Let_def setTimeout_def)
  have tm: "timers_step (\<lambda>r. r = (a, i)) s (fst (setTimeout ?cb ?d s))"
    and new: "map_get (fs_timers (fst (setTimeout ?cb ?d s))) (fs_nextTimer s) = Some (?cb, ?d)"
    using timers_set [OF base] by simp_all
  have "obj_step (\<lambda>r. r = (a, i)) (a, i) s ?s"
    unfolding s
    by (rule obj_stepI) (auto simp: same_env_def same_file_def tasks_step_def intro: timers_step_cong [OF tm])
  moreover have "driven a i \<lparr>ic_attempts = n, ic_state = CsWaitingAck, ic_timer = Some (fs_nextTimer s)\<rparr> ?s"
    unfolding s using new by (simp add: driven_def)
  ultimately have "item_step a i s ?s"
    by (rule item_stepI) (simp_all add: s put_item_def)
  then show ?thesis using True by (simp add: chunk_step_def)
qed

text \<open>The flags of an object play no part in these.\<close>

lemma outstanding_flags [simp]:
  "outstanding (t\<lparr>tr_pumping := b\<rparr>) = outstanding t" "outstanding (t\<lparr>tr_status := st\<rparr>) = outstanding t"
  "outstanding (t\<lparr>tr_reason := r\<rparr>) = outstanding t" "outstanding (t\<lparr>tr_paused := b\<rparr>) = outstanding t"
  "outstanding (t\<lparr>tr_accepted := b\<rparr>) = outstanding t" "outstanding (t\<lparr>tr_sha256 := h\<rparr>) = outstanding t"
  "outstanding (t\<lparr>tr_cancelled := b\<rparr>) = outstanding t" "outstanding (t\<lparr>tr_inflight := m\<rparr>) = outstanding t"
 
  by (simp_all add: outstanding_def)

lemma tr_wf_flags [simp]:
  "tr_wf (t\<lparr>tr_pumping := b\<rparr>) = tr_wf t" "tr_wf (t\<lparr>tr_status := st\<rparr>) = tr_wf t"
  "tr_wf (t\<lparr>tr_reason := r\<rparr>) = tr_wf t" "tr_wf (t\<lparr>tr_paused := b\<rparr>) = tr_wf t"
  "tr_wf (t\<lparr>tr_accepted := b\<rparr>) = tr_wf t" "tr_wf (t\<lparr>tr_sha256 := h\<rparr>) = tr_wf t"
  "tr_wf (t\<lparr>tr_cancelled := b\<rparr>) = tr_wf t"
  by (simp_all add: tr_wf_def)

lemma tr_live_flags [simp]:
  "tr_live W X (t\<lparr>tr_pumping := b\<rparr>) = tr_live W X t" "tr_live W X (t\<lparr>tr_reason := r\<rparr>) = tr_live W X t"
  "tr_live W X (t\<lparr>tr_paused := b\<rparr>) = tr_live W X t" "tr_live W X (t\<lparr>tr_sha256 := h\<rparr>) = tr_live W X t"
  by (simp_all add: tr_live_def)

text \<open>A change of status that keeps a transfer open, or completes it.\<close>

lemma tr_live_status:
  assumes "tr_live W X t" and "\<not> tr_cancelled t"
    and "st \<in> {SnSending, SnPaused} \<or> outstanding t = {} \<and> st \<notin> {SnCancelled, SnFailed}"
    and "st = SnCompleted \<Longrightarrow> tr_acked t = {0..<tr_totalChunks t}"
  shows "tr_live W X (t\<lparr>tr_status := st\<rparr>)"
  using assms unfolding tr_live_def by auto

lemma tr_live_accept: "tr_live W X t \<Longrightarrow> tr_live W X (t\<lparr>tr_accepted := True\<rparr>)"
  unfolding tr_live_def by auto

lemma tr_liveD:
  assumes "tr_live W X t"
  shows "tr_cancelled t \<Longrightarrow> tr_inflight t = [] \<and> (tr_status t = SnCancelled \<or> tr_status t = SnFailed)"
    and "\<not> tr_cancelled t \<Longrightarrow> tr_status t \<noteq> SnCancelled \<and> tr_status t \<noteq> SnFailed"
    and "\<not> tr_cancelled t \<Longrightarrow> card (outstanding t) \<le> W"
    and "\<not> tr_cancelled t \<Longrightarrow> outstanding t \<subseteq> keyset (tr_inflight t) \<union> X"
    and "\<not> tr_cancelled t \<Longrightarrow> outstanding t \<noteq> {} \<Longrightarrow> tr_accepted t \<and> (tr_status t = SnSending \<or> tr_status t = SnPaused)"
    and "\<not> tr_cancelled t \<Longrightarrow> tr_status t = SnCompleted \<Longrightarrow> tr_acked t = {0..<tr_totalChunks t}"
  using assms by (auto simp: tr_live_def)

lemma same_file_flags [simp]:
  "same_file u (t\<lparr>tr_pumping := b\<rparr>) = same_file u t" "same_file u (t\<lparr>tr_status := st\<rparr>) = same_file u t"
  "same_file u (t\<lparr>tr_reason := r\<rparr>) = same_file u t" "same_file u (t\<lparr>tr_paused := b\<rparr>) = same_file u t"
  "same_file u (t\<lparr>tr_accepted := b\<rparr>) = same_file u t" "same_file u (t\<lparr>tr_sha256 := h\<rparr>) = same_file u t"
  "same_file u (t\<lparr>tr_cancelled := b\<rparr>) = same_file u t" "same_file u (t\<lparr>tr_inflight := m\<rparr>) = same_file u t"
  "same_file u (t\<lparr>tr_nextIndex := n\<rparr>) = same_file u t" "same_file u (t\<lparr>tr_acked := k\<rparr>) = same_file u t"
 
  by (simp_all add: same_file_def)

lemma same_file_refl [simp]: "same_file t t"
  by (simp add: same_file_def)

section \<open>Operations on one object\<close>

text \<open>Nothing but the object \<open>a\<close> changes; its file does not.\<close>

definition frameT :: "nat \<Rightarrow> FileSender \<Rightarrow> FileSender \<Rightarrow> bool" where
  "frameT a s s' =
     (same_env s s' \<and> (\<forall>b. b \<noteq> a \<longrightarrow> fs_objs s' b = fs_objs s b) \<and>
      same_file (fs_objs s a) (fs_objs s' a) \<and> digestAddrs (fs_tasks s') = digestAddrs (fs_tasks s))"

lemma frameT_refl [simp]: "frameT a s s"
  by (simp add: frameT_def same_env_def same_file_def)

lemma frameT_trans: "frameT a s s1 \<Longrightarrow> frameT a s1 s2 \<Longrightarrow> frameT a s s2"
  by (auto simp: frameT_def same_env_def same_file_def)

lemma frameT_obj: "obj_step P (a, i) s s' \<Longrightarrow> frameT a s s'"
  using tasks_step_digest [of "(a, i)" s s'] by (simp add: frameT_def obj_step_def)

lemma frameT_chunk: "chunk_step a i s s' \<Longrightarrow> frameT a s s'"
  by (auto simp: chunk_step_def item_step_def fail_step_def intro: frameT_obj)

lemma frameT_upd: "same_file (fs_objs s a) (f (fs_objs s a)) \<Longrightarrow> frameT a s (updT a f s)"
  by (simp add: frameT_def same_env_def)

lemma frameT_live:
  assumes "frameT a s s'"
  shows "attached b s' = attached b s" and "liveT b s' = liveT b s"
proof -
  show "attached b s' = attached b s"
    using assms by (cases "b = a") (auto simp: frameT_def attached_def same_env_def same_file_def)
  then show "liveT b s' = liveT b s" using assms by (simp add: liveT_def frameT_def)
qed

definition heldItems :: "Transfer \<Rightarrow> int set" where
  "heldItems t =
     {i. \<exists>c. map_get (tr_inflight t) i = Some c \<and> ic_state c = CsRetryWait \<and> ic_timer c = None}"

text \<open>An update of flags and counters that leaves the entries alone.\<close>

lemma snd_inv_upd:
  assumes inv: "snd_inv D W X s" and a: "a < fs_next s" and XY: "X \<subseteq> Y"
    and sf: "same_file (fs_objs s a) (f (fs_objs s a))"
    and fl: "tr_inflight (f (fs_objs s a)) = tr_inflight (fs_objs s a)"
    and nx: "tr_nextIndex (fs_objs s a) \<le> tr_nextIndex (f (fs_objs s a))" and wf: "tr_wf (f (fs_objs s a))"
    and dg: "a \<in> set (digestAddrs (fs_tasks s)) \<Longrightarrow> tr_nextIndex (f (fs_objs s a)) = tr_nextIndex (fs_objs s a) \<and>
      tr_accepted (f (fs_objs s a)) = tr_accepted (fs_objs s a)"
    and tl: "liveT a s \<Longrightarrow> tr_live W {i. (a, i) \<in> Y} (f (fs_objs s a))"
    and held: "D \<Longrightarrow> liveT a s \<Longrightarrow> isHeld a s \<Longrightarrow>
      tr_paused (f (fs_objs s a)) \<or> fs_globalPaused s \<or> {a} \<times> heldItems (fs_objs s a) \<subseteq> Y"
  shows "snd_inv D W Y (updT a f s)"
proof -
  have base: "snd_base W s" and live: "snd_live D W X s" using inv by (simp_all add: snd_inv_def)
  let ?s = "updT a f s"
  have os: "obj_step (\<lambda>r. False) (a, 0) s ?s"
    using sf nx by (simp add: obj_step_def same_env_def timers_step_def tasks_step_def)
  have own: "owned a ?s" using snd_baseD(5) [OF base a] fl by (simp add: owned_def)
  have "snd_base W ?s" using wf own dg by (intro snd_base_step [OF base os a]) auto
  moreover have "snd_live D W Y ?s"
  proof (rule snd_liveI)
    fix b assume "b < fs_next ?s" "liveT b ?s"
    then show "tr_live W {i. (b, i) \<in> Y} (fs_objs ?s b)"
      using tl obj_step_live [OF os] snd_liveD(1) [OF snd_live_mono [OF live XY], of b]
      by (cases "b = a") auto
  next
    fix b j c assume b: "b < fs_next ?s" "liveT b ?s" and D and j: "(b, j) \<notin> Y"
      and c: "map_get (tr_inflight (fs_objs ?s b)) j = Some c"
    have c': "map_get (tr_inflight (fs_objs s b)) j = Some c" using c fl by (cases "b = a") auto
    have d: "driven b j c s"
      using b j XY c' \<open>D\<close> obj_step_live [OF os] by (intro snd_liveD(2) [OF live]) auto
    show "driven b j c ?s"
    proof (cases "b = a \<and> j \<in> heldItems (fs_objs s a)")
      case False
      then show ?thesis using d c' fl
        by (auto simp: driven_def heldItems_def isHeld_def split: ChunkState.splits option.splits)
    next
      case True
      then have "isHeld a s" using d c' by (auto simp: driven_def heldItems_def)
      then have "tr_paused (f (fs_objs s a)) \<or> fs_globalPaused s"
        using held [OF \<open>D\<close>] b j True obj_step_live [OF os] by auto
      then show ?thesis using True d c' by (auto simp: driven_def heldItems_def isHeld_def)
    qed
  qed
  ultimately show ?thesis by (simp add: snd_inv_def)
qed

lemma outstanding_keys:
  assumes "tr_wf t" and "tr_live W {} t" and "\<not> tr_cancelled t"
  shows "outstanding t = keyset (tr_inflight t)" and "card (outstanding t) = length (tr_inflight t)"
proof -
  show "outstanding t = keyset (tr_inflight t)"
    using assms by (auto simp: tr_wf_def tr_live_def outstanding_def)
  then show "card (outstanding t) = length (tr_inflight t)"
    using assms(1) by (simp add: tr_wf_def wf_map_card_keys)
qed

lemma outstanding_bump:
  assumes "tr_wf t"
  shows "outstanding (t\<lparr>tr_nextIndex := tr_nextIndex t + 1\<rparr>) = insert (tr_nextIndex t) (outstanding t)"
    and "tr_nextIndex t \<notin> outstanding t" and "finite (outstanding t)"
  using assms by (auto simp: tr_wf_def outstanding_def)

definition pump_pre :: "nat \<Rightarrow> FileSender \<Rightarrow> bool" where
  "pump_pre a s =
     (attached a s \<and> a < fs_next s \<and> \<not> tr_cancelled (fs_objs s a) \<and> tr_accepted (fs_objs s a) \<and>
      \<not> isHeld a s \<and> tr_status (fs_objs s a) = SnSending)"

lemma attached_no_digest: "snd_base W s \<Longrightarrow> attached a s \<Longrightarrow> a \<notin> set (digestAddrs (fs_tasks s))"
  using snd_baseD(6) [of W s] by (fastforce simp: digestAddrs_iff)

lemma snd_inv_bump:
  assumes inv: "snd_inv D W X s" and nX: "\<And>i. (a, i) \<notin> X" and pre: "pump_pre a s"
    and win: "length (tr_inflight (fs_objs s a)) < windowChunks (files (fs_profile s))"
    and more: "tr_nextIndex (fs_objs s a) < tr_totalChunks (fs_objs s a)"
  shows "snd_inv D W (insert (a, tr_nextIndex (fs_objs s a)) X) (updT a (\<lambda>t. t\<lparr>tr_nextIndex := tr_nextIndex t + 1\<rparr>) s)"
proof -
  let ?t = "fs_objs s a"
  have base: "snd_base W s" and live: "snd_live D W X s" using inv by (simp_all add: snd_inv_def)
  have a: "a < fs_next s" "attached a s" "\<not> tr_cancelled ?t" "tr_accepted ?t" "tr_status ?t = SnSending" "\<not> isHeld a s"
    using pre by (simp_all add: pump_pre_def)
  have wf: "tr_wf ?t" by (rule snd_baseD(4) [OF base a(1)])
  have tl: "tr_live W {} ?t" using snd_liveD(1) [OF live a(1)] a(2) nX by (simp add: liveT_def)
  have W: "windowChunks (files (fs_profile s)) \<le> W" using snd_baseD(1) [OF base] by (simp add: snd_profile_ok_def)
  have "tr_live W {tr_nextIndex ?t} (?t\<lparr>tr_nextIndex := tr_nextIndex ?t + 1\<rparr>)"
    using outstanding_keys [OF wf tl a(3)] outstanding_bump [OF wf] win W a by (simp add: tr_live_def)
  then show ?thesis
    using a attached_no_digest [OF base a(2)] wf more nX
    by (intro snd_inv_upd [OF inv a(1)]) (auto simp: same_file_def tr_wf_def)
qed

lemma sendChunk_pre:
  assumes "pump_pre a s" and "i \<notin> tr_acked (fs_objs s a)"
  shows "pump_pre a (fst (sendChunk a i 1 s))"
    and "tr_acked (fs_objs (fst (sendChunk a i 1 s)) a) = tr_acked (fs_objs s a)"
  using assms by (simp_all add: sendChunk_def pump_pre_def isHeld_def tooMany_def attached_def Let_def)

text \<open>The loop of the pump ends with a full window or with the file exhausted.\<close>

lemma pumpLoop_inv:
  assumes "snd_inv D W X s" and "\<And>i. (a, i) \<notin> X" and "pump_pre a s" and "fst (pumpLoop a s) = s'"
  shows "snd_inv D W X s' \<and> pump_pre a s' \<and> frameT a s s' \<and> tr_acked (fs_objs s' a) = tr_acked (fs_objs s a) \<and>
    tr_pumping (fs_objs s' a) = tr_pumping (fs_objs s a) \<and>
    (windowChunks (files (fs_profile s')) \<le> length (tr_inflight (fs_objs s' a)) \<or>
     tr_totalChunks (fs_objs s' a) \<le> tr_nextIndex (fs_objs s' a))"
  using assms
proof (induction a s arbitrary: s' rule: pumpLoop.induct)
  case (1 a s)
  let ?t = "fs_objs s a"
  let ?i = "tr_nextIndex ?t"
  let ?s0 = "updT a (\<lambda>t. t\<lparr>tr_nextIndex := tr_nextIndex t + 1\<rparr>) s"
  let ?s1 = "fst (sendChunk a ?i 1 ?s0)"
  have flags: "\<not> tr_cancelled ?t" "\<not> tr_paused ?t" "\<not> fs_globalPaused s"
    using 1(4) by (simp_all add: pump_pre_def isHeld_def)
  show ?case
  proof (cases "length (tr_inflight ?t) < windowChunks (files (fs_profile s)) \<and> ?i < tr_totalChunks ?t")
    case False
    then have "s' = s" using 1(5) flags by (subst (asm) pumpLoop.simps) (auto simp: Let_def)
    with False 1(2,4) show ?thesis by auto
  next
    case True
    have base: "snd_base W s" using 1(2) by (simp add: snd_inv_def)
    have a: "a < fs_next s" using 1(4) by (simp add: pump_pre_def)
    have inv0: "snd_inv D W (insert (a, ?i) X) ?s0" using snd_inv_bump [OF 1(2,3,4)] True by blast
    have na: "?i \<notin> tr_acked (fs_objs ?s0 a)"
      using snd_baseD(4) [OF base a] by (auto simp: tr_wf_def)
    have pre0: "pump_pre a ?s0" using 1(4) by (simp add: pump_pre_def isHeld_def attached_def)
    have base0: "snd_base W ?s0" using inv0 by (simp add: snd_inv_def)
    have ref: "ref_ok ?s0 (a, ?i)"
      using a snd_baseD(4) [OF base a] by (simp add: ref_ok_def tr_wf_def)
    have st: "chunk_step a ?i ?s0 ?s1" using a by (intro sendChunk_step [OF base0]) simp
    have inv1: "snd_inv D W X ?s1" using snd_inv_chunk [OF inv0 st ref] 1(3) by simp
    have "s' = fst (pumpLoop a ?s1)"
      using 1(5) flags True by (subst (asm) pumpLoop.simps) (auto simp: Let_def split: prod.splits)
    then have IH: "snd_inv D W X s' \<and> pump_pre a s' \<and> frameT a ?s1 s' \<and>
        tr_acked (fs_objs s' a) = tr_acked (fs_objs ?s1 a) \<and> tr_pumping (fs_objs s' a) = tr_pumping (fs_objs ?s1 a) \<and>
        (windowChunks (files (fs_profile s')) \<le> length (tr_inflight (fs_objs s' a)) \<or>
         tr_totalChunks (fs_objs s' a) \<le> tr_nextIndex (fs_objs s' a))"
      using flags True inv1 1(3) sendChunk_pre(1) [OF pre0 na]
      by (intro 1(1) [OF refl _ refl prod.collapse]) simp_all
    have fr: "frameT a s ?s1"
      by (rule frameT_trans [OF frameT_upd frameT_chunk [OF st]]) (simp add: same_file_def)
    have pu: "tr_pumping (fs_objs ?s1 a) = tr_pumping ?t"
      by (simp add: sendChunk_def failAndNotify_def snd_fail_def Let_def split: prod.splits)
    show ?thesis using IH frameT_trans [OF fr] sendChunk_pre(2) [OF pre0 na] pu by simp
  qed
qed

definition prog :: "nat \<Rightarrow> FileSender \<Rightarrow> bool" where
  "prog a s =
     (let t = fs_objs s a in
      \<not> tr_cancelled t \<longrightarrow>
      (tr_accepted t \<longrightarrow> tr_status t = SnSending \<longrightarrow> \<not> isHeld a s \<longrightarrow> outstanding t \<noteq> {}) \<and>
      (tr_pumping t \<longrightarrow> tr_accepted t \<and> tr_status t = SnCompleted))"

lemma completeIfDone_cases:
  assumes inv: "snd_inv D W X s" and nX: "\<And>i. (a, i) \<notin> X" and pre: "pump_pre a s"
    and full: "windowChunks (files (fs_profile s)) \<le> length (tr_inflight (fs_objs s a)) \<or>
      tr_totalChunks (fs_objs s a) \<le> tr_nextIndex (fs_objs s a)"
  shows "completeIfDone a s = (s, [], False) \<and> outstanding (fs_objs s a) \<noteq> {} \<or>
    (\<exists>es. completeIfDone a s = (updT a (\<lambda>t. t\<lparr>tr_status := SnCompleted, tr_reason := None\<rparr>) s, es, True) \<and>
      SSend (FileComplete (tr_fileId (fs_objs s a)) (shaField (tr_sha256 (fs_objs s a)))) Control \<in> set es) \<and>
    outstanding (fs_objs s a) = {} \<and> tr_acked (fs_objs s a) = {0..<tr_totalChunks (fs_objs s a)}"
proof -
  let ?t = "fs_objs s a"
  have base: "snd_base W s" and live: "snd_live D W X s" using inv by (simp_all add: snd_inv_def)
  have a: "a < fs_next s" "attached a s" "\<not> tr_cancelled ?t" using pre by (simp_all add: pump_pre_def)
  have wf: "tr_wf ?t" by (rule snd_baseD(4) [OF base a(1)])
  have tl: "tr_live W {} ?t" using snd_liveD(1) [OF live a(1)] a(2) nX by (simp add: liveT_def)
  note out = outstanding_keys [OF wf tl a(3)]
  have W: "0 < windowChunks (files (fs_profile s))" using snd_baseD(1) [OF base] by (simp add: snd_profile_ok_def)
  show ?thesis
  proof (cases "tr_inflight ?t = []")
    case False
    then have "outstanding ?t \<noteq> {}" using out by (auto simp: outstanding_def)
    with False a show ?thesis by (simp add: completeIfDone_def Let_def)
  next
    case True
    then have nx: "tr_nextIndex ?t = tr_totalChunks ?t" using full W wf by (auto simp: tr_wf_def)
    have emp: "outstanding ?t = {}" using out True by simp
    then have ak: "tr_acked ?t = {0..<tr_totalChunks ?t}"
      using wf nx by (auto simp: outstanding_def tr_wf_def)
    then have "int (card (tr_acked ?t)) = tr_totalChunks ?t" using wf by (auto simp: tr_wf_def)
    with True nx emp ak a show ?thesis by (simp add: completeIfDone_def Let_def)
  qed
qed

lemma setPumping_sel [simp]:
  "fs_objs (setPumping a b s) = (fs_objs s)(a := (fs_objs s a)\<lparr>tr_pumping := b\<rparr>)"
  "fs_profile (setPumping a b s) = fs_profile s" "fs_next (setPumping a b s) = fs_next s"
  "fs_globalPaused (setPumping a b s) = fs_globalPaused s" "fs_transfers (setPumping a b s) = fs_transfers s"
  "fs_tasks (setPumping a b s) = fs_tasks s"
  by (simp_all add: setPumping_def)

lemma snd_inv_setPumping:
  assumes "snd_inv D W X s" and "a < fs_next s"
  shows "snd_inv D W X (setPumping a b s)"
proof -
  have base: "snd_base W s" and live: "snd_live D W X s" using assms(1) by (simp_all add: snd_inv_def)
  show ?thesis
    unfolding setPumping_def
    using snd_baseD(4) [OF base assms(2)] snd_liveD(1) [OF live assms(2)]
    by (intro snd_inv_upd [OF assms]) (simp_all add: isHeld_def, blast)
qed

lemma snd_inv_await:
  assumes "snd_inv D W X s" and "staskOk s t" and "\<And>a q. t \<noteq> OfferDigest a q"
  shows "snd_inv D W X (await t s)"
proof -
  have dg: "digestAddrs (fs_tasks (await t s)) = digestAddrs (fs_tasks s)" using assms(3) by (cases t) auto
  have at: "attached b (await t s) = attached b s" for b by (simp add: attached_def)
  have lv: "liveT b (await t s) = liveT b s" for b by (simp only: liveT_def at dg)
  have tk: "staskOk (await t s) u = staskOk s u" for u by (cases u) (simp_all add: ref_ok_def at)
  have dr: "driven a i c s \<Longrightarrow> driven a i c (await t s)" for a i c
    by (auto simp: driven_def isHeld_def split: ChunkState.splits option.splits)
  show ?thesis
    using assms(1,2) dr unfolding snd_inv_def snd_base_def snd_live_def
    by (auto simp: lv tk dg owned_def ref_ok_def simp del: await_sel(7)) (auto simp: tk)
qed

section \<open>Pumping\<close>

lemma snd_inv_live:
  assumes "snd_inv D W X s" and "attached a s" and "a < fs_next s"
  shows "tr_wf (fs_objs s a)" and "tr_live W {i. (a, i) \<in> X} (fs_objs s a)"
  using assms snd_baseD(4) [of W s a] snd_liveD(1) [of D W X s a] by (auto simp: snd_inv_def liveT_def)

lemma snd_inv_complete:
  assumes inv: "snd_inv D W X s" and at: "attached a s" "a < fs_next s" and nc: "\<not> tr_cancelled (fs_objs s a)"
    and dn: "outstanding (fs_objs s a) = {}" "tr_acked (fs_objs s a) = {0..<tr_totalChunks (fs_objs s a)}"
  shows "snd_inv D W X (updT a (\<lambda>t. t\<lparr>tr_status := SnCompleted, tr_reason := None\<rparr>) s)"
proof (rule snd_inv_upd [OF inv at(2)])
  show "tr_live W {i. (a, i) \<in> X} ((fs_objs s a)\<lparr>tr_status := SnCompleted, tr_reason := None\<rparr>)"
    using tr_live_status [OF snd_inv_live(2) [OF inv at] nc, of SnCompleted] dn by simp
qed (use snd_inv_live(1) [OF inv at] in \<open>auto simp: isHeld_def\<close>)

lemma snd_pump_result:
  assumes inv: "snd_inv D W X s" and nX: "\<And>i. (a, i) \<notin> X" and pre: "pump_pre a s" and np: "\<not> tr_pumping (fs_objs s a)"
    and s': "fst (snd_pump a s) = s'"
  shows "snd_inv D W X s' \<and> frameT a s s' \<and> tr_acked (fs_objs s' a) = tr_acked (fs_objs s a) \<and>
    \<not> tr_cancelled (fs_objs s' a) \<and> tr_accepted (fs_objs s' a) \<and> tr_paused (fs_objs s' a) = tr_paused (fs_objs s a) \<and>
    (tr_status (fs_objs s' a) = SnSending \<and> outstanding (fs_objs s' a) \<noteq> {} \<and> \<not> tr_pumping (fs_objs s' a) \<or>
     tr_status (fs_objs s' a) = SnCompleted \<and>
     SSend (FileComplete (tr_fileId (fs_objs s a)) (shaField (tr_sha256 (fs_objs s' a)))) Control \<in> set (snd (snd_pump a s)))"
proof -
  let ?s0 = "setPumping a True s"
  let ?s1 = "fst (pumpLoop a ?s0)"
  have a: "a < fs_next s" "attached a s" and flags: "\<not> tr_cancelled (fs_objs s a)" "tr_accepted (fs_objs s a)"
    "\<not> tr_paused (fs_objs s a)" "\<not> fs_globalPaused s" "tr_status (fs_objs s a) = SnSending"
    using pre by (simp_all add: pump_pre_def isHeld_def)
  have inv0: "snd_inv D W X ?s0" by (rule snd_inv_setPumping [OF inv a(1)])
  have pre0: "pump_pre a ?s0" using pre by (simp add: pump_pre_def attached_def isHeld_def)
  note loop = pumpLoop_inv [OF inv0 nX pre0 refl]
  have inv1: "snd_inv D W X ?s1" and pre1: "pump_pre a ?s1" and fr0: "frameT a ?s0 ?s1"
    and ak: "tr_acked (fs_objs ?s1 a) = tr_acked (fs_objs s a)" using loop by simp_all
  have fr1: "frameT a s ?s1"
    by (rule frameT_trans [OF _ fr0]) (simp add: frameT_def same_env_def)
  have pre1': "a < fs_next ?s1" "attached a ?s1" "\<not> tr_cancelled (fs_objs ?s1 a)" "tr_accepted (fs_objs ?s1 a)"
    "\<not> tr_paused (fs_objs ?s1 a)" "tr_status (fs_objs ?s1 a) = SnSending"
    using pre1 by (simp_all add: pump_pre_def isHeld_def)
  have id1: "tr_fileId (fs_objs ?s1 a) = tr_fileId (fs_objs s a)" using fr1 by (simp add: frameT_def same_file_def)
  have eq: "snd_pump a s = (let (s2, es', sent) = completeIfDone a ?s1 in
      ((if sent then await (PumpEnd a) s2 else setPumping a False s2), snd (pumpLoop a ?s0) @ es'))"
    using np flags by (simp add: snd_pump_def Let_def split: prod.splits)
  from completeIfDone_cases [OF inv1 nX pre1] loop
  consider (more) "completeIfDone a ?s1 = (?s1, [], False)" "outstanding (fs_objs ?s1 a) \<noteq> {}"
    | (fin) es where "completeIfDone a ?s1 = (updT a (\<lambda>t. t\<lparr>tr_status := SnCompleted, tr_reason := None\<rparr>) ?s1, es, True)"
      "SSend (FileComplete (tr_fileId (fs_objs ?s1 a)) (shaField (tr_sha256 (fs_objs ?s1 a)))) Control \<in> set es"
      "outstanding (fs_objs ?s1 a) = {}" "tr_acked (fs_objs ?s1 a) = {0..<tr_totalChunks (fs_objs ?s1 a)}"
    by blast
  then show ?thesis
  proof cases
    case more
    then have s': "s' = setPumping a False ?s1" using s' eq by simp
    have "frameT a ?s1 s'" unfolding s' setPumping_def by (rule frameT_upd) simp
    then show ?thesis
      using more snd_inv_setPumping [OF inv1 pre1'(1)] pre1' ak flags frameT_trans [OF fr1] by (simp add: s')
  next
    case fin
    let ?s2 = "updT a (\<lambda>t. t\<lparr>tr_status := SnCompleted, tr_reason := None\<rparr>) ?s1"
    have e: "snd_pump a s = (await (PumpEnd a) ?s2, snd (pumpLoop a ?s0) @ es)" using eq fin(1) by simp
    then have s': "s' = await (PumpEnd a) ?s2" using s' by simp
    have "snd_inv D W X ?s2" using snd_inv_complete [OF inv1 pre1'(2,1,3) fin(3,4)] .
    then have i: "snd_inv D W X s'" unfolding s' by (rule snd_inv_await) (use pre1' in simp_all)
    have "frameT a ?s1 s'" unfolding s' by (simp add: frameT_def same_env_def)
    then have "frameT a s s'" by (rule frameT_trans [OF fr1])
    then show ?thesis using i fin pre1' ak flags id1 by (simp add: e s')
  qed
qed

lemma snd_inv_pump:
  assumes inv: "snd_inv D W X s" and nX: "\<And>i. (a, i) \<notin> X" and at: "attached a s" "a < fs_next s"
  shows "snd_inv D W X (fst (snd_pump a s))" and "frameT a s (fst (snd_pump a s))"
proof -
  have idle: "\<not> pump_pre a s \<Longrightarrow> \<not> tr_pumping (fs_objs s a) \<Longrightarrow>
      fst (snd_pump a s) = setPumping a False (setPumping a True s)"
    using at by (auto simp: snd_pump_def pump_pre_def isHeld_def Let_def)
  have fr: "frameT a s (setPumping a False (setPumping a True s))"
    by (simp add: frameT_def same_env_def)
  have "snd_inv D W X (fst (snd_pump a s)) \<and> frameT a s (fst (snd_pump a s))"
  proof (cases "tr_pumping (fs_objs s a)")
    case True
    then show ?thesis using inv by (simp add: snd_pump_def Let_def)
  next
    case False
    then show ?thesis
      using snd_pump_result [OF inv nX _ False refl] idle fr snd_inv_setPumping inv at(2)
      by (cases "pump_pre a s") simp_all
  qed
  then show "snd_inv D W X (fst (snd_pump a s))" "frameT a s (fst (snd_pump a s))" by simp_all
qed

text \<open>After a pump, a transfer that may send has something outstanding or is complete.\<close>

lemma prog_pump:
  assumes inv: "snd_inv D W X s" and nX: "\<And>i. (a, i) \<notin> X" and at: "attached a s" "a < fs_next s"
    and pu: "tr_pumping (fs_objs s a) \<Longrightarrow> \<not> tr_cancelled (fs_objs s a) \<Longrightarrow>
      tr_accepted (fs_objs s a) \<and> tr_status (fs_objs s a) = SnCompleted"
  shows "prog a (fst (snd_pump a s))"
proof (cases "tr_pumping (fs_objs s a) \<or> \<not> pump_pre a s")
  case True
  then show ?thesis using pu at by (auto simp: snd_pump_def prog_def pump_pre_def isHeld_def Let_def)
next
  case False
  then show ?thesis using snd_pump_result [OF inv nX _ _ refl] by (auto simp: prog_def Let_def)
qed

end
