(* ===== verification/SenderRuns.thy ===== *)
theory SenderRuns
  imports SenderSteps
begin

text \<open>
  The public operations of the file sender (\<^verbatim>\<open>FileSender.ts\<close>), its suspended calls and its timers keep
  the invariant, in any interleaving.
\<close>

section \<open>Consuming tasks and timers\<close>

lemma snd_inv_mono: "snd_inv D W X s \<Longrightarrow> X \<subseteq> Y \<Longrightarrow> snd_inv D W Y s"
  unfolding snd_inv_def using snd_live_mono by blast

definition snd_prog :: "FileSender \<Rightarrow> bool" where
  "snd_prog s = (\<forall>a < fs_next s. liveT a s \<longrightarrow> prog a s)"

lemma snd_prog_frame:
  assumes "snd_prog s" and "frameT a s s'" and "liveT a s \<Longrightarrow> prog a s'"
  shows "snd_prog s'"
proof (unfold snd_prog_def, intro allI impI)
  fix b assume b: "b < fs_next s'" "liveT b s'"
  have "b < fs_next s" "liveT b s"
    using b assms(2) frameT_live(2) [OF assms(2)] by (simp_all add: frameT_def same_env_def)
  then show "prog b s'"
    using assms by (cases "b = a") (auto simp: snd_prog_def prog_def frameT_def same_env_def isHeld_def Let_def)
qed

fun taskRefs :: "STask \<Rightarrow> (nat \<times> int) set" where
  "taskRefs (ReadChunk a i n) = {(a, i)}"
| "taskRefs (SentChunk a i n) = {(a, i)}"
| "taskRefs _ = {}"

lemma concat_map_remove1: "f t = [] \<Longrightarrow> concat (map f (remove1 t ts)) = concat (map f ts)"
  by (induction ts) auto

lemma digestAddrs_remove1:
  assumes "\<And>a q. t \<noteq> OfferDigest a q"
  shows "digestAddrs (remove1 t ts) = digestAddrs ts"
  unfolding digestAddrs_def using assms by (intro concat_map_remove1) (cases t; auto)

lemma driven_task_removed:
  assumes "driven a i c s" and "(a, i) \<notin> taskRefs t"
  shows "driven a i c (s\<lparr>fs_tasks := remove1 t (fs_tasks s)\<rparr>)"
proof -
  have "u \<in> set (remove1 t (fs_tasks s))" if "u \<in> set (fs_tasks s)" "(a, i) \<in> taskRefs u" for u
    using that assms(2) by (metis in_set_remove1)
  then show ?thesis using assms(1)
    by (fastforce simp: driven_def isHeld_def split: ChunkState.splits option.splits)
qed

lemma snd_inv_task:
  assumes inv: "snd_inv D W {} s" and nd: "\<And>a q. t \<noteq> OfferDigest a q"
  shows "snd_inv D W (taskRefs t) (s\<lparr>fs_tasks := remove1 t (fs_tasks s)\<rparr>)"
proof -
  let ?s = "s\<lparr>fs_tasks := remove1 t (fs_tasks s)\<rparr>"
  have base: "snd_base W s" and live: "snd_live D W {} s" using inv by (simp_all add: snd_inv_def)
  have at: "attached b ?s = attached b s" for b by (simp add: attached_def)
  have lv: "liveT b ?s = liveT b s" for b by (simp add: liveT_def at digestAddrs_remove1 [OF nd])
  have tk: "staskOk ?s u = staskOk s u" for u by (cases u) (simp_all add: ref_ok_def at)
  have rf: "ref_ok ?s r = ref_ok s r" for r by (simp add: ref_ok_def)
  have ow: "owned b ?s = owned b s" for b by (simp add: owned_def)
  have "snd_base W ?s"
    using base set_remove1_subset [of t "fs_tasks s"] unfolding snd_base_def tk rf ow
    by (auto simp: digestAddrs_remove1 [OF nd])
  moreover have "snd_live D W (taskRefs t) ?s"
  proof (rule snd_liveI)
    fix a assume "a < fs_next ?s" "liveT a ?s"
    then show "tr_live W {i. (a, i) \<in> taskRefs t} (fs_objs ?s a)"
      using snd_liveD(1) [OF live, of a] lv by (auto elim: tr_live_mono)
  next
    fix a i c assume "a < fs_next ?s" "liveT a ?s" D "(a, i) \<notin> taskRefs t" "map_get (tr_inflight (fs_objs ?s a)) i = Some c"
    then show "driven a i c ?s"
      using snd_liveD(2) [OF live, of a i c] lv by (intro driven_task_removed) auto
  qed
  ultimately show ?thesis by (simp add: snd_inv_def)
qed

lemma snd_inv_timer:
  assumes inv: "snd_inv D W {} s" and x: "map_get (fs_timers s) tid = Some x"
  shows "snd_inv D W {timerRef (fst x)} (s\<lparr>fs_timers := map_delete tid (fs_timers s)\<rparr>)"
proof -
  let ?s = "s\<lparr>fs_timers := map_delete tid (fs_timers s)\<rparr>"
  have base: "snd_base W s" and live: "snd_live D W {} s" using inv by (simp_all add: snd_inv_def)
  have at: "attached b ?s = attached b s" for b by (simp add: attached_def)
  have lv: "liveT b ?s = liveT b s" for b by (simp add: liveT_def at)
  have tk: "staskOk ?s u = staskOk s u" for u by (cases u) (simp_all add: ref_ok_def at)
  have rf: "ref_ok ?s r = ref_ok s r" for r by (simp add: ref_ok_def)
  have ow: "owned b s \<Longrightarrow> owned b ?s" for b by (simp add: owned_def js_simps)
  have tm: "map_get (fs_timers ?s) t = Some y \<Longrightarrow> map_get (fs_timers s) t = Some y" for t y
    by (simp add: js_simps split: if_splits)
  have "snd_base W ?s"
  proof (rule snd_baseI)
    fix t y assume "map_get (fs_timers ?s) t = Some y"
    then show "t < fs_nextTimer ?s \<and> ref_ok ?s (timerRef (fst y))" using snd_baseD(8) [OF base tm] rf by simp
  qed (use snd_baseD(1-7) [OF base] ow tk in simp_all)
  moreover have "snd_live D W {timerRef (fst x)} ?s"
  proof (rule snd_liveI)
    fix a assume "a < fs_next ?s" "liveT a ?s"
    then show "tr_live W {i. (a, i) \<in> {timerRef (fst x)}} (fs_objs ?s a)"
      using snd_liveD(1) [OF live, of a] lv by (auto elim: tr_live_mono)
  next
    fix a i c assume *: "a < fs_next ?s" "liveT a ?s" D "(a, i) \<notin> {timerRef (fst x)}"
      "map_get (tr_inflight (fs_objs ?s a)) i = Some c"
    then have "driven a i c s" using snd_liveD(2) [OF live, of a i c] lv by auto
    moreover have "t \<noteq> tid" if "map_get (fs_timers s) t = Some (cb, d)" "timerRef cb = (a, i)" for t cb d
      using that x *(4) by auto
    ultimately show "driven a i c ?s"
      by (fastforce simp: driven_def isHeld_def js_simps split: ChunkState.splits option.splits)
  qed
  ultimately show ?thesis by (simp add: snd_inv_def)
qed

text \<open>A chunk step from a state in which only that chunk's driver was consumed.\<close>

lemma snd_inv_chunk_end:
  assumes "snd_inv D W {(a, i)} s" and "chunk_step a i s s'" and "ref_ok s (a, i)"
  shows "snd_inv D W {} s'"
  using snd_inv_chunk [of D W a i "{}" s s'] assms by simp

lemma prog_chunk:
  assumes "chunk_step a i s s'" and "prog a s"
  shows "prog a s'"
proof (cases "\<exists>st r. fs_objs s' a =
    (fs_objs s a)\<lparr>tr_status := st, tr_reason := r, tr_cancelled := True, tr_inflight := []\<rparr>")
  case True
  then show ?thesis by (auto simp: prog_def Let_def)
next
  case False
  then consider "s' = s" | c r where "fs_objs s' a = put_item a i c r s" "same_env s s'"
    using assms(1) unfolding chunk_step_def item_step_def fail_step_def obj_step_def by blast
  then show ?thesis
    using assms(2) by cases (simp_all add: prog_def put_item_def isHeld_def same_env_def Let_def)
qed

section \<open>Every operation keeps the invariant\<close>

text \<open>
  \<open>good D W s\<close>: the invariant, and under \<open>D\<close> also that a transfer that may send has something outstanding.
\<close>

definition good :: "bool \<Rightarrow> nat \<Rightarrow> FileSender \<Rightarrow> bool" where
  "good D W s = (snd_inv D W {} s \<and> (D \<longrightarrow> snd_prog s))"

lemma goodI: "snd_inv D W {} s \<Longrightarrow> (D \<Longrightarrow> snd_prog s) \<Longrightarrow> good D W s"
  by (simp add: good_def)

lemma goodD:
  assumes "good D W s"
  shows "snd_inv D W {} s" and "snd_base W s" and "snd_live D W {} s" and "D \<Longrightarrow> snd_prog s"
  using assms by (simp_all add: good_def snd_inv_def)

lemma good_lookup:
  assumes "good D W s" and "map_get (fs_transfers s) i = Some a"
  shows "attached a s" "a < fs_next s" "tr_fileId (fs_objs s a) = i" "liveT a s" "tr_wf (fs_objs s a)"
    "tr_live W {} (fs_objs s a)" "D \<Longrightarrow> prog a s"
proof -
  show at: "attached a s" by (rule attached_get [OF goodD(2) [OF assms(1)] assms(2)])
  show a: "a < fs_next s" "tr_fileId (fs_objs s a) = i" using snd_baseD(3) [OF goodD(2) [OF assms(1)] assms(2)] by simp_all
  show "liveT a s" using at by (simp add: liveT_def)
  then show "D \<Longrightarrow> prog a s" using goodD(4) [OF assms(1)] a by (simp add: snd_prog_def)
  show "tr_wf (fs_objs s a)" "tr_live W {} (fs_objs s a)"
    using snd_inv_live [OF goodD(1) [OF assms(1)] at a(1)] by simp_all
qed

lemma good_frame:
  assumes "good D W s" and "snd_inv D W {} s'" and "frameT a s s'" and "D \<Longrightarrow> liveT a s \<Longrightarrow> prog a s'"
  shows "good D W s'"
  using assms snd_prog_frame [of s a s'] by (auto simp: good_def)

lemma good_chunk:
  assumes g: "good D W s0" and inv: "snd_inv D W {(a, i)} s" and st: "chunk_step a i s s'" and ref: "ref_ok s (a, i)"
    and s: "fs_objs s = fs_objs s0" "fs_globalPaused s = fs_globalPaused s0" "fs_next s = fs_next s0"
      "fs_transfers s = fs_transfers s0" "digestAddrs (fs_tasks s) = digestAddrs (fs_tasks s0)"
  shows "good D W s'"
proof (rule goodI)
  show "snd_inv D W {} s'" by (rule snd_inv_chunk_end [OF inv st ref])
  have lv: "liveT b s = liveT b s0" for b using s by (simp add: liveT_def attached_def)
  have pg: "prog b s = prog b s0" for b using s by (simp add: prog_def isHeld_def)
  assume D
  then have "snd_prog s" using goodD(4) [OF g] lv pg s by (simp add: snd_prog_def)
  moreover have "liveT a s \<Longrightarrow> prog a s"
    using \<open>snd_prog s\<close> ref by (simp add: snd_prog_def ref_ok_def)
  ultimately show "snd_prog s'"
    using prog_chunk [OF st] by (intro snd_prog_frame [OF _ frameT_chunk [OF st]]) blast+
qed

lemma ref_inflight:
  "tr_wf (fs_objs s a) \<Longrightarrow> a < fs_next s \<Longrightarrow> map_get (tr_inflight (fs_objs s a)) i = Some c \<Longrightarrow> ref_ok s (a, i)"
  using map_get_keyset [of "tr_inflight (fs_objs s a)" i c] by (auto simp: tr_wf_def ref_ok_def)

lemma good_nack: "good D W s \<Longrightarrow> good D W (fst (snd_nack fileId i reason s))"
proof (cases "map_get (fs_transfers s) fileId")
  case (Some a)
  assume g: "good D W s"
  note l = good_lookup [OF g Some]
  show ?thesis
  proof (cases "tr_cancelled (fs_objs s a) \<or> i < 0 \<or> i \<ge> tr_totalChunks (fs_objs s a) \<or>
      map_get (tr_inflight (fs_objs s a)) i = None")
    case True
    then show ?thesis using g Some by (auto simp: snd_nack_def Let_def)
  next
    case False
    then obtain c where c: "map_get (tr_inflight (fs_objs s a)) i = Some c" by auto
    have "good D W (fst (scheduleRetry a i (ic_attempts c + 1) reason s))"
      using snd_live_mono [OF goodD(3) [OF g]] goodD(2) [OF g]
      by (intro good_chunk [OF g _ scheduleRetry_step [OF goodD(2) [OF g] l(2)] ref_inflight [OF l(5,2) c]])
        (simp_all add: snd_inv_def)
    then show ?thesis using False Some c by (simp add: snd_nack_def Let_def)
  qed
qed (simp add: snd_nack_def)

lemma good_task:
  assumes g: "good D W s" and t: "t \<in> set (fs_tasks s)" and nd: "\<And>a q. t \<noteq> OfferDigest a q" and e: "taskRefs t = {}"
  shows "good D W (s\<lparr>fs_tasks := remove1 t (fs_tasks s)\<rparr>)" (is "good D W ?s")
proof (rule goodI)
  show "snd_inv D W {} ?s" using snd_inv_task [OF goodD(1) [OF g] nd] e by simp
  have lv: "liveT b ?s = liveT b s" for b by (simp add: liveT_def attached_def digestAddrs_remove1 [OF nd])
  have pg: "prog b ?s = prog b s" for b by (simp add: prog_def isHeld_def)
  assume D
  then show "snd_prog ?s" using goodD(4) [OF g] lv pg by (simp add: snd_prog_def)
qed

lemma chunkTask_good:
  assumes g: "good D W s" and t: "t \<in> set (fs_tasks s)" and r: "taskRefs t = {(a, i)}"
    and st: "\<And>s0. snd_base W s0 \<Longrightarrow> a < fs_next s0 \<Longrightarrow> chunk_step a i s0 (f s0)"
  shows "good D W (f (s\<lparr>fs_tasks := remove1 t (fs_tasks s)\<rparr>))"
proof -
  let ?s = "s\<lparr>fs_tasks := remove1 t (fs_tasks s)\<rparr>"
  have nd: "\<And>a q. t \<noteq> OfferDigest a q" using r by auto
  have inv: "snd_inv D W {(a, i)} ?s" using snd_inv_task [OF goodD(1) [OF g] nd] r by simp
  have ref: "ref_ok s (a, i)" using snd_baseD(6) [OF goodD(2) [OF g] t] r by (cases t) auto
  then have ref': "ref_ok ?s (a, i)" by (simp add: ref_ok_def)
  show ?thesis
    using inv ref by (intro good_chunk [OF g inv st ref'])
      (auto simp: snd_inv_def ref_ok_def digestAddrs_remove1 [OF nd])
qed

lemma afterRead_good:
  assumes g: "good D W s" and t: "ReadChunk a i n \<in> set (fs_tasks s)"
  shows "good D W (fst (afterRead a i n r (s\<lparr>fs_tasks := remove1 (ReadChunk a i n) (fs_tasks s)\<rparr>)))"
proof (cases r)
  case Succeeded
  let ?u = "s\<lparr>fs_tasks := remove1 (ReadChunk a i n) (fs_tasks s)\<rparr>"
  let ?s = "await (SentChunk a i n) ?u"
  have inv0: "snd_inv D W {(a, i)} ?u" using snd_inv_task [OF goodD(1) [OF g], of "ReadChunk a i n"] by simp
  have ref: "ref_ok s (a, i)" using snd_baseD(6) [OF goodD(2) [OF g] t] by simp
  then have ref0: "staskOk ?u (SentChunk a i n)" by (simp add: ref_ok_def)
  have inv1: "snd_inv D W {(a, i)} ?s" using inv0 ref0 by (rule snd_inv_await) simp
  have dg: "digestAddrs (fs_tasks ?s) = digestAddrs (fs_tasks s)" by (simp add: digestAddrs_remove1)
  have lv: "liveT b ?s = liveT b s" for b using dg by (simp add: liveT_def attached_def)
  have dr: "driven b j c ?s" if "driven b j c s" for b j c
    using that driven_task_removed [OF that, of "ReadChunk a i n"]
    by (cases "(b, j) = (a, i)")
      (auto simp: driven_def isHeld_def split: ChunkState.splits option.splits)
  have "snd_live D W {} ?s"
    using goodD(3) [OF g] dr lv by (simp add: snd_live_def)
  then have "snd_inv D W {} ?s" using inv1 by (simp add: snd_inv_def)
  moreover have "snd_prog ?s" if D
    using goodD(4) [OF g that] lv by (simp add: snd_prog_def prog_def isHeld_def)
  ultimately show ?thesis using Succeeded by (simp add: afterRead_def good_def Let_def)
qed (use chunkTask_good [OF g t, of a i "\<lambda>s. fst (afterRead a i n r s)"] scheduleRetry_step
  in \<open>simp_all add: afterRead_def\<close>)

lemma afterSend_good:
  assumes g: "good D W s" and t: "SentChunk a i n \<in> set (fs_tasks s)"
  shows "good D W (fst (afterSend a i n r (s\<lparr>fs_tasks := remove1 (SentChunk a i n) (fs_tasks s)\<rparr>)))"
  by (rule chunkTask_good [OF g t, of a i]) (simp, rule afterSend_step)

lemma fire_good:
  assumes g: "good D W s" and x: "map_get (fs_timers s) tid = Some (cb, d)"
  shows "good D W (fst (fireTimer cb (s\<lparr>fs_timers := map_delete tid (fs_timers s)\<rparr>)))"
proof -
  let ?s = "s\<lparr>fs_timers := map_delete tid (fs_timers s)\<rparr>"
  obtain a i where r: "timerRef cb = (a, i)" by fastforce
  have inv: "snd_inv D W {(a, i)} ?s" using snd_inv_timer [OF goodD(1) [OF g] x] r by simp
  have ref: "ref_ok ?s (a, i)" using snd_baseD(8) [OF goodD(2) [OF g] x] r by (simp add: ref_ok_def)
  have b: "snd_base W ?s" "a < fs_next ?s" using inv ref by (simp_all add: snd_inv_def ref_ok_def)
  have "chunk_step a i ?s (fst (fireTimer cb ?s))"
    using sendChunk_step [OF b] scheduleRetry_step [OF b] r by (cases cb) simp_all
  then show ?thesis by (rule good_chunk [OF g inv _ ref]) simp_all
qed

subsection \<open>Acknowledgements, cancellation, acceptance\<close>

lemma good_pump:
  assumes g: "good D W s0" and inv: "snd_inv D W {} s" and fr: "frameT a s0 s" and at: "attached a s0" "a < fs_next s0"
    and pu: "D \<Longrightarrow> tr_pumping (fs_objs s a) \<Longrightarrow> \<not> tr_cancelled (fs_objs s a) \<Longrightarrow>
      tr_accepted (fs_objs s a) \<and> tr_status (fs_objs s a) = SnCompleted"
  shows "good D W (fst (snd_pump a s))"
proof -
  have at': "attached a s" "a < fs_next s"
    using at frameT_live(1) [OF fr] fr by (simp_all add: frameT_def same_env_def)
  show ?thesis
    using snd_inv_pump [OF inv _ at'] prog_pump [OF inv _ at' pu] frameT_trans [OF fr]
    by (intro good_frame [OF g]) blast+
qed

lemma tr_wf_ack:
  assumes "tr_wf t" and "i \<in> keyset (tr_inflight t)"
  shows "tr_wf (t\<lparr>tr_inflight := map_delete i (tr_inflight t), tr_acked := insert i (tr_acked t), tr_reason := r\<rparr>)"
proof -
  let ?N = "{0..<tr_nextIndex t}"
  have k: "keyset (tr_inflight t) \<subseteq> ?N" "tr_acked t \<subseteq> ?N" "tr_acked t \<inter> keyset (tr_inflight t) = {}"
    using assms(1) by (simp_all add: tr_wf_def)
  have "keyset (tr_inflight t) - {i} \<subseteq> ?N" "insert i (tr_acked t) \<subseteq> ?N"
    "insert i (tr_acked t) \<inter> (keyset (tr_inflight t) - {i}) = {}"
    using k assms(2) by blast+
  then show ?thesis
    using assms(1) unfolding tr_wf_def by (elim conjE, intro conjI) (simp_all add: wf_map_delete)
qed

lemma ack_item:
  assumes g: "good D W s" and a: "map_get (fs_transfers s) fileId = Some a"
    and c: "map_get (tr_inflight (fs_objs s a)) i = Some c"
    and s': "s' = updT a (\<lambda>t. t\<lparr>tr_inflight := map_delete i (tr_inflight t), tr_acked := insert i (tr_acked t),
      tr_reason := None\<rparr>) (clearInflightTimer (Some c) s)"
  shows "snd_inv D W {} s' \<and> frameT a s s' \<and> \<not> tr_cancelled (fs_objs s' a)"
proof -
  note l = good_lookup [OF g a] and base = goodD(2) [OF g] and live = goodD(3) [OF g]
  let ?t = "fs_objs s a"
  have nc: "\<not> tr_cancelled ?t" using tr_liveD(1) [OF l(6)] c by auto
  have ik: "i \<in> keyset (tr_inflight ?t)" by (rule map_get_keyset [OF c])
  have os: "obj_step (\<lambda>r. r = (a, i)) (a, i) s s'"
    unfolding s'
    by (rule obj_stepI) (auto simp: same_env_def tasks_step_def c intro: timers_step_cong [OF timers_clear [OF base l(2)]])
  have obj: "fs_objs s' a = ?t\<lparr>tr_inflight := map_delete i (tr_inflight ?t), tr_acked := insert i (tr_acked ?t), tr_reason := None\<rparr>"
    by (simp add: s')
  have wf: "tr_wf (fs_objs s' a)" unfolding obj by (rule tr_wf_ack [OF l(5) ik])
  have own: "owned a s'"
    using owned_clear [OF snd_baseD(5) [OF base l(2)], of "Some c"]
    unfolding owned_def s' by (simp add: js_simps)
  have base': "snd_base W s'"
    by (rule snd_base_step [OF base os l(2) _ _ wf own]) (simp_all add: obj, simp_all add: s')
  have out: "outstanding (fs_objs s' a) = outstanding ?t - {i}" by (auto simp: obj outstanding_def)
  have "outstanding ?t \<noteq> {}" using outstanding_keys(1) [OF l(5,6) nc] ik by auto
  note st = tr_liveD(5) [OF l(6) nc this]
  have "card (outstanding ?t - {i}) \<le> W" using tr_liveD(3) [OF l(6) nc] by (meson card_Diff1_le le_trans)
  then have tl: "tr_live W {} (fs_objs s' a)"
    using st nc unfolding tr_live_def out outstanding_keys(1) [OF l(5,6) nc] by (auto simp add: obj)
  have "snd_live D W {} s'"
  proof (rule snd_liveI)
    fix b assume "b < fs_next s'" "liveT b s'"
    then show "tr_live W {j. (b, j) \<in> {}} (fs_objs s' b)"
      using tl snd_liveD(1) [OF live, of b] os obj_step_live [OF os]
      by (cases "b = a") (auto simp: obj_step_def same_env_def)
  next
    fix b j d assume b: "b < fs_next s'" "liveT b s'" and D and d: "map_get (tr_inflight (fs_objs s' b)) j = Some d"
    have oth: "b \<noteq> a \<Longrightarrow> fs_objs s' b = fs_objs s b" using os by (simp add: obj_step_def)
    have nij: "(b, j) \<noteq> (a, i)" using d by (auto simp: obj js_simps)
    have d': "map_get (tr_inflight (fs_objs s b)) j = Some d"
      using d oth by (cases "b = a") (simp_all add: obj js_simps split: if_splits)
    have "driven b j d s"
      using b d' \<open>D\<close> os obj_step_live [OF os] by (intro snd_liveD(2) [OF live]) (auto simp: obj_step_def same_env_def)
    then show "driven b j d s'" using nij by (intro driven_step [OF os]) (auto simp: s' isHeld_def)
  qed
  then show ?thesis using base' frameT_obj [OF os] nc by (simp add: snd_inv_def obj)
qed

lemma good_ack: "good D W s \<Longrightarrow> good D W (fst (snd_ack fileId i s))"
proof (cases "map_get (fs_transfers s) fileId")
  case (Some a)
  assume g: "good D W s"
  note l = good_lookup [OF g Some]
  show ?thesis
  proof (cases "tr_cancelled (fs_objs s a) \<or> i < 0 \<or> i \<ge> tr_totalChunks (fs_objs s a) \<or>
      map_get (tr_inflight (fs_objs s a)) i = None")
    case True
    then show ?thesis using g Some by (auto simp: snd_ack_def Let_def)
  next
    case False
    then obtain c where c: "map_get (tr_inflight (fs_objs s a)) i = Some c" by auto
    let ?r = "updT a (\<lambda>t. t\<lparr>tr_inflight := map_delete i (tr_inflight t), tr_acked := insert i (tr_acked t),
      tr_reason := None\<rparr>) (clearInflightTimer (Some c) s)"
    note r = ack_item [OF g Some c refl]
    have "good D W (fst (snd_pump a ?r))"
      using r l(7) False by (intro good_pump [OF g _ _ l(1,2)]) (auto simp: prog_def Let_def)
    then show ?thesis using False Some c by (simp add: snd_ack_def Let_def split_def)
  qed
qed (simp add: snd_ack_def)

lemma good_close:
  assumes g: "good D W s" and a: "a < fs_next s" and st: "st = SnFailed \<or> st = SnCancelled"
  shows "good D W (clearTimers a (updT a (\<lambda>t. t\<lparr>tr_status := st, tr_reason := Some r, tr_cancelled := True\<rparr>) s))"
proof -
  let ?r = "clearTimers a (updT a (\<lambda>t. t\<lparr>tr_status := st, tr_reason := Some r, tr_cancelled := True\<rparr>) s)"
  have f: "fail_step a 0 s ?r"
    using fail_step_close [OF goodD(2) [OF g] a st, of None 0 r] by (simp add: clearInflightTimer_def)
  have "snd_inv D W {} ?r" using snd_inv_fail [OF goodD(1) [OF g] f a] by simp
  moreover have "frameT a s ?r" using f by (auto simp: fail_step_def intro: frameT_obj)
  moreover have "prog a ?r" by (simp add: prog_def)
  ultimately show ?thesis by (blast intro: good_frame [OF g])
qed

lemma good_cancel: "good D W s \<Longrightarrow> good D W (fst (snd_cancel fileId r n s))"
proof (cases "map_get (fs_transfers s) fileId")
  case (Some a)
  assume g: "good D W s"
  have eq: "(\<lambda>t. t\<lparr>tr_cancelled := True, tr_status := SnCancelled, tr_reason := Some r\<rparr>) =
      (\<lambda>t. t\<lparr>tr_status := SnCancelled, tr_reason := Some r, tr_cancelled := True\<rparr>)"
    by (rule ext) simp
  have "fst (snd_cancel fileId r n s) =
      clearTimers a (updT a (\<lambda>t. t\<lparr>tr_cancelled := True, tr_status := SnCancelled, tr_reason := Some r\<rparr>) s)"
    using Some by (simp add: snd_cancel_def Let_def)
  then show ?thesis unfolding eq using good_close [OF g good_lookup(2) [OF g Some], of SnCancelled r] by simp
qed (simp add: snd_cancel_def)

lemma good_afterOffer:
  assumes g: "good D W s" and t: "AfterOffer a \<in> set (fs_tasks s)"
  shows "good D W (fst (afterOffer a r (s\<lparr>fs_tasks := remove1 (AfterOffer a) (fs_tasks s)\<rparr>)))"
proof -
  have g': "good D W (s\<lparr>fs_tasks := remove1 (AfterOffer a) (fs_tasks s)\<rparr>)"
    by (rule good_task [OF g t]) simp_all
  have "a < fs_next s" using snd_baseD(6) [OF goodD(2) [OF g] t] by simp
  then show ?thesis using g' good_close [OF g', of a SnFailed] by (simp add: afterOffer_def snd_fail_def Let_def)
qed

lemma good_pumpEnd:
  assumes g: "good D W s" and t: "PumpEnd a \<in> set (fs_tasks s)"
  shows "good D W (setPumping a False (s\<lparr>fs_tasks := remove1 (PumpEnd a) (fs_tasks s)\<rparr>))"
proof -
  let ?r = "s\<lparr>fs_tasks := remove1 (PumpEnd a) (fs_tasks s)\<rparr>"
  have g': "good D W ?r" by (rule good_task [OF g t]) simp_all
  have a: "a < fs_next ?r" using snd_baseD(6) [OF goodD(2) [OF g] t] by simp
  have "frameT a ?r (setPumping a False ?r)" unfolding setPumping_def by (rule frameT_upd) simp
  moreover have "D \<Longrightarrow> liveT a ?r \<Longrightarrow> prog a (setPumping a False ?r)"
    using goodD(4) [OF g'] a unfolding snd_prog_def prog_def isHeld_def Let_def by simp
  ultimately show ?thesis using snd_inv_setPumping [OF goodD(1) [OF g'] a] by (rule good_frame [OF g', rotated])
qed

text \<open>An unaccepted transfer has nothing in flight.\<close>

lemma unaccepted_idle: "tr_wf t \<Longrightarrow> tr_live W {} t \<Longrightarrow> \<not> tr_cancelled t \<Longrightarrow> \<not> tr_accepted t \<Longrightarrow> outstanding t = {} \<and> tr_inflight t = []"
  using tr_liveD(5) [of W "{}" t] outstanding_keys(2) [of t W] by (metis card.empty length_0_conv)

lemma good_accept:
  assumes g: "good D W s"
    and once: "\<And>a. D \<Longrightarrow> map_get (fs_transfers s) fileId = Some a \<Longrightarrow> \<not> tr_accepted (fs_objs s a)"
  shows "good D W (fst (snd_accept fileId s))"
proof (cases "map_get (fs_transfers s) fileId")
  case (Some a)
  note l = good_lookup [OF g Some]
  show ?thesis
  proof (cases "tr_cancelled (fs_objs s a)")
    case True
    then show ?thesis using g Some by (simp add: snd_accept_def)
  next
    case False
    let ?gp = "fs_globalPaused s"
    let ?f = "\<lambda>t. t\<lparr>tr_accepted := True, tr_status := (if ?gp then SnPaused else SnSending), tr_paused := ?gp,
      tr_reason := (if ?gp then Some ''Paused during voice'' else None)\<rparr>"
    have "snd_inv D W {} (updT a ?f s)"
    proof (rule snd_inv_upd [OF goodD(1) [OF g] l(2)])
      show "tr_live W {i. (a, i) \<in> {}} (?f (fs_objs s a))"
        using tr_live_status [OF tr_live_accept [OF l(6)], of SnPaused]
          tr_live_status [OF tr_live_accept [OF l(6)], of SnSending] False by simp
      assume D
      then have "tr_inflight (fs_objs s a) = []"
        using unaccepted_idle [OF l(5,6) False] once [OF _ Some] by simp
      then show "tr_paused (?f (fs_objs s a)) \<or> fs_globalPaused s \<or> {a} \<times> heldItems (fs_objs s a) \<subseteq> {}"
        by (simp add: heldItems_def)
    qed (use l(5) attached_no_digest [OF goodD(2) [OF g] l(1)] in simp_all)
    then have "good D W (fst (snd_pump a (updT a ?f s)))"
      using l(7) False once [OF _ Some]
      by (intro good_pump [OF g _ frameT_upd l(1,2)]) (auto simp: prog_def Let_def)
    then show ?thesis using False Some by (simp add: snd_accept_def Let_def split_def)
  qed
qed (use g in \<open>simp add: snd_accept_def\<close>)

subsection \<open>Pausing and resuming\<close>

lemma hold_item:
  assumes base: "snd_base W s" and a: "a < fs_next s" and held: "isHeld a s"
    and c: "map_get (tr_inflight (fs_objs s a)) i = Some c"
  shows "item_step a i s (setInflight a i (ic_attempts c) CsRetryWait None (clearInflightTimer (Some c) s))" (is "item_step a i s ?s")
proof -
  have "obj_step (\<lambda>r. r = (a, i)) (a, i) s ?s"
    by (rule obj_stepI) (auto simp: same_env_def tasks_step_def c intro: timers_step_cong [OF timers_clear [OF base a]])
  moreover have "driven a i \<lparr>ic_attempts = ic_attempts c, ic_state = CsRetryWait, ic_timer = None\<rparr> ?s"
    using held by (simp add: driven_def isHeld_def)
  ultimately show ?thesis by (rule item_stepI) (simp_all add: put_item_def)
qed

lemma hold_fold:
  assumes "snd_inv D W {} s" and "a < fs_next s" and "isHeld a s" and "\<not> tr_cancelled (fs_objs s a)"
    and "\<And>i c. (i, c) \<in> set m \<Longrightarrow> map_get (tr_inflight (fs_objs s a)) i = Some c" and "distinct (map fst m)"
    and "fold (\<lambda>(index, item). setInflight a index (ic_attempts item) CsRetryWait None \<circ> clearInflightTimer (Some item)) m s = s'"
  shows "snd_inv D W {} s' \<and> frameT a s s' \<and> (prog a s \<longrightarrow> prog a s')"
  using assms
proof (induction m arbitrary: s)
  case Nil
  then show ?case by simp
next
  case (Cons p m)
  obtain i c where p: "p = (i, c)" by (cases p)
  let ?r = "setInflight a i (ic_attempts c) CsRetryWait None (clearInflightTimer (Some c) s)"
  have base: "snd_base W s" using Cons.prems(1) by (simp add: snd_inv_def)
  have c: "map_get (tr_inflight (fs_objs s a)) i = Some c" using Cons.prems(5) p by simp
  have wf: "tr_wf (fs_objs s a)" by (rule snd_baseD(4) [OF base Cons.prems(2)])
  have na: "i \<notin> tr_acked (fs_objs s a)" using wf map_get_keyset [OF c] by (auto simp: tr_wf_def)
  have it: "item_step a i s ?r" by (rule hold_item [OF base Cons.prems(2,3) c])
  have ch: "chunk_step a i s ?r" using it na Cons.prems(4) by (simp add: chunk_step_def)
  have "snd_inv D W {(a, i)} s" using Cons.prems(1) by (rule snd_inv_mono) simp
  then have inv: "snd_inv D W {} ?r" using ref_inflight [OF wf Cons.prems(2) c] by (rule snd_inv_chunk_end [OF _ ch])
  have pres: "j \<in> set m \<Longrightarrow> map_get (tr_inflight (fs_objs ?r a)) (fst j) = Some (snd j)" for j
    using Cons.prems(5) [of "fst j" "snd j"] Cons.prems(6) p by (force simp: js_simps)
  have IH: "snd_inv D W {} s' \<and> frameT a ?r s' \<and> (prog a ?r \<longrightarrow> prog a s')"
    using Cons.prems(2-4,6,7) p inv pres by (intro Cons.IH) (auto simp: isHeld_def)
  show ?case using IH frameT_trans [OF frameT_chunk [OF ch]] prog_chunk [OF ch] by blast
qed

lemma hold_inv:
  assumes "snd_inv D W {} s" and "a < fs_next s" and "isHeld a s" and "\<not> tr_cancelled (fs_objs s a)"
  shows "snd_inv D W {} (holdOutstanding a s) \<and> frameT a s (holdOutstanding a s) \<and>
    (prog a s \<longrightarrow> prog a (holdOutstanding a s))"
proof -
  have "wf_map (tr_inflight (fs_objs s a))"
    using snd_baseD(4) [of W s a] assms(1,2) by (simp add: snd_inv_def tr_wf_def)
  then show ?thesis
    using assms unfolding holdOutstanding_def by (intro hold_fold [OF assms _ _ refl]) (simp_all add: wf_map_def)
qed

lemma good_hold:
  assumes g: "good D W s" and at: "attached a s" "a < fs_next s" "\<not> tr_cancelled (fs_objs s a)"
    and nc: "tr_status (fs_objs s a) \<noteq> SnCompleted"
  shows "good D W (holdOutstanding a (updT a (\<lambda>t. t\<lparr>tr_paused := True, tr_status := SnPaused, tr_reason := r\<rparr>) s))"
proof -
  let ?r = "updT a (\<lambda>t. t\<lparr>tr_paused := True, tr_status := SnPaused, tr_reason := r\<rparr>) s"
  note l = snd_inv_live [OF goodD(1) [OF g] at(1,2)]
  have i: "snd_inv D W {} ?r"
    using tr_live_status [of W "{}" "(fs_objs s a)\<lparr>tr_paused := True\<rparr>" SnPaused] l at(3) by (intro snd_inv_upd [OF goodD(1) [OF g] at(2)]) simp_all
  have f: "frameT a s ?r" by (rule frameT_upd) simp
  have p: "D \<Longrightarrow> prog a ?r"
    using goodD(4) [OF g] at nc by (auto simp: snd_prog_def prog_def isHeld_def liveT_def Let_def)
  have h: "snd_inv D W {} (holdOutstanding a ?r) \<and> frameT a ?r (holdOutstanding a ?r) \<and>
      (prog a ?r \<longrightarrow> prog a (holdOutstanding a ?r))"
    using at by (intro hold_inv [OF i]) (simp_all add: isHeld_def)
  show ?thesis using h p frameT_trans [OF f] by (intro good_frame [OF g]) blast+
qed

lemma good_pause: "good D W s \<Longrightarrow> good D W (fst (snd_pause fileId r s))"
proof (cases "map_get (fs_transfers s) fileId")
  case (Some a)
  assume g: "good D W s"
  note l = good_lookup [OF g Some]
  show ?thesis
  proof (cases "closed (tr_status (fs_objs s a))")
    case False
    then have "\<not> tr_cancelled (fs_objs s a)" "tr_status (fs_objs s a) \<noteq> SnCompleted"
      using tr_liveD(1) [OF l(6)] by (auto simp: closed_def)
    then show ?thesis using False Some good_hold [OF g l(1,2)] by (simp add: snd_pause_def Let_def)
  qed (use g Some in \<open>simp add: snd_pause_def\<close>)
qed (simp add: snd_pause_def)

text \<open>The loop of \<^verbatim>\<open>resumeOutstanding\<close>: the held entries of \<open>a\<close> are exempt until they are sent.\<close>

lemma resumeItem_step:
  assumes inv: "snd_inv D W X s" and a: "a < fs_next s" and X: "\<And>i. (a, i) \<in> X \<Longrightarrow> i \<in> heldItems (fs_objs s a)"
    and r: "fst (resumeItem a k (s, es)) = s'"
  shows "snd_inv D W (X - {(a, k)}) s' \<and> frameT a s s' \<and> (prog a s \<longrightarrow> prog a s') \<and>
    (tr_cancelled (fs_objs s' a) \<or> (\<forall>i. (a, i) \<in> X - {(a, k)} \<longrightarrow> i \<in> heldItems (fs_objs s' a))) \<and>
    (\<not> tr_cancelled (fs_objs s' a) \<longrightarrow> tr_paused (fs_objs s' a) = tr_paused (fs_objs s a) \<and>
      tr_status (fs_objs s' a) = tr_status (fs_objs s a)) \<and> tr_pumping (fs_objs s' a) = tr_pumping (fs_objs s a)"
proof (cases "k \<in> heldItems (fs_objs s a)")
  case False
  then have s': "s' = s" using r by (auto simp: resumeItem_def heldItems_def split: option.splits)
  moreover have "X - {(a, k)} = X" using X False by auto
  ultimately show ?thesis using inv X by auto
next
  case True
  then obtain c where c: "map_get (tr_inflight (fs_objs s a)) k = Some c" "ic_state c = CsRetryWait" "ic_timer c = None"
    by (auto simp: heldItems_def)
  have base: "snd_base W s" using inv by (simp add: snd_inv_def)
  have s': "s' = fst (sendChunk a k (ic_attempts c + 1) s)"
    using r c by (simp add: resumeItem_def split_def Let_def)
  have wf: "tr_wf (fs_objs s a)" by (rule snd_baseD(4) [OF base a])
  have st: "chunk_step a k s s'" unfolding s' by (rule sendChunk_step [OF base a])
  have "snd_inv D W (insert (a, k) X) s" using inv by (rule snd_inv_mono) blast
  then have "snd_inv D W (X - {(a, k)}) s'" using ref_inflight [OF wf a c(1)] by (rule snd_inv_chunk [OF _ st])
  moreover have "tr_cancelled (fs_objs s' a) \<or> (\<forall>i. (a, i) \<in> X - {(a, k)} \<longrightarrow> i \<in> heldItems (fs_objs s' a))"
  proof -
    have "fs_objs s' a = fs_objs s a \<or> tr_cancelled (fs_objs s' a) \<or> (\<exists>d r. fs_objs s' a = put_item a k d r s)"
      using st unfolding chunk_step_def item_step_def fail_step_def by auto
    moreover have "i \<in> heldItems (put_item a k d r s)" if "i \<in> heldItems (fs_objs s a)" "i \<noteq> k" for i d r
      using that by (simp add: heldItems_def put_item_def js_simps)
    ultimately show ?thesis using X by auto
  qed
  moreover have "(\<not> tr_cancelled (fs_objs s' a) \<longrightarrow> tr_paused (fs_objs s' a) = tr_paused (fs_objs s a) \<and>
      tr_status (fs_objs s' a) = tr_status (fs_objs s a)) \<and> tr_pumping (fs_objs s' a) = tr_pumping (fs_objs s a)"
    using st unfolding chunk_step_def item_step_def fail_step_def by (auto simp: put_item_def)
  ultimately show ?thesis using frameT_chunk [OF st] prog_chunk [OF st] by blast
qed

lemma snd_inv_drop:
  assumes inv: "snd_inv D W X s" and a: "a < fs_next s"
    and no: "liveT a s \<Longrightarrow> tr_inflight (fs_objs s a) = [] \<and> (tr_cancelled (fs_objs s a) \<or> outstanding (fs_objs s a) = {})"
  shows "snd_inv D W (X - {a} \<times> UNIV) s"
proof -
  have live: "snd_live D W X s" using inv by (simp add: snd_inv_def)
  have "snd_live D W (X - {a} \<times> UNIV) s"
  proof (rule snd_liveI)
    fix b assume b: "b < fs_next s" "liveT b s"
    then show "tr_live W {i. (b, i) \<in> X - {a} \<times> UNIV} (fs_objs s b)"
      using snd_liveD(1) [OF live b] no by (cases "b = a") (auto simp: tr_live_def)
  next
    fix b i c assume b: "b < fs_next s" "liveT b s" and D "(b, i) \<notin> X - {a} \<times> UNIV"
      and c: "map_get (tr_inflight (fs_objs s b)) i = Some c"
    then have "(b, i) \<notin> X" using no by auto
    then show "driven b i c s" using snd_liveD(2) [OF live b \<open>D\<close> _ c] by simp
  qed
  then show ?thesis using inv by (simp add: snd_inv_def)
qed

lemma resume_fold:
  assumes "snd_inv D W X s" and "a < fs_next s"
    and "tr_cancelled (fs_objs s a) \<or> (\<forall>i. (a, i) \<in> X \<longrightarrow> i \<in> heldItems (fs_objs s a) \<and> i \<in> set ks)"
    and "fst (fold (resumeItem a) ks (s, es)) = s'"
  shows "snd_inv D W (X - {a} \<times> UNIV) s' \<and> frameT a s s' \<and> (prog a s \<longrightarrow> prog a s') \<and>
    (\<not> tr_cancelled (fs_objs s' a) \<longrightarrow> \<not> tr_cancelled (fs_objs s a) \<and> tr_paused (fs_objs s' a) = tr_paused (fs_objs s a) \<and>
      tr_status (fs_objs s' a) = tr_status (fs_objs s a)) \<and> tr_pumping (fs_objs s' a) = tr_pumping (fs_objs s a)"
  using assms
proof (induction ks arbitrary: X s es)
  case Nil
  have "liveT a s \<Longrightarrow> tr_cancelled (fs_objs s a) \<Longrightarrow> tr_inflight (fs_objs s a) = []"
    using Nil.prems(1,2) snd_liveD(1) [of D W X s a] tr_liveD(1) by (auto simp: snd_inv_def)
  moreover have "X - {a} \<times> UNIV = X" if "\<not> tr_cancelled (fs_objs s a)" using Nil.prems(3) that by auto
  ultimately have "snd_inv D W (X - {a} \<times> UNIV) s"
    using Nil.prems(1) snd_inv_drop [OF Nil.prems(1,2)] by (cases "tr_cancelled (fs_objs s a)") auto
  then show ?case using Nil.prems(4) by simp
next
  case (Cons k ks)
  show ?case
  proof (cases "tr_cancelled (fs_objs s a)")
    case True
    have same: "fst (resumeItem a k (s, es)) = s"
      using True by (simp add: resumeItem_def sendChunk_def Let_def split: option.splits)
    have "snd_inv D W (X - {a} \<times> UNIV) s' \<and> frameT a s s' \<and> (prog a s \<longrightarrow> prog a s') \<and>
      (\<not> tr_cancelled (fs_objs s' a) \<longrightarrow> \<not> tr_cancelled (fs_objs s a) \<and> tr_paused (fs_objs s' a) = tr_paused (fs_objs s a) \<and>
      tr_status (fs_objs s' a) = tr_status (fs_objs s a)) \<and> tr_pumping (fs_objs s' a) = tr_pumping (fs_objs s a)"
      using Cons.prems True same prod.collapse [of "resumeItem a k (s, es)"]
      by (intro Cons.IH [of X s "snd (resumeItem a k (s, es))"]) simp_all
    then show ?thesis .
  next
    case False
    let ?r = "fst (resumeItem a k (s, es))" and ?e = "snd (resumeItem a k (s, es))"
    have X: "\<And>i. (a, i) \<in> X \<Longrightarrow> i \<in> heldItems (fs_objs s a)" using Cons.prems(3) False by simp
    note step = resumeItem_step [OF Cons.prems(1,2) X refl, of k es]
    have IH: "snd_inv D W (X - {(a, k)} - {a} \<times> UNIV) s' \<and> frameT a ?r s' \<and> (prog a ?r \<longrightarrow> prog a s') \<and>
      (\<not> tr_cancelled (fs_objs s' a) \<longrightarrow> \<not> tr_cancelled (fs_objs ?r a) \<and> tr_paused (fs_objs s' a) = tr_paused (fs_objs ?r a) \<and>
      tr_status (fs_objs s' a) = tr_status (fs_objs ?r a)) \<and> tr_pumping (fs_objs s' a) = tr_pumping (fs_objs ?r a)"
    proof (rule Cons.IH [of "X - {(a, k)}" ?r ?e])
      show "a < fs_next ?r" using step Cons.prems(2) by (simp add: frameT_def same_env_def)
      show "tr_cancelled (fs_objs ?r a) \<or> (\<forall>i. (a, i) \<in> X - {(a, k)} \<longrightarrow> i \<in> heldItems (fs_objs ?r a) \<and> i \<in> set ks)"
        using step Cons.prems(3) False by auto
    qed (use step Cons.prems(4) in simp_all)
    have "X - {(a, k)} - {a} \<times> UNIV = X - {a} \<times> UNIV" by auto
    then show ?thesis using IH step frameT_trans [of a s ?r s'] False by auto
  qed
qed

text \<open>Resuming one transfer, in a state in which all its held entries, and perhaps others', are exempt.\<close>

lemma resume_inv:
  assumes inv: "snd_inv D W X s" and at: "attached a s" "a < fs_next s"
    and X: "\<And>i. (a, i) \<in> X \<Longrightarrow> i \<in> heldItems (fs_objs s a)" and nh: "\<not> isHeld a s" and nc: "\<not> tr_cancelled (fs_objs s a)"
    and s1: "s1 = fst (fold (resumeItem a) (map_keys (tr_inflight (fs_objs s a))) (s, []))"
  shows "snd_inv D W (X - {a} \<times> UNIV) s1" and "frameT a s s1"
    and "\<not> tr_cancelled (fs_objs s1 a) \<Longrightarrow> tr_status (fs_objs s1 a) = tr_status (fs_objs s a)"
    and "tr_pumping (fs_objs s1 a) = tr_pumping (fs_objs s a)"
    and "fst (resumeOutstanding a s) = fst (snd_pump a s1)"
proof -
  have "i \<in> set (map_keys (tr_inflight (fs_objs s a)))" if "(a, i) \<in> X" for i
    using X [OF that] map_get_keyset [of "tr_inflight (fs_objs s a)" i] by (auto simp: heldItems_def keyset_def)
  then have "tr_cancelled (fs_objs s a) \<or>
      (\<forall>i. (a, i) \<in> X \<longrightarrow> i \<in> heldItems (fs_objs s a) \<and> i \<in> set (map_keys (tr_inflight (fs_objs s a))))"
    using X by simp
  note f = resume_fold [OF inv at(2) this s1 [symmetric]]
  show "snd_inv D W (X - {a} \<times> UNIV) s1" "frameT a s s1"
    "\<not> tr_cancelled (fs_objs s1 a) \<Longrightarrow> tr_status (fs_objs s1 a) = tr_status (fs_objs s a)"
    "tr_pumping (fs_objs s1 a) = tr_pumping (fs_objs s a)" using f by simp_all
  show "fst (resumeOutstanding a s) = fst (snd_pump a s1)"
    using nh nc by (simp add: resumeOutstanding_def s1 Let_def split_def)
qed

text \<open>Unpausing a transfer and resuming it, from a state in which its held entries are exempt.\<close>

lemma good_resumeOutstanding:
  assumes g: "good D W s" and inv: "snd_inv D W ({a} \<times> heldItems (fs_objs s1 a)) s1" and fr: "frameT a s s1"
    and at: "attached a s" "a < fs_next s" and nc: "\<not> tr_cancelled (fs_objs s1 a)" and nh: "\<not> isHeld a s1"
    and np: "D \<Longrightarrow> \<not> tr_pumping (fs_objs s1 a)"
  shows "good D W (fst (resumeOutstanding a s1))"
proof -
  have at1: "attached a s1" "a < fs_next s1"
    using at frameT_live(1) [OF fr] fr by (simp_all add: frameT_def same_env_def)
  have X: "\<And>i. (a, i) \<in> {a} \<times> heldItems (fs_objs s1 a) \<Longrightarrow> i \<in> heldItems (fs_objs s1 a)" by simp
  let ?q = "fst (fold (resumeItem a) (map_keys (tr_inflight (fs_objs s1 a))) (s1, []))"
  have e: "{a} \<times> heldItems (fs_objs s1 a) - {a} \<times> UNIV = {}" by auto
  note r = resume_inv [OF inv at1 X nh nc, of ?q]
  have q: "snd_inv D W {} ?q" "frameT a s1 ?q" "tr_pumping (fs_objs ?q a) = tr_pumping (fs_objs s1 a)"
    "fst (resumeOutstanding a s1) = fst (snd_pump a ?q)"
    using r(1,2,4,5) e by simp_all
  have "good D W (fst (snd_pump a ?q))"
    using q np by (intro good_pump [OF g _ frameT_trans [OF fr q(2)] at]) simp_all
  then show ?thesis by (simp add: q(4))
qed

lemma heldItems_flags [simp]:
  "heldItems (t\<lparr>tr_paused := b\<rparr>) = heldItems t" "heldItems (t\<lparr>tr_status := st\<rparr>) = heldItems t"
  "heldItems (t\<lparr>tr_reason := r\<rparr>) = heldItems t"
  by (simp_all add: heldItems_def)

lemma good_resume: "good D W s \<Longrightarrow> good D W (fst (snd_resume fileId s))"
proof (cases "map_get (fs_transfers s) fileId")
  case (Some a)
  assume g: "good D W s"
  note l = good_lookup [OF g Some]
  let ?t = "fs_objs s a"
  show ?thesis
  proof (cases "tr_status ?t = SnPaused")
    case False
    then show ?thesis using g Some by (simp add: snd_resume_def)
  next
    case True
    have nc: "\<not> tr_cancelled ?t" using tr_liveD(1) [OF l(6)] True by auto
    let ?f = "\<lambda>t. t\<lparr>tr_paused := False, tr_status := (if tr_accepted t then SnSending else SnOffered),
      tr_reason := (if tr_accepted t then None else Some ''Waiting for peer acceptance'')\<rparr>"
    let ?r = "updT a ?f s"
    let ?X = "if fs_globalPaused s then {} else {a} \<times> heldItems ?t"
    have st: "tr_live W {i. (a, i) \<in> ?X} (?f ?t)"
    proof -
      have u: "\<not> tr_accepted ?t \<Longrightarrow> outstanding ?t = {}" using unaccepted_idle [OF l(5,6) nc] by simp
      have "tr_live W {i. (a, i) \<in> ?X} ?t" by (rule tr_live_mono [OF l(6)]) simp
      then show ?thesis
        using tr_live_status [of W "{i. (a, i) \<in> ?X}" "?t\<lparr>tr_paused := False\<rparr>" SnSending]
          tr_live_status [of W "{i. (a, i) \<in> ?X}" "?t\<lparr>tr_paused := False\<rparr>" SnOffered] nc u
        by (cases "tr_accepted ?t") simp_all
    qed
    have inv: "snd_inv D W ?X ?r"
      using st l(5) by (intro snd_inv_upd [OF goodD(1) [OF g] l(2)]) (auto simp: isHeld_def)
    have fr: "frameT a s ?r" by (rule frameT_upd) simp
    have np: "D \<Longrightarrow> \<not> tr_pumping ?t" using l(7) nc True by (auto simp: prog_def Let_def)
    have "good D W (fst (resumeOutstanding a ?r))"
    proof (cases "fs_globalPaused s")
      case True
      then have "good D W ?r"
        using inv np by (intro good_frame [OF g _ fr]) (auto simp: prog_def isHeld_def)
      then show ?thesis using True by (simp add: resumeOutstanding_def isHeld_def)
    next
      case False
      then have "\<not> isHeld a ?r" by (simp add: isHeld_def)
      then show ?thesis
        using inv nc np False by (intro good_resumeOutstanding [OF g _ fr l(1,2)]) simp_all
    qed
    then show ?thesis using True Some by (simp add: snd_resume_def Let_def split_def)
  qed
qed (simp add: snd_resume_def)

lemma good_start: "good D W s \<Longrightarrow> good D W (fst (startQueued fileId s))"
proof (cases "map_get (fs_transfers s) fileId")
  case (Some a)
  assume g: "good D W s"
  note l = good_lookup [OF g Some]
  let ?t = "fs_objs s a"
  let ?f = "\<lambda>t. t\<lparr>tr_status := SnOffered, tr_paused := False, tr_reason := Some ''Waiting for peer acceptance''\<rparr>"
  let ?r = "updT a ?f s"
  show ?thesis
  proof (cases "tr_cancelled ?t \<or> tr_status ?t \<noteq> SnQueued")
    case True
    then show ?thesis using g Some by (auto simp: startQueued_def)
  next
    case False
    then have out: "outstanding ?t = {}" using tr_liveD(5) [OF l(6)] by auto
    then have "tr_inflight ?t = []" using outstanding_keys(2) [OF l(5,6)] False by auto
    then have "snd_inv D W {} ?r"
      using tr_live_status [OF l(6), of SnOffered] False out l(5)
      by (intro snd_inv_upd [OF goodD(1) [OF g] l(2)]) (auto simp: heldItems_def)
    then have "snd_inv D W {} (await (AfterOffer a) ?r)" by (rule snd_inv_await) (use l(2) in simp_all)
    moreover have "frameT a s (await (AfterOffer a) ?r)" by (simp add: frameT_def same_env_def)
    moreover have "D \<Longrightarrow> prog a (await (AfterOffer a) ?r)"
      using l(7) False by (auto simp: prog_def Let_def)
    ultimately have "good D W (await (AfterOffer a) ?r)" by (blast intro: good_frame [OF g])
    then show ?thesis using False Some by (simp add: startQueued_def sendOffer_def Let_def)
  qed
qed (simp add: startQueued_def)

subsection \<open>The global pause\<close>

lemma good_globalPause_on:
  assumes g: "good D W s"
  shows "good D W (s\<lparr>fs_globalPaused := True\<rparr>)" (is "good D W ?s")
proof -
  have at: "attached b ?s = attached b s" for b by (simp add: attached_def)
  have lv: "liveT b ?s = liveT b s" for b by (simp add: liveT_def at)
  have tk: "staskOk ?s u = staskOk s u" for u by (cases u) (simp_all add: ref_ok_def at)
  have rf: "ref_ok ?s r = ref_ok s r" for r by (simp add: ref_ok_def)
  have ow: "owned b ?s = owned b s" for b by (simp add: owned_def)
  have dr: "driven a i c s \<Longrightarrow> driven a i c ?s" for a i c
    by (auto simp: driven_def isHeld_def split: ChunkState.splits option.splits)
  have "snd_base W ?s"
    using goodD(2) [OF g] by (simp add: snd_base_def tk rf ow)
  moreover have "snd_live D W {} ?s" using goodD(3) [OF g] dr by (simp add: snd_live_def lv)
  moreover have "D \<Longrightarrow> snd_prog ?s"
    using goodD(4) [OF g] by (auto simp: snd_prog_def prog_def isHeld_def lv Let_def)
  ultimately show ?thesis by (simp add: good_def snd_inv_def)
qed

lemma pauseOn_fold:
  assumes "good D W s" and "\<And>i a. (i, a) \<in> set ps \<Longrightarrow> attached a s \<and> a < fs_next s"
  shows "good D W (fst (fold (\<lambda>(i, a). pauseTransfer True reason a) ps (s, es)))"
  using assms
proof (induction ps arbitrary: s es)
  case Nil
  then show ?case by simp
next
  case (Cons p ps)
  obtain i a where p: "p = (i, a)" by (cases p)
  let ?r = "fst (pauseTransfer True reason a (s, es))" and ?e = "snd (pauseTransfer True reason a (s, es))"
  have at: "attached a s" "a < fs_next s" using Cons.prems(2) [of i a] p by simp_all
  have r: "good D W ?r \<and> frameT a s ?r"
  proof (cases "tr_status (fs_objs s a) = SnSending \<or> tr_status (fs_objs s a) = SnPaused")
    case True
    have nc: "\<not> tr_cancelled (fs_objs s a)"
      using tr_liveD(1) [OF snd_inv_live(2) [OF goodD(1) [OF Cons.prems(1)] at]] True by auto
    let ?u = "updT a (\<lambda>t. t\<lparr>tr_paused := True, tr_status := SnPaused, tr_reason := Some reason\<rparr>) s"
    have e: "?r = holdOutstanding a ?u" using True by (auto simp: pauseTransfer_def Let_def)
    have "snd_inv D W {} ?u"
      using tr_live_status [of W "{}" "(fs_objs s a)\<lparr>tr_paused := True\<rparr>" SnPaused] nc
        snd_inv_live [OF goodD(1) [OF Cons.prems(1)] at]
      by (intro snd_inv_upd [OF goodD(1) [OF Cons.prems(1)] at(2)]) simp_all
    then have "frameT a ?u (holdOutstanding a ?u)"
      using hold_inv [of D W ?u a] at nc by (simp add: isHeld_def)
    then have "frameT a s ?r" unfolding e by (rule frameT_trans [OF frameT_upd, rotated]) simp
    then show ?thesis using good_hold [OF Cons.prems(1) at nc, of "Some reason"] True e by auto
  qed (use Cons.prems(1) in \<open>auto simp: pauseTransfer_def\<close>)
  have "good D W (fst (fold (\<lambda>(i, a). pauseTransfer True reason a) ps (?r, ?e)))"
  proof (rule Cons.IH)
    fix j b assume "(j, b) \<in> set ps"
    then show "attached b ?r \<and> b < fs_next ?r"
      using Cons.prems(2) [of j b] r frameT_live(1) [of a s ?r] by (auto simp: frameT_def same_env_def)
  qed (use r in simp)
  then show ?case using p by simp
qed

lemma idle_inflight:
  assumes "tr_wf t" and "tr_live W X t" and "X \<subseteq> keyset (tr_inflight t)"
    and "tr_status t \<noteq> SnSending" and "tr_status t \<noteq> SnPaused"
  shows "tr_inflight t = []"
proof (cases "tr_cancelled t")
  case True
  then show ?thesis using tr_liveD(1) [OF assms(2)] by simp
next
  case False
  have "outstanding t \<subseteq> keyset (tr_inflight t)" using tr_liveD(4) [OF assms(2) False] assms(3) by blast
  then have "tr_live W {} t" using assms(2) False by (simp add: tr_live_def)
  then show ?thesis
    using tr_liveD(5) [OF assms(2) False] assms(4,5) outstanding_keys(2) [OF assms(1) _ False] by (metis card.empty length_0_conv)
qed

lemma heldItems_keys: "heldItems t \<subseteq> keyset (tr_inflight t)"
  using map_get_keyset [of "tr_inflight t"] by (auto simp: heldItems_def)

text \<open>One turn of the loop of \<^verbatim>\<open>setGlobalPaused(false)\<close>.\<close>

lemma pauseOff_step:
  assumes inv: "snd_inv D W X s" and at: "attached a s" "a < fs_next s" and gp: "\<not> fs_globalPaused s"
    and X: "\<And>i. (a, i) \<in> X \<longleftrightarrow> i \<in> heldItems (fs_objs s a)"
    and pu: "D \<Longrightarrow> tr_pumping (fs_objs s a) \<Longrightarrow> \<not> tr_cancelled (fs_objs s a) \<Longrightarrow>
      tr_accepted (fs_objs s a) \<and> tr_status (fs_objs s a) = SnCompleted"
    and r: "s' = fst (pauseTransfer False reason a (s, es))"
  shows "snd_inv D W (X - {a} \<times> UNIV) s' \<and> frameT a s s' \<and> (D \<longrightarrow> prog a s')"
proof (cases "tr_status (fs_objs s a) = SnSending \<or> tr_status (fs_objs s a) = SnPaused")
  case False
  then have s': "s' = s" using r by (simp add: pauseTransfer_def)
  note l = snd_inv_live [OF inv at]
  have "tr_inflight (fs_objs s a) = []"
    using idle_inflight [OF l] X heldItems_keys [of "fs_objs s a"] False by auto
  then have "X - {a} \<times> UNIV = X" using X by (auto simp: heldItems_def)
  then show ?thesis using inv pu False s' by (auto simp: prog_def Let_def)
next
  case True
  note l = snd_inv_live [OF inv at]
  let ?t = "fs_objs s a"
  let ?u = "updT a (\<lambda>t. t\<lparr>tr_paused := False, tr_status := SnSending, tr_reason := None\<rparr>) s"
  have nc: "\<not> tr_cancelled ?t" using tr_liveD(1) [OF l(2)] True by auto
  have inv1: "snd_inv D W X ?u"
    using tr_live_status [of W "{i. (a, i) \<in> X}" "?t\<lparr>tr_paused := False\<rparr>" SnSending] nc l X
    by (intro snd_inv_upd [OF inv at(2)]) auto
  have fr: "frameT a s ?u" by (rule frameT_upd) simp
  have at1: "attached a ?u" "a < fs_next ?u" using at frameT_live(1) [OF fr] by simp_all
  have nh: "\<not> isHeld a ?u" "\<not> tr_cancelled (fs_objs ?u a)" using gp nc by (simp_all add: isHeld_def)
  let ?q = "fst (fold (resumeItem a) (map_keys (tr_inflight (fs_objs ?u a))) (?u, []))"
  have Xu: "\<And>i. (a, i) \<in> X \<Longrightarrow> i \<in> heldItems (fs_objs ?u a)" using X by simp
  note res = resume_inv [OF inv1 at1 Xu nh, of ?q]
  have q: "snd_inv D W (X - {a} \<times> UNIV) ?q" "frameT a ?u ?q" "tr_pumping (fs_objs ?q a) = tr_pumping ?t"
    "fst (resumeOutstanding a ?u) = fst (snd_pump a ?q)"
    using res(1,2,4,5) by simp_all
  have fq: "frameT a s ?q" by (rule frameT_trans [OF fr q(2)])
  have atq: "attached a ?q" "a < fs_next ?q" using at frameT_live(1) [OF fq] fq by (simp_all add: frameT_def same_env_def)
  have s': "s' = fst (snd_pump a ?q)"
    using r True q(4) by (auto simp: pauseTransfer_def Let_def split_def)
  have nX: "(a, i) \<notin> X - {a} \<times> UNIV" for i by simp
  have np: "D \<Longrightarrow> \<not> tr_pumping (fs_objs ?q a)" using pu nc True q(3) by auto
  show ?thesis
    unfolding s'
    using snd_inv_pump [OF q(1) nX atq] prog_pump [OF q(1) nX atq] np frameT_trans [OF fq] by auto
qed

lemma pauseOff_fold:
  assumes "snd_inv D W X s" and "\<not> fs_globalPaused s"
    and "\<And>j a. (j, a) \<in> set ps \<Longrightarrow> attached a s \<and> a < fs_next s \<and> (\<forall>i. (a, i) \<in> X \<longleftrightarrow> i \<in> heldItems (fs_objs s a)) \<and>
      (D \<longrightarrow> tr_pumping (fs_objs s a) \<longrightarrow> \<not> tr_cancelled (fs_objs s a) \<longrightarrow>
        tr_accepted (fs_objs s a) \<and> tr_status (fs_objs s a) = SnCompleted)"
    and "\<And>b. b < fs_next s \<Longrightarrow> liveT b s \<Longrightarrow> b \<notin> set (map snd ps) \<Longrightarrow> (\<forall>i. (b, i) \<notin> X) \<and> (D \<longrightarrow> prog b s)"
    and "distinct (map snd ps)"
  shows "good D W (fst (fold (\<lambda>(i, a). pauseTransfer False reason a) ps (s, es)))"
  using assms
proof (induction ps arbitrary: X s es)
  case Nil
  have "snd_live D W X s" using Nil.prems(1) by (simp add: snd_inv_def)
  moreover have "{i. (b, i) \<in> X} = {}" if "b < fs_next s" "liveT b s" for b using Nil.prems(4) [of b] that by simp
  ultimately have "snd_live D W {} s" using Nil.prems(4) by (auto simp: snd_live_def)
  then show ?case using Nil.prems(1,4) by (simp add: good_def snd_inv_def snd_prog_def)
next
  case (Cons p ps)
  obtain j a where p: "p = (j, a)" by (cases p)
  let ?r = "fst (pauseTransfer False reason a (s, es))" and ?e = "snd (pauseTransfer False reason a (s, es))"
  have a: "attached a s \<and> a < fs_next s \<and> (\<forall>i. (a, i) \<in> X \<longleftrightarrow> i \<in> heldItems (fs_objs s a)) \<and>
      (D \<longrightarrow> tr_pumping (fs_objs s a) \<longrightarrow> \<not> tr_cancelled (fs_objs s a) \<longrightarrow>
        tr_accepted (fs_objs s a) \<and> tr_status (fs_objs s a) = SnCompleted)"
    using Cons.prems(3) [of j a] p by simp
  have r: "snd_inv D W (X - {a} \<times> UNIV) ?r \<and> frameT a s ?r \<and> (D \<longrightarrow> prog a ?r)"
    using a by (intro pauseOff_step [OF Cons.prems(1) _ _ Cons.prems(2)]) auto
  have fr: "frameT a s ?r" using r by simp
  have env: "fs_next ?r = fs_next s" "fs_globalPaused ?r = fs_globalPaused s" "\<And>b. b \<noteq> a \<Longrightarrow> fs_objs ?r b = fs_objs s b"
    using fr by (simp_all add: frameT_def same_env_def)
  have na: "a \<notin> snd ` set ps" using Cons.prems(5) p by simp
  have "good D W (fst (fold (\<lambda>(i, a). pauseTransfer False reason a) ps (?r, ?e)))"
  proof (rule Cons.IH [of "X - {a} \<times> UNIV"])
    fix k b assume b: "(k, b) \<in> set ps"
    then have "b \<noteq> a" using na by force
    then show "attached b ?r \<and> b < fs_next ?r \<and> (\<forall>i. (b, i) \<in> X - {a} \<times> UNIV \<longleftrightarrow> i \<in> heldItems (fs_objs ?r b)) \<and>
      (D \<longrightarrow> tr_pumping (fs_objs ?r b) \<longrightarrow> \<not> tr_cancelled (fs_objs ?r b) \<longrightarrow>
        tr_accepted (fs_objs ?r b) \<and> tr_status (fs_objs ?r b) = SnCompleted)"
      using Cons.prems(3) [of k b] b env frameT_live(1) [OF fr] by simp
  next
    fix b assume b: "b < fs_next ?r" "liveT b ?r" "b \<notin> set (map snd ps)"
    show "(\<forall>i. (b, i) \<notin> X - {a} \<times> UNIV) \<and> (D \<longrightarrow> prog b ?r)"
    proof (cases "b = a")
      case False
      have "(\<forall>i. (b, i) \<notin> X) \<and> (D \<longrightarrow> prog b s)"
        using Cons.prems(4) [of b] b False env frameT_live(2) [OF fr] p by simp
      then show ?thesis using env False by (auto simp: prog_def isHeld_def)
    qed (use r in auto)
  qed (use r Cons.prems(2,5) env p in auto)
  then show ?case using p by simp
qed

lemma digest_idle:
  assumes base: "snd_base W s" and b: "liveT b s" "\<not> attached b s"
  shows "tr_inflight (fs_objs s b) = []" and "\<not> tr_accepted (fs_objs s b)"
proof -
  obtain q where t: "OfferDigest b q \<in> set (fs_tasks s)" using b by (auto simp: liveT_def digestAddrs_iff)
  have st: "b < fs_next s \<and> tr_nextIndex (fs_objs s b) = 0 \<and> \<not> tr_accepted (fs_objs s b)"
    using snd_baseD(6) [OF base t] by simp
  then have "keyset (tr_inflight (fs_objs s b)) = {}"
    using snd_baseD(4) [OF base, of b] by (auto simp: tr_wf_def)
  then show "tr_inflight (fs_objs s b) = []" by (simp add: keyset_def)
  show "\<not> tr_accepted (fs_objs s b)" using st by simp
qed

lemma good_globalPause: "good D W s \<Longrightarrow> good D W (fst (setGlobalPaused paused reason s))"
proof (cases paused)
  case True
  assume g: "good D W s"
  have wf: "wf_map (fs_transfers s)" by (rule snd_baseD(2) [OF goodD(2) [OF g]])
  have "attached a (s\<lparr>fs_globalPaused := True\<rparr>) \<and> a < fs_next (s\<lparr>fs_globalPaused := True\<rparr>)"
    if "(i, a) \<in> set (fs_transfers s)" for i a
    using that wf good_lookup(1,2) [OF g, of i a] by (simp add: wf_map_def attached_def)
  then have "good D W (fst (fold (\<lambda>(i, a). pauseTransfer True reason a) (fs_transfers s) (s\<lparr>fs_globalPaused := True\<rparr>, [])))"
    by (rule pauseOn_fold [OF good_globalPause_on [OF g]])
  then show ?thesis using True by (simp add: setGlobalPaused_def)
next
  case False
  assume g: "good D W s"
  let ?s = "s\<lparr>fs_globalPaused := False\<rparr>"
  let ?X = "{(b, i). i \<in> heldItems (fs_objs s b)}"
  have base: "snd_base W s" by (rule goodD(2) [OF g])
  have wf: "wf_map (fs_transfers s)" by (rule snd_baseD(2) [OF base])
  have at: "attached b ?s = attached b s" for b by (simp add: attached_def)
  have lv: "liveT b ?s = liveT b s" for b by (simp add: liveT_def at)
  have tk: "staskOk ?s u = staskOk s u" for u by (cases u) (simp_all add: ref_ok_def at)
  have rf: "ref_ok ?s r = ref_ok s r" for r by (simp add: ref_ok_def)
  have ow: "owned b ?s = owned b s" for b by (simp add: owned_def)
  have "snd_base W ?s" using base by (simp add: snd_base_def tk rf ow)
  moreover have "snd_live D W ?X ?s"
  proof (rule snd_liveI)
    fix b assume "b < fs_next ?s" "liveT b ?s"
    then show "tr_live W {i. (b, i) \<in> ?X} (fs_objs ?s b)"
      using snd_liveD(1) [OF goodD(3) [OF g], of b] lv by (auto elim: tr_live_mono)
  next
    fix b i c assume b: "b < fs_next ?s" "liveT b ?s" D "(b, i) \<notin> ?X" "map_get (tr_inflight (fs_objs ?s b)) i = Some c"
    then have "driven b i c s" using snd_liveD(2) [OF goodD(3) [OF g], of b i c] lv by simp
    then show "driven b i c ?s" using b(4,5)
      by (auto simp: driven_def heldItems_def split: ChunkState.splits option.splits)
  qed
  ultimately have inv: "snd_inv D W ?X ?s" by (simp add: snd_inv_def)
  have mem: "map_get (fs_transfers s) i = Some a" if "(i, a) \<in> set (fs_transfers s)" for i a
    using that wf by (simp add: wf_map_def)
  have "i = j" if "(i, a) \<in> set (fs_transfers s)" "(j, a) \<in> set (fs_transfers s)" for i j a
    using snd_baseD(3) [OF base mem [OF that(1)]] snd_baseD(3) [OF base mem [OF that(2)]] by simp
  then have "distinct (map snd (fs_transfers s))"
    using wf unfolding wf_map_def distinct_map inj_on_def by auto
  have "good D W (fst (fold (\<lambda>(i, a). pauseTransfer False reason a) (fs_transfers s) (?s, [])))"
  proof (rule pauseOff_fold [OF inv])
    fix j a assume "(j, a) \<in> set (fs_transfers s)"
    note l = good_lookup [OF g mem [OF this]]
    show "attached a ?s \<and> a < fs_next ?s \<and> (\<forall>i. (a, i) \<in> ?X \<longleftrightarrow> i \<in> heldItems (fs_objs ?s a)) \<and>
      (D \<longrightarrow> tr_pumping (fs_objs ?s a) \<longrightarrow> \<not> tr_cancelled (fs_objs ?s a) \<longrightarrow>
        tr_accepted (fs_objs ?s a) \<and> tr_status (fs_objs ?s a) = SnCompleted)"
      using l at by (auto simp: prog_def Let_def)
  next
    fix b assume b: "b < fs_next ?s" "liveT b ?s" "b \<notin> set (map snd (fs_transfers s))"
    then have "\<not> attached b s" using map_of_SomeD by (force simp: attached_def)
    then have d: "tr_inflight (fs_objs s b) = []" "\<not> tr_accepted (fs_objs s b)"
      using digest_idle [OF base] b lv by simp_all
    then show "(\<forall>i. (b, i) \<notin> ?X) \<and> (D \<longrightarrow> prog b ?s)"
      using goodD(4) [OF g] b lv by (auto simp: heldItems_def snd_prog_def prog_def Let_def)
  qed (simp, fact)
  then show ?thesis using False by (simp add: setGlobalPaused_def)
qed

subsection \<open>Leaving and entering the map\<close>

lemma base_clearTimers:
  assumes base: "snd_base W s" and a: "a < fs_next s"
  shows "snd_base W (clearTimers a s)" and "frameT a s (clearTimers a s)"
proof -
  have wf: "tr_wf (fs_objs s a)" by (rule snd_baseD(4) [OF base a])
  have tm: "timers_step (\<lambda>r. fst r = a) s (clearTimers a s)"
    using clearTimers_step [OF snd_baseD(5) [OF base a]] wf by (simp add: tr_wf_def)
  have os: "obj_step (\<lambda>r. fst r = a) (a, 0) s (clearTimers a s)"
    using tm by (intro obj_stepI) (simp_all add: same_env_def tasks_step_def)
  have "tr_wf ((fs_objs s a)\<lparr>tr_inflight := []\<rparr>)" using wf by (auto simp: tr_wf_def)
  then show "snd_base W (clearTimers a s)"
    by (intro snd_base_step [OF base os a]) (simp_all add: owned_def)
  show "frameT a s (clearTimers a s)" by (rule frameT_obj [OF os])
qed

text \<open>The base invariant does not need the entries of the map to stay, only to be right.\<close>

lemma base_detach:
  assumes base: "snd_base W s" and m: "\<And>i a. map_get m i = Some a \<Longrightarrow> map_get (fs_transfers s) i = Some a" and wf: "wf_map m"
  shows "snd_base W (s\<lparr>fs_transfers := m, fs_globalPaused := b\<rparr>)" (is "snd_base W ?s")
proof -
  have at: "attached b ?s \<Longrightarrow> attached b s" for b using m by (simp add: attached_def)
  have tk: "staskOk s u \<Longrightarrow> staskOk ?s u" for u using at by (cases u) (auto simp: ref_ok_def)
  have rf: "ref_ok ?s r = ref_ok s r" for r by (simp add: ref_ok_def)
  have ow: "owned b ?s = owned b s" for b by (simp add: owned_def)
  show ?thesis
  proof (rule snd_baseI)
    fix i a assume "map_get (fs_transfers ?s) i = Some a"
    then show "a < fs_next ?s \<and> tr_fileId (fs_objs ?s a) = i" using snd_baseD(3) [OF base m] by simp
  qed (use snd_baseD [OF base] tk rf ow wf in simp_all)
qed

lemma driven_cong:
  "fs_tasks s' = fs_tasks s \<Longrightarrow> fs_timers s' = fs_timers s \<Longrightarrow> isHeld a s' = isHeld a s \<Longrightarrow> driven a i c s' = driven a i c s"
  by (simp only: driven_def)

lemma good_remove: "good D W s \<Longrightarrow> good D W (snd_remove fileId s)"
proof (cases "map_get (fs_transfers s) fileId")
  case (Some a)
  assume g: "good D W s"
  note l = good_lookup [OF g Some]
  show ?thesis
  proof (cases "closed (tr_status (fs_objs s a))")
    case False
    then show ?thesis using g Some by (simp add: snd_remove_def)
  next
    case True
    let ?m = "map_delete fileId (fs_transfers s)"
    let ?c = "clearTimers a s"
    let ?s = "?c\<lparr>fs_transfers := ?m\<rparr>"
    note base = goodD(2) [OF g]
    have "map_get ?m i = Some b \<Longrightarrow> map_get (fs_transfers ?c) i = Some b" for i b
      by (simp add: js_simps split: if_splits)
    then have "snd_base W (?c\<lparr>fs_transfers := ?m, fs_globalPaused := fs_globalPaused s\<rparr>)"
      using snd_baseD(2) [OF base]
      by (intro base_detach [OF base_clearTimers(1) [OF base l(2)]]) (auto intro: wf_map_delete)
    moreover have "?c\<lparr>fs_transfers := ?m, fs_globalPaused := fs_globalPaused s\<rparr> = ?s" by (simp add: clearTimers_def updT_def)
    ultimately have base': "snd_base W ?s" by simp
    have fr: "frameT a s ?c" by (rule base_clearTimers(2) [OF base l(2)])
    have lv: "liveT b s \<and> b \<noteq> a" if "liveT b ?s" for b
      using that l attached_no_digest [OF base l(1)]
      by (auto simp: liveT_def attached_def js_simps split: if_splits)
    have oth: "fs_objs ?s b = fs_objs s b" if "b \<noteq> a" for b using that by simp
    have wf: "wf_map (tr_inflight (fs_objs s a))" using l(5) by (simp add: tr_wf_def)
    have tm: "timers_step (\<lambda>r. fst r = a) s ?c" by (rule clearTimers_step [OF snd_baseD(5) [OF base l(2)] wf])
    have os: "obj_step (\<lambda>r. fst r = a) (a, 0) s ?c"
      using tm by (intro obj_stepI) (simp_all add: same_env_def tasks_step_def)
    have dr: "driven b i c ?s" if "driven b i c s" "b \<noteq> a" for b i c
    proof -
      have "driven b i c ?c" using that by (intro driven_step [OF os]) auto
      then show ?thesis by (subst driven_cong [of _ ?c]) (simp_all add: isHeld_def)
    qed
    have "snd_live D W {} ?s"
    proof (rule snd_liveI)
      fix b assume "b < fs_next ?s" "liveT b ?s"
      then show "tr_live W {i. (b, i) \<in> {}} (fs_objs ?s b)"
        using lv oth snd_liveD(1) [OF goodD(3) [OF g], of b] by simp
    next
      fix b i c assume "b < fs_next ?s" "liveT b ?s" D "map_get (tr_inflight (fs_objs ?s b)) i = Some c"
      then show "driven b i c ?s" using lv [of b] oth [of b] snd_liveD(2) [OF goodD(3) [OF g], of b i c] by (intro dr) auto
    qed
    moreover have "D \<Longrightarrow> snd_prog ?s"
      using goodD(4) [OF g] lv by (auto simp: snd_prog_def prog_def isHeld_def Let_def)
    ultimately have "good D W ?s" using base' by (simp add: good_def snd_inv_def)
    then show ?thesis using True Some by (simp add: snd_remove_def)
  qed
qed (simp add: snd_remove_def)

lemma reset_fold:
  assumes "snd_base W s" and "\<And>i a. (i, a) \<in> set ps \<Longrightarrow> a < fs_next s"
    and "fold (\<lambda>(i, a). clearTimers a) ps s = s'"
  shows "snd_base W s' \<and> same_env s s' \<and> fs_tasks s' = fs_tasks s \<and>
    (\<forall>b. b \<notin> snd ` set ps \<longrightarrow> fs_objs s' b = fs_objs s b)"
  using assms
proof (induction ps arbitrary: s)
  case Nil
  then show ?case by (simp add: same_env_def)
next
  case (Cons p ps)
  obtain i a where p: "p = (i, a)" by (cases p)
  have "snd_base W s' \<and> same_env (clearTimers a s) s' \<and> fs_tasks s' = fs_tasks (clearTimers a s) \<and>
      (\<forall>b. b \<notin> snd ` set ps \<longrightarrow> fs_objs s' b = fs_objs (clearTimers a s) b)"
    using Cons.prems p by (intro Cons.IH base_clearTimers(1)) auto
  then show ?case using p by (auto simp: same_env_def)
qed

lemma good_reset:
  assumes g: "good D W s"
  shows "good D W (snd_reset s)"
proof -
  let ?c = "fold (\<lambda>(i, a). clearTimers a) (fs_transfers s) s"
  note base = goodD(2) [OF g]
  have mem: "map_get (fs_transfers s) i = Some a" if "(i, a) \<in> set (fs_transfers s)" for i a
    using that snd_baseD(2) [OF base] by (simp add: wf_map_def)
  note r = reset_fold [OF base _ refl, of "fs_transfers s"]
  have c: "snd_base W ?c" "same_env s ?c" "fs_tasks ?c = fs_tasks s"
    "\<And>b. b \<notin> snd ` set (fs_transfers s) \<Longrightarrow> fs_objs ?c b = fs_objs s b"
    using r snd_baseD(3) [OF base mem] by blast+
  have base': "snd_base W (snd_reset s)"
    unfolding snd_reset_def by (rule base_detach [OF c(1)]) simp_all
  have live: "fs_objs (snd_reset s) b = fs_objs s b \<and> liveT b s \<and> tr_inflight (fs_objs s b) = [] \<and> \<not> tr_accepted (fs_objs s b)"
    if "liveT b (snd_reset s)" for b
  proof -
    have d: "b \<in> set (digestAddrs (fs_tasks s))" using that c(3) by (simp add: liveT_def attached_def snd_reset_def)
    then have na: "\<not> attached b s" "liveT b s" using attached_no_digest [OF base] by (auto simp: liveT_def)
    have "b \<notin> snd ` set (fs_transfers s)"
      using na(1) attached_get [OF base mem] by fastforce
    then show ?thesis using c(4) digest_idle [OF base na(2,1)] na by (simp add: snd_reset_def)
  qed
  have nx: "fs_next (snd_reset s) = fs_next s" using c(2) by (simp add: snd_reset_def same_env_def)
  have "snd_live D W {} (snd_reset s)"
    by (rule snd_liveI) (use live nx snd_liveD(1) [OF goodD(3) [OF g]] in auto)
  moreover have "D \<Longrightarrow> snd_prog (snd_reset s)"
    using goodD(4) [OF g] live nx by (auto simp: snd_prog_def prog_def Let_def)
  ultimately show ?thesis using base' by (simp add: good_def snd_inv_def)
qed

lemma ceilDiv_pos:
  assumes "0 < a" and "0 < b"
  shows "0 < ceilDiv a b"
proof (rule ccontr)
  assume "\<not> 0 < ceilDiv a b"
  then have "ceilDiv a b * b \<le> 0" using assms(2) by (simp add: mult_nonpos_nonneg)
  then show False using ceilDiv_covers [OF assms(2), of a] assms(1) by linarith
qed

lemma newOutgoing_ok:
  assumes "validateOutboundFile f p = Inr u" and "0 < chunkBytes (files p)"
  shows "tr_wf (newOutgoing p i f q)" and "tr_live W {} (newOutgoing p i f q)"
    and "tr_inflight (newOutgoing p i f q) = []" and "tr_nextIndex (newOutgoing p i f q) = 0"
    and "\<not> tr_accepted (newOutgoing p i f q)" and "\<not> tr_pumping (newOutgoing p i f q)"
proof -
  have "file_bytes f \<noteq> []" using assms(1) by (auto simp: validateOutboundFile_def split: if_splits)
  then show "tr_wf (newOutgoing p i f q)"
    using assms(2) ceilDiv_pos [of "int (length (file_bytes f))" "int (chunkBytes (files p))"]
    by (simp add: tr_wf_def newOutgoing_def Let_def less_imp_le)
  show "tr_live W {} (newOutgoing p i f q)" by (simp add: tr_live_def newOutgoing_def outstanding_def Let_def)
qed (simp_all add: newOutgoing_def Let_def)

text \<open>A new object at the next address: neither in the map nor awaited.\<close>

lemma good_alloc:
  assumes g: "good D W s" and wf: "tr_wf t" and fl: "tr_inflight t = []"
    and s': "s' = s\<lparr>fs_objs := (fs_objs s)(fs_next s := t), fs_next := fs_next s + 1\<rparr>"
  shows "good D W s' \<and> \<not> liveT (fs_next s) s'"
proof -
  note base = goodD(2) [OF g] and live = goodD(3) [OF g]
  let ?a = "fs_next s"
  have dg: "b < ?a" if "b \<in> set (digestAddrs (fs_tasks s))" for b
    using that snd_baseD(6) [OF base] by (fastforce simp: digestAddrs_iff)
  have at: "attached b s' = attached b s" if "b \<noteq> ?a" for b using that by (simp add: attached_def s')
  have new: "\<not> attached ?a s'" using snd_baseD(3) [OF base] by (fastforce simp: attached_def s')
  have lv: "liveT b s' \<longleftrightarrow> b \<noteq> ?a \<and> liveT b s" for b
    using at [of b] new dg [of b] by (cases "b = ?a") (auto simp: liveT_def s')
  have rf: "ref_ok s r \<Longrightarrow> ref_ok s' r" for r by (simp add: ref_ok_def s')
  have tk: "staskOk s u \<Longrightarrow> staskOk s' u" for u using rf at by (cases u) (auto simp: s')
  have dr: "driven b i c s' = driven b i c s" if "b \<noteq> ?a" for b i c
    by (rule driven_cong) (simp_all add: s' isHeld_def that)
  have "snd_base W s'"
  proof (rule snd_baseI)
    fix i b assume "map_get (fs_transfers s') i = Some b"
    then show "b < fs_next s' \<and> tr_fileId (fs_objs s' b) = i" using snd_baseD(3) [OF base, of i b] by (auto simp: s')
  next
    fix b assume "b < fs_next s'"
    then show "tr_wf (fs_objs s' b)" "owned b s'"
      using snd_baseD(4,5) [OF base, of b] wf fl by (cases "b = ?a"; simp add: s' owned_def)+
  next
    fix tid x assume "map_get (fs_timers s') tid = Some x"
    then show "tid < fs_nextTimer s' \<and> ref_ok s' (timerRef (fst x))"
      using snd_baseD(8) [OF base, of tid x] rf by (simp add: s')
  qed (use snd_baseD(1,2,6,7) [OF base] tk in \<open>simp_all add: s'\<close>)
  moreover have "snd_live D W {} s'"
    by (rule snd_liveI) (use lv dr snd_liveD [OF live] in \<open>auto simp: s'\<close>)
  moreover have "D \<Longrightarrow> snd_prog s'"
    using goodD(4) [OF g] lv by (auto simp: snd_prog_def prog_def isHeld_def Let_def s')
  ultimately show ?thesis using lv by (simp add: good_def snd_inv_def)
qed

text \<open>A fresh object enters the map, or is awaited.\<close>

definition fresh_obj :: "bool \<Rightarrow> nat \<Rightarrow> nat \<Rightarrow> FileSender \<Rightarrow> bool" where
  "fresh_obj D W a s =
     (a < fs_next s \<and> \<not> liveT a s \<and> tr_live W {} (fs_objs s a) \<and> tr_inflight (fs_objs s a) = [] \<and>
      tr_nextIndex (fs_objs s a) = 0 \<and> \<not> tr_accepted (fs_objs s a) \<and> (D \<longrightarrow> \<not> tr_cancelled (fs_objs s a) \<longrightarrow> \<not> tr_pumping (fs_objs s a)))"

lemma good_enter:
  assumes g: "good D W s" and fo: "fresh_obj D W a s"
    and s': "s' = s\<lparr>fs_transfers := map_set (tr_fileId (fs_objs s a)) a (fs_transfers s)\<rparr>"
  shows "good D W s' \<and> attached a s'"
proof -
  note base = goodD(2) [OF g] and live = goodD(3) [OF g]
  have a: "a < fs_next s" "tr_inflight (fs_objs s a) = []" "tr_live W {} (fs_objs s a)" and nl: "\<not> liveT a s"
    and ac: "\<not> tr_accepted (fs_objs s a)" "D \<Longrightarrow> \<not> tr_cancelled (fs_objs s a) \<Longrightarrow> \<not> tr_pumping (fs_objs s a)"
    using fo by (simp_all add: fresh_obj_def)
  have at: "attached b s' \<Longrightarrow> b = a \<or> attached b s" for b
    by (auto simp: attached_def s' js_simps split: if_splits)
  have ata: "attached a s'" by (simp add: attached_def s' js_simps)
  have lv: "liveT b s' \<Longrightarrow> b = a \<or> liveT b s" for b using at [of b] by (auto simp: liveT_def s')
  have rf: "ref_ok s' r = ref_ok s r" for r by (simp add: ref_ok_def s')
  have tk: "staskOk s' u" if "u \<in> set (fs_tasks s)" for u
  proof (cases u)
    case (OfferDigest b q)
    then have "b \<noteq> a" using that nl by (auto simp: liveT_def digestAddrs_iff)
    then show ?thesis using snd_baseD(6) [OF base that] OfferDigest at [of b] by (auto simp: s')
  qed (use snd_baseD(6) [OF base that] rf in \<open>auto simp: s'\<close>)
  have dr: "driven b i c s' = driven b i c s" for b i c
    by (rule driven_cong) (simp_all add: s' isHeld_def)
  have "snd_base W s'"
  proof (rule snd_baseI)
    fix i b assume "map_get (fs_transfers s') i = Some b"
    then show "b < fs_next s' \<and> tr_fileId (fs_objs s' b) = i"
      using snd_baseD(3) [OF base, of i b] a(1) by (auto simp: s' js_simps split: if_splits)
  next
    fix tid x assume "map_get (fs_timers s') tid = Some x"
    then show "tid < fs_nextTimer s' \<and> ref_ok s' (timerRef (fst x))"
      using snd_baseD(8) [OF base, of tid x] rf by (simp add: s')
  qed (use snd_baseD(1,2,4,5,6,7) [OF base] tk in \<open>simp_all add: s' owned_def wf_map_set\<close>)
  moreover have "snd_live D W {} s'"
  proof (rule snd_liveI)
    fix b assume "b < fs_next s'" "liveT b s'"
    then show "tr_live W {i. (b, i) \<in> {}} (fs_objs s' b)"
      using lv [of b] a(3) snd_liveD(1) [OF live, of b] by (auto simp: s')
  next
    fix b i c assume "b < fs_next s'" "liveT b s'" D "map_get (tr_inflight (fs_objs s' b)) i = Some c"
    then show "driven b i c s'"
      using lv [of b] a(2) snd_liveD(2) [OF live, of b i c] dr by (auto simp: s')
  qed
  moreover have "prog b s' = prog b s" for b by (simp add: prog_def isHeld_def s')
  moreover have "D \<Longrightarrow> prog a s" using ac by (simp add: prog_def)
  ultimately show ?thesis
    using goodD(4) [OF g] lv ata by (auto simp: good_def snd_inv_def snd_prog_def s')
qed

lemma good_awaitDigest:
  assumes g: "good D W s" and fo: "fresh_obj D W a s"
  shows "good D W (await (OfferDigest a q) s)" (is "good D W ?s")
proof -
  note base = goodD(2) [OF g] and live = goodD(3) [OF g]
  have a: "a < fs_next s" "tr_inflight (fs_objs s a) = []" "tr_live W {} (fs_objs s a)" and nl: "\<not> liveT a s"
    and ac: "\<not> tr_accepted (fs_objs s a)" "D \<Longrightarrow> \<not> tr_cancelled (fs_objs s a) \<Longrightarrow> \<not> tr_pumping (fs_objs s a)" "tr_nextIndex (fs_objs s a) = 0"
    using fo by (simp_all add: fresh_obj_def)
  have at: "attached b ?s = attached b s" for b by (simp add: attached_def)
  have lv: "liveT b ?s \<longleftrightarrow> b = a \<or> liveT b s" for b by (auto simp: liveT_def at)
  have rf: "ref_ok ?s r = ref_ok s r" for r by (simp add: ref_ok_def)
  have tk: "staskOk ?s u = staskOk s u" for u by (cases u) (simp_all add: at rf)
  have dr: "driven b i c s \<Longrightarrow> driven b i c ?s" for b i c
    by (auto simp: driven_def isHeld_def split: ChunkState.splits option.splits)
  have na: "\<not> attached a s" "a \<notin> set (digestAddrs (fs_tasks s))" using nl by (auto simp: liveT_def)
  have "snd_base W ?s"
  proof (rule snd_baseI)
    fix t assume "t \<in> set (fs_tasks ?s)"
    then show "staskOk ?s t" using snd_baseD(6) [OF base, of t] a(1) ac(1,3) na(1) by (auto simp: tk)
  next
    fix tid x assume "map_get (fs_timers ?s) tid = Some x"
    then show "tid < fs_nextTimer ?s \<and> ref_ok ?s (timerRef (fst x))"
      using snd_baseD(8) [OF base, of tid x] rf by simp
  qed (use snd_baseD(1,2,3,4,5,7) [OF base] na(2) in \<open>simp_all add: owned_def\<close>)
  moreover have "snd_live D W {} ?s"
  proof (rule snd_liveI)
    fix b assume "b < fs_next ?s" "liveT b ?s"
    then show "tr_live W {i. (b, i) \<in> {}} (fs_objs ?s b)"
      using lv [of b] a(3) snd_liveD(1) [OF live, of b] by auto
  next
    fix b i c assume "b < fs_next ?s" "liveT b ?s" D "map_get (tr_inflight (fs_objs ?s b)) i = Some c"
    then show "driven b i c ?s"
      using lv [of b] a(2) snd_liveD(2) [OF live, of b i c] dr by auto
  qed
  moreover have "prog b ?s = prog b s" for b by (simp add: prog_def isHeld_def)
  moreover have "D \<Longrightarrow> prog a s" using ac by (simp add: prog_def)
  ultimately show ?thesis using goodD(4) [OF g] lv by (auto simp: good_def snd_inv_def snd_prog_def)
qed

lemma good_register:
  assumes g: "good D W s" and fo: "fresh_obj D W a s"
  shows "good D W (fst (registerTransfer a q s))"
proof -
  let ?r = "s\<lparr>fs_transfers := map_set (tr_fileId (fs_objs s a)) a (fs_transfers s)\<rparr>"
  have r: "good D W ?r" using good_enter [OF g fo refl] by simp
  have "snd_inv D W {} (await (AfterOffer a) ?r)"
    by (rule snd_inv_await [OF goodD(1) [OF r]]) (use fo in \<open>simp_all add: fresh_obj_def\<close>)
  moreover have "frameT a ?r (await (AfterOffer a) ?r)" by (simp add: frameT_def same_env_def)
  moreover have "D \<Longrightarrow> prog a (await (AfterOffer a) ?r)" using fo by (auto simp: prog_def fresh_obj_def Let_def)
  ultimately have "good D W (await (AfterOffer a) ?r)" by (blast intro: good_frame [OF r])
  then show ?thesis using r by (simp add: registerTransfer_def sendOffer_def Let_def)
qed

lemma good_offer: "good D W s \<Longrightarrow> snd_offer i f q s = Inr (s', es) \<Longrightarrow> good D W s'"
proof -
  assume g: "good D W s" and o: "snd_offer i f q s = Inr (s', es)"
  let ?p = "fs_profile s"
  let ?t = "newOutgoing ?p i f q"
  let ?r = "s\<lparr>fs_objs := (fs_objs s)(fs_next s := ?t), fs_next := fs_next s + 1\<rparr>"
  have v: "validateOutboundFile f ?p = Inr ()"
    using o by (cases "validateOutboundFile f ?p") (auto simp: snd_offer_def)
  have c: "0 < chunkBytes (files ?p)" using snd_baseD(1) [OF goodD(2) [OF g]] by (simp add: snd_profile_ok_def)
  note n = newOutgoing_ok [OF v c]
  note al = good_alloc [OF g n(1,3) refl, of i q]
  have fo: "fresh_obj D W (fs_next s) ?r" using al n by (simp add: fresh_obj_def)
  have "s' = (if length (file_bytes f) \<le> smallBytes (files ?p) then await (OfferDigest (fs_next s) q) ?r
      else fst (registerTransfer (fs_next s) q ?r))"
    using o v by (auto simp: snd_offer_def Let_def split: if_splits)
  then show ?thesis using good_awaitDigest [OF _ fo] good_register [OF _ fo] al by simp
qed

lemma good_offerDigest:
  assumes g: "good D W s" and t: "OfferDigest a q \<in> set (fs_tasks s)"
  shows "good D W (fst (afterOfferDigest sha a q r (s\<lparr>fs_tasks := remove1 (OfferDigest a q) (fs_tasks s)\<rparr>)))"
proof -
  let ?s = "s\<lparr>fs_tasks := remove1 (OfferDigest a q) (fs_tasks s)\<rparr>"
  let ?f = "\<lambda>t. t\<lparr>tr_sha256 := (if r = Succeeded then Some (digestBlob sha (file_bytes (tr_file t))) else None)\<rparr>"
  note base = goodD(2) [OF g] and live = goodD(3) [OF g]
  have st: "a < fs_next s" "tr_nextIndex (fs_objs s a) = 0" "\<not> tr_accepted (fs_objs s a)" "\<not> attached a s"
    using snd_baseD(6) [OF base t] by simp_all
  have la: "liveT a s" using t by (auto simp: liveT_def digestAddrs_iff)
  have dist: "distinct (digestAddrs (fs_tasks s))" by (rule snd_baseD(7) [OF base])
  obtain xs ys where ts: "fs_tasks s = xs @ OfferDigest a q # ys" "OfferDigest a q \<notin> set xs"
    using split_list_first [OF t] by blast
  have rm: "remove1 (OfferDigest a q) (fs_tasks s) = xs @ ys" using ts by (simp add: remove1_append)
  have "digestAddrs (fs_tasks s) = digestAddrs xs @ a # digestAddrs ys"
    using ts(1) by (simp add: digestAddrs_def)
  then have dg: "distinct (digestAddrs (fs_tasks ?s))" "a \<notin> set (digestAddrs (fs_tasks ?s))"
    and sub: "\<And>b. b \<in> set (digestAddrs (fs_tasks ?s)) \<longleftrightarrow> b \<in> set (digestAddrs (fs_tasks s)) \<and> b \<noteq> a"
    using dist rm by auto
  have at: "attached b ?s = attached b s" for b by (simp add: attached_def)
  have lv: "liveT b ?s \<longleftrightarrow> b \<noteq> a \<and> liveT b s" for b using sub st(4) by (auto simp: liveT_def at)
  have rf: "ref_ok ?s u = ref_ok s u" for u by (simp add: ref_ok_def)
  have tk: "staskOk ?s u = staskOk s u" for u by (cases u) (simp_all add: at rf)
  have dr: "driven b i c s \<Longrightarrow> driven b i c ?s" for b i c by (rule driven_task_removed) simp_all
  have g': "good D W ?s"
  proof (rule goodI)
    have "snd_base W ?s"
    proof (rule snd_baseI)
      fix u assume "u \<in> set (fs_tasks ?s)"
      then show "staskOk ?s u" using snd_baseD(6) [OF base] notin_set_remove1 tk by fastforce
    next
      fix tid x assume "map_get (fs_timers ?s) tid = Some x"
      then show "tid < fs_nextTimer ?s \<and> ref_ok ?s (timerRef (fst x))"
        using snd_baseD(8) [OF base, of tid x] rf by simp
    qed (use snd_baseD(1,2,3,4,5) [OF base] dg in \<open>simp_all add: owned_def\<close>)
    moreover have "snd_live D W {} ?s"
      by (rule snd_liveI) (use lv dr snd_liveD [OF live] in auto)
    ultimately show "snd_inv D W {} ?s" by (simp add: snd_inv_def)
    assume D
    then show "snd_prog ?s" using goodD(4) [OF g] lv by (auto simp: snd_prog_def prog_def isHeld_def Let_def)
  qed
  have a: "tr_wf (fs_objs s a)" "tr_live W {} (fs_objs s a)" "tr_inflight (fs_objs s a) = []"
    using snd_baseD(4) [OF base st(1)] snd_liveD(1) [OF live st(1) la] digest_idle(1) [OF base la st(4)] by simp_all
  have "snd_inv D W {} (updT a ?f ?s)"
    using a st(1) lv by (intro snd_inv_upd [OF goodD(1) [OF g']]) simp_all
  moreover have "frameT a ?s (updT a ?f ?s)" by (rule frameT_upd) simp
  ultimately have g2: "good D W (updT a ?f ?s)" by (rule good_frame [OF g']) (use lv in simp)
  have "\<not> liveT a (updT a ?f ?s)" using frameT_live(2) [OF frameT_upd, of ?s a ?f a] lv by simp
  moreover have "D \<Longrightarrow> \<not> tr_cancelled (fs_objs s a) \<Longrightarrow> \<not> tr_pumping (fs_objs s a)"
    using goodD(4) [OF g] la st by (auto simp: snd_prog_def prog_def Let_def)
  ultimately have "fresh_obj D W a (updT a ?f ?s)" using a st by (simp add: fresh_obj_def)
  then show ?thesis unfolding afterOfferDigest_def by (rule good_register [OF g2])
qed

section \<open>Runs\<close>

text \<open>
  \<open>W\<close> bounds the windows of the profiles in use. Under \<open>D\<close> the peer accepts a transfer at most once.
\<close>

fun op_ok :: "bool \<Rightarrow> nat \<Rightarrow> SendOp \<Rightarrow> FileSender \<Rightarrow> bool" where
  "op_ok D W (DoSetProfile p) s = snd_profile_ok W p"
| "op_ok D W (PeerAccept i) s =
     (D \<longrightarrow> (case map_get (fs_transfers s) i of None \<Rightarrow> True | Some a \<Rightarrow> \<not> tr_accepted (fs_objs s a)))"
| "op_ok D W op s = True"

lemma good_setProfile:
  assumes g: "good D W s" and p: "snd_profile_ok W p"
  shows "good D W (snd_setProfile p s)" (is "good D W ?s")
proof -
  have s: "?s = s\<lparr>fs_profile := p\<rparr>" by (simp add: snd_setProfile_def)
  have at: "attached b ?s = attached b s" for b by (simp add: attached_def s)
  have lv: "liveT b ?s = liveT b s" for b by (simp add: liveT_def at) (simp add: s)
  have rf: "ref_ok ?s r = ref_ok s r" for r by (simp add: ref_ok_def s)
  have tk: "staskOk ?s u = staskOk s u" for u by (cases u) (simp_all add: at rf, simp_all add: s)
  have ow: "owned b ?s = owned b s" for b by (simp add: owned_def s)
  have dr: "driven a i c ?s = driven a i c s" for a i c by (rule driven_cong) (simp_all add: s isHeld_def)
  have "snd_base W ?s" using goodD(2) [OF g] p unfolding snd_base_def tk rf ow by (simp add: s)
  moreover have "snd_live D W {} ?s" using goodD(3) [OF g] unfolding snd_live_def dr lv by (simp add: s)
  moreover have "D \<Longrightarrow> snd_prog ?s"
    using goodD(4) [OF g] unfolding snd_prog_def lv by (simp add: prog_def isHeld_def s)
  ultimately show ?thesis by (simp add: good_def snd_inv_def)
qed

lemma good_step:
  assumes g: "good D W s" and ok: "op_ok D W op s"
  shows "good D W (fst (send_step sha op s))"
proof (cases op)
  case (DoOffer i f q)
  then show ?thesis using g good_offer [OF g, of i f q] by (cases "snd_offer i f q s") auto
next
  case (PeerAccept i)
  then show ?thesis using ok by (auto intro: good_accept [OF g] split: option.splits)
next
  case (Fire tid)
  then show ?thesis using g fire_good [OF g] by (auto split: option.splits)
next
  case (Continue t r)
  show ?thesis
  proof (cases "t \<in> set (fs_tasks s)")
    case True
    have "good D W (fst (continueTask sha t r (s\<lparr>fs_tasks := remove1 t (fs_tasks s)\<rparr>)))"
      by (cases t) (use True good_offerDigest [OF g] good_afterOffer [OF g] afterRead_good [OF g]
        afterSend_good [OF g] good_pumpEnd [OF g] in simp_all)
    then show ?thesis using True Continue by simp
  qed (use g Continue in simp)
qed (use g ok good_start good_ack good_nack good_pause good_resume good_cancel good_globalPause good_remove
  good_reset good_setProfile in simp_all)

inductive send_run :: "(bytes \<Rightarrow> bytes) \<Rightarrow> bool \<Rightarrow> nat \<Rightarrow> SenderEffect list \<Rightarrow> FileSender \<Rightarrow> bool"
  for sha D W where
  send_start: "snd_profile_ok W p \<Longrightarrow> send_run sha D W [] (newSender p)"
| send_next: "send_run sha D W es s \<Longrightarrow> op_ok D W op s \<Longrightarrow> send_step sha op s = (s', e) \<Longrightarrow>
    send_run sha D W (es @ e) s'"

lemma good_new: "snd_profile_ok W p \<Longrightarrow> good D W (newSender p)"
  by (auto simp: good_def snd_inv_def snd_base_def snd_live_def snd_prog_def newSender_def)

lemma send_run_good: "send_run sha D W es s \<Longrightarrow> good D W s"
proof (induction rule: send_run.induct)
  case (send_next es s op s' e)
  then show ?case using good_step [of D W s op sha] by simp
qed (rule good_new)

end
