(* ===== verification/SenderSends.thy ===== *)
theory SenderSends
  imports SenderRuns
begin

text \<open>
  What the file sender (\<^verbatim>\<open>FileSender.ts\<close>) sends: objects keep their file and their acknowledgements, and every
  offer, chunk and completion notice in a run is true of the transfer it names.
\<close>

section \<open>What is sent\<close>

text \<open>Objects are never reused, their files never change, and acknowledgements are never forgotten.\<close>

definition keepT :: "(bytes \<Rightarrow> bytes) \<Rightarrow> Transfer \<Rightarrow> Transfer \<Rightarrow> bool" where
  "keepT sha t t' = (same_file t t' \<and> tr_name t' = tr_name t \<and> tr_mime t' = tr_mime t \<and> tr_acked t \<subseteq> tr_acked t' \<and>
     tr_sha256 t' \<in> {tr_sha256 t, None, Some (digestBlob sha (file_bytes (tr_file t)))})"

definition shaOk :: "(bytes \<Rightarrow> bytes) \<Rightarrow> Transfer \<Rightarrow> bool" where
  "shaOk sha t = (tr_sha256 t \<in> {None, Some (digestBlob sha (file_bytes (tr_file t)))})"

definition extT :: "(bytes \<Rightarrow> bytes) \<Rightarrow> FileSender \<Rightarrow> FileSender \<Rightarrow> bool" where
  "extT sha s s' = (fs_next s \<le> fs_next s' \<and> (\<forall>a < fs_next s. keepT sha (fs_objs s a) (fs_objs s' a)) \<and>
     (\<forall>a < fs_next s'. fs_next s \<le> a \<longrightarrow> shaOk sha (fs_objs s' a)))"

lemma keepT_refl [simp]: "keepT sha t t"
  by (simp add: keepT_def)

lemma keepT_trans: "keepT sha t u \<Longrightarrow> keepT sha u v \<Longrightarrow> keepT sha t v"
  by (auto simp: keepT_def same_file_def)

lemma extT_refl [simp]: "extT sha s s"
  by (simp add: extT_def)

lemma extT_trans:
  assumes "extT sha s s1" and "extT sha s1 s2"
  shows "extT sha s s2"
proof (unfold extT_def, intro conjI allI impI)
  show "fs_next s \<le> fs_next s2" using assms by (simp add: extT_def)
  fix a
  show "a < fs_next s \<Longrightarrow> keepT sha (fs_objs s a) (fs_objs s2 a)"
    using assms unfolding extT_def by (meson keepT_trans less_le_trans)
  assume a: "a < fs_next s2" "fs_next s \<le> a"
  show "shaOk sha (fs_objs s2 a)"
  proof (cases "fs_next s1 \<le> a")
    case True
    then show ?thesis using assms(2) a by (simp add: extT_def)
  next
    case False
    then have "shaOk sha (fs_objs s1 a)" "keepT sha (fs_objs s1 a) (fs_objs s2 a)" using assms a by (simp_all add: extT_def)
    then show ?thesis by (auto simp: shaOk_def keepT_def same_file_def)
  qed
qed

lemma extT_objs: "fs_objs s' = fs_objs s \<Longrightarrow> fs_next s' = fs_next s \<Longrightarrow> extT sha s s'"
  by (simp add: extT_def)

lemma extT_upd:
  assumes "fs_objs s' = (fs_objs s)(a := fs_objs s' a)" and "fs_next s' = fs_next s" and "keepT sha (fs_objs s a) (fs_objs s' a)"
  shows "extT sha s s'"
proof -
  have "keepT sha (fs_objs s b) (fs_objs s' b)" for b using assms(3) by (cases "b = a") (simp, subst assms(1), simp)
  then show ?thesis using assms(2) by (simp add: extT_def)
qed

lemma keepT_flags [simp]:
  "keepT sha t (u\<lparr>tr_pumping := b\<rparr>) = keepT sha t u" "keepT sha t (u\<lparr>tr_status := st\<rparr>) = keepT sha t u"
  "keepT sha t (u\<lparr>tr_reason := r\<rparr>) = keepT sha t u" "keepT sha t (u\<lparr>tr_paused := b\<rparr>) = keepT sha t u"
  "keepT sha t (u\<lparr>tr_accepted := b\<rparr>) = keepT sha t u"
  "keepT sha t (u\<lparr>tr_cancelled := b\<rparr>) = keepT sha t u" "keepT sha t (u\<lparr>tr_inflight := m\<rparr>) = keepT sha t u"
  "keepT sha t (u\<lparr>tr_nextIndex := n\<rparr>) = keepT sha t u"
  by (simp_all add: keepT_def)

lemma keepT_sha: "h \<in> {None, Some (digestBlob sha (file_bytes (tr_file t)))} \<Longrightarrow> keepT sha t (t\<lparr>tr_sha256 := h\<rparr>)"
  by (auto simp: keepT_def)

lemma keepT_ack: "keepT sha t (t\<lparr>tr_inflight := m, tr_acked := insert i (tr_acked t)\<rparr>)"
  by (auto simp: keepT_def)

lemma extT_fail: "extT sha s (fst (snd_fail a r s))"
  by (rule extT_upd [where a = a]) (simp_all add: snd_fail_def Let_def)

lemma extT_chunk:
  "extT sha s (fst (sendChunk a i n s))" "extT sha s (fst (scheduleRetry a i n r s))"
proof -
  have "extT sha s (fst (snd_fail a x (clearInflightTimer c s)))" for x c
    by (rule extT_trans [OF _ extT_fail]) (simp add: extT_def)
  then show "extT sha s (fst (scheduleRetry a i n r s))"
    by (auto simp: scheduleRetry_def fst_failAndNotify Let_def split_def intro!: extT_upd [where a = a])
  show "extT sha s (fst (sendChunk a i n s))"
    using extT_fail by (auto simp: sendChunk_def fst_failAndNotify Let_def intro!: extT_upd [where a = a])
qed

lemma extT_pumpLoop: "extT sha s (fst (pumpLoop a s))"
proof (induction a s rule: pumpLoop.induct)
  case (1 a s)
  let ?t = "fs_objs s a"
  let ?u = "updT a (\<lambda>t. t\<lparr>tr_nextIndex := tr_nextIndex t + 1\<rparr>) s"
  show ?case
  proof (cases "\<not> tr_cancelled ?t \<and> \<not> tr_paused ?t \<and> \<not> fs_globalPaused s \<and>
      length (tr_inflight ?t) < windowChunks (files (fs_profile s)) \<and> tr_nextIndex ?t < tr_totalChunks ?t")
    case True
    have IH: "extT sha (fst (sendChunk a (tr_nextIndex ?t) 1 ?u)) (fst (pumpLoop a (fst (sendChunk a (tr_nextIndex ?t) 1 ?u))))"
      by (rule 1 [OF refl True refl prod.collapse])
    have "extT sha s ?u" by (rule extT_upd [where a = a]) simp_all
    then have "extT sha s (fst (pumpLoop a (fst (sendChunk a (tr_nextIndex ?t) 1 ?u))))"
      by (blast intro: extT_trans extT_chunk(1) IH)
    then show ?thesis using True by (subst pumpLoop.simps) (simp add: Let_def split_def)
  qed (subst pumpLoop.simps, auto simp: Let_def)
qed

lemma extT_complete: "extT sha s (fst (completeIfDone a s))"
  by (simp add: completeIfDone_def Let_def) (auto intro!: extT_upd [where a = a])

lemma extT_pump: "extT sha s (fst (snd_pump a s))"
proof -
  have u: "extT sha s (setPumping a b s)" for b s by (rule extT_upd [where a = a]) simp_all
  have "extT sha s (fst (completeIfDone a (fst (pumpLoop a (setPumping a True s)))))" (is "extT sha s ?c")
    by (blast intro: extT_trans u extT_pumpLoop extT_complete)
  moreover have "extT sha ?c (await t ?c)" for t by (rule extT_objs) simp_all
  ultimately show ?thesis
    using u by (auto simp: snd_pump_def Let_def split_def intro: extT_trans)
qed

lemma extT_hold_fold:
  "extT sha s (fold (\<lambda>(index, item). setInflight a index (ic_attempts item) CsRetryWait None \<circ> clearInflightTimer (Some item)) m s)"
proof (induction m arbitrary: s)
  case (Cons p m)
  let ?g = "\<lambda>(index, item). setInflight a index (ic_attempts item) CsRetryWait None \<circ> clearInflightTimer (Some item)"
  have "extT sha s (?g p s)" by (rule extT_upd [where a = a]) (simp_all add: split_def)
  then have "extT sha s (fold ?g m (?g p s))" by (rule extT_trans) (rule Cons.IH)
  then show ?case by (simp only: fold_simps)
qed simp

lemma extT_resume_fold: "extT sha s (fst (fold (resumeItem a) ks (s, es)))"
proof (induction ks arbitrary: s es)
  case (Cons k ks)
  have "extT sha s (fst (resumeItem a k (s, es)))"
    by (auto simp: resumeItem_def split_def extT_chunk Let_def split: option.splits)
  then show ?case
    using Cons.IH [of "fst (resumeItem a k (s, es))" "snd (resumeItem a k (s, es))"] by (auto intro: extT_trans)
qed simp

lemma extT_resume: "extT sha s (fst (resumeOutstanding a s))"
  using extT_trans [OF extT_resume_fold extT_pump] by (simp add: resumeOutstanding_def Let_def split_def)

lemma extT_clearTimers: "extT sha s (clearTimers a s)"
  by (rule extT_upd [where a = a]) simp_all

lemma extT_reset: "extT sha s (snd_reset s)"
proof -
  have "extT sha s (fold (\<lambda>(i, a). clearTimers a) ps s)" for ps
  proof (induction ps arbitrary: s)
    case (Cons p ps)
    then show ?case by (cases p) (auto intro: extT_trans extT_clearTimers)
  qed simp
  then show ?thesis by (auto simp: snd_reset_def extT_def)
qed

lemma extT_pauseTransfer: "extT sha s (fst (pauseTransfer b r a (s, es)))"
proof -
  let ?f = "\<lambda>t. t\<lparr>tr_paused := b, tr_status := (if b then SnPaused else SnSending), tr_reason := (if b then Some r else None)\<rparr>"
  have u: "extT sha s (updT a ?f s)" by (rule extT_upd [where a = a]) simp_all
  have "extT sha (updT a ?f s) (holdOutstanding a (updT a ?f s))" unfolding holdOutstanding_def by (rule extT_hold_fold)
  then show ?thesis
    using extT_trans [OF u] extT_resume by (cases b) (simp_all add: pauseTransfer_def Let_def split_def)
qed

lemma extT_globalPause: "extT sha s (fst (setGlobalPaused b r s))"
proof -
  have "extT sha s (fst (fold (\<lambda>(i, a). pauseTransfer b r a) ps (s, es)))" for ps es s
  proof (induction ps arbitrary: s es)
    case (Cons p ps)
    obtain i a where p: "p = (i, a)" by (cases p)
    show ?case
      using extT_trans [OF extT_pauseTransfer Cons.IH, of s b r a es "snd (pauseTransfer b r a (s, es))"] p by simp
  qed simp
  moreover have "extT sha s (s\<lparr>fs_globalPaused := b\<rparr>)" by (simp add: extT_def)
  ultimately show ?thesis unfolding setGlobalPaused_def by (blast intro: extT_trans)
qed

lemma extT_register: "extT sha s (fst (registerTransfer a q s))"
  by (simp add: registerTransfer_def sendOffer_def extT_def Let_def)

lemma extT_upd_then:
  "keepT sha (fs_objs s a) (f (fs_objs s a)) \<Longrightarrow> extT sha (updT a f s) s' \<Longrightarrow> extT sha s s'"
  by (rule extT_trans [OF extT_upd [where a = a]]) simp_all

lemma extT_continue: "extT sha s (fst (continueTask sha t r s))"
proof (cases t)
  case (OfferDigest a q)
  then show ?thesis using extT_upd_then [OF _ extT_register] by (simp add: afterOfferDigest_def keepT_sha)
next
  case (AfterOffer a)
  then show ?thesis by (simp add: afterOffer_def extT_fail)
next
  case (ReadChunk a i n)
  then show ?thesis by (auto simp: afterRead_def extT_chunk Let_def intro: extT_objs split: Outcome.splits)
next
  case (SentChunk a i n)
  have "extT sha s (fst (afterSend a i n r s))"
  proof (cases r)
    case Succeeded
    then show ?thesis by (auto simp: afterSend_def Let_def split_def intro!: extT_upd [where a = a])
  qed (simp_all add: afterSend_def extT_chunk)
  then show ?thesis using SentChunk by simp
next
  case (PumpEnd a)
  have "extT sha s (setPumping a False s)" by (rule extT_upd [where a = a]) simp_all
  then show ?thesis using PumpEnd by simp
qed

lemma extT_step: "extT sha s (fst (send_step sha op s))"
proof (cases op)
  case (DoOffer i f q)
  have "extT sha s s'" if "snd_offer i f q s = Inr (s', es)" for s' es
  proof -
    let ?r = "s\<lparr>fs_objs := (fs_objs s)(fs_next s := newOutgoing (fs_profile s) i f q), fs_next := fs_next s + 1\<rparr>"
    have "extT sha s ?r" by (simp add: extT_def shaOk_def newOutgoing_def Let_def less_Suc_eq)
    moreover have "extT sha ?r (await t ?r)" for t by (rule extT_objs) simp_all
    moreover have "s' = (if length (file_bytes f) \<le> smallBytes (files (fs_profile s))
        then await (OfferDigest (fs_next s) q) ?r else fst (registerTransfer (fs_next s) q ?r))"
      using that by (cases "validateOutboundFile f (fs_profile s)") (auto simp: snd_offer_def Let_def split: if_splits)
    ultimately show ?thesis using extT_trans [of sha s ?r] extT_register [of sha ?r] by simp
  qed
  then show ?thesis using DoOffer by (cases "snd_offer i f q s") auto
next
  case (DoStart i)
  have "extT sha s (fst (sendOffer a s))" for a s by (rule extT_objs) (simp_all add: sendOffer_def Let_def)
  note u = extT_upd_then [OF _ this]
  show ?thesis
    using u [of s _ "\<lambda>t. t\<lparr>tr_status := SnOffered, tr_paused := False, tr_reason := Some ''Waiting for peer acceptance''\<rparr>"] DoStart
    by (simp add: startQueued_def Let_def split_def split: option.splits)
next
  case (PeerAccept i)
  then show ?thesis
    using extT_upd_then [OF _ extT_pump] by (simp add: snd_accept_def Let_def split_def split: option.splits)
next
  case (PeerAck i ix)
  have c: "extT sha s (clearInflightTimer c s)" for c by (rule extT_objs) simp_all
  show ?thesis
    using extT_trans [OF c extT_upd_then [OF _ extT_pump]] PeerAck
    by (simp add: snd_ack_def Let_def split_def keepT_ack split: option.splits)
next
  case (PeerNack i ix r)
  then show ?thesis by (simp add: snd_nack_def extT_chunk Let_def split: option.splits)
next
  case (DoPause i r)
  then show ?thesis
    using extT_upd_then [OF _ extT_hold_fold]
    by (simp add: snd_pause_def holdOutstanding_def Let_def split: option.splits)
next
  case (DoResume i)
  then show ?thesis
    using extT_upd_then [OF _ extT_resume] by (simp add: snd_resume_def Let_def split_def split: option.splits)
next
  case (DoCancel i r n)
  then show ?thesis
    using extT_upd_then [OF _ extT_clearTimers] by (simp add: snd_cancel_def Let_def split: option.splits)
next
  case (DoRemove i)
  then show ?thesis by (auto simp: snd_remove_def extT_def split: option.splits)
next
  case (Fire tid)
  have "extT sha s (fst (fireTimer cb (s\<lparr>fs_timers := m\<rparr>)))" for cb m
  proof (rule extT_trans)
    show "extT sha s (s\<lparr>fs_timers := m\<rparr>)" by (simp add: extT_def)
    show "extT sha (s\<lparr>fs_timers := m\<rparr>) (fst (fireTimer cb (s\<lparr>fs_timers := m\<rparr>)))" by (cases cb) (simp_all add: extT_chunk)
  qed
  then show ?thesis using Fire by (auto split: option.splits)
next
  case (Continue t r)
  have "extT sha s (fst (continueTask sha t r (s\<lparr>fs_tasks := m\<rparr>)))" for m
    by (rule extT_trans [OF _ extT_continue]) (simp add: extT_def)
  then show ?thesis using Continue by simp
qed (simp_all add: extT_globalPause extT_reset, simp add: snd_setProfile_def extT_def)

text \<open>The messages that carry the file or make claims about it; all others are updates and cancellations.\<close>

fun isData :: "SenderEffect \<Rightarrow> bool" where
  "isData (SSend (FileOffer _ _ _ _ _ _ _) _) = True"
| "isData (SSend (FileChunk _ _ _ _) _) = True"
| "isData (SSend (FileComplete _ _) _) = True"
| "isData _ = False"

definition noData :: "SenderEffect list \<Rightarrow> bool" where
  "noData es = (\<forall>e \<in> set es. \<not> isData e)"

lemma noData_simps [simp]:
  "noData []" "noData (e # es) = (\<not> isData e \<and> noData es)" "noData (es @ fs) = (noData es \<and> noData fs)"
  by (auto simp: noData_def)

lemma isData_emit [simp]: "\<not> isData (snd_emit a s)"
  by (simp add: snd_emit_def)

lemma noData_chunk [simp]: "noData (snd (sendChunk a i n s))" "noData (snd (scheduleRetry a i n r s))" "noData (snd (snd_fail a r s))"
proof -
  show f: "noData (snd (snd_fail a r s))" for r s by (simp add: snd_fail_def Let_def)
  have "noData (snd (failAndNotify a r s))" for r s using f [of r s] by (simp add: failAndNotify_def split_def Let_def)
  then show "noData (snd (sendChunk a i n s))" "noData (snd (scheduleRetry a i n r s))"
    by (simp_all add: sendChunk_def scheduleRetry_def Let_def split_def)
qed

lemma noData_pumpLoop: "noData (snd (pumpLoop a s)) \<and> tr_acked (fs_objs (fst (pumpLoop a s)) a) = tr_acked (fs_objs s a) \<and>
  tr_totalChunks (fs_objs (fst (pumpLoop a s)) a) = tr_totalChunks (fs_objs s a) \<and>
  tr_fileId (fs_objs (fst (pumpLoop a s)) a) = tr_fileId (fs_objs s a)"
proof (induction a s rule: pumpLoop.induct)
  case (1 a s)
  let ?t = "fs_objs s a"
  let ?u = "updT a (\<lambda>t. t\<lparr>tr_nextIndex := tr_nextIndex t + 1\<rparr>) s"
  let ?r = "fst (sendChunk a (tr_nextIndex ?t) 1 ?u)"
  show ?case
  proof (cases "\<not> tr_cancelled ?t \<and> \<not> tr_paused ?t \<and> \<not> fs_globalPaused s \<and>
      length (tr_inflight ?t) < windowChunks (files (fs_profile s)) \<and> tr_nextIndex ?t < tr_totalChunks ?t")
    case True
    have IH: "noData (snd (pumpLoop a ?r)) \<and> tr_acked (fs_objs (fst (pumpLoop a ?r)) a) = tr_acked (fs_objs ?r a) \<and>
        tr_totalChunks (fs_objs (fst (pumpLoop a ?r)) a) = tr_totalChunks (fs_objs ?r a) \<and>
        tr_fileId (fs_objs (fst (pumpLoop a ?r)) a) = tr_fileId (fs_objs ?r a)"
      by (rule 1 [OF refl True refl prod.collapse])
    have k: "tr_acked (fs_objs ?r a) = tr_acked ?t \<and> tr_totalChunks (fs_objs ?r a) = tr_totalChunks ?t \<and>
        tr_fileId (fs_objs ?r a) = tr_fileId ?t"
      by (simp add: sendChunk_def failAndNotify_def snd_fail_def Let_def split_def)
    have "pumpLoop a s = (fst (pumpLoop a ?r), snd (sendChunk a (tr_nextIndex ?t) 1 ?u) @ snd (pumpLoop a ?r))"
      using True by (subst pumpLoop.simps) (simp add: Let_def split_def)
    then show ?thesis using IH k by (simp only: fst_conv snd_conv noData_simps noData_chunk)
  qed (subst pumpLoop.simps, auto simp: Let_def)+
qed

text \<open>
  What the effects promise: an offer and a chunk describe the file of the transfer they name; a completion
  notice is sent when all chunks were acknowledged.
\<close>

fun honest :: "(bytes \<Rightarrow> bytes) \<Rightarrow> FileSender \<Rightarrow> SenderEffect \<Rightarrow> bool" where
  "honest sha s (SSend (FileOffer i n m sz cs tot h) l) =
     (l = Control \<and> (\<exists>a < fs_next s. let t = fs_objs s a in
        tr_fileId t = i \<and> n = tr_name t \<and> m = tr_mime t \<and> sz = tr_size t \<and> cs = tr_chunkSize t \<and> tot = tr_totalChunks t \<and>
        h \<in> {None, Some (digestBlob sha (file_bytes (tr_file t)))}))"
| "honest sha s (SSend (FileChunk i ix tot d) l) =
     (l = File \<and> (\<exists>a < fs_next s. let t = fs_objs s a in
        tr_fileId t = i \<and> tot = tr_totalChunks t \<and> 0 \<le> ix \<and> ix < tot \<and> d = encodeChunk (chunkBytesOf t ix)))"
| "honest sha s (SSend (FileComplete i h) l) =
     (l = Control \<and> (\<exists>a < fs_next s. let t = fs_objs s a in
        tr_fileId t = i \<and> (\<exists>A \<subseteq> tr_acked t. tr_totalChunks t \<le> int (card A))))"
| "honest sha s _ = True"

lemma honest_noData: "\<not> isData e \<Longrightarrow> honest sha s e"
  by (cases "(sha, s, e)" rule: honest.cases) simp_all

lemma honest_noData_all: "noData es \<Longrightarrow> \<forall>e \<in> set es. honest sha s e"
  by (auto simp: noData_def intro: honest_noData)

lemma chunkBytesOf_cong: "same_file t t' \<Longrightarrow> chunkBytesOf t' ix = chunkBytesOf t ix"
  by (simp add: chunkBytesOf_def same_file_def)

lemma honest_ext:
  assumes "extT sha s s'" and "honest sha s e"
  shows "honest sha s' e"
proof (cases "isData e")
  case False
  then show ?thesis by (rule honest_noData)
next
  case True
  have keep: "a < fs_next s' \<and> keepT sha (fs_objs s a) (fs_objs s' a)" if "a < fs_next s" for a
    using assms(1) that by (auto simp: extT_def)
  from True obtain m l where e: "e = SSend m l" by (cases e rule: isData.cases) auto
  consider i n mm sz cs tot h where "m = FileOffer i n mm sz cs tot h" | i ix tot d where "m = FileChunk i ix tot d"
    | i h where "m = FileComplete i h"
    using True e by (cases m) auto
  then show ?thesis
  proof cases
    case 1
    then show ?thesis using assms(2) e keep by (fastforce simp: Let_def keepT_def same_file_def)
  next
    case 2
    then obtain a where "l = File" "a < fs_next s" "tr_fileId (fs_objs s a) = i" "tot = tr_totalChunks (fs_objs s a)"
      "0 \<le> ix" "ix < tot" "d = encodeChunk (chunkBytesOf (fs_objs s a) ix)"
      using assms(2) e by (auto simp: Let_def)
    then show ?thesis using 2 e keep [of a] chunkBytesOf_cong [of "fs_objs s a" "fs_objs s' a" ix]
      by (auto simp: Let_def keepT_def same_file_def intro!: exI [of _ a])
  next
    case 3
    then obtain a A where "l = Control" "a < fs_next s" "tr_fileId (fs_objs s a) = i" "A \<subseteq> tr_acked (fs_objs s a)"
      "tr_totalChunks (fs_objs s a) \<le> int (card A)"
      using assms(2) e by (auto simp: Let_def)
    then show ?thesis using 3 e keep [of a]
      by (auto simp: Let_def keepT_def same_file_def intro!: exI [of _ a] exI [of _ A])
  qed
qed

lemma honest_pump:
  assumes a: "a < fs_next s"
  shows "\<forall>e \<in> set (snd (snd_pump a s)). honest sha (fst (snd_pump a s)) e"
proof (rule ballI)
  fix e assume e: "e \<in> set (snd (snd_pump a s))"
  let ?u = "fst (pumpLoop a (setPumping a True s))"
  let ?s = "fst (snd_pump a s)"
  have nx: "a < fs_next ?s" using extT_pump [of sha s a] a by (simp add: extT_def)
  show "honest sha ?s e"
  proof (cases "isData e")
    case False
    then show ?thesis by (rule honest_noData)
  next
    case True
    have eff: "snd (snd_pump a s) = snd (pumpLoop a (setPumping a True s)) @ fst (snd (completeIfDone a ?u)) \<and>
        fs_objs ?s a = (fs_objs (fst (completeIfDone a ?u)) a)\<lparr>tr_pumping := tr_pumping (fs_objs ?s a)\<rparr>"
      using e by (cases "tr_pumping (fs_objs s a)") (auto simp: snd_pump_def Let_def split_def split: if_splits)
    have "noData (snd (pumpLoop a (setPumping a True s)))" using noData_pumpLoop by simp
    then have e2: "e \<in> set (fst (snd (completeIfDone a ?u)))" using e True eff by (auto simp: noData_def)
    then have c: "tr_totalChunks (fs_objs ?u a) \<le> int (card (tr_acked (fs_objs ?u a)))"
      and e3: "e = SSend (FileComplete (tr_fileId (fs_objs ?u a)) (shaField (tr_sha256 (fs_objs ?u a)))) Control"
      using True by (auto simp: completeIfDone_def Let_def split: if_splits)
    have ob: "\<exists>b. fs_objs ?s a = (fs_objs (fst (completeIfDone a ?u)) a)\<lparr>tr_pumping := b\<rparr>" using eff by blast
    have "tr_acked (fs_objs ?s a) = tr_acked (fs_objs ?u a) \<and> tr_totalChunks (fs_objs ?s a) = tr_totalChunks (fs_objs ?u a) \<and>
        tr_fileId (fs_objs ?s a) = tr_fileId (fs_objs ?u a)"
      using ob by (elim exE) (simp add: completeIfDone_def Let_def)
    then show ?thesis using c e3 nx by (auto simp: Let_def intro!: exI [of _ a])
  qed
qed

lemma noData_resume_fold: "noData es \<Longrightarrow> noData (snd (fold (resumeItem a) ks (s, es)))"
proof (induction ks arbitrary: s es)
  case (Cons k ks)
  have "noData (snd (resumeItem a k (s, es)))"
    using Cons.prems by (simp add: resumeItem_def Let_def split_def split: option.splits)
  then show ?case using Cons.IH [of "snd (resumeItem a k (s, es))" "fst (resumeItem a k (s, es))"] by simp
qed simp

lemma honest_resume:
  assumes a: "a < fs_next s"
  shows "\<forall>e \<in> set (snd (resumeOutstanding a s)). honest sha (fst (resumeOutstanding a s)) e"
proof -
  let ?r = "fold (resumeItem a) (map_keys (tr_inflight (fs_objs s a))) (s, [])"
  have "a < fs_next (fst ?r)" using extT_resume_fold [of sha s a "map_keys (tr_inflight (fs_objs s a))" "[]"] a by (simp add: extT_def)
  from honest_pump [OF this] noData_resume_fold [of "[]" a "map_keys (tr_inflight (fs_objs s a))" s] show ?thesis
    by (auto simp: resumeOutstanding_def Let_def split_def intro: honest_noData simp: noData_def)
qed

lemma honest_pauseTransfer:
  assumes a: "a < fs_next s" and es: "\<forall>e \<in> set es. honest sha s e"
  shows "\<forall>e \<in> set (snd (pauseTransfer b r a (s, es))). honest sha (fst (pauseTransfer b r a (s, es))) e"
proof (cases "tr_status (fs_objs s a) \<noteq> SnSending \<and> tr_status (fs_objs s a) \<noteq> SnPaused")
  case True
  then show ?thesis using es by (simp add: pauseTransfer_def)
next
  case False
  let ?p = "pauseTransfer b r a (s, es)"
  let ?u = "updT a (\<lambda>t. t\<lparr>tr_paused := b, tr_status := (if b then SnPaused else SnSending), tr_reason := (if b then Some r else None)\<rparr>) s"
  have p: "?p = (if b then (holdOutstanding a ?u, es @ [snd_emit a (holdOutstanding a ?u)])
      else (fst (resumeOutstanding a ?u), es @ snd_emit a ?u # snd (resumeOutstanding a ?u)))"
    using False by (auto simp: pauseTransfer_def Let_def split_def)
  have ext: "\<forall>e \<in> set es. honest sha (fst ?p) e" using es honest_ext [OF extT_pauseTransfer] by blast
  have "\<forall>e \<in> set (snd (resumeOutstanding a ?u)). honest sha (fst (resumeOutstanding a ?u)) e"
    using a by (intro honest_resume) simp
  then show ?thesis using ext unfolding p by (auto intro: honest_noData)
qed

lemma honest_globalPause:
  assumes g: "good D W s"
  shows "\<forall>e \<in> set (snd (setGlobalPaused b r s)). honest sha (fst (setGlobalPaused b r s)) e"
proof -
  have fold: "\<forall>e \<in> set (snd (fold (\<lambda>(i, a). pauseTransfer b r a) ps (s, es))).
      honest sha (fst (fold (\<lambda>(i, a). pauseTransfer b r a) ps (s, es))) e"
    if "\<forall>e \<in> set es. honest sha s e" "\<And>i a. (i, a) \<in> set ps \<Longrightarrow> a < fs_next s" for ps es s
    using that
  proof (induction ps arbitrary: s es)
    case (Cons p ps)
    obtain i a where p: "p = (i, a)" by (cases p)
    let ?r = "fst (pauseTransfer b r a (s, es))" and ?e = "snd (pauseTransfer b r a (s, es))"
    have nx: "fs_next s \<le> fs_next ?r" using extT_pauseTransfer [of sha s b r a es] by (simp add: extT_def)
    have "a < fs_next s" using Cons.prems(2) [of i a] p by simp
    have "\<forall>e \<in> set (snd (fold (\<lambda>(i, a). pauseTransfer b r a) ps (?r, ?e))).
        honest sha (fst (fold (\<lambda>(i, a). pauseTransfer b r a) ps (?r, ?e))) e"
    proof (rule Cons.IH)
      show "\<forall>e \<in> set ?e. honest sha ?r e" by (rule honest_pauseTransfer [OF \<open>a < fs_next s\<close> Cons.prems(1)])
      show "c < fs_next ?r" if "(k, c) \<in> set ps" for k c using Cons.prems(2) [of k c] that nx by simp
    qed
    then show ?case using p by simp
  qed simp
  have "a < fs_next s" if "(i, a) \<in> set (fs_transfers s)" for i a
    using that snd_baseD(2,3) [OF goodD(2) [OF g]] by (auto simp: wf_map_def)
  then show ?thesis unfolding setGlobalPaused_def by (intro fold) auto
qed

lemma honest_emit [simp]: "honest sha s (snd_emit a t)"
  by (simp add: snd_emit_def)

lemma honest_offer: "a < fs_next s \<Longrightarrow> shaOk sha (fs_objs s a) \<Longrightarrow>
  \<forall>e \<in> set (snd (sendOffer a s)). honest sha (fst (sendOffer a s)) e"
  by (auto simp: sendOffer_def Let_def shaOk_def shaField_def)

lemma honest_register:
  assumes "a < fs_next s" and "shaOk sha (fs_objs s a)"
  shows "\<forall>e \<in> set (snd (registerTransfer a q s)). honest sha (fst (registerTransfer a q s)) e"
  using honest_offer [of a "s\<lparr>fs_transfers := m\<rparr>" sha for m] assms
  by (auto simp: registerTransfer_def Let_def split_def intro: honest_noData)

lemma chunkBytesOf_slice:
  assumes "tr_wf t" and "0 \<le> ix" and "ix < tr_totalChunks t"
  shows "chunkBytesOf t ix = fileSlice (tr_chunkSize t) (file_bytes (tr_file t)) ix"
proof -
  let ?c = "tr_chunkSize t" and ?b = "file_bytes (tr_file t)"
  have c: "0 < ?c" "tr_size t = int (length ?b)" using assms(1) by (simp_all add: tr_wf_def)
  have st: "nat (ix * ?c) = nat ix * nat ?c" using assms(2) by (simp add: nat_mult_distrib)
  show ?thesis
  proof (cases "ix * ?c + ?c \<le> tr_size t")
    case True
    then show ?thesis by (simp add: chunkBytesOf_def fileSlice_def st Let_def)
  next
    case False
    have "take (nat (tr_size t - ix * ?c)) (drop (nat (ix * ?c)) ?b) = take (nat ?c) (drop (nat (ix * ?c)) ?b)"
      using False c assms(2) by (intro take_equalityI) auto
    then show ?thesis using False by (simp add: chunkBytesOf_def fileSlice_def subbytes_def st Let_def)
  qed
qed

lemma honest_continue:
  assumes ok: "staskOk s t" and wf: "\<And>a. a < fs_next s \<Longrightarrow> tr_wf (fs_objs s a) \<and> shaOk sha (fs_objs s a)"
    and s': "s' = s\<lparr>fs_tasks := ts\<rparr>"
  shows "\<forall>e \<in> set (snd (continueTask sha t r s')). honest sha (fst (continueTask sha t r s')) e"
proof (cases t)
  case (OfferDigest a q)
  let ?f = "\<lambda>t. t\<lparr>tr_sha256 := (if r = Succeeded then Some (digestBlob sha (file_bytes (tr_file t))) else None)\<rparr>"
  have "shaOk sha (fs_objs (updT a ?f s') a)" "a < fs_next (updT a ?f s')" using ok OfferDigest by (simp_all add: shaOk_def s')
  then show ?thesis using honest_register OfferDigest by (simp add: afterOfferDigest_def)
next
  case (AfterOffer a)
  then show ?thesis using honest_noData_all [OF noData_chunk(3)] by (auto simp: afterOffer_def)
next
  case (ReadChunk a i n)
  show ?thesis
  proof (cases r)
    case Succeeded
    have "a < fs_next s" "0 \<le> i" "i < tr_totalChunks (fs_objs s a)"
      using ok wf ReadChunk by (fastforce simp: ref_ok_def tr_wf_def)+
    then show ?thesis using ReadChunk Succeeded by (auto simp: afterRead_def Let_def s' intro!: exI [of _ a])
  qed (use ReadChunk honest_noData_all [OF noData_chunk(2)] in \<open>auto simp: afterRead_def\<close>)
next
  case (SentChunk a i n)
  show ?thesis
  proof (cases r)
    case Succeeded
    have "noData (snd (afterSend a i n r s'))" using Succeeded by (simp add: afterSend_def Let_def split_def)
    then show ?thesis using honest_noData_all SentChunk by simp
  qed (use SentChunk honest_noData_all [OF noData_chunk(2)] in \<open>auto simp: afterSend_def\<close>)
qed simp

lemma honest_step:
  assumes g: "good D W s" and sh: "\<And>a. a < fs_next s \<Longrightarrow> shaOk sha (fs_objs s a)"
  shows "\<forall>e \<in> set (snd (send_step sha op s)). honest sha (fst (send_step sha op s)) e"
proof (cases op)
  case (DoOffer i f q)
  let ?r = "s\<lparr>fs_objs := (fs_objs s)(fs_next s := newOutgoing (fs_profile s) i f q), fs_next := fs_next s + 1\<rparr>"
  have "\<forall>e \<in> set (snd (registerTransfer (fs_next s) q ?r)). honest sha (fst (registerTransfer (fs_next s) q ?r)) e"
    by (rule honest_register) (simp_all add: shaOk_def newOutgoing_def Let_def)
  then show ?thesis using DoOffer
    by (cases "validateOutboundFile f (fs_profile s)") (simp_all add: snd_offer_def Let_def)
next
  case (DoStart i)
  have "\<forall>e \<in> set (snd (sendOffer a (updT a (\<lambda>t. t\<lparr>tr_status := SnOffered, tr_paused := False,
      tr_reason := Some ''Waiting for peer acceptance''\<rparr>) s))). honest sha (fst (sendOffer a (updT a (\<lambda>t. t\<lparr>tr_status := SnOffered,
      tr_paused := False, tr_reason := Some ''Waiting for peer acceptance''\<rparr>) s))) e" if "a < fs_next s" for a
    using that sh [OF that] by (intro honest_offer) (simp_all add: shaOk_def)
  then show ?thesis using DoStart good_lookup(2) [OF g, of i]
    by (auto simp: startQueued_def Let_def split_def intro: honest_noData split: option.splits)
next
  case (PeerAccept i)
  then show ?thesis using good_lookup(2) [OF g, of i]
    by (auto simp: snd_accept_def Let_def split_def intro!: honest_pump [rule_format] split: option.splits)
next
  case (PeerAck i ix)
  then show ?thesis using good_lookup(2) [OF g, of i]
    by (auto simp: snd_ack_def Let_def split_def intro!: honest_pump [rule_format] split: option.splits)
next
  case (PeerNack i ix r)
  then show ?thesis using honest_noData_all [OF noData_chunk(2)] by (simp add: snd_nack_def Let_def split: option.splits)
next
  case (DoPause i r)
  then show ?thesis by (auto simp: snd_pause_def Let_def intro: honest_noData split: option.splits)
next
  case (DoResume i)
  then show ?thesis using good_lookup(2) [OF g, of i]
    by (auto simp: snd_resume_def Let_def split_def intro!: honest_resume [rule_format] split: option.splits)
next
  case (DoCancel i r n)
  then show ?thesis by (auto simp: snd_cancel_def Let_def intro: honest_noData split: option.splits)
next
  case (DoGlobalPause b r)
  then show ?thesis using honest_globalPause [OF g] by simp
next
  case (Fire tid)
  have "noData (snd (fireTimer cb s))" for cb s by (cases cb) simp_all
  note h = honest_noData_all [OF this]
  show ?thesis using Fire by (auto split: option.splits intro: h [rule_format])
next
  case (Continue t r)
  then show ?thesis
    using honest_continue [OF snd_baseD(6) [OF goodD(2) [OF g]] _ refl, of t sha] snd_baseD(4) [OF goodD(2) [OF g]] sh by simp
qed simp_all

lemma send_run_honest:
  assumes "send_run sha D W es s"
  shows "(\<forall>e \<in> set es. honest sha s e) \<and> (\<forall>a < fs_next s. shaOk sha (fs_objs s a))"
  using assms
proof (induction rule: send_run.induct)
  case (send_start p)
  then show ?case by (simp add: newSender_def)
next
  case (send_next es s op s' e)
  have ext: "extT sha s s'" using extT_step [of sha s op] send_next.hyps(3) by simp
  have "shaOk sha (fs_objs s' a)" if a: "a < fs_next s'" for a
  proof (cases "a < fs_next s")
    case True
    then have "keepT sha (fs_objs s a) (fs_objs s' a)" "shaOk sha (fs_objs s a)"
      using ext send_next.IH by (simp_all add: extT_def)
    then show ?thesis by (auto simp: keepT_def shaOk_def same_file_def)
  qed (use ext a in \<open>simp add: extT_def\<close>)
  moreover have "\<forall>x \<in> set es. honest sha s' x" using send_next.IH honest_ext [OF ext] by blast
  moreover have "\<forall>x \<in> set e. honest sha s' x"
    using honest_step [OF send_run_good [OF send_next.hyps(1)], of sha op] send_next.IH send_next.hyps(3) by simp
  ultimately show ?case by auto
qed

end
