(* ===== verification/SenderDemo.thy ===== *)
theory SenderDemo
  imports SenderSends
begin

text \<open>A concrete run of the file sender, on which its properties are evaluated.\<close>

section \<open>A concrete run\<close>

text \<open>A run given by its operations.\<close>

fun sendOps :: "(bytes \<Rightarrow> bytes) \<Rightarrow> SendOp list \<Rightarrow> FileSender \<Rightarrow> FileSender \<times> SenderEffect list" where
  "sendOps sha [] s = (s, [])"
| "sendOps sha (op # ops) s =
     (let (s1, es) = send_step sha op s; (s2, es') = sendOps sha ops s1 in (s2, es @ es'))"

fun opsOk :: "(bytes \<Rightarrow> bytes) \<Rightarrow> bool \<Rightarrow> nat \<Rightarrow> SendOp list \<Rightarrow> FileSender \<Rightarrow> bool" where
  "opsOk sha D W [] s = True"
| "opsOk sha D W (op # ops) s = (op_ok D W op s \<and> opsOk sha D W ops (fst (send_step sha op s)))"

lemma sendOps_run:
  "send_run sha D W es s \<Longrightarrow> opsOk sha D W ops s \<Longrightarrow>
   send_run sha D W (es @ snd (sendOps sha ops s)) (fst (sendOps sha ops s))"
proof (induction ops arbitrary: s es)
  case (Cons op ops)
  obtain s1 e where st: "send_step sha op s = (s1, e)" by (cases "send_step sha op s")
  have "send_run sha D W (es @ e) s1" by (rule send_next [OF Cons.prems(1) _ st]) (use Cons.prems(2) in simp)
  from Cons.IH [OF this] show ?case using Cons.prems(2) st by (simp add: split_def Let_def)
qed simp

text \<open>A window of one chunk of two bytes.\<close>

definition demoProfile :: TransportProfile where
  "demoProfile = (let p = getProfile Balanced in p\<lparr>files := (files p)\<lparr>chunkBytes := 2, windowChunks := 1\<rparr>\<rparr>)"

definition demoFile :: File where
  "demoFile = \<lparr>file_name = ''f.txt'', file_type = '''', file_bytes = [1, 2, 3]\<rparr>"

definition demoSending :: "SendOp list" where
  "demoSending =
     [DoOffer ''f'' demoFile False, Continue (OfferDigest 0 False) Succeeded, Continue (AfterOffer 0) Succeeded,
      PeerAccept ''f'', Continue (ReadChunk 0 0 1) Succeeded]"

definition demoTransfer :: Transfer where
  "demoTransfer = (newOutgoing demoProfile ''f'' demoFile False)\<lparr>tr_sha256 := Some (digestBlob id [1, 2, 3])\<rparr>"

lemma demoProfile_sel:
  "windowChunks (files demoProfile) = 1" "chunkBytes (files demoProfile) = 2" "3 \<le> smallBytes (files demoProfile)"
  "maxRetries (files demoProfile) = 8"
  by (simp_all add: demoProfile_def getProfile_def balanced_def Let_def)

lemma demo_valid: "validateOutboundFile demoFile demoProfile = Inr ()"
  by (simp add: validateOutboundFile_def demoFile_def demoProfile_def getProfile_def balanced_def Let_def)

lemma demoTransfer_sel [simp]:
  "tr_fileId demoTransfer = ''f''" "tr_size demoTransfer = 3" "tr_chunkSize demoTransfer = 2" "tr_totalChunks demoTransfer = 2"
  "tr_accepted demoTransfer = False" "tr_paused demoTransfer = False" "tr_cancelled demoTransfer = False"
  "tr_pumping demoTransfer = False" "tr_nextIndex demoTransfer = 0" "tr_acked demoTransfer = {}" "tr_inflight demoTransfer = []"
  "tr_status demoTransfer = SnOffered" "tr_file demoTransfer = demoFile"
  by (simp_all add: demoTransfer_def newOutgoing_def demoProfile_sel demoFile_def ceilDiv_def Let_def)

lemma demo_file: "file_bytes demoFile = [1, 2, 3]"
  by (simp add: demoFile_def)

lemma newOutgoing_sel: "tr_fileId (newOutgoing p i f q) = i" "tr_file (newOutgoing p i f q) = f"
  by (simp_all add: newOutgoing_def Let_def)

text \<open>The sender after the offer, and after the peer has accepted it and the first chunk has been read.\<close>

definition demoOffered :: FileSender where
  "demoOffered =
     (newSender demoProfile)\<lparr>fs_transfers := [(''f'', 0)], fs_objs := (fs_objs (newSender demoProfile))(0 := demoTransfer), fs_next := 1\<rparr>"

definition demoSender :: FileSender where
  "demoSender =
     demoOffered\<lparr>fs_objs := (fs_objs demoOffered)(0 := demoTransfer\<lparr>tr_accepted := True, tr_status := SnSending, tr_paused := False,
       tr_nextIndex := 1, tr_inflight := [(0, \<lparr>ic_attempts = 1, ic_state = CsSending, ic_timer = None\<rparr>)], tr_reason := None,
       tr_pumping := False\<rparr>),
       fs_tasks := [SentChunk 0 0 1]\<rparr>"

lemma demo_offer:
  "fst (sendOps id (take 3 demoSending) (newSender demoProfile)) = demoOffered"
  using demoProfile_sel(3)
  by (simp add: demoSending_def demoOffered_def demoTransfer_def snd_offer_def demo_valid newSender_def [of demoProfile] registerTransfer_def
      sendOffer_def afterOfferDigest_def afterOffer_def await_def updT_def Let_def demo_file newOutgoing_sel)

lemmas pump_defs = snd_pump_def setPumping_def pumpLoop.simps [of 0] completeIfDone_def sendChunk_def setInflight_def setReason_def
  clearInflightTimer_def isHeld_def tooMany_def updT_def await_def snd_emit_def Let_def

lemma demo_sender:
  "fst (sendOps id (drop 3 demoSending) demoOffered) = demoSender"
  by (simp add: demoSending_def demoOffered_def demoSender_def newSender_def snd_accept_def afterRead_def pump_defs demoProfile_sel)

lemma demo_hash_hex: "digestBlob id [1, 2, 3] = ''010203''"
  by (simp add: digestBlob_def bytesToHex_def hexDigit_def)

lemma demo_sizes:
  "tr_size (newOutgoing demoProfile i demoFile q) = 3" "tr_chunkSize (newOutgoing demoProfile i demoFile q) = 2"
  "tr_totalChunks (newOutgoing demoProfile i demoFile q) = 2"
  by (simp_all add: newOutgoing_def demoProfile_sel demo_file ceilDiv_def Let_def)

abbreviation demoOffering :: "SenderEffect list" where
  "demoOffering \<equiv> snd (sendOps id (take 3 demoSending) (newSender demoProfile))"

lemma demo_offer_sent:
  "SSend (FileOffer ''f'' (tr_name demoTransfer) (tr_mime demoTransfer) 3 2 2 (Some (digestBlob id [1, 2, 3]))) Control \<in> set demoOffering"
  using demoProfile_sel(3)
  by (simp add: demoSending_def snd_offer_def demo_valid newSender_def [of demoProfile] registerTransfer_def shaField_def
      sendOffer_def afterOfferDigest_def afterOffer_def await_def updT_def Let_def demo_file newOutgoing_sel demoTransfer_def demo_hash_hex demo_sizes)

lemma demo_offered_run: "send_run id D 1 demoOffering demoOffered"
proof -
  have ok: "snd_profile_ok 1 demoProfile" by (simp add: snd_profile_ok_def demoProfile_sel)
  have "opsOk id D 1 (take 3 demoSending) (newSender demoProfile)" by (simp add: demoSending_def)
  from sendOps_run [OF send_start [OF ok] this] show ?thesis by (simp add: demo_offer)
qed

lemma demoSender_run: "send_run id D 1 (demoOffering @ snd (sendOps id (drop 3 demoSending) demoOffered)) demoSender"
proof -
  have "opsOk id D 1 (drop 3 demoSending) demoOffered" by (simp add: demoSending_def demoOffered_def)
  from sendOps_run [OF demo_offered_run this] show ?thesis by (simp add: demo_sender)
qed

lemma demo_sent:
  "SSend (FileChunk ''f'' 0 2 (encodeChunk [1, 2])) File \<in> set (snd (sendOps id (drop 3 demoSending) demoOffered))"
  by (simp add: demoSending_def demoOffered_def newSender_def snd_accept_def afterRead_def pump_defs demoProfile_sel
      chunkBytesOf_def subbytes_def demo_file)

lemma demoSender_sel [simp]:
  "map_get (fs_transfers demoSender) ''f'' = Some 0" "fs_next demoSender = 1" "\<not> fs_globalPaused demoSender"
  "tr_accepted (fs_objs demoSender 0)" "tr_status (fs_objs demoSender 0) = SnSending" "\<not> tr_paused (fs_objs demoSender 0)"
  "\<not> tr_cancelled (fs_objs demoSender 0)" "tr_totalChunks (fs_objs demoSender 0) = 2" "tr_acked (fs_objs demoSender 0) = {}"
  "tr_nextIndex (fs_objs demoSender 0) = 1" "tr_fileId (fs_objs demoSender 0) = ''f''" "tr_chunkSize (fs_objs demoSender 0) = 2"
  "tr_file (fs_objs demoSender 0) = demoFile" "fs_tasks demoSender = [SentChunk 0 0 1]" "fs_profile demoSender = demoProfile"
  "tr_inflight (fs_objs demoSender 0) = [(0, \<lparr>ic_attempts = 1, ic_state = CsSending, ic_timer = None\<rparr>)]"
  by (simp_all add: demoSender_def demoOffered_def newSender_def)

end
