(* ===== verification/SenderProps.thy ===== *)
theory SenderProps
  imports SenderDemo
begin

text \<open>The properties of the file sender (\<^verbatim>\<open>FileSender.ts\<close>).\<close>

section \<open>Acknowledging a transfer to its end\<close>

text \<open>The transfer \<open>a\<close> may send, or is complete.\<close>

definition advancing :: "nat \<Rightarrow> string \<Rightarrow> nat \<Rightarrow> FileSender \<Rightarrow> bool" where
  "advancing W i a s =
     (good True W s \<and> map_get (fs_transfers s) i = Some a \<and> \<not> tr_cancelled (fs_objs s a) \<and> \<not> tr_paused (fs_objs s a) \<and>
      \<not> fs_globalPaused s \<and> tr_accepted (fs_objs s a) \<and> (tr_status (fs_objs s a) = SnSending \<or> tr_status (fs_objs s a) = SnCompleted))"

lemma ack_advances:
  assumes adv: "advancing W i a s" and low: "{0..<k} \<subseteq> tr_acked (fs_objs s a)" and k: "0 \<le> k" "k < tr_totalChunks (fs_objs s a)"
    and s': "s' = fst (snd_ack i k s)"
  shows "advancing W i a s' \<and> {0..<k + 1} \<subseteq> tr_acked (fs_objs s' a) \<and> tr_totalChunks (fs_objs s' a) = tr_totalChunks (fs_objs s a) \<and>
    (tr_status (fs_objs s' a) = SnCompleted \<longrightarrow> tr_status (fs_objs s a) = SnCompleted \<or>
      (\<exists>h. SSend (FileComplete i h) Control \<in> set (snd (snd_ack i k s))))"
proof -
  let ?t = "fs_objs s a"
  have g: "good True W s" and a: "map_get (fs_transfers s) i = Some a" and nc: "\<not> tr_cancelled ?t" and ac: "tr_accepted ?t"
    and np: "\<not> tr_paused ?t" "\<not> fs_globalPaused s" and st: "tr_status ?t = SnSending \<or> tr_status ?t = SnCompleted"
    using adv by (simp_all add: advancing_def)
  note l = good_lookup [OF g a]
  note keys = outstanding_keys(1) [OF l(5,6) nc]
  have upto: "{0..<k + 1} = insert k {0..<k}" using k(1) by auto
  show ?thesis
  proof (cases "k \<in> tr_acked ?t")
    case True
    then have "k \<notin> keyset (tr_inflight ?t)" using keys by (auto simp: outstanding_def)
    then have "map_get (tr_inflight ?t) k = None" by (simp add: map_get_None_iff)
    then have "s' = s" using s' a by (simp add: snd_ack_def Let_def)
    then show ?thesis using adv low True upto by simp
  next
    case False
    have sending: "tr_status ?t = SnSending" using st tr_liveD(6) [OF l(6) nc] False k by auto
    have "outstanding ?t \<noteq> {}" using l(7) nc ac sending np by (simp add: prog_def isHeld_def Let_def)
    then have "k < tr_nextIndex ?t" using low by (auto simp: outstanding_def)
    then have "k \<in> keyset (tr_inflight ?t)" using keys False k by (auto simp: outstanding_def)
    then obtain c where c: "map_get (tr_inflight ?t) k = Some c" by (cases "map_get (tr_inflight ?t) k") (auto simp: map_get_None_iff)
    let ?u = "updT a (\<lambda>t. t\<lparr>tr_inflight := map_delete k (tr_inflight t), tr_acked := insert k (tr_acked t), tr_reason := None\<rparr>)
      (clearInflightTimer (Some c) s)"
    have u: "snd_inv True W {} ?u \<and> frameT a s ?u \<and> \<not> tr_cancelled (fs_objs ?u a)" by (rule ack_item [OF g a c refl])
    have ack: "snd_ack i k s = (fst (snd_pump a ?u), snd_emit a ?u # snd (snd_pump a ?u))"
      using a c nc k by (simp add: snd_ack_def Let_def split_def)
    have pre: "pump_pre a ?u"
      using u l(1,2) np ac sending nc frameT_live(1) [of a s ?u a] by (simp add: pump_pre_def isHeld_def)
    have npu: "\<not> tr_pumping (fs_objs ?u a)" using l(7) nc sending by (auto simp: prog_def Let_def)
    have inv: "snd_inv True W {} ?u" using u by simp
    note r = snd_pump_result [OF inv _ pre npu refl]
    have fr: "frameT a s s'" using r u frameT_trans [of a s ?u] ack s' by simp
    have good': "good True W s'" using good_ack [OF g] s' by simp
    have env: "fs_transfers s' = fs_transfers s" "fs_globalPaused s' = fs_globalPaused s"
      using fr by (simp_all add: frameT_def same_env_def)
    have st': "tr_status (fs_objs s' a) = SnSending \<or> tr_status (fs_objs s' a) = SnCompleted"
      "\<not> tr_cancelled (fs_objs s' a)" "tr_accepted (fs_objs s' a)" "\<not> tr_paused (fs_objs s' a)"
      using r ack s' np by (simp_all, blast)
    have "advancing W i a s'" using good' a env st' np by (simp add: advancing_def)
    moreover have "tr_acked (fs_objs s' a) = insert k (tr_acked ?t)" using r ack s' by simp
    moreover have "tr_totalChunks (fs_objs s' a) = tr_totalChunks ?t" using fr by (simp add: frameT_def same_file_def)
    moreover have "tr_status (fs_objs s' a) = SnCompleted \<longrightarrow> (\<exists>h. SSend (FileComplete i h) Control \<in> set (snd (snd_ack i k s)))"
      using r ack s' l(3) by auto
    ultimately show ?thesis using low upto by auto
  qed
qed

text \<open>The acknowledgements of the chunks \<open>0 .. n - 1\<close>, one after the other, and everything they cause to be sent.\<close>

fun ackUpTo :: "string \<Rightarrow> nat \<Rightarrow> FileSender \<Rightarrow> FileSender \<times> SenderEffect list" where
  "ackUpTo i 0 s = (s, [])"
| "ackUpTo i (Suc n) s = (let (s1, es) = ackUpTo i n s; (s2, es') = snd_ack i (int n) s1 in (s2, es @ es'))"

lemma ackUpTo_advances:
  assumes "advancing W i a s" and "tr_status (fs_objs s a) = SnSending" and "int n \<le> tr_totalChunks (fs_objs s a)"
  shows "case ackUpTo i n s of (s', es) \<Rightarrow> advancing W i a s' \<and> {0..<int n} \<subseteq> tr_acked (fs_objs s' a) \<and>
    tr_totalChunks (fs_objs s' a) = tr_totalChunks (fs_objs s a) \<and>
    (tr_status (fs_objs s' a) = SnCompleted \<longrightarrow> (\<exists>h. SSend (FileComplete i h) Control \<in> set es))"
  using assms
proof (induction n)
  case (Suc n)
  obtain s1 es where e: "ackUpTo i n s = (s1, es)" by (cases "ackUpTo i n s")
  have IH: "advancing W i a s1" "{0..<int n} \<subseteq> tr_acked (fs_objs s1 a)" "tr_totalChunks (fs_objs s1 a) = tr_totalChunks (fs_objs s a)"
    "tr_status (fs_objs s1 a) = SnCompleted \<longrightarrow> (\<exists>h. SSend (FileComplete i h) Control \<in> set es)"
    using Suc e by simp_all
  have "int n < tr_totalChunks (fs_objs s1 a)" using Suc.prems(3) IH(3) by simp
  note step = ack_advances [OF IH(1,2) _ this refl]
  show ?case using step IH e by (auto simp: Let_def split_def add.commute)
qed simp

section \<open>Properties of the sender\<close>

text \<open>
  C14. The window. After any sequence of operations, peer messages, timers and resumed calls, for every transfer
  in the map: unless it was cancelled or failed, the chunks handed out so far are exactly those acknowledged and
  those in flight, never both; at most the window's number of chunks is in flight; none is handed out twice or
  beyond the end of the file; and a completed transfer has every chunk acknowledged. A cancelled or failed
  transfer has nothing in flight.
\<close>

theorem sender_window_invariant:
  assumes "send_run sha False W es s" and "map_get (fs_transfers s) i = Some a"
  shows "case fs_objs s a of t \<Rightarrow>
    if tr_cancelled t then tr_inflight t = [] \<and> tr_status t \<in> {SnCancelled, SnFailed}
    else tr_acked t \<union> keyset (tr_inflight t) = {0..<tr_nextIndex t} \<and> tr_acked t \<inter> keyset (tr_inflight t) = {} \<and>
      length (tr_inflight t) \<le> W \<and> tr_nextIndex t \<le> tr_totalChunks t \<and>
      (tr_status t = SnCompleted \<longrightarrow> tr_acked t = {0..<tr_totalChunks t})"
proof (cases "tr_cancelled (fs_objs s a)")
  case False
  note l = good_lookup [OF send_run_good [OF assms(1)] assms(2)]
  have "tr_acked (fs_objs s a) \<subseteq> {0..<tr_nextIndex (fs_objs s a)}" "tr_nextIndex (fs_objs s a) \<le> tr_totalChunks (fs_objs s a)"
    "tr_acked (fs_objs s a) \<inter> keyset (tr_inflight (fs_objs s a)) = {}" using l(5) unfolding tr_wf_def by blast+
  moreover have "outstanding (fs_objs s a) \<union> tr_acked (fs_objs s a) = {0..<tr_nextIndex (fs_objs s a)}"
    using calculation(1) by (auto simp: outstanding_def)
  ultimately show ?thesis
    using False outstanding_keys [OF l(5,6) False] tr_liveD(3,6) [OF l(6) False] by (simp add: Un_commute)
qed (use tr_liveD(1) [OF good_lookup(6) [OF send_run_good [OF assms(1)] assms(2)]] in simp)

theorem sender_window_invariant_witness:
  "tr_acked (fs_objs demoSender 0) \<union> keyset (tr_inflight (fs_objs demoSender 0)) = {0..<tr_nextIndex (fs_objs demoSender 0)} \<and>
   length (tr_inflight (fs_objs demoSender 0)) \<le> 1"
proof -
  obtain es where r: "send_run id False 1 es demoSender" using demoSender_run by blast
  from sender_window_invariant [OF r, of "''f''" 0] show ?thesis by simp
qed

text \<open>
  The sender is never stuck. If the peer accepts each transfer at most once, then in every reachable state a
  transfer that is sending and not paused has a chunk in flight, and something is under way for each of them: a
  call that reads or sends it, or a pending timer that will retry it.
\<close>

theorem sender_never_stuck:
  assumes "send_run sha True W es s" and "map_get (fs_transfers s) i = Some a"
    and "tr_accepted (fs_objs s a)" and "tr_status (fs_objs s a) = SnSending"
    and "\<not> tr_paused (fs_objs s a)" and "\<not> fs_globalPaused s"
  shows "tr_inflight (fs_objs s a) \<noteq> [] \<and>
    (\<forall>ix c. map_get (tr_inflight (fs_objs s a)) ix = Some c \<longrightarrow>
      (\<exists>n. ReadChunk a ix n \<in> set (fs_tasks s) \<or> SentChunk a ix n \<in> set (fs_tasks s)) \<or>
      (\<exists>tid cb d. ic_timer c = Some tid \<and> map_get (fs_timers s) tid = Some (cb, d) \<and> timerRef cb = (a, ix)))"
proof -
  note g = send_run_good [OF assms(1)] and l = good_lookup [OF send_run_good [OF assms(1)] assms(2)]
  have nh: "\<not> isHeld a s" using assms(5,6) by (simp add: isHeld_def)
  have nc: "\<not> tr_cancelled (fs_objs s a)" using tr_liveD(1) [OF l(6)] assms(4) by auto
  have "outstanding (fs_objs s a) \<noteq> {}" using l(7) nh nc assms(3,4) by (simp add: prog_def Let_def)
  then have "tr_inflight (fs_objs s a) \<noteq> []" using outstanding_keys(1) [OF l(5,6) nc] by auto
  moreover have "(\<exists>n. ReadChunk a ix n \<in> set (fs_tasks s) \<or> SentChunk a ix n \<in> set (fs_tasks s)) \<or>
      (\<exists>tid cb d. ic_timer c = Some tid \<and> map_get (fs_timers s) tid = Some (cb, d) \<and> timerRef cb = (a, ix))"
    if "map_get (tr_inflight (fs_objs s a)) ix = Some c" for ix c
  proof -
    have "driven a ix c s" using snd_liveD(2) [OF goodD(3) [OF g] l(2,4) _ _ that] by simp
    then show ?thesis using nh unfolding driven_def by (fastforce split: ChunkState.splits option.splits)
  qed
  ultimately show ?thesis by blast
qed

theorem sender_never_stuck_witness:
  "tr_inflight (fs_objs demoSender 0) \<noteq> [] \<and> SentChunk 0 0 1 \<in> set (fs_tasks demoSender)"
proof -
  obtain es where r: "send_run id True 1 es demoSender" using demoSender_run by blast
  from sender_never_stuck [OF r, of "''f''" 0] show ?thesis by simp
qed

text \<open>
  What is sent is the file. Whatever happens, every chunk message the sender ever emitted carries exactly the
  bytes of its slice of the file offered under that id, and every completion notice names a transfer all of whose
  chunks have been acknowledged.
\<close>

theorem sender_sends_the_file:
  assumes "send_run sha False W es s"
  shows "(\<forall>i ix tot d l. SSend (FileChunk i ix tot d) l \<in> set es \<longrightarrow>
      (\<exists>a < fs_next s. tr_fileId (fs_objs s a) = i \<and> tot = tr_totalChunks (fs_objs s a) \<and> 0 \<le> ix \<and> ix < tot \<and>
        d = encodeChunk (fileSlice (tr_chunkSize (fs_objs s a)) (file_bytes (tr_file (fs_objs s a))) ix))) \<and>
    (\<forall>i h l. SSend (FileComplete i h) l \<in> set es \<longrightarrow>
      (\<exists>a < fs_next s. tr_fileId (fs_objs s a) = i \<and> tr_acked (fs_objs s a) = {0..<tr_totalChunks (fs_objs s a)}))"
proof (intro conjI allI impI)
  note h = send_run_honest [OF assms, THEN conjunct1, rule_format] and base = goodD(2) [OF send_run_good [OF assms]]
  fix i ix tot d l assume "SSend (FileChunk i ix tot d) l \<in> set es"
  from h [OF this] show "\<exists>a < fs_next s. tr_fileId (fs_objs s a) = i \<and> tot = tr_totalChunks (fs_objs s a) \<and> 0 \<le> ix \<and> ix < tot \<and>
      d = encodeChunk (fileSlice (tr_chunkSize (fs_objs s a)) (file_bytes (tr_file (fs_objs s a))) ix)"
    using snd_baseD(4) [OF base] chunkBytesOf_slice by (auto simp: Let_def)
next
  note h = send_run_honest [OF assms, THEN conjunct1, rule_format] and base = goodD(2) [OF send_run_good [OF assms]]
  fix i h' l assume "SSend (FileComplete i h') l \<in> set es"
  from h [OF this] obtain a A where a: "a < fs_next s" "tr_fileId (fs_objs s a) = i" "A \<subseteq> tr_acked (fs_objs s a)"
    "tr_totalChunks (fs_objs s a) \<le> int (card A)" by (auto simp: Let_def)
  let ?N = "{0..<tr_totalChunks (fs_objs s a)}"
  have "A \<subseteq> ?N" "tr_acked (fs_objs s a) \<subseteq> ?N" using a(3) snd_baseD(4) [OF base a(1)] by (auto simp: tr_wf_def)
  moreover have "card ?N \<le> card A" using a(4) by simp
  ultimately have "A = ?N" by (intro card_seteq) simp_all
  then show "\<exists>a < fs_next s. tr_fileId (fs_objs s a) = i \<and> tr_acked (fs_objs s a) = {0..<tr_totalChunks (fs_objs s a)}"
    using a \<open>tr_acked (fs_objs s a) \<subseteq> ?N\<close> by blast
qed

theorem sender_sends_the_file_witness:
  "\<exists>es. send_run id False 1 es demoSender \<and> SSend (FileChunk ''f'' 0 2 (encodeChunk [1, 2])) File \<in> set es \<and>
    encodeChunk [1, 2] = encodeChunk (fileSlice 2 [1, 2, 3] 0)"
proof -
  obtain es where r: "send_run id False 1 (es @ snd (sendOps id (drop 3 demoSending) demoOffered)) demoSender"
    using demoSender_run by blast
  note c = sender_sends_the_file [OF r, THEN conjunct1, rule_format]
  from c [of "''f''" 0 2 "encodeChunk [1, 2]" File] have "encodeChunk [1, 2] = encodeChunk (fileSlice 2 [1, 2, 3] 0)"
    using demo_sent by (auto simp: demo_file)
  moreover have "SSend (FileChunk ''f'' 0 2 (encodeChunk [1, 2])) File \<in> set (es @ snd (sendOps id (drop 3 demoSending) demoOffered))"
    using demo_sent by simp
  ultimately show ?thesis using r by blast
qed



end
