(* ===== verification/SenderReset.thy ===== *)
theory SenderReset
  imports SenderDemo
begin

text \<open>What \<^verbatim>\<open>reset\<close> of the file sender leaves behind.\<close>

lemma reset_fold_sel:
  "fs_profile (fold (\<lambda>(i, a). clearTimers a) m s) = fs_profile s" "fs_tasks (fold (\<lambda>(i, a). clearTimers a) m s) = fs_tasks s"
  "fs_nextTimer (fold (\<lambda>(i, a). clearTimers a) m s) = fs_nextTimer s"
  "(fs_objs (fold (\<lambda>(i, a). clearTimers a) m s) b)\<lparr>tr_inflight := []\<rparr> = (fs_objs s b)\<lparr>tr_inflight := []\<rparr>"
  by (induction m arbitrary: s) (auto simp: clearTimers_def)

lemma reset_sel:
  "fs_profile (snd_reset s) = fs_profile s" "fs_tasks (snd_reset s) = fs_tasks s" "fs_nextTimer (snd_reset s) = fs_nextTimer s"
  "fs_transfers (snd_reset s) = []" "fs_globalPaused (snd_reset s) = False"
  "(fs_objs (snd_reset s) b)\<lparr>tr_inflight := []\<rparr> = (fs_objs s b)\<lparr>tr_inflight := []\<rparr>"
  by (simp_all add: snd_reset_def reset_fold_sel)

lemma same_but_inflight:
  assumes "t\<lparr>tr_inflight := []\<rparr> = u\<lparr>tr_inflight := []\<rparr>"
  shows "tr_cancelled t = tr_cancelled u" "tr_paused t = tr_paused u" "tr_acked t = tr_acked u" "tr_fileId t = tr_fileId u"
    "tr_totalChunks t = tr_totalChunks u" "chunkBytesOf t ix = chunkBytesOf u ix"
proof -
  show "tr_cancelled t = tr_cancelled u" "tr_paused t = tr_paused u" "tr_acked t = tr_acked u" "tr_fileId t = tr_fileId u"
    "tr_totalChunks t = tr_totalChunks u"
    using assms by (cases t, cases u, simp)+
  show "chunkBytesOf t ix = chunkBytesOf u ix" using assms by (cases t, cases u) (simp add: chunkBytesOf_def)
qed

text \<open>A timer id that was never handed out is not pending.\<close>

lemma fresh_timer:
  assumes "good D W s" and "fs_nextTimer s \<le> tid"
  shows "map_get (fs_timers s) tid = None"
  using snd_baseD(8) [OF goodD(2) [OF assms(1)], of tid] assms(2) by (cases "map_get (fs_timers s) tid") fastforce+

text \<open>The steps of a chunk's continuation, its acknowledgement timeout, its retry and the next read.\<close>

definition sendAgain :: "nat \<Rightarrow> int \<Rightarrow> nat \<Rightarrow> nat \<Rightarrow> SendOp list" where
  "sendAgain a ix n tid =
     [Continue (SentChunk a ix n) Succeeded, Fire tid, Fire (tid + 1), Continue (ReadChunk a ix (n + 1)) Succeeded]"

lemma chunkBytesOf_upd:
  "chunkBytesOf (t\<lparr>tr_inflight := m\<rparr>) = chunkBytesOf t" "chunkBytesOf (t\<lparr>tr_reason := r\<rparr>) = chunkBytesOf t"
  by (simp_all add: chunkBytesOf_def fun_eq_iff)

lemma chunk_sent_again:
  assumes "SentChunk a ix n \<in> set (fs_tasks s)" and "n \<le> maxRetries (files (fs_profile s))"
    and "\<not> tr_cancelled (fs_objs s a)" and "\<not> tr_paused (fs_objs s a)" and "ix \<notin> tr_acked (fs_objs s a)"
    and "\<not> fs_globalPaused s" and "fs_nextTimer s = tid" and "map_get (fs_timers s) tid = None"
    and "map_get (fs_timers s) (Suc tid) = None"
  shows "case sendOps sha (sendAgain a ix n tid) s of (s', es') \<Rightarrow>
    fs_transfers s' = fs_transfers s \<and>
    SSend (FileChunk (tr_fileId (fs_objs s a)) ix (tr_totalChunks (fs_objs s a)) (encodeChunk (chunkBytesOf (fs_objs s a) ix))) File \<in> set es'"
  using assms
  by (simp add: sendAgain_def afterSend_def afterRead_def setTimeout_def setInflight_def setReason_def updT_def await_def scheduleRetry_def
      sendChunk_def clearInflightTimer_def isHeld_def tooMany_def js_simps map_add_def chunkBytesOf_upd split_def Let_def)

text \<open>
  C28. Reset does not stop a transfer. \<^verbatim>\<open>reset\<close> empties the map and clears the pending timers but does not mark the
  transfers as cancelled: a chunk whose send was awaited at that moment sets a new timer when the send returns, and is
  read and sent again when the timer fires, although the sender knows no transfer any more.
\<close>

theorem reset_leaves_sender_running:
  assumes "send_run sha D W es s" and "SentChunk a ix n \<in> set (fs_tasks s)" and "n \<le> maxRetries (files (fs_profile s))"
    and "\<not> tr_cancelled (fs_objs s a)" and "\<not> tr_paused (fs_objs s a)" and "ix \<notin> tr_acked (fs_objs s a)"
  shows "case sendOps sha (DoResetSender # sendAgain a ix n (fs_nextTimer s)) s of (s', es') \<Rightarrow>
    fs_transfers s' = [] \<and>
    SSend (FileChunk (tr_fileId (fs_objs s a)) ix (tr_totalChunks (fs_objs s a)) (encodeChunk (chunkBytesOf (fs_objs s a) ix))) File \<in> set es'"
proof -
  have g: "good D W (snd_reset s)" by (rule good_reset [OF send_run_good [OF assms(1)]])
  note f = fresh_timer [OF g] and o = same_but_inflight [OF reset_sel(6) [of s a]]
  show ?thesis using chunk_sent_again [of a ix n "snd_reset s" "fs_nextTimer s" sha] f assms(2-)
    by (simp add: reset_sel o split_def Let_def)
qed

theorem reset_leaves_sender_running_witness:
  "case sendOps id (DoResetSender # sendAgain 0 0 1 (fs_nextTimer demoSender)) demoSender of (s', es') \<Rightarrow>
    fs_transfers s' = [] \<and> SSend (FileChunk ''f'' 0 2 (encodeChunk (chunkBytesOf (fs_objs demoSender 0) 0))) File \<in> set es'"
proof -
  obtain es where r: "send_run id True 1 es demoSender" using demoSender_run by blast
  show ?thesis using reset_leaves_sender_running [OF r, of 0 0 1] by (simp add: demoProfile_sel)
qed

end
