(* ===== verification/FileExchange.thy ===== *)
theory FileExchange
  imports SenderDemo
begin

text \<open>
  The file sender of one peer together with the file receiver of the other (\<^verbatim>\<open>FileSender.ts\<close>,
  \<^verbatim>\<open>FileReceiver.ts\<close>). What lies between them may lose, repeat, delay and reorder messages.
\<close>

section \<open>What the receiver hears\<close>

text \<open>
  The receiver reacts to messages among those that were sent, and to its own user, its suspended calls, completion
  notices and cancellations, in any order in which messages are handled one at a time.
\<close>

fun heard :: "CoreAppMessage set \<Rightarrow> RecvOp \<Rightarrow> bool" where
  "heard sent (InOffer i n m sz cs tot h) = (FileOffer i n m sz cs tot h \<in> sent)"
| "heard sent (InChunk i ix tot d) = (FileChunk i ix tot d \<in> sent)"
| "heard sent _ = True"

fun recvOps :: "(bytes \<Rightarrow> bytes) \<Rightarrow> RecvOp list \<Rightarrow> FileReceiver \<Rightarrow> FileReceiver \<times> ReceiverEffect list" where
  "recvOps sha [] s = (s, [])"
| "recvOps sha (op # ops) s = (let (s1, e) = recv_step sha op s; (s2, e') = recvOps sha ops s1 in (s2, e @ e'))"

fun recvEnabled :: "(bytes \<Rightarrow> bytes) \<Rightarrow> RecvOp list \<Rightarrow> FileReceiver \<Rightarrow> bool" where
  "recvEnabled sha [] s = True"
| "recvEnabled sha (op # ops) s = (enabled op s \<and> recvEnabled sha ops (fst (recv_step sha op s)))"

lemma recvOps_run:
  assumes "recv_run sha src p es s" and "\<And>op. op \<in> set ops \<Longrightarrow> faithful src op" and "recvEnabled sha ops s"
  shows "recv_run sha src p (es @ snd (recvOps sha ops s)) (fst (recvOps sha ops s))"
  using assms
proof (induction ops arbitrary: es s)
  case (Cons op ops)
  obtain s1 e where st: "recv_step sha op s = (s1, e)" by (cases "recv_step sha op s")
  have "recv_run sha src p (es @ e) s1" by (rule recv_next [OF Cons.prems(1) _ _ st]) (use Cons.prems in simp_all)
  from Cons.IH [OF this] show ?case using Cons.prems(2,3) st by (simp add: split_def Let_def)
qed simp

section \<open>The contract between the peers\<close>

text \<open>
  What a receiver relies on: the messages of a run \<open>r\<close> of the peer announce and carry the bytes of the files the
  peer offers in that run, each id standing for one file.
\<close>

locale file_source =
  fixes sent :: "'r \<Rightarrow> CoreAppMessage set"
    and content :: "'r \<Rightarrow> string \<Rightarrow> (int \<times> bytes) option"
    and run_ok :: "'r \<Rightarrow> bool"
  assumes offer_content: "run_ok r \<Longrightarrow> FileOffer i n m sz cs tot h \<in> sent r \<Longrightarrow>
      \<exists>c. content r i = Some (cs, c) \<and> sz = int (length c)"
    and chunk_content: "run_ok r \<Longrightarrow> FileChunk i ix tot d \<in> sent r \<Longrightarrow>
      \<exists>cs c. content r i = Some (cs, c) \<and> d = encodeChunk (fileSlice cs c ix)"
begin

text \<open>Ids the peer does not use may be given any content.\<close>

definition extended :: "int \<times> bytes \<Rightarrow> 'r \<Rightarrow> sources" where
  "extended dflt r i = (case content r i of None \<Rightarrow> Some dflt | Some x \<Rightarrow> Some x)"

lemma heard_faithful:
  assumes ok: "run_ok r" and h: "heard (sent r) op"
  shows "faithful (extended dflt r) op"
proof (cases op)
  case (InOffer i n m sz cs tot sh)
  then show ?thesis using offer_content [OF ok] h by (fastforce simp: extended_def)
next
  case (InChunk i ix tot d)
  then obtain cs c where c: "content r i = Some (cs, c)" "d = encodeChunk (fileSlice cs c ix)"
    using chunk_content [OF ok] h by fastforce
  then show ?thesis
    using InChunk by (simp add: extended_def chunk_from_def fileSlice_def decodeChunk_def encodeChunk_def base64Url_dec_enc)
qed simp_all

lemma delivered_content:
  assumes ok: "run_ok r" and h: "\<And>op. op \<in> set ops \<Longrightarrow> heard (sent r) op" and en: "recvEnabled sha ops (newReceiver p)"
    and f: "RComplete f \<in> set (snd (recvOps sha ops (newReceiver p)))"
  shows "\<exists>cs. content r (cf_fileId f) = Some (cs, cf_blob f)"
proof -
  have blob: "cf_blob f = c" if "extended dflt r (cf_fileId f) = Some (cs, c)" for dflt cs c
  proof -
    have "recv_run sha (extended dflt r) p (snd (recvOps sha ops (newReceiver p))) (fst (recvOps sha ops (newReceiver p)))"
      using recvOps_run [OF recv_start _ en, of "extended dflt r"] heard_faithful [OF ok h] by simp
    then show ?thesis using recv_run_inv f that by (fastforce simp: delivered_ok_def)
  qed
  show ?thesis
  proof (cases "content r (cf_fileId f)")
    case None
    then have "cf_blob f = []" "cf_blob f = [0]"
      using blob [of "(0, [])" 0 "[]"] blob [of "(0, [0])" 0 "[0]"] by (simp_all add: extended_def)
    then show ?thesis by simp
  next
    case (Some x)
    then show ?thesis using blob [of _ "fst x" "snd x"] by (cases x) (simp add: extended_def)
  qed
qed

end

section \<open>The file sender fulfils it\<close>

definition sentMessages :: "SenderEffect list \<Rightarrow> CoreAppMessage set" where
  "sentMessages es = {m. \<exists>l. SSend m l \<in> set es}"

definition idsDistinct :: "FileSender \<Rightarrow> bool" where
  "idsDistinct s = distinct (map (\<lambda>a. tr_fileId (fs_objs s a)) [0..<fs_next s])"

definition contentOf :: "FileSender \<Rightarrow> string \<Rightarrow> (int \<times> bytes) option" where
  "contentOf s i =
     map_option (\<lambda>a. (tr_chunkSize (fs_objs s a), file_bytes (tr_file (fs_objs s a))))
       (find (\<lambda>a. tr_fileId (fs_objs s a) = i) [0..<fs_next s])"

lemma contentOf_offered:
  assumes "idsDistinct s" and "a < fs_next s"
  shows "contentOf s (tr_fileId (fs_objs s a)) = Some (tr_chunkSize (fs_objs s a), file_bytes (tr_file (fs_objs s a)))"
proof -
  obtain b where b: "find (\<lambda>b. tr_fileId (fs_objs s b) = tr_fileId (fs_objs s a)) [0..<fs_next s] = Some b"
    using assms(2) by (cases "find (\<lambda>b. tr_fileId (fs_objs s b) = tr_fileId (fs_objs s a)) [0..<fs_next s]")
      (auto simp: find_None_iff)
  then have "b < fs_next s" "tr_fileId (fs_objs s b) = tr_fileId (fs_objs s a)" by (auto simp: find_Some_iff)
  then have "b = a" using assms by (auto simp: idsDistinct_def distinct_map inj_on_def)
  then show ?thesis using b by (simp add: contentOf_def)
qed

interpretation sender: file_source "\<lambda>(es, s). sentMessages es" "\<lambda>(es, s). contentOf s"
  "\<lambda>(es, s). send_run sha D W es s \<and> idsDistinct s" for sha D W
proof (unfold_locales, goal_cases)
  case (1 r i n m sz cs tot h)
  obtain es s where r: "r = (es, s)" "send_run sha D W es s" "idsDistinct s" using 1(1) by (cases r) auto
  obtain l where l: "SSend (FileOffer i n m sz cs tot h) l \<in> set es" using 1(2) r by (auto simp: sentMessages_def)
  obtain a where a: "a < fs_next s" "tr_fileId (fs_objs s a) = i" "sz = tr_size (fs_objs s a)" "cs = tr_chunkSize (fs_objs s a)"
    using bspec [OF conjunct1 [OF send_run_honest [OF r(2)]] l] by (auto simp: Let_def)
  have "tr_wf (fs_objs s a)" using snd_baseD(4) [OF goodD(2) [OF send_run_good [OF r(2)]] a(1)] .
  then have "tr_size (fs_objs s a) = int (length (file_bytes (tr_file (fs_objs s a))))" by (simp add: tr_wf_def)
  then show ?case using contentOf_offered [OF r(3) a(1)] a r(1) by simp
next
  case (2 r i ix tot d)
  obtain es s where r: "r = (es, s)" "send_run sha D W es s" "idsDistinct s" using 2(1) by (cases r) auto
  obtain l where l: "SSend (FileChunk i ix tot d) l \<in> set es" using 2(2) r by (auto simp: sentMessages_def)
  obtain a where a: "a < fs_next s" "tr_fileId (fs_objs s a) = i" "0 \<le> ix" "ix < tr_totalChunks (fs_objs s a)"
    "d = encodeChunk (chunkBytesOf (fs_objs s a) ix)"
    using bspec [OF conjunct1 [OF send_run_honest [OF r(2)]] l] by (auto simp: Let_def)
  have "tr_wf (fs_objs s a)" using snd_baseD(4) [OF goodD(2) [OF send_run_good [OF r(2)]] a(1)] .
  then show ?case using contentOf_offered [OF r(3) a(1)] chunkBytesOf_slice a r(1) by auto
qed

section \<open>The exchange\<close>

text \<open>The abstract exchange: the files offered on one side, the files delivered on the other.\<close>

definition offeredFiles :: "FileSender \<Rightarrow> (string \<times> bytes) set" where
  "offeredFiles s = (\<lambda>a. (tr_fileId (fs_objs s a), file_bytes (tr_file (fs_objs s a)))) ` {..<fs_next s}"

definition deliveredFiles :: "ReceiverEffect list \<Rightarrow> (string \<times> bytes) set" where
  "deliveredFiles es = {(cf_fileId f, cf_blob f) | f. RComplete f \<in> set es}"

text \<open>
  C3. The two sides refine a file copier. Let a sender run in any interleaving, with the ids it generates being distinct, and a
  receiver handle any of the sent messages, in any order, repeated or never, mixed with its user's actions: each file the
  receiver hands on is, under its id, byte for byte one of the files the sender was given.
\<close>

theorem delivered_files_were_offered:
  assumes "send_run sha D W es s" and "idsDistinct s" and "\<forall>op \<in> set ops. heard (sentMessages es) op"
    and "recvEnabled sha ops (newReceiver p)"
  shows "deliveredFiles (snd (recvOps sha ops (newReceiver p))) \<subseteq> offeredFiles s"
proof
  fix x assume "x \<in> deliveredFiles (snd (recvOps sha ops (newReceiver p)))"
  then obtain f where f: "x = (cf_fileId f, cf_blob f)" "RComplete f \<in> set (snd (recvOps sha ops (newReceiver p)))"
    by (auto simp: deliveredFiles_def)
  then obtain cs where "contentOf s (cf_fileId f) = Some (cs, cf_blob f)"
    using sender.delivered_content [of sha D W "(es, s)" ops sha p f] assms by auto
  then obtain a where "a < fs_next s" "tr_fileId (fs_objs s a) = cf_fileId f" "file_bytes (tr_file (fs_objs s a)) = cf_blob f"
    by (auto simp: contentOf_def find_Some_iff)
  then show "x \<in> offeredFiles s" using f(1) by (auto simp: offeredFiles_def intro!: image_eqI [of _ _ a])
qed

section \<open>A concrete exchange\<close>

text \<open>The sender goes on: the first chunk is acknowledged and the second is read and sent.\<close>

definition demoGoesOn :: "SendOp list" where
  "demoGoesOn = [Continue (SentChunk 0 0 1) Succeeded, PeerAck ''f'' 0, Continue (ReadChunk 0 1 1) Succeeded]"

abbreviation demoSentBoth :: FileSender where
  "demoSentBoth \<equiv> fst (sendOps id demoGoesOn demoSender)"

abbreviation demoMessages :: "SenderEffect list" where
  "demoMessages \<equiv> (demoOffering @ snd (sendOps id (drop 3 demoSending) demoOffered)) @ snd (sendOps id demoGoesOn demoSender)"

lemmas demo_steps = demoGoesOn_def demoSender_def demoOffered_def newSender_def afterSend_def setTimeout_def snd_ack_def
  afterRead_def pump_defs demoProfile_sel chunkBytesOf_def subbytes_def demo_file

lemma demo_both_run: "send_run id D 1 demoMessages demoSentBoth"
  by (rule sendOps_run [OF demoSender_run]) (simp add: demoGoesOn_def)

lemma demo_both_state: "idsDistinct demoSentBoth \<and> offeredFiles demoSentBoth = {(''f'', [1, 2, 3])}"
proof -
  have s: "fs_next demoSentBoth = 1" "tr_fileId (fs_objs demoSentBoth 0) = ''f''" "tr_file (fs_objs demoSentBoth 0) = demoFile"
    by (simp_all add: demo_steps)
  show ?thesis using s by (simp add: idsDistinct_def offeredFiles_def demo_file lessThan_Suc)
qed

definition demoOfferHeard :: RecvOp where
  "demoOfferHeard = InOffer ''f'' (tr_name demoTransfer) (tr_mime demoTransfer) 3 2 2 (Some (digestBlob id [1, 2, 3]))"

definition demoHeard :: "RecvOp list" where
  "demoHeard =
     [demoOfferHeard, UiAccept ''f'', InChunk ''f'' 1 2 (encodeChunk [3]), Resume (AfterAck 0) True,
      InChunk ''f'' 0 2 (encodeChunk [1, 2]), Resume (AfterAck 0) True, Resume (AfterDigest 0 [1, 2, 3]) True]"

lemma demo_heard: "\<forall>op \<in> set demoHeard. heard (sentMessages demoMessages) op"
proof -
  have "SSend (FileChunk ''f'' 1 2 (encodeChunk [3])) File \<in> set (snd (sendOps id demoGoesOn demoSender))"
    by (simp add: demo_steps)
  then show ?thesis using demo_offer_sent demo_sent
    by (auto simp: demoHeard_def demoOfferHeard_def sentMessages_def simp del: sendOps.simps)
qed

lemma decode_encode_chunk: "decodeChunk (encodeChunk b) = Inr b"
  by (simp add: decodeChunk_def encodeChunk_def base64Url_dec_enc)

lemmas demo_recv_defs = newReceiver_def rv_offer_def badSize_def badMetadata_def ceilDiv_def admitOffer_def newTransfer_def
  rv_accept_def spawn_def updObj_def rv_chunk_def storeChunk_def expectedBytes_def afterAck_def rv_complete_def afterDigest_def
  completeOk_def blobOf_def sendAck_def demo_replicate decode_encode_chunk Let_def

definition demoReceived :: CompletedFile where
  "demoReceived =
     \<lparr>cf_fileId = ''f'', cf_name = validateFilename (tr_name demoTransfer), cf_mime = tr_mime demoTransfer, cf_size = 3,
      cf_blob = [1, 2, 3]\<rparr>"

lemma demo_mime: "tr_mime demoTransfer = ''application/octet-stream''"
  by (simp add: demoTransfer_def newOutgoing_def demoFile_def Let_def)

lemma demo_delivery:
  "recvEnabled id demoHeard (newReceiver demoProfile) \<and>
   RComplete demoReceived \<in> set (snd (recvOps id demoHeard (newReceiver demoProfile)))"
  by (simp add: demoHeard_def demoOfferHeard_def demo_recv_defs demoProfile_def getProfile_def balanced_def demo_hash_hex
      demoReceived_def demo_mime)

theorem delivered_files_were_offered_witness:
  "(''f'', [1, 2, 3]) \<in> deliveredFiles (snd (recvOps id demoHeard (newReceiver demoProfile))) \<and>
   deliveredFiles (snd (recvOps id demoHeard (newReceiver demoProfile))) \<subseteq> offeredFiles demoSentBoth"
  using delivered_files_were_offered [OF demo_both_run [of True] _ demo_heard, of demoProfile] demo_both_state demo_delivery
  by (force simp: deliveredFiles_def demoReceived_def)

end
