(* ===== verification/VoiceBuffers.thy ===== *)
theory VoiceBuffers
  imports Prelude "HOL-Library.Sublist"
begin

text \<open>
  The buffers of the voice path: the queue that drops stale frames (\<^verbatim>\<open>features/audio/VoiceQueue.ts\<close>),
  the jitter buffer (\<^verbatim>\<open>JitterBuffer.ts\<close>), the voice-activity gate (\<^verbatim>\<open>VadGate.ts\<close>) and the sample
  conversion (\<^verbatim>\<open>pcm.ts\<close>). Times are rational milliseconds, passed as arguments.
\<close>

section \<open>The freshness queue\<close>

record 'a VoiceQueue =
  vq_items :: "('a \<times> rat) list" \<comment> \<open>value and time of queueing\<close>
  vq_maxFrames :: nat
  vq_maxAgeMs :: nat

fun trimFrames :: "nat \<Rightarrow> 'a list \<Rightarrow> 'a list \<times> nat" where
  "trimFrames mx [] = ([], 0)"
| "trimFrames mx (x # xs) =
     (if length (x # xs) > mx then let (ys, dropped) = trimFrames mx xs in (ys, dropped + 1) else (x # xs, 0))"

definition trimOverflow :: "'a VoiceQueue \<Rightarrow> 'a VoiceQueue \<times> nat" where
  "trimOverflow q = (let (items, dropped) = trimFrames (vq_maxFrames q) (vq_items q) in (q\<lparr>vq_items := items\<rparr>, dropped))"

definition limit1 :: "rat \<Rightarrow> nat" where
  "limit1 x = max 1 (nat \<lfloor>x\<rfloor>)"

definition vq_setLimits :: "rat \<Rightarrow> rat \<Rightarrow> 'a VoiceQueue \<Rightarrow> 'a VoiceQueue \<times> nat" where
  "vq_setLimits maxFrames maxAgeMs q =
     trimOverflow (q\<lparr>vq_maxFrames := limit1 maxFrames, vq_maxAgeMs := limit1 maxAgeMs\<rparr>)"

definition newVoiceQueue :: "rat \<Rightarrow> rat \<Rightarrow> 'a VoiceQueue" where
  "newVoiceQueue maxFrames maxAgeMs =
     fst (vq_setLimits maxFrames maxAgeMs \<lparr>vq_items = [], vq_maxFrames = 0, vq_maxAgeMs = 0\<rparr>)"

definition vq_push :: "rat \<Rightarrow> 'a \<Rightarrow> 'a VoiceQueue \<Rightarrow> 'a VoiceQueue \<times> nat" where
  "vq_push now v q = trimOverflow (q\<lparr>vq_items := vq_items q @ [(v, now)]\<rparr>)"

fun dropStale :: "rat \<Rightarrow> nat \<Rightarrow> ('a \<times> rat) list \<Rightarrow> ('a \<times> rat) list \<times> nat" where
  "dropStale now age [] = ([], 0)"
| "dropStale now age ((v, t) # xs) =
     (if now - t > of_nat age then let (ys, dropped) = dropStale now age xs in (ys, dropped + 1) else ((v, t) # xs, 0))"

definition shiftFresh :: "rat \<Rightarrow> 'a VoiceQueue \<Rightarrow> 'a VoiceQueue \<times> 'a option \<times> nat" where
  "shiftFresh now q =
     (let (items, dropped) = dropStale now (vq_maxAgeMs q) (vq_items q) in
      case items of
        [] \<Rightarrow> (q\<lparr>vq_items := []\<rparr>, None, dropped)
      | (v, t) # rest \<Rightarrow> (q\<lparr>vq_items := rest\<rparr>, Some v, dropped))"

definition vq_clear :: "'a VoiceQueue \<Rightarrow> 'a VoiceQueue \<times> nat" where
  "vq_clear q = (q\<lparr>vq_items := []\<rparr>, length (vq_items q))"

definition vq_size :: "'a VoiceQueue \<Rightarrow> nat" where
  "vq_size q = length (vq_items q)"

lemma trimFrames_drop: "trimFrames mx xs = (drop (length xs - mx) xs, length xs - mx)"
  by (induction xs) (auto simp: Suc_diff_le)

lemma dropStale_dropWhile:
  "dropStale now age xs = (dropWhile (\<lambda>(v, t). now - t > of_nat age) xs, length (takeWhile (\<lambda>(v, t). now - t > of_nat age) xs))"
  by (induction now age xs rule: dropStale.induct) (auto simp: Let_def split: prod.splits)

section \<open>The jitter buffer\<close>

text \<open>\<^verbatim>\<open>frames\<close> is a map from sequence numbers; a frame carries its own number.\<close>

record 'a JitterBuffer =
  jb_frames :: "(int, 'a) jsmap"
  jb_expected :: "int option"
  jb_maxFrames :: nat

definition newJitter :: "nat \<Rightarrow> 'a JitterBuffer" where
  "newJitter maxFrames = \<lparr>jb_frames = [], jb_expected = None, jb_maxFrames = maxFrames\<rparr>"

text \<open>\<^verbatim>\<open>Math.min(...this.frames.keys())\<close>\<close>

definition oldestFrame :: "(int, 'a) jsmap \<Rightarrow> int" where
  "oldestFrame m = Min (set (map fst m))"

lemma oldestFrame_in: "m \<noteq> [] \<Longrightarrow> oldestFrame m \<in> keyset m"
  using Min_in [of "keyset m"] by (auto simp: oldestFrame_def keyset_def)

lemma delete_shorter: "k \<in> keyset m \<Longrightarrow> length (map_delete k m) < length m"
proof (induction m)
  case (Cons p m)
  have "keyset (p # m) = insert (fst p) (keyset m)" by (simp add: keyset_def)
  then show ?case using Cons by (auto simp: less_Suc_eq_le length_delete_le Suc_le_eq)
qed simp

function evictFrames :: "'a JitterBuffer \<Rightarrow> 'a JitterBuffer" where
  "evictFrames b =
     (if length (jb_frames b) > jb_maxFrames b then
        let oldest = oldestFrame (jb_frames b) in
        evictFrames (b\<lparr>jb_frames := map_delete oldest (jb_frames b),
          jb_expected := (if jb_expected b = Some oldest then Some (oldest + 1) else jb_expected b)\<rparr>)
      else b)"
  by pat_completeness auto
termination
proof (relation "measure (\<lambda>b. length (jb_frames b))", simp)
  fix b :: "'a JitterBuffer" and x assume "length (jb_frames b) > jb_maxFrames b" and x: "x = oldestFrame (jb_frames b)"
  then have "jb_frames b \<noteq> []" by auto
  then show "(b\<lparr>jb_frames := map_delete x (jb_frames b),
      jb_expected := if jb_expected b = Some x then Some (x + 1) else jb_expected b\<rparr>, b) \<in> measure (\<lambda>b. length (jb_frames b))"
    using delete_shorter [OF oldestFrame_in] x by simp
qed

declare evictFrames.simps [simp del]

definition jb_push :: "int \<Rightarrow> 'a \<Rightarrow> 'a JitterBuffer \<Rightarrow> 'a JitterBuffer" where
  "jb_push seq frame b =
     (if (case jb_expected b of None \<Rightarrow> False | Some e \<Rightarrow> seq < e) then b
      else evictFrames (b\<lparr>jb_frames := map_set seq frame (jb_frames b)\<rparr>))"

definition jb_pop :: "'a JitterBuffer \<Rightarrow> 'a JitterBuffer \<times> (int \<times> 'a) option" where
  "jb_pop b =
     (if jb_frames b = [] then (b, None)
      else
        let e = (case jb_expected b of None \<Rightarrow> oldestFrame (jb_frames b) | Some e \<Rightarrow> e) in
        case map_get (jb_frames b) e of
          Some exact \<Rightarrow> (b\<lparr>jb_frames := map_delete e (jb_frames b), jb_expected := Some (e + 1)\<rparr>, Some (e, exact))
        | None \<Rightarrow>
            let oldest = oldestFrame (jb_frames b); e' = (if oldest > e then oldest else e) in
            (case map_get (jb_frames b) oldest of
               Some frame \<Rightarrow>
                 (b\<lparr>jb_frames := map_delete oldest (jb_frames b), jb_expected := Some (oldest + 1)\<rparr>, Some (oldest, frame))
             | None \<Rightarrow> (b\<lparr>jb_expected := Some e'\<rparr>, None)))"

definition jb_clear :: "'a JitterBuffer \<Rightarrow> 'a JitterBuffer" where
  "jb_clear b = b\<lparr>jb_frames := [], jb_expected := None\<rparr>"

definition jb_size :: "'a JitterBuffer \<Rightarrow> nat" where
  "jb_size b = length (jb_frames b)"

section \<open>What the jitter buffer plays\<close>

datatype 'a JitterOp = JPush int 'a | JPop

fun jitterRun :: "'a JitterOp list \<Rightarrow> 'a JitterBuffer \<Rightarrow> 'a JitterBuffer \<times> (int \<times> 'a) list" where
  "jitterRun [] b = (b, [])"
| "jitterRun (JPush q f # ops) b = jitterRun ops (jb_push q f b)"
| "jitterRun (JPop # ops) b =
     (let (b1, x) = jb_pop b; (b2, played) = jitterRun ops b1
      in (b2, (case x of None \<Rightarrow> played | Some p \<Rightarrow> p # played)))"

text \<open>No frame before the expected one is kept, and no more than the limit.\<close>

definition due :: "'a JitterBuffer \<Rightarrow> int \<Rightarrow> bool" where
  "due b q = (case jb_expected b of None \<Rightarrow> True | Some e \<Rightarrow> e \<le> q)"

definition jb_inv :: "(int \<times> 'a) set \<Rightarrow> 'a JitterBuffer \<Rightarrow> bool" where
  "jb_inv P b = ((\<forall>q f. map_get (jb_frames b) q = Some f \<longrightarrow> due b q \<and> (q, f) \<in> P) \<and> length (jb_frames b) \<le> jb_maxFrames b)"

lemma oldestFrame_least: "map_get m q = Some f \<Longrightarrow> oldestFrame m \<le> q"
  by (simp add: oldestFrame_def Min_le map_of_SomeD image_iff) (metis Min_le finite_imageI finite_set fst_conv image_eqI map_of_SomeD)

lemma evictFrames_inv:
  assumes "\<And>q f. map_get (jb_frames b) q = Some f \<Longrightarrow> due b q \<and> (q, f) \<in> P"
  shows "jb_inv P (evictFrames b) \<and> (\<forall>q. due (evictFrames b) q \<longrightarrow> due b q) \<and> jb_maxFrames (evictFrames b) = jb_maxFrames b"
  using assms
proof (induction b rule: evictFrames.induct)
  case (1 b)
  let ?o = "oldestFrame (jb_frames b)"
  let ?b = "b\<lparr>jb_frames := map_delete ?o (jb_frames b), jb_expected := (if jb_expected b = Some ?o then Some (?o + 1) else jb_expected b)\<rparr>"
  show ?case
  proof (cases "length (jb_frames b) > jb_maxFrames b")
    case True
    have "due ?b q \<and> (q, f) \<in> P" if "map_get (jb_frames ?b) q = Some f" for q f
    proof -
      have "q \<noteq> ?o" "map_get (jb_frames b) q = Some f" using that by (auto simp: js_simps split: if_splits)
      then show ?thesis using 1(2) [of q f] oldestFrame_least [of "jb_frames b" q f] by (auto simp: due_def)
    qed
    note IH = 1(1) [OF True refl this]
    have "due b q" if "due ?b q" for q using that by (auto simp: due_def split: if_splits option.splits)
    with IH True show ?thesis by (subst (1 2 3) evictFrames.simps) (simp add: Let_def)
  next
    case False
    then show ?thesis using 1(2) by (subst (1 2 3) evictFrames.simps) (simp add: jb_inv_def)
  qed
qed

lemma jb_push_inv:
  assumes "jb_inv P b"
  shows "jb_inv (insert (q, f) P) (jb_push q f b) \<and> (\<forall>k. due (jb_push q f b) k \<longrightarrow> due b k) \<and>
    jb_maxFrames (jb_push q f b) = jb_maxFrames b"
proof (cases "due b q")
  case True
  let ?b = "b\<lparr>jb_frames := map_set q f (jb_frames b)\<rparr>"
  have "due ?b k \<and> (k, g) \<in> insert (q, f) P" if "map_get (jb_frames ?b) k = Some g" for k g
    using that assms True by (auto simp: js_simps jb_inv_def due_def split: if_splits option.splits)
  from evictFrames_inv [OF this] show ?thesis using True
    by (auto simp: jb_push_def due_def split: option.splits)
qed (use assms in \<open>auto simp: jb_push_def jb_inv_def due_def split: option.splits\<close>)

lemma jb_pop_cases:
  assumes "jb_inv P b" and "jb_pop b = (b', x)"
  shows "(x = None \<and> b' = b) \<or>
    (\<exists>q f. x = Some (q, f) \<and> due b q \<and> (q, f) \<in> P \<and> b' = b\<lparr>jb_frames := map_delete q (jb_frames b), jb_expected := Some (q + 1)\<rparr> \<and>
      (\<forall>k. map_get (jb_frames b) k \<noteq> None \<longrightarrow> q \<le> k))"
proof (cases "jb_frames b = []")
  case False
  let ?o = "oldestFrame (jb_frames b)"
  obtain f where f: "map_get (jb_frames b) ?o = Some f"
    using oldestFrame_in [OF False] by (cases "map_get (jb_frames b) ?o") (auto simp: map_get_None_iff)
  have least: "\<forall>k. map_get (jb_frames b) k \<noteq> None \<longrightarrow> ?o \<le> k" by (auto dest: oldestFrame_least)
  have d: "due b ?o" "(?o, f) \<in> P" using assms(1) f by (auto simp: jb_inv_def)
  show ?thesis
  proof (cases "case jb_expected b of None \<Rightarrow> None | Some e \<Rightarrow> map_get (jb_frames b) e")
    case None
    have "jb_pop b = (b\<lparr>jb_frames := map_delete ?o (jb_frames b), jb_expected := Some (?o + 1)\<rparr>, Some (?o, f))"
      using None False f by (cases "jb_expected b") (simp_all add: jb_pop_def Let_def)
    then show ?thesis using assms(2) least d by simp
  next
    case (Some g)
    then obtain e where e: "jb_expected b = Some e" "map_get (jb_frames b) e = Some g" by (auto split: option.splits)
    have "e = ?o" using d(1) e oldestFrame_least [OF e(2)] by (simp add: due_def)
    then have "jb_pop b = (b\<lparr>jb_frames := map_delete ?o (jb_frames b), jb_expected := Some (?o + 1)\<rparr>, Some (?o, f))"
      using False e f by (simp add: jb_pop_def Let_def)
    then show ?thesis using assms(2) least d by simp
  qed
qed (use assms in \<open>simp add: jb_pop_def\<close>)

lemma jb_pop_inv:
  assumes "jb_inv P b" and "jb_pop b = (b', Some (q, f))"
  shows "jb_inv P b' \<and> (\<forall>k. due b' k \<longleftrightarrow> q < k) \<and> due b q \<and> (q, f) \<in> P \<and> jb_maxFrames b' = jb_maxFrames b"
proof -
  have c: "due b q" "(q, f) \<in> P" "b' = b\<lparr>jb_frames := map_delete q (jb_frames b), jb_expected := Some (q + 1)\<rparr>"
    "\<And>k g. map_get (jb_frames b) k = Some g \<Longrightarrow> q \<le> k" using jb_pop_cases [OF assms] by auto
  have "length (jb_frames b') \<le> jb_maxFrames b'"
    using assms(1) length_delete_le [of q "jb_frames b"] c(3) by (simp add: jb_inv_def)
  moreover have "due b' k \<and> (k, g) \<in> P" if "map_get (jb_frames b') k = Some g" for k g
    using that c(3) c(4) [of k g] assms(1) by (auto simp: js_simps jb_inv_def due_def split: if_splits)
  ultimately show ?thesis using c by (auto simp: jb_inv_def due_def)
qed

lemma jitterRun_inv:
  assumes "jb_inv P b" and "jitterRun ops b = (b', played)"
  shows "sorted_wrt (<) (map fst played) \<and> (\<forall>(q, f) \<in> set played. due b q \<and> ((q, f) \<in> P \<or> JPush q f \<in> set ops)) \<and>
    length (jb_frames b') \<le> jb_maxFrames b"
  using assms
proof (induction ops b arbitrary: P b' played rule: jitterRun.induct)
  case (1 b)
  then show ?case by (auto simp: jb_inv_def)
next
  case (2 q f ops b)
  note i = jb_push_inv [OF 2(2), of q f]
  have r: "jitterRun ops (jb_push q f b) = (b', played)" using 2(3) by simp
  note IH = 2(1) [OF conjunct1 [OF i] r]
  have "due b k \<and> ((k, g) \<in> P \<or> JPush k g \<in> set (JPush q f # ops))" if "(k, g) \<in> set played" for k g
    using IH i that by auto
  then show ?case using IH i by auto
next
  case (3 ops b)
  obtain b1 x where x: "jb_pop b = (b1, x)" by (cases "jb_pop b")
  obtain b2 pl where r: "jitterRun ops b1 = (b2, pl)" by (cases "jitterRun ops b1")
  show ?case
  proof (cases x)
    case None
    then show ?thesis using 3(1) [OF x [symmetric] refl, of P b2 pl] jb_pop_cases [OF 3(2) x] 3(2,3) x r by auto
  next
    case (Some p)
    obtain q f where p: "p = (q, f)" by (cases p)
    note i = jb_pop_inv [OF 3(2) x [unfolded Some p]]
    note IH = 3(1) [OF x [symmetric] refl conjunct1 [OF i] r]
    have "q < k \<and> due b k" if "(k, g) \<in> set pl" for k g
      using IH i that by (fastforce simp: due_def split: option.splits)
    then show ?thesis using IH i 3(3) x r Some p by auto
  qed
qed

end
