(* ===== verification/VoiceSignal.thy ===== *)
theory VoiceSignal
  imports VoiceBuffers Profiles
begin

text \<open>
  The voice-activity gate (\<^verbatim>\<open>features/audio/VadGate.ts\<close>) and the conversion of samples
  (\<^verbatim>\<open>features/audio/pcm.ts\<close>). A level is a real number of decibels or minus infinity; the rounding of the
  floating-point logarithm is not modelled. Samples in the conversion are rationals, and there every operation of the code
  is exact: a 32-bit float times a 16-bit integer fits a double.
\<close>

section \<open>The gate\<close>

datatype level = NegInfinity | Db real

fun level_ge :: "level \<Rightarrow> int \<Rightarrow> bool" where
  "level_ge NegInfinity t = False"
| "level_ge (Db x) t = (real_of_int t \<le> x)"

definition rmsDb :: "rat list \<Rightarrow> level" where
  "rmsDb frame =
     (if frame = [] then NegInfinity
      else Db (20 * log 10 (sqrt (real_of_rat (fold (\<lambda>sample sum. sum + sample * sample) frame 0) / real (length frame)) + 1 / 10 ^ 8)))"

definition framesFromMs :: "nat \<Rightarrow> nat \<Rightarrow> nat" where
  "framesFromMs duration frame =
     (if duration \<le> 0 \<or> frame \<le> 0 then 0 else max 1 (nat \<lceil>of_nat duration / (of_nat frame :: rat)\<rceil>))"

record VadConfig =
  vc_enabled :: bool
  vc_startDb :: int
  vc_stopDb :: int
  vc_preRollFrames :: nat
  vc_hangoverFrames :: nat
  vc_minSpeechFrames :: nat

record 'f VadDecision =
  vd_send :: bool
  vd_started :: bool
  vd_stopped :: bool
  vd_levelDb :: level
  vd_frames :: "'f list"

record 'f VadGate =
  vg_config :: VadConfig
  vg_speaking :: bool
  vg_aboveStartFrames :: nat
  vg_hangoverRemaining :: nat
  vg_preRoll :: "'f list"

definition vad_reset :: "'f VadGate \<Rightarrow> 'f VadGate" where
  "vad_reset g = g\<lparr>vg_speaking := False, vg_aboveStartFrames := 0, vg_hangoverRemaining := 0, vg_preRoll := []\<rparr>"

definition vad_setConfig :: "VadConfig \<Rightarrow> 'f VadGate \<Rightarrow> 'f VadGate" where
  "vad_setConfig c g = vad_reset (g\<lparr>vg_config := c\<rparr>)"

definition newVad :: "VadConfig \<Rightarrow> 'f VadGate" where
  "newVad c = \<lparr>vg_config = c, vg_speaking = False, vg_aboveStartFrames = 0, vg_hangoverRemaining = 0, vg_preRoll = []\<rparr>"

definition vad_sendOne :: "level \<Rightarrow> 'f \<Rightarrow> 'f VadDecision" where
  "vad_sendOne levelDb frame =
     \<lparr>vd_send = True, vd_started = False, vd_stopped = False, vd_levelDb = levelDb, vd_frames = [frame]\<rparr>"

text \<open>\<^verbatim>\<open>xs.slice(-n)\<close>: for \<open>n = 0\<close> this is the whole list.\<close>

definition sliceLast :: "nat \<Rightarrow> 'a list \<Rightarrow> 'a list" where
  "sliceLast n xs = (if n = 0 then xs else drop (length xs - n) xs)"

text \<open>\<^verbatim>\<open>process\<close> with the level of the frame at hand.\<close>

definition vad_decide :: "level \<Rightarrow> 'f \<Rightarrow> 'f VadGate \<Rightarrow> 'f VadGate \<times> 'f VadDecision" where
  "vad_decide levelDb frame g =
     (let c = vg_config g in
      if \<not> vc_enabled c then (g, vad_sendOne levelDb frame)
      else if \<not> vg_speaking g then
        let preRoll = fst (trimFrames (vc_preRollFrames c) (vg_preRoll g @ [frame]));
            above = (if level_ge levelDb (vc_startDb c) then vg_aboveStartFrames g + 1 else 0)
        in if above \<ge> vc_minSpeechFrames c then
             (g\<lparr>vg_preRoll := [], vg_speaking := True, vg_hangoverRemaining := vc_hangoverFrames c, vg_aboveStartFrames := 0\<rparr>,
              \<lparr>vd_send = True, vd_started = True, vd_stopped = False, vd_levelDb = levelDb, vd_frames = preRoll\<rparr>)
           else
             (g\<lparr>vg_preRoll := preRoll, vg_aboveStartFrames := above\<rparr>,
              \<lparr>vd_send = False, vd_started = False, vd_stopped = False, vd_levelDb = levelDb, vd_frames = []\<rparr>)
      else if level_ge levelDb (vc_stopDb c) then
        (g\<lparr>vg_hangoverRemaining := vc_hangoverFrames c\<rparr>, vad_sendOne levelDb frame)
      else if vg_hangoverRemaining g > 0 then
        (g\<lparr>vg_hangoverRemaining := vg_hangoverRemaining g - 1\<rparr>, vad_sendOne levelDb frame)
      else
        (g\<lparr>vg_speaking := False, vg_preRoll := sliceLast (vc_preRollFrames c) [frame]\<rparr>,
         \<lparr>vd_send = False, vd_started = False, vd_stopped = True, vd_levelDb = levelDb, vd_frames = []\<rparr>))"

definition vad_process :: "rat list \<Rightarrow> rat list VadGate \<Rightarrow> rat list VadGate \<times> rat list VadDecision" where
  "vad_process frame g = vad_decide (rmsDb frame) frame g"

text \<open>The frames a sequence of inputs makes the gate pass on.\<close>

fun vadRun :: "(level \<times> 'f) list \<Rightarrow> 'f VadGate \<Rightarrow> 'f VadGate \<times> 'f list" where
  "vadRun [] g = (g, [])"
| "vadRun ((l, f) # ins) g =
     (let (g1, d) = vad_decide l f g; (g2, out) = vadRun ins g1
      in (g2, (if vd_send d then vd_frames d else []) @ out))"

section \<open>Samples\<close>

text \<open>\<^verbatim>\<open>setInt16\<close>: truncation towards zero, then the value modulo \<open>2 ^ 16\<close>, low byte first.\<close>

definition toInt16 :: "rat \<Rightarrow> 16 word" where
  "toInt16 x = of_int (if x < 0 then \<lceil>x\<rceil> else \<lfloor>x\<rfloor>)"

definition le16 :: "16 word \<Rightarrow> bytes" where
  "le16 w = [of_nat (unat w mod 256), of_nat (unat w div 256)]"

definition sample16 :: "rat \<Rightarrow> 16 word" where
  "sample16 x = (let sample = max (-1) (min 1 x) in toInt16 (if sample < 0 then sample * 32768 else sample * 32767))"

definition floatToPcm16 :: "rat list \<Rightarrow> bytes" where
  "floatToPcm16 input = concat (map (le16 \<circ> sample16) input)"

text \<open>\<^verbatim>\<open>new Float32Array(byteLength / 2)\<close> throws a \<^verbatim>\<open>RangeError\<close> for an odd length (its text depends on the engine).\<close>

fun getInt16s :: "bytes \<Rightarrow> 16 word list" where
  "getInt16s (a # b # bs) = of_nat (unat a + 256 * unat b) # getInt16s bs"
| "getInt16s _ = []"

definition pcm16ToFloat :: "bytes \<Rightarrow> rat list res" where
  "pcm16ToFloat input =
     (if odd (length input) then throw ''Invalid typed array length''
      else Inr (map (\<lambda>w. of_int (sint w) / 32768) (getInt16s input)))"

section \<open>Lemmas on the gate\<close>

lemma fst_trimFrames: "fst (trimFrames n xs) = drop (length xs - n) xs"
  by (simp add: trimFrames_drop)

lemma subseq_trim: "subseq (fst (trimFrames n xs)) xs"
  unfolding fst_trimFrames by (rule suffix_imp_subseq [OF suffix_drop])

text \<open>What is passed on, was put in before, in the same order and at most as often.\<close>

definition vad_ok :: "'f VadGate \<Rightarrow> bool" where
  "vad_ok g = (vg_speaking g \<or> \<not> vc_enabled (vg_config g) \<longrightarrow> vg_preRoll g = [])"

lemma vadRun_subseq: "vad_ok g \<Longrightarrow> subseq (snd (vadRun ins g)) (vg_preRoll g @ map snd ins)"
proof (induction ins arbitrary: g)
  case (Cons x ins)
  obtain l f where x: "x = (l, f)" by (cases x)
  obtain g1 d where d: "vad_decide l f g = (g1, d)" by (cases "vad_decide l f g")
  have out: "snd (vadRun (x # ins) g) = (if vd_send d then vd_frames d else []) @ snd (vadRun ins g1)"
    using d x by (simp add: split_def Let_def)
  have kept: "subseq ((if vd_send d then vd_frames d else []) @ vg_preRoll g1) (vg_preRoll g @ [f])"
  proof (cases "vc_enabled (vg_config g) \<and> \<not> vg_speaking g")
    case True
    then show ?thesis using d by (auto simp: vad_decide_def Let_def subseq_trim split: if_splits)
  next
    case False
    then show ?thesis using d Cons.prems
      by (auto simp: vad_ok_def vad_decide_def Let_def vad_sendOne_def sliceLast_def split: if_splits)
  qed
  have ok: "vad_ok g1" using d Cons.prems by (auto simp: vad_ok_def vad_decide_def Let_def split: if_splits)
  have "subseq (snd (vadRun (x # ins) g)) (((if vd_send d then vd_frames d else []) @ vg_preRoll g1) @ map snd ins)"
    using Cons.IH [OF ok] out by (simp add: list_emb_append_mono)
  also have "subseq \<dots> ((vg_preRoll g @ [f]) @ map snd ins)"
    by (rule list_emb_append_mono [OF kept]) simp
  finally show ?case using x by simp
qed simp

section \<open>One stretch of speech\<close>

definition lastN :: "nat \<Rightarrow> 'a list \<Rightarrow> 'a list" where
  "lastN n xs = drop (length xs - n) xs"

lemma lastN_snoc: "lastN n (lastN n xs @ [x]) = lastN n (xs @ [x])"
  by (cases "length xs \<le> n") (auto simp: lastN_def Suc_diff_le not_le)

definition idleGate :: "VadConfig \<Rightarrow> 'f list \<Rightarrow> nat \<Rightarrow> nat \<Rightarrow> 'f VadGate" where
  "idleGate c heard n r =
     \<lparr>vg_config = c, vg_speaking = False, vg_aboveStartFrames = n, vg_hangoverRemaining = r,
      vg_preRoll = lastN (vc_preRollFrames c) heard\<rparr>"

definition openGate :: "VadConfig \<Rightarrow> nat \<Rightarrow> 'f VadGate" where
  "openGate c r =
     \<lparr>vg_config = c, vg_speaking = True, vg_aboveStartFrames = 0, vg_hangoverRemaining = r, vg_preRoll = []\<rparr>"

lemma vadRun_append:
  "vadRun (xs @ ys) g = (let (g1, o1) = vadRun xs g; (g2, o2) = vadRun ys g1 in (g2, o1 @ o2))"
proof (induction xs arbitrary: g)
  case (Cons x xs)
  then show ?case by (cases x) (simp add: split_def Let_def)
qed (simp add: split_def Let_def)

lemma vad_quiet:
  assumes "vc_enabled c" and "0 < vc_minSpeechFrames c" and "\<And>x. x \<in> set qs \<Longrightarrow> \<not> level_ge (fst x) (vc_startDb c)"
  shows "vadRun qs (idleGate c h 0 r) = (idleGate c (h @ map snd qs) 0 r, [])"
  using assms(3)
proof (induction qs arbitrary: h)
  case (Cons x qs)
  have "vad_decide (fst x) (snd x) (idleGate c h 0 r) =
      (idleGate c (h @ [snd x]) 0 r, \<lparr>vd_send = False, vd_started = False, vd_stopped = False, vd_levelDb = fst x, vd_frames = []\<rparr>)"
    using assms(1,2) Cons.prems [of x] lastN_snoc by (simp add: vad_decide_def idleGate_def fst_trimFrames lastN_def)
  then show ?case using Cons.IH [of "h @ [snd x]"] Cons.prems by (cases x) simp
qed simp

lemma vad_loud:
  assumes "vc_enabled c" and "ls \<noteq> []" and "\<And>x. x \<in> set ls \<Longrightarrow> level_ge (fst x) (vc_startDb c)"
    and "n + length ls = vc_minSpeechFrames c"
  shows "vadRun ls (idleGate c h n r) = (openGate c (vc_hangoverFrames c), lastN (vc_preRollFrames c) (h @ map snd ls))"
  using assms(2-)
proof (induction ls arbitrary: h n)
  case (Cons x ls)
  have trim: "fst (trimFrames (vc_preRollFrames c) (lastN (vc_preRollFrames c) h @ [snd x])) = lastN (vc_preRollFrames c) (h @ [snd x])"
    using lastN_snoc by (simp add: fst_trimFrames lastN_def)
  show ?case
  proof (cases "ls = []")
    case True
    then show ?thesis using Cons.prems trim assms(1)
      by (cases x) (simp add: vad_decide_def idleGate_def openGate_def)
  next
    case False
    have "vad_decide (fst x) (snd x) (idleGate c h n r) =
        (idleGate c (h @ [snd x]) (n + 1) r, \<lparr>vd_send = False, vd_started = False, vd_stopped = False, vd_levelDb = fst x, vd_frames = []\<rparr>)"
      using Cons.prems False trim assms(1) by (cases ls) (auto simp: vad_decide_def idleGate_def)
    then show ?thesis using Cons.IH [OF False, of "n + 1" "h @ [snd x]"] Cons.prems by (cases x) simp
  qed
qed simp

lemma vad_talking:
  assumes "vc_enabled c" and "\<And>x. x \<in> set ms \<Longrightarrow> level_ge (fst x) (vc_stopDb c)"
  shows "vadRun ms (openGate c (vc_hangoverFrames c)) = (openGate c (vc_hangoverFrames c), map snd ms)"
  using assms(2)
proof (induction ms)
  case (Cons x ms)
  have "vad_decide (fst x) (snd x) (openGate c (vc_hangoverFrames c)) = (openGate c (vc_hangoverFrames c), vad_sendOne (fst x) (snd x))"
    using assms(1) Cons.prems [of x] by (simp add: vad_decide_def openGate_def)
  then show ?case using Cons by (cases x) (simp add: vad_sendOne_def)
qed simp

lemma vad_trailing:
  assumes "vc_enabled c" and "\<And>x. x \<in> set ts \<Longrightarrow> \<not> level_ge (fst x) (vc_stopDb c)" and "length ts = r + 1"
  shows "vg_speaking (fst (vadRun ts (openGate c r))) = False \<and> snd (vadRun ts (openGate c r)) = map snd (butlast ts)"
  using assms(2,3)
proof (induction r arbitrary: ts)
  case 0
  then obtain x where "ts = [x]" by (cases ts) auto
  then show ?case using 0 assms(1) by (cases x) (simp add: vad_decide_def openGate_def)
next
  case (Suc r)
  then obtain x ts' where ts: "ts = x # ts'" "ts' \<noteq> []" by (cases ts; cases "tl ts") auto
  have "vad_decide (fst x) (snd x) (openGate c (Suc r)) = (openGate c r, vad_sendOne (fst x) (snd x))"
    using Suc.prems assms(1) ts by (simp add: vad_decide_def openGate_def)
  then show ?case using Suc.IH [of ts'] Suc.prems ts by (cases x) (simp add: split_def Let_def vad_sendOne_def)
qed

section \<open>Lemmas on the samples\<close>

lemma getInt16s_le16: "getInt16s (le16 w @ bs) = w # getInt16s bs"
proof -
  have "unat w < 65536" using unsigned_less [of w] by simp
  then have "unat w div 256 < 256" by (simp add: less_mult_imp_div_less)
  then have "unat (of_nat (unat w mod 256) :: byte) + 256 * unat (of_nat (unat w div 256) :: byte) = unat w"
    by (simp add: unat_of_nat_byte)
  then show ?thesis by (simp add: le16_def)
qed

lemma getInt16s_floatToPcm16: "getInt16s (floatToPcm16 xs) = map sample16 xs"
  by (induction xs) (simp_all add: floatToPcm16_def getInt16s_le16)

lemma length_floatToPcm16: "length (floatToPcm16 xs) = 2 * length xs"
  by (induction xs) (simp_all add: floatToPcm16_def le16_def)

lemma sint_toInt16:
  assumes "-32768 \<le> x" and "x \<le> 32767"
  shows "sint (toInt16 x) = (if x < 0 then \<lceil>x\<rceil> else \<lfloor>x\<rfloor>)"
proof -
  let ?i = "if x < 0 then \<lceil>x\<rceil> else \<lfloor>x\<rfloor>"
  have "-32768 \<le> ?i" "?i < 32768" using assms by (auto simp: le_ceiling_iff ceiling_less_iff le_floor_iff floor_less_iff)
  then show ?thesis unfolding toInt16_def by (subst sint_sbintrunc') (simp add: signed_take_bit_int_eq_self)
qed

text \<open>The conversion to 16 bits and back moves a sample by less than two steps, and clips it to the range.\<close>

lemma sample16_error:
  assumes "-1 \<le> x" and "x \<le> (1 :: rat)"
  shows "\<bar>of_int (sint (sample16 x)) / 32768 - x\<bar> < 2 / 32768"
proof (cases "x < 0")
  case True
  then have "sint (sample16 x) = \<lceil>x * 32768\<rceil>"
    using assms sint_toInt16 [of "x * 32768"] by (auto simp: sample16_def Let_def mult_less_0_iff)
  moreover have "x * 32768 \<le> of_int \<lceil>x * 32768\<rceil>" "of_int \<lceil>x * 32768\<rceil> < x * 32768 + 1"
    using ceiling_correct [of "x * 32768"] by linarith+
  ultimately show ?thesis by (simp add: abs_less_iff field_simps)
next
  case False
  then have "sint (sample16 x) = \<lfloor>x * 32767\<rfloor>"
    using assms sint_toInt16 [of "x * 32767"] by (auto simp: sample16_def Let_def)
  moreover have "of_int \<lfloor>x * 32767\<rfloor> \<le> x * 32767" "x * 32767 < of_int \<lfloor>x * 32767\<rfloor> + 1" by linarith+
  moreover have "of_int \<lfloor>x * 32767\<rfloor> < 2 + x * 32768" using calculation(2) False by linarith
  ultimately show ?thesis using False assms by (simp add: abs_less_iff field_simps)
qed

section \<open>Properties\<close>

text \<open>
  The voice gate passes on one stretch of speech as a whole. After any quiet start, as many loud frames as the profile asks for open the gate;
  it then sends the last frames heard so far (the pre-roll), every frame above the closing threshold, and of the quiet frames that
  follow exactly the hangover; the next one closes it. Nothing is sent twice or out of order.
\<close>

theorem vad_passes_speech:
  assumes "vc_enabled c" and "0 < vc_minSpeechFrames c"
    and "\<forall>x \<in> set quiet. \<not> level_ge (fst x) (vc_startDb c)"
    and "\<forall>x \<in> set loud. level_ge (fst x) (vc_startDb c)" and "length loud = vc_minSpeechFrames c"
    and "\<forall>x \<in> set talk. level_ge (fst x) (vc_stopDb c)"
    and "\<forall>x \<in> set tail. \<not> level_ge (fst x) (vc_stopDb c)" and "length tail = vc_hangoverFrames c + 1"
  shows "case vadRun (quiet @ loud @ talk @ tail) (newVad c) of (g, sent) \<Rightarrow>
    \<not> vg_speaking g \<and> sent = lastN (vc_preRollFrames c) (map snd (quiet @ loud)) @ map snd talk @ map snd (butlast tail)"
proof -
  have new: "newVad c = idleGate c [] 0 0" by (simp add: newVad_def idleGate_def lastN_def)
  have q: "vadRun quiet (newVad c) = (idleGate c (map snd quiet) 0 0, [])"
    using vad_quiet [OF assms(1,2), of quiet "[]" 0] assms(3) unfolding new by auto
  have l: "vadRun loud (idleGate c (map snd quiet) 0 0) =
      (openGate c (vc_hangoverFrames c), lastN (vc_preRollFrames c) (map snd quiet @ map snd loud))"
    using assms by (intro vad_loud) auto
  have t: "vadRun talk (openGate c (vc_hangoverFrames c)) = (openGate c (vc_hangoverFrames c), map snd talk)"
    using assms by (intro vad_talking) auto
  have e: "\<not> vg_speaking (fst (vadRun tail (openGate c (vc_hangoverFrames c)))) \<and>
      snd (vadRun tail (openGate c (vc_hangoverFrames c))) = map snd (butlast tail)"
    using vad_trailing [OF assms(1), of tail "vc_hangoverFrames c"] assms(7,8) by auto
  show ?thesis using e by (simp add: vadRun_append q l t split_def Let_def)
qed

definition demoVad :: VadConfig where
  "demoVad = \<lparr>vc_enabled = True, vc_startDb = -45, vc_stopDb = -52, vc_preRollFrames = 2, vc_hangoverFrames = 1, vc_minSpeechFrames = 2\<rparr>"

theorem vad_passes_speech_witness:
  "case vadRun ([(NegInfinity, 1), (Db (-60), 2)] @ [(Db (-40), 3), (Db (-30), 4)] @ [(Db (-50), 5)] @ [(Db (-70), 6), (Db (-70), 7)])
      (newVad demoVad) of (g, sent) \<Rightarrow> \<not> vg_speaking g \<and> sent = [3 :: nat, 4, 5, 6]"
  using vad_passes_speech [of demoVad "[(NegInfinity, 1), (Db (-60), 2)]" "[(Db (-40), 3), (Db (-30), 4)]" "[(Db (-50), 5)]"
      "[(Db (-70), 6), (Db (-70), 7 :: nat)]"]
  by (simp add: demoVad_def lastN_def del: vadRun.simps)

text \<open>
  Played frames are in order. Whatever frames are pushed into the jitter buffer, in any order and however often, and however pops are
  interleaved: the frames it returns have strictly increasing sequence numbers, each of them was pushed, and it never holds more
  frames than its limit.
\<close>

lemma jitter_plays_in_order:
  "case jitterRun ops (newJitter n) of (b, played) \<Rightarrow>
    sorted_wrt (<) (map fst played) \<and> (\<forall>q f. (q, f) \<in> set played \<longrightarrow> JPush q f \<in> set ops) \<and> jb_size b \<le> n"
proof -
  obtain b played where r: "jitterRun ops (newJitter n) = (b, played)" by (cases "jitterRun ops (newJitter n)")
  have "jb_inv {} (newJitter n :: 'a JitterBuffer)" by (simp add: jb_inv_def newJitter_def)
  from jitterRun_inv [OF this r] show ?thesis using r by (auto simp: jb_size_def newJitter_def)
qed

lemma evictFrames_none: "length (jb_frames b) \<le> jb_maxFrames b \<Longrightarrow> evictFrames b = b"
  by (subst evictFrames.simps) simp

text \<open>
  The sample conversion is accurate. Converting samples to 16-bit little-endian bytes and back gives as many samples, each within two
  steps of \<open>1 / 32768\<close> of the original, clipped to the range from -1 to 1.
\<close>

lemma pcm_roundtrip:
  "\<exists>ys. pcm16ToFloat (floatToPcm16 xs) = Inr ys \<and>
    list_all2 (\<lambda>x y. \<bar>y - max (-1) (min 1 x)\<bar> < 2 / 32768) xs ys"
proof -
  have "\<bar>of_int (sint (sample16 x)) / 32768 - max (-1) (min 1 x)\<bar> < 2 / 32768" for x
  proof -
    have "sample16 x = sample16 (max (-1) (min 1 x))" by (simp add: sample16_def)
    then show ?thesis using sample16_error [of "max (-1) (min 1 x)"] by simp
  qed
  then show ?thesis
    by (simp add: pcm16ToFloat_def length_floatToPcm16 getInt16s_floatToPcm16 list_all2_map2 list_all2_same)
qed

end
