(* ===== verification/Voice.thy ===== *)
theory Voice
  imports VoiceSignal Bytes
begin

text \<open>
  The voice service (\<^verbatim>\<open>features/audio/VoiceService.ts\<close>). The Web Audio objects are represented by what the
  service reads of them: whether a context exists and its sample rate, whether the microphone stream is open, whether the capture
  nodes are connected. \<^verbatim>\<open>start\<close> is cut at its four awaits. Times are arguments; what is sent, dropped and
  scheduled for playback is an effect.
\<close>

section \<open>State\<close>

record VoiceFrame =
  vf_streamId :: string
  vf_seq :: int
  vf_sentAt :: int
  vf_sampleRate :: int
  vf_frameMs :: int
  vf_pcm16 :: string

record PlaybackFrame =
  pf_frame :: VoiceFrame
  pf_pcm16 :: bytes
  pf_receivedAt :: rat

datatype VoiceDropReason = PlaybackStale | PlaybackLeadReset

record VoiceService =
  vs_profile :: TransportProfile
  vs_stream :: bool
  vs_inputCtx :: "nat option" \<comment> \<open>the context's sample rate\<close>
  vs_outputCtx :: bool
  vs_nodes :: "(int \<times> int) option" \<comment> \<open>capture nodes; sample rate and frame length the handler was installed with\<close>
  vs_seq :: int
  vs_muted :: bool
  vs_captureBuffer :: "rat list list"
  vs_captureSamples :: int
  vs_jitter :: "PlaybackFrame JitterBuffer"
  vs_playbackTimer :: bool
  vs_nextPlaybackTime :: rat
  vs_vad :: "rat list VadGate"
  vs_playbackBlocked :: bool

datatype VoiceEffect =
    VSend VoiceFrame
  | VDrop VoiceDropReason
  | VPlay int rat rat "rat list" \<comment> \<open>sequence number, start, duration, samples\<close>

definition vadConfig :: "TransportProfile \<Rightarrow> VadConfig" where
  "vadConfig p =
     (let v = voice p in
      \<lparr>vc_enabled = (vadEnabled v \<and> voiceMode v = Efficient), vc_startDb = vadStartDb v, vc_stopDb = vadStopDb v,
       vc_preRollFrames = framesFromMs (vadPreRollMs v) (frameMs v),
       vc_hangoverFrames = framesFromMs (vadHangoverMs v) (frameMs v),
       vc_minSpeechFrames = framesFromMs (vadMinSpeechMs v) (frameMs v)\<rparr>)"

definition newVoice :: "TransportProfile \<Rightarrow> VoiceService" where
  "newVoice p =
     \<lparr>vs_profile = p, vs_stream = False, vs_inputCtx = None, vs_outputCtx = False, vs_nodes = None, vs_seq = 0,
      vs_muted = False, vs_captureBuffer = [], vs_captureSamples = 0, vs_jitter = newJitter (jitterMaxFrames (voice p)),
      vs_playbackTimer = False, vs_nextPlaybackTime = 0, vs_vad = newVad (vadConfig p), vs_playbackBlocked = False\<rparr>"

definition vs_setProfile :: "TransportProfile \<Rightarrow> VoiceService \<Rightarrow> VoiceService" where
  "vs_setProfile p s =
     s\<lparr>vs_profile := p, vs_jitter := newJitter (jitterMaxFrames (voice p)), vs_vad := vad_setConfig (vadConfig p) (vs_vad s)\<rparr>"

definition actualSampleRate :: "VoiceService \<Rightarrow> nat" where
  "actualSampleRate s = (case vs_inputCtx s of None \<Rightarrow> 48000 | Some r \<Rightarrow> r)"

section \<open>Capturing\<close>

definition samplesPerFrame :: "int \<Rightarrow> int \<Rightarrow> int" where
  "samplesPerFrame sampleRate ms = max 320 (sampleRate * ms div 1000)"

text \<open>\<^verbatim>\<open>readFrame\<close>; reading past the buffer is a \<^verbatim>\<open>TypeError\<close>.\<close>

fun readFrame :: "nat \<Rightarrow> rat list list \<Rightarrow> int \<Rightarrow> rat list list \<times> int \<times> rat list res" where
  "readFrame need [] n = ([], n, if need = 0 then Inr [] else throw ''TypeError'')"
| "readFrame need (first # rest) n =
     (if need = 0 then (first # rest, n, Inr [])
      else
        let k = min (length first) need in
        if k = length first then
          let (buf, m, r) = readFrame (need - k) rest (n - int k) in (buf, m, res_bind r (\<lambda>xs. Inr (take k first @ xs)))
        else (drop k first # rest, n - int k, Inr (take k first)))"

definition framesAllowedByVoiceMode :: "rat list \<Rightarrow> VoiceService \<Rightarrow> VoiceService \<times> rat list list" where
  "framesAllowedByVoiceMode frame s =
     (if voiceMode (voice (vs_profile s)) = MaxPrivacyMode then (s, [frame])
      else let (g, d) = vad_process frame (vs_vad s) in (s\<lparr>vs_vad := g\<rparr>, if vd_send d then vd_frames d else []))"

text \<open>The calls of \<^verbatim>\<open>onFrame\<close> for the frames passed on.\<close>

fun emitFrames :: "int \<Rightarrow> int \<Rightarrow> rat list list \<Rightarrow> VoiceService \<Rightarrow> VoiceService \<times> VoiceEffect list" where
  "emitFrames now rate [] s = (s, [])"
| "emitFrames now rate (f # fs) s =
     (let s1 = s\<lparr>vs_seq := vs_seq s + 1\<rparr>;
          frame = \<lparr>vf_streamId = ''voice'', vf_seq = vs_seq s1, vf_sentAt = now, vf_sampleRate = rate,
                   vf_frameMs = int (frameMs (voice (vs_profile s))), vf_pcm16 = bytesToBase64Url (floatToPcm16 f)\<rparr>;
          (s2, es) = emitFrames now rate fs s1
      in (s2, VSend frame # es))"

lemma readFrame_count: "readFrame need buf n = (buf', m, Inr xs) \<Longrightarrow> m = n - int need \<and> length xs = need"
proof (induction need buf n arbitrary: buf' m xs rule: readFrame.induct)
  case (2 need first rest n)
  show ?case
  proof (cases "need = 0")
    case False
    let ?k = "min (length first) need"
    show ?thesis
    proof (cases "?k = length first")
      case True
      obtain b m' r where r: "readFrame (need - ?k) rest (n - int ?k) = (b, m', r)"
        by (cases "readFrame (need - ?k) rest (n - int ?k)")
      then obtain ys where ys: "r = Inr ys" "xs = take ?k first @ ys" "m = m'"
        using 2(2) False True by (cases r) (auto simp: Let_def)
      have "m' = n - int ?k - int (need - ?k) \<and> length ys = need - ?k"
        using 2(1) [OF False refl True] r ys(1) by simp
      then show ?thesis using ys True by auto
    qed (use 2(2) False in \<open>auto simp: Let_def min_def split: if_splits\<close>)
  qed (use 2(2) in simp)
qed (auto split: if_splits)

lemma emitFrames_state: "fst (emitFrames now rate fs s) = s\<lparr>vs_seq := vs_seq s + int (length fs)\<rparr>"
  by (induction fs arbitrary: s) (simp_all add: split_def Let_def)

lemma allowed_sel:
  "vs_captureSamples (fst (framesAllowedByVoiceMode f s)) = vs_captureSamples s"
  "vs_captureBuffer (fst (framesAllowedByVoiceMode f s)) = vs_captureBuffer s"
  "vs_seq (fst (framesAllowedByVoiceMode f s)) = vs_seq s" "vs_profile (fst (framesAllowedByVoiceMode f s)) = vs_profile s"
  by (simp_all add: framesAllowedByVoiceMode_def split_def Let_def)

text \<open>One turn of the loop of the capture handler; the flag tells an exception.\<close>

definition captureStep :: "int \<Rightarrow> int \<Rightarrow> int \<Rightarrow> VoiceService \<Rightarrow> VoiceService \<times> VoiceEffect list \<times> bool" where
  "captureStep now rate ms s =
     (case readFrame (nat (samplesPerFrame rate ms)) (vs_captureBuffer s) (vs_captureSamples s) of
        (buf, n, Inl e) \<Rightarrow> (s\<lparr>vs_captureBuffer := buf, vs_captureSamples := n\<rparr>, [], True)
      | (buf, n, Inr frame) \<Rightarrow>
          let (s1, fs) = framesAllowedByVoiceMode frame (s\<lparr>vs_captureBuffer := buf, vs_captureSamples := n\<rparr>);
              (s2, es) = emitFrames now rate fs s1
          in (s2, es, False))"

lemma samplesPerFrame_pos: "320 \<le> samplesPerFrame rate ms"
  by (simp add: samplesPerFrame_def)

lemma captureStep_less:
  assumes "captureStep now rate ms s = (s', es, False)"
  shows "vs_captureSamples s' = vs_captureSamples s - samplesPerFrame rate ms"
proof -
  obtain buf n r where r: "readFrame (nat (samplesPerFrame rate ms)) (vs_captureBuffer s) (vs_captureSamples s) = (buf, n, r)"
    by (cases "readFrame (nat (samplesPerFrame rate ms)) (vs_captureBuffer s) (vs_captureSamples s)")
  then obtain f where f: "r = Inr f" using assms by (cases r) (auto simp: captureStep_def)
  let ?x = "framesAllowedByVoiceMode f (s\<lparr>vs_captureBuffer := buf, vs_captureSamples := n\<rparr>)"
  have "s' = fst (emitFrames now rate (snd ?x) (fst ?x))" using assms r f by (simp add: captureStep_def split_def Let_def)
  then have "vs_captureSamples s' = n" by (simp add: emitFrames_state allowed_sel)
  then show ?thesis using readFrame_count [OF r [unfolded f]] samplesPerFrame_pos [of rate ms] by simp
qed

function captureLoop :: "int \<Rightarrow> int \<Rightarrow> int \<Rightarrow> VoiceService \<Rightarrow> VoiceService \<times> VoiceEffect list" where
  "captureLoop now rate ms s =
     (if vs_captureSamples s \<ge> samplesPerFrame rate ms then
        (case captureStep now rate ms s of
           (s1, es, True) \<Rightarrow> (s1, es)
         | (s1, es, False) \<Rightarrow> let (s2, es') = captureLoop now rate ms s1 in (s2, es @ es'))
      else (s, []))"
  by pat_completeness auto
termination
proof (relation "measure (\<lambda>(now, rate, ms, s). nat (vs_captureSamples s))", goal_cases)
  case (2 now rate ms s)
  then show ?case
    using captureStep_less [of now rate ms s] samplesPerFrame_pos [of rate ms] by (cases "captureStep now rate ms s") fastforce
qed simp

declare captureLoop.simps [simp del]

text \<open>The handler of the capture node's messages.\<close>

definition onCapture :: "int \<Rightarrow> rat list \<Rightarrow> VoiceService \<Rightarrow> VoiceService \<times> VoiceEffect list" where
  "onCapture now data s =
     (case vs_nodes s of
        None \<Rightarrow> (s, [])
      | Some (rate, ms) \<Rightarrow>
          if \<not> vs_stream s \<or> vs_muted s then (s, [])
          else captureLoop now rate ms
            (s\<lparr>vs_captureBuffer := vs_captureBuffer s @ [data], vs_captureSamples := vs_captureSamples s + int (length data)\<rparr>))"

section \<open>Framing\<close>

text \<open>The reference: a stream of samples cut into frames of equal length, and what is left over.\<close>

function chunksOf :: "nat \<Rightarrow> 'a list \<Rightarrow> 'a list list" where
  "chunksOf n xs = (if n = 0 \<or> length xs < n then [] else take n xs # chunksOf n (drop n xs))"
  by pat_completeness auto
termination
  by (relation "measure (\<lambda>(n, xs). length xs)") auto

declare chunksOf.simps [simp del]

function leftOver :: "nat \<Rightarrow> 'a list \<Rightarrow> 'a list" where
  "leftOver n xs = (if n = 0 \<or> length xs < n then xs else leftOver n (drop n xs))"
  by pat_completeness auto
termination
  by (relation "measure (\<lambda>(n, xs). length xs)") auto

declare leftOver.simps [simp del]

lemma chunksOf_append: "chunksOf n (xs @ ys) = chunksOf n xs @ chunksOf n (leftOver n xs @ ys)"
proof (induction n xs rule: chunksOf.induct)
  case (1 n xs)
  show ?case
  proof (cases "n = 0 \<or> length xs < n")
    case True
    then show ?thesis by (auto simp: chunksOf.simps [of n xs] leftOver.simps [of n xs])
  next
    case False
    then show ?thesis using 1
      by (subst chunksOf.simps) (simp add: chunksOf.simps [of n xs] leftOver.simps [of n xs])
  qed
qed

lemma leftOver_append: "leftOver n (xs @ ys) = leftOver n (leftOver n xs @ ys)"
proof (induction n xs rule: leftOver.induct)
  case (1 n xs)
  show ?case
  proof (cases "n = 0 \<or> length xs < n")
    case True
    then show ?thesis by (auto simp: leftOver.simps [of n xs])
  next
    case False
    then show ?thesis using 1
      by (subst leftOver.simps) (simp add: leftOver.simps [of n xs])
  qed
qed

lemma readFrame_spec:
  "need \<le> length (concat buf) \<Longrightarrow>
   \<exists>buf'. readFrame need buf n = (buf', n - int need, Inr (take need (concat buf))) \<and> concat buf' = drop need (concat buf)"
proof (induction need buf n rule: readFrame.induct)
  case (2 need first rest n)
  show ?case
  proof (cases "need = 0")
    case False
    let ?k = "min (length first) need"
    show ?thesis
    proof (cases "?k = length first")
      case True
      have "need - ?k \<le> length (concat rest)" using 2(2) True by simp
      from 2(1) [OF False refl True this] show ?thesis using False True by (auto simp: Let_def min_def split: if_splits)
    next
      case notfirst: False
      then have "need < length first" by (simp add: min_def split: if_splits)
      then show ?thesis using False notfirst by (simp add: Let_def)
    qed
  qed simp
qed simp

text \<open>What the gate makes of a sequence of frames.\<close>

definition gateRun :: "rat list list \<Rightarrow> VoiceService \<Rightarrow> VoiceService \<times> rat list list" where
  "gateRun frames s =
     (if voiceMode (voice (vs_profile s)) = MaxPrivacyMode then (s, frames)
      else let (g, out) = vadRun (map (\<lambda>f. (rmsDb f, f)) frames) (vs_vad s) in (s\<lparr>vs_vad := g\<rparr>, out))"

definition sendFrames :: "int \<Rightarrow> int \<Rightarrow> rat list list \<Rightarrow> VoiceService \<Rightarrow> VoiceService \<times> VoiceEffect list" where
  "sendFrames now rate frames s = (let (s1, out) = gateRun frames s in emitFrames now rate out s1)"

lemma gateRun_Nil [simp]: "gateRun [] s = (s, [])"
  by (simp add: gateRun_def)

lemma allowed_gate: "framesAllowedByVoiceMode f s = gateRun [f] s"
  by (simp add: framesAllowedByVoiceMode_def gateRun_def vad_process_def split_def Let_def)

lemma gateRun_append: "gateRun (xs @ ys) s = (let (s1, a) = gateRun xs s; (s2, b) = gateRun ys s1 in (s2, a @ b))"
  by (simp add: gateRun_def vadRun_append split_def Let_def)

lemma gateRun_sel:
  "vs_seq (fst (gateRun fs s)) = vs_seq s" "vs_profile (fst (gateRun fs s)) = vs_profile s"
  "gateRun fs (s\<lparr>vs_seq := q\<rparr>) = ((fst (gateRun fs s))\<lparr>vs_seq := q\<rparr>, snd (gateRun fs s))"
  "gateRun fs (s\<lparr>vs_captureBuffer := b, vs_captureSamples := n\<rparr>) =
    ((fst (gateRun fs s))\<lparr>vs_captureBuffer := b, vs_captureSamples := n\<rparr>, snd (gateRun fs s))"
  by (simp_all add: gateRun_def split_def Let_def)

text \<open>The messages for frames numbered from \<open>q\<close> on.\<close>

fun sentFrom :: "int \<Rightarrow> int \<Rightarrow> int \<Rightarrow> int \<Rightarrow> rat list list \<Rightarrow> VoiceEffect list" where
  "sentFrom now rate ms q [] = []"
| "sentFrom now rate ms q (f # fs) =
     VSend \<lparr>vf_streamId = ''voice'', vf_seq = q, vf_sentAt = now, vf_sampleRate = rate, vf_frameMs = ms,
            vf_pcm16 = bytesToBase64Url (floatToPcm16 f)\<rparr> # sentFrom now rate ms (q + 1) fs"

definition untimed :: "VoiceEffect \<Rightarrow> VoiceEffect" where
  "untimed e = (case e of VSend f \<Rightarrow> VSend (f\<lparr>vf_sentAt := 0\<rparr>) | _ \<Rightarrow> e)"

lemma sentFrom_append: "sentFrom now rate ms q (xs @ ys) = sentFrom now rate ms q xs @ sentFrom now rate ms (q + int (length xs)) ys"
  by (induction xs arbitrary: q) (simp_all add: algebra_simps)

lemma untimed_sentFrom: "map untimed (sentFrom now rate ms q fs) = sentFrom 0 rate ms q fs"
  by (induction fs arbitrary: q) (simp_all add: untimed_def)

lemma emitFrames_effects:
  "snd (emitFrames now rate fs s) = sentFrom now rate (int (frameMs (voice (vs_profile s)))) (vs_seq s + 1) fs"
  by (induction fs arbitrary: s) (simp_all add: split_def Let_def)

lemma emitFrames_append:
  "emitFrames now rate (xs @ ys) s = (let (s1, a) = emitFrames now rate xs s; (s2, b) = emitFrames now rate ys s1 in (s2, a @ b))"
  by (induction xs arbitrary: s) (simp_all add: split_def Let_def)

lemma sendFrames_append:
  "sendFrames now rate (xs @ ys) s = (let (s1, a) = sendFrames now rate xs s; (s2, b) = sendFrames now rate ys s1 in (s2, a @ b))"
  by (simp add: sendFrames_def gateRun_append split_def Let_def emitFrames_state gateRun_sel emitFrames_effects sentFrom_append
      prod_eq_iff algebra_simps)

lemma sendFrames_state:
  "fst (sendFrames now rate fs s) = (fst (gateRun fs s))\<lparr>vs_seq := vs_seq s + int (length (snd (gateRun fs s)))\<rparr>"
  "vs_profile (fst (sendFrames now rate fs s)) = vs_profile s"
  by (simp_all add: sendFrames_def emitFrames_state gateRun_sel split_def Let_def)

lemma sendFrames_buffer:
  "sendFrames now rate fs (s\<lparr>vs_captureBuffer := b, vs_captureSamples := n\<rparr>) =
    ((fst (sendFrames now rate fs s))\<lparr>vs_captureBuffer := b, vs_captureSamples := n\<rparr>, snd (sendFrames now rate fs s))"
  by (simp add: sendFrames_def gateRun_sel emitFrames_state emitFrames_effects split_def Let_def prod_eq_iff)

lemma captureLoop_spec:
  assumes "vs_captureSamples s = int (length (concat (vs_captureBuffer s)))"
  shows "\<exists>buf'. concat buf' = leftOver (nat (samplesPerFrame rate ms)) (concat (vs_captureBuffer s)) \<and>
    captureLoop now rate ms s =
      ((fst (sendFrames now rate (chunksOf (nat (samplesPerFrame rate ms)) (concat (vs_captureBuffer s))) s))\<lparr>vs_captureBuffer := buf',
        vs_captureSamples := int (length (concat buf'))\<rparr>,
       snd (sendFrames now rate (chunksOf (nat (samplesPerFrame rate ms)) (concat (vs_captureBuffer s))) s))"
  using assms
proof (induction now rate ms s rule: captureLoop.induct)
  case (1 now rate ms s)
  let ?n = "nat (samplesPerFrame rate ms)" and ?c = "concat (vs_captureBuffer s)"
  have pos: "0 < ?n" using samplesPerFrame_pos [of rate ms] by simp
  show ?case
  proof (cases "vs_captureSamples s \<ge> samplesPerFrame rate ms")
    case False
    then have "length ?c < ?n" using 1(2) by simp
    then show ?thesis using False 1(2)
      by (intro exI [of _ "vs_captureBuffer s"])
        (simp add: captureLoop.simps [of now rate ms s] chunksOf.simps [of ?n ?c] leftOver.simps [of ?n ?c] sendFrames_def)
  next
    case True
    then have le: "?n \<le> length ?c" using 1(2) by simp
    obtain buf where buf: "readFrame ?n (vs_captureBuffer s) (vs_captureSamples s) = (buf, vs_captureSamples s - int ?n, Inr (take ?n ?c))"
      "concat buf = drop ?n ?c" using readFrame_spec [OF le] by blast
    let ?m = "int (length (concat buf))"
    let ?x = "sendFrames now rate [take ?n ?c] s"
    let ?s1 = "(fst ?x)\<lparr>vs_captureBuffer := buf, vs_captureSamples := ?m\<rparr>"
    have m: "vs_captureSamples s - int ?n = ?m" using 1(2) le buf(2) by simp
    have step: "captureStep now rate ms s = (?s1, snd ?x, False)"
      using buf(1) sendFrames_buffer [where now = now and rate = rate and s = s and b = buf and n = ?m and fs = "[take ?n ?c]"] m
      by (simp add: captureStep_def allowed_gate sendFrames_def split_def Let_def)
    obtain buf' where IH: "concat buf' = leftOver ?n (concat buf)" "captureLoop now rate ms ?s1 =
        ((fst (sendFrames now rate (chunksOf ?n (concat buf)) ?s1))\<lparr>vs_captureBuffer := buf', vs_captureSamples := int (length (concat buf'))\<rparr>,
         snd (sendFrames now rate (chunksOf ?n (concat buf)) ?s1))"
      using 1(1) [OF True step [symmetric] refl] by auto
    have loop: "captureLoop now rate ms s = (fst (captureLoop now rate ms ?s1), snd ?x @ snd (captureLoop now rate ms ?s1))"
      using True step by (subst captureLoop.simps) (simp add: split_def Let_def)
    have ch: "chunksOf ?n ?c = [take ?n ?c] @ chunksOf ?n (concat buf)" "leftOver ?n ?c = leftOver ?n (concat buf)"
      using le pos buf(2) by (simp_all add: chunksOf.simps [of ?n ?c] leftOver.simps [of ?n ?c])
    show ?thesis unfolding ch(1) sendFrames_append using IH loop ch(2)
      by (intro exI [of _ buf']) (simp add: sendFrames_buffer split_def Let_def)
  qed
qed

text \<open>Successive captures.\<close>

fun captureRun :: "(int \<times> rat list) list \<Rightarrow> VoiceService \<Rightarrow> VoiceService \<times> VoiceEffect list" where
  "captureRun [] s = (s, [])"
| "captureRun ((now, data) # ds) s =
     (let (s1, es) = onCapture now data s; (s2, es') = captureRun ds s1 in (s2, es @ es'))"

lemma untimed_send:
  "map untimed (snd (sendFrames now rate fs s)) =
   sentFrom 0 rate (int (frameMs (voice (vs_profile s)))) (vs_seq s + 1) (snd (gateRun fs s))"
  by (simp add: sendFrames_def emitFrames_effects untimed_sentFrom gateRun_sel split_def Let_def)

lemma gateRun_frame:
  "vs_nodes (fst (gateRun fs s)) = vs_nodes s" "vs_stream (fst (gateRun fs s)) = vs_stream s" "vs_muted (fst (gateRun fs s)) = vs_muted s"
  "vs_captureBuffer (fst (gateRun fs s)) = vs_captureBuffer s" "vs_captureSamples (fst (gateRun fs s)) = vs_captureSamples s"
  by (simp_all add: gateRun_def split_def Let_def)

text \<open>The service is capturing; \<open>rest\<close> is what has been captured and not yet framed.\<close>

definition capturing :: "int \<Rightarrow> int \<Rightarrow> rat list \<Rightarrow> VoiceService \<Rightarrow> bool" where
  "capturing rate ms rest s =
     (vs_nodes s = Some (rate, ms) \<and> vs_stream s \<and> \<not> vs_muted s \<and> concat (vs_captureBuffer s) = rest \<and>
      vs_captureSamples s = int (length rest) \<and> length rest < nat (samplesPerFrame rate ms))"

lemma leftOver_short: "0 < n \<Longrightarrow> length (leftOver n xs) < n"
  by (induction n xs rule: leftOver.induct) (subst leftOver.simps, auto)

lemma onCapture_spec:
  assumes "capturing rate ms rest s" and n: "n = nat (samplesPerFrame rate ms)" and r: "onCapture now data s = (s', es)"
  shows "capturing rate ms (leftOver n (rest @ data)) s'"
    "es = snd (sendFrames now rate (chunksOf n (rest @ data)) s)"
    "vs_seq s' = vs_seq (fst (sendFrames now rate (chunksOf n (rest @ data)) s))"
    "vs_vad s' = vs_vad (fst (gateRun (chunksOf n (rest @ data)) s))" "vs_profile s' = vs_profile s"
proof -
  let ?s = "s\<lparr>vs_captureBuffer := vs_captureBuffer s @ [data], vs_captureSamples := vs_captureSamples s + int (length data)\<rparr>"
  let ?fs = "chunksOf n (rest @ data)"
  have c: "concat (vs_captureBuffer ?s) = rest @ data" "vs_captureSamples ?s = int (length (concat (vs_captureBuffer ?s)))"
    using assms(1) by (auto simp: capturing_def)
  obtain buf' where b: "concat buf' = leftOver n (rest @ data)" "captureLoop now rate ms ?s =
      ((fst (sendFrames now rate ?fs ?s))\<lparr>vs_captureBuffer := buf', vs_captureSamples := int (length (concat buf'))\<rparr>, snd (sendFrames now rate ?fs ?s))"
    using captureLoop_spec [OF c(2), of rate ms now] unfolding c(1) n by blast
  have "onCapture now data s = captureLoop now rate ms ?s" using assms(1) by (simp add: onCapture_def capturing_def)
  then have s': "s' = (fst (sendFrames now rate ?fs s))\<lparr>vs_captureBuffer := buf', vs_captureSamples := int (length (concat buf'))\<rparr>"
    and es: "es = snd (sendFrames now rate ?fs s)" using b(2) r by (simp_all add: sendFrames_buffer)
  have "0 < n" using n samplesPerFrame_pos [of rate ms] by simp
  from leftOver_short [OF this] show "capturing rate ms (leftOver n (rest @ data)) s'"
    using assms(1) b(1) n by (simp add: s' capturing_def sendFrames_state gateRun_frame)
  show "es = snd (sendFrames now rate ?fs s)" by (rule es)
  show "vs_seq s' = vs_seq (fst (sendFrames now rate ?fs s))" "vs_vad s' = vs_vad (fst (gateRun ?fs s))" "vs_profile s' = vs_profile s"
    by (simp_all add: s' sendFrames_state gateRun_sel)
qed

lemma gateRun_vad: "vs_vad s = vs_vad s' \<Longrightarrow> vs_profile s = vs_profile s' \<Longrightarrow> snd (gateRun fs s) = snd (gateRun fs s')"
  by (simp add: gateRun_def split_def Let_def)

lemma captureRun_spec:
  assumes "capturing rate ms rest s" and "n = nat (samplesPerFrame rate ms)"
  shows "map untimed (snd (captureRun ds s)) =
    sentFrom 0 rate (int (frameMs (voice (vs_profile s)))) (vs_seq s + 1) (snd (gateRun (chunksOf n (rest @ concat (map snd ds))) s))"
  using assms(1)
proof (induction ds arbitrary: s rest)
  case Nil
  have "length rest < n" using Nil assms(2) by (simp add: capturing_def)
  then show ?case by (simp add: chunksOf.simps [of n rest])
next
  case (Cons d ds)
  obtain now data where d: "d = (now, data)" by (cases d)
  obtain s1 es where r: "onCapture now data s = (s1, es)" by (cases "onCapture now data s")
  note o = onCapture_spec [OF Cons.prems assms(2) r]
  let ?a = "chunksOf n (rest @ data)" and ?b = "chunksOf n (leftOver n (rest @ data) @ concat (map snd ds))"
  have ch: "chunksOf n (rest @ concat (map snd (d # ds))) = ?a @ ?b"
    using chunksOf_append [of n "rest @ data" "concat (map snd ds)"] d by simp
  have g: "snd (gateRun (?a @ ?b) s) = snd (gateRun ?a s) @ snd (gateRun ?b s1)"
    using gateRun_vad [of "fst (gateRun ?a s)" s1 ?b] o(4,5) by (simp add: gateRun_append gateRun_sel split_def Let_def)
  have seq: "vs_seq s1 = vs_seq s + int (length (snd (gateRun ?a s)))" using o(3) by (simp add: sendFrames_state)
  have run: "snd (captureRun (d # ds) s) = es @ snd (captureRun ds s1)" using r d by (simp add: split_def Let_def)
  show ?case unfolding ch g run using Cons.IH [OF o(1)] o(2,5) by (simp add: untimed_send sentFrom_append seq algebra_simps)
qed

section \<open>Playing\<close>

definition stopPlayback :: "VoiceService \<Rightarrow> VoiceService" where
  "stopPlayback s = s\<lparr>vs_jitter := jb_clear (vs_jitter s), vs_nextPlaybackTime := 0, vs_playbackTimer := False\<rparr>"

definition vs_stop :: "VoiceService \<Rightarrow> VoiceService" where
  "vs_stop s =
     (stopPlayback (s\<lparr>vs_muted := False, vs_captureBuffer := [], vs_captureSamples := 0, vs_vad := vad_reset (vs_vad s)\<rparr>))
       \<lparr>vs_nodes := None, vs_stream := False, vs_inputCtx := None, vs_outputCtx := False, vs_playbackBlocked := False\<rparr>"

definition vs_setMuted :: "bool \<Rightarrow> VoiceService \<Rightarrow> VoiceService" where
  "vs_setMuted muted s =
     s\<lparr>vs_muted := muted, vs_captureBuffer := [], vs_captureSamples := 0, vs_vad := vad_reset (vs_vad s)\<rparr>"

text \<open>\<^verbatim>\<open>enablePlayback\<close> before and after its await; \<open>ok\<close> tells whether the context runs.\<close>

definition enablePlayback :: "VoiceService \<Rightarrow> VoiceService" where
  "enablePlayback s = s\<lparr>vs_outputCtx := True\<rparr>"

definition playbackEnabled :: "bool \<Rightarrow> VoiceService \<Rightarrow> VoiceService \<times> bool" where
  "playbackEnabled ok s = (s\<lparr>vs_playbackBlocked := \<not> ok\<rparr>, ok)"

definition decodeInboundVoiceFrame :: "VoiceFrame \<Rightarrow> TransportProfile \<Rightarrow> bytes res" where
  "decodeInboundVoiceFrame frame p =
     (if vf_streamId frame \<noteq> ''voice'' \<or> \<bar>vf_seq frame\<bar> > 9007199254740991 \<or> vf_seq frame \<le> 0 \<or>
         \<bar>vf_sampleRate frame\<bar> > 9007199254740991 \<or> vf_sampleRate frame < 8000 \<or> vf_sampleRate frame > 192000 \<or>
         vf_frameMs frame \<noteq> int (frameMs (voice p))
      then throw ''Invalid voice frame metadata''
      else
        res_bind (base64UrlToBytes (vf_pcm16 frame)) (\<lambda>pcm16.
          if int (length pcm16) \<noteq> samplesPerFrame (vf_sampleRate frame) (vf_frameMs frame) * 2
          then throw ''Invalid voice frame payload'' else Inr pcm16))"

text \<open>\<^verbatim>\<open>play\<close>: up to the await of \<^verbatim>\<open>enablePlayback\<close>, and the rest.\<close>

definition vs_play :: "VoiceFrame \<Rightarrow> VoiceService \<Rightarrow> (VoiceService \<times> bytes) res" where
  "vs_play frame s = res_bind (decodeInboundVoiceFrame frame (vs_profile s)) (\<lambda>pcm16. Inr (enablePlayback s, pcm16))"

definition afterEnable :: "VoiceFrame \<Rightarrow> bytes \<Rightarrow> bool \<Rightarrow> rat \<Rightarrow> rat \<Rightarrow> VoiceService \<Rightarrow> VoiceService \<times> bool" where
  "afterEnable frame pcm16 ok now currentTime s =
     (let (s1, enabled) = playbackEnabled ok s in
      if \<not> enabled then (s1, False)
      else
        let s2 = s1\<lparr>vs_jitter := jb_push (vf_seq frame)
                     \<lparr>pf_frame = frame, pf_pcm16 = pcm16, pf_receivedAt = now\<rparr> (vs_jitter s1)\<rparr>
        in (if \<not> vs_playbackTimer s2 \<and> vs_outputCtx s2 then
              s2\<lparr>vs_nextPlaybackTime := currentTime + of_nat (jitterTargetMs (voice (vs_profile s2))) / 1000,
                 vs_playbackTimer := True\<rparr>
            else s2, True))"

text \<open>Frames that waited too long are dropped.\<close>

lemma jb_pop_shrinks: "jb_pop b = (b', Some x) \<Longrightarrow> length (jb_frames b') < length (jb_frames b)"
  by (auto simp: jb_pop_def Let_def delete_shorter map_get_keyset split: if_splits option.splits)

function popFresh :: "rat \<Rightarrow> nat \<Rightarrow> PlaybackFrame JitterBuffer \<Rightarrow>
    PlaybackFrame JitterBuffer \<times> (int \<times> PlaybackFrame) option \<times> VoiceEffect list" where
  "popFresh now maxLatency b =
     (case jb_pop b of
        (b1, None) \<Rightarrow> (b1, None, [])
      | (b1, Some (q, item)) \<Rightarrow>
          if now - pf_receivedAt item > of_nat maxLatency then
            let (b2, r, es) = popFresh now maxLatency b1 in (b2, r, VDrop PlaybackStale # es)
          else (b1, Some (q, item), []))"
  by pat_completeness auto
termination
proof (relation "measure (\<lambda>(now, l, b). length (jb_frames b))", goal_cases)
  case (2 now l b)
  then show ?case by (auto dest: jb_pop_shrinks [OF sym])
qed simp

declare popFresh.simps [simp del]

text \<open>\<^verbatim>\<open>flushPlayback\<close>; an exception of the Web Audio objects is not modelled.\<close>

definition flushPlayback :: "rat \<Rightarrow> rat \<Rightarrow> VoiceService \<Rightarrow> VoiceService \<times> VoiceEffect list" where
  "flushPlayback now currentTime s =
     (if \<not> vs_outputCtx s then (s, [])
      else
        let maxLatency = maxQueuedLatencyMs (voice (vs_profile s)) in
        if vs_nextPlaybackTime s - currentTime > of_nat maxLatency / 1000 then
          (s\<lparr>vs_jitter := jb_clear (vs_jitter s),
             vs_nextPlaybackTime := currentTime + of_nat (jitterTargetMs (voice (vs_profile s))) / 1000\<rparr>,
           [VDrop PlaybackLeadReset])
        else
          let (b, r, es) = popFresh now maxLatency (vs_jitter s); s1 = s\<lparr>vs_jitter := b\<rparr> in
          case r of
            None \<Rightarrow> (s1, es)
          | Some (q, item) \<Rightarrow>
              (case pcm16ToFloat (pf_pcm16 item) of
                 Inl e \<Rightarrow> (s1, es)
               | Inr floats \<Rightarrow>
                   let startAt = max currentTime (vs_nextPlaybackTime s1);
                       duration = of_int (vf_frameMs (pf_frame item)) / 1000
                   in (s1\<lparr>vs_nextPlaybackTime := startAt + duration\<rparr>, es @ [VPlay q startAt duration floats])))"

section \<open>Starting\<close>

text \<open>What the browser offers; what it throws.\<close>

record VoiceBrowser =
  br_secureContext :: bool
  br_getUserMedia :: bool
  br_audioContext :: bool
  br_workletNode :: bool
  br_contextWorklet :: bool \<comment> \<open>the context has \<^verbatim>\<open>audioWorklet\<close>\<close>
  br_sampleRate :: nat

datatype BrowserError = DomError string string | PlainError string \<comment> \<open>name and message of a \<^verbatim>\<open>DOMException\<close>\<close>

datatype BrowserOutcome = BOk | BThrow BrowserError

fun browserMessage :: "BrowserError \<Rightarrow> string" where
  "browserMessage (DomError name msg) = msg"
| "browserMessage (PlainError msg) = msg"

definition voiceError :: "string \<Rightarrow> BrowserError \<Rightarrow> string" where
  "voiceError stage err =
     stage @ '': '' @
     (case err of
        DomError name msg \<Rightarrow>
          if name = ''NotAllowedError'' then ''microphone access was denied by Android or browser site permissions''
          else if name = ''NotFoundError'' then ''no usable microphone was found''
          else if name = ''NotReadableError'' then ''the microphone is busy or unavailable''
          else if name = ''OverconstrainedError'' then ''requested microphone settings are unsupported''
          else msg
      | PlainError msg \<Rightarrow> msg)"

datatype VoiceTask = ResumeInput | ResumeOutput | Microphone | MicrophonePlain | LoadWorklet

definition noWorklet :: string where
  "noWorklet = ''This browser does not support the current voice engine (AudioWorklet missing)''"

definition vs_start :: "VoiceBrowser \<Rightarrow> VoiceService \<Rightarrow> (VoiceService \<times> VoiceTask option) res" where
  "vs_start br s =
     (if vs_stream s then Inr (s, None)
      else if \<not> voiceEnabled (voice (vs_profile s)) then throw ''Voice is disabled in this profile''
      else if \<not> br_secureContext br then throw ''Voice requires a secure HTTPS page''
      else if \<not> br_getUserMedia br then throw ''This browser does not expose microphone access''
      else if \<not> br_audioContext br then throw ''This browser does not support Web Audio''
      else if \<not> br_workletNode br then throw noWorklet
      else Inr (s\<lparr>vs_inputCtx := Some (br_sampleRate br), vs_outputCtx := True\<rparr>, Some ResumeInput))"

text \<open>An exception at a stage stops the service and is thrown on with the name of the stage.\<close>

definition startFails :: "string \<Rightarrow> BrowserError \<Rightarrow> VoiceService \<Rightarrow> VoiceService \<times> VoiceTask option res" where
  "startFails stage err s = (vs_stop s, throw (voiceError stage err))"

abbreviation nullContext :: BrowserError where
  "nullContext \<equiv> PlainError ''TypeError''"

definition micGranted :: "VoiceService \<Rightarrow> VoiceService \<times> VoiceTask option res" where
  "micGranted s =
     (let s1 = s\<lparr>vs_stream := True\<rparr> in
      if vs_inputCtx s1 = None then startFails ''audio_worklet_load'' nullContext s1 else (s1, Inr (Some LoadWorklet)))"

fun continueStart :: "VoiceBrowser \<Rightarrow> VoiceTask \<Rightarrow> BrowserOutcome \<Rightarrow> VoiceService \<Rightarrow> VoiceService \<times> VoiceTask option res" where
  "continueStart br ResumeInput (BThrow e) s = startFails ''audio_context_resume'' e s"
| "continueStart br ResumeInput BOk s =
     (if \<not> vs_outputCtx s then startFails ''audio_context_resume'' nullContext s else (s, Inr (Some ResumeOutput)))"
| "continueStart br ResumeOutput (BThrow e) s = startFails ''audio_context_resume'' e s"
| "continueStart br ResumeOutput BOk s =
     (let s1 = s\<lparr>vs_playbackBlocked := False\<rparr> in
      if vs_inputCtx s1 = None then startFails ''audio_context_resume'' nullContext s1
      else if \<not> br_contextWorklet br then startFails ''audio_context_resume'' (PlainError noWorklet) s1
      else (s1, Inr (Some Microphone)))"
| "continueStart br Microphone (BThrow e) s =
     (if (case e of DomError name msg \<Rightarrow> name = ''OverconstrainedError'' | _ \<Rightarrow> False) then (s, Inr (Some MicrophonePlain))
      else startFails ''microphone_permission'' e s)"
| "continueStart br Microphone BOk s = micGranted s"
| "continueStart br MicrophonePlain (BThrow e) s =
     startFails ''microphone_permission'' (PlainError (voiceError ''microphone_constraints'' e)) s"
| "continueStart br MicrophonePlain BOk s = micGranted s"
| "continueStart br LoadWorklet (BThrow e) s = startFails ''audio_worklet_load'' e s"
| "continueStart br LoadWorklet BOk s =
     (case vs_inputCtx s of
        None \<Rightarrow> startFails ''audio_worklet_load'' nullContext s
      | Some rate \<Rightarrow>
          if \<not> vs_stream s then startFails ''audio_worklet_load'' nullContext s else
          (s\<lparr>vs_nodes := Some (int rate, int (frameMs (voice (vs_profile s)))), vs_seq := 0, vs_vad := vad_reset (vs_vad s)\<rparr>,
           Inr None))"

section \<open>From one microphone to the other side\<close>

lemma chunksOf_length: "f \<in> set (chunksOf n xs) \<Longrightarrow> length f = n"
proof (induction n xs rule: chunksOf.induct)
  case (1 n xs)
  show ?case using 1(1,2) unfolding chunksOf.simps [of n xs] by (auto split: if_splits)
qed

lemma chunksOf_count: "0 < n \<Longrightarrow> length (chunksOf n xs) \<le> length xs"
proof (induction n xs rule: chunksOf.induct)
  case (1 n xs)
  show ?case using 1(1,2) unfolding chunksOf.simps [of n xs] by (cases "length xs < n") fastforce+
qed

lemma gateRun_fresh:
  assumes "vs_vad s = vad_reset (vs_vad s)"
  shows "set (snd (gateRun fs s)) \<subseteq> set fs" and "length (snd (gateRun fs s)) \<le> length fs"
proof -
  have ok: "vg_preRoll (vs_vad s) = []" using arg_cong [OF assms, of vg_preRoll] by (simp add: vad_reset_def)
  then have "vad_ok (vs_vad s)" by (simp add: vad_ok_def)
  from vadRun_subseq [OF this, of "map (\<lambda>f. (rmsDb f, f)) fs"]
  have "subseq (snd (gateRun fs s)) fs" using ok by (simp add: gateRun_def split_def Let_def comp_def)
  then show "set (snd (gateRun fs s)) \<subseteq> set fs" and "length (snd (gateRun fs s)) \<le> length fs"
    by (blast elim: list_emb_set) (use \<open>subseq (snd (gateRun fs s)) fs\<close> in \<open>rule list_emb_length\<close>)
qed

lemma decode_sent:
  assumes "0 < q" and "q < 2 ^ 53" and "8000 \<le> rate" and "rate \<le> 192000" and "ms = int (frameMs (voice p))"
    and "int (length f) = samplesPerFrame rate ms"
  shows "decodeInboundVoiceFrame \<lparr>vf_streamId = ''voice'', vf_seq = q, vf_sentAt = t, vf_sampleRate = rate, vf_frameMs = ms,
    vf_pcm16 = bytesToBase64Url (floatToPcm16 f)\<rparr> p = Inr (floatToPcm16 f)"
  using assms by (simp add: decodeInboundVoiceFrame_def base64Url_dec_enc length_floatToPcm16)

definition heardBy :: "TransportProfile \<Rightarrow> VoiceEffect \<Rightarrow> bytes res option" where
  "heardBy p e = (case e of VSend f \<Rightarrow> Some (decodeInboundVoiceFrame f p) | _ \<Rightarrow> None)"

lemma heardBy_untimed: "heardBy p (untimed e) = heardBy p e"
  by (cases e) (simp_all add: heardBy_def untimed_def decodeInboundVoiceFrame_def)

lemma heardBy_sentFrom:
  assumes "0 < q" and "q + int (length fs) \<le> 2 ^ 53" and "8000 \<le> rate" and "rate \<le> 192000" and "ms = int (frameMs (voice p))"
    and "\<And>f. f \<in> set fs \<Longrightarrow> int (length f) = samplesPerFrame rate ms"
  shows "map (heardBy p) (sentFrom t rate ms q fs) = map (Some \<circ> Inr \<circ> floatToPcm16) fs"
  using assms
proof (induction fs arbitrary: q)
  case (Cons f fs)
  have "decodeInboundVoiceFrame \<lparr>vf_streamId = ''voice'', vf_seq = q, vf_sentAt = t, vf_sampleRate = rate, vf_frameMs = ms,
      vf_pcm16 = bytesToBase64Url (floatToPcm16 f)\<rparr> p = Inr (floatToPcm16 f)"
    using Cons.prems by (intro decode_sent) auto
  then show ?case using Cons.IH [of "q + 1"] Cons.prems by (simp add: heardBy_def)
qed simp

section \<open>The playback schedule\<close>

definition playable :: "(int \<times> PlaybackFrame) set" where
  "playable = {(q, item). 0 \<le> vf_frameMs (pf_frame item)}"

lemma popFresh_spec:
  assumes "jb_inv P b" and "popFresh now l b = (b', r, es)"
  shows "jb_inv P b' \<and> (\<forall>k. due b' k \<longrightarrow> due b k) \<and> set es \<subseteq> {VDrop PlaybackStale} \<and>
    (\<forall>q item. r = Some (q, item) \<longrightarrow> due b q \<and> (q, item) \<in> P \<and> now - pf_receivedAt item \<le> of_nat l \<and> (\<forall>k. due b' k \<longrightarrow> q < k))"
  using assms
proof (induction now l b arbitrary: b' r es rule: popFresh.induct)
  case (1 now l b)
  obtain b1 x where x: "jb_pop b = (b1, x)" by (cases "jb_pop b")
  show ?case
  proof (cases x)
    case None
    then have "b1 = b" using jb_pop_cases [OF 1(2) x] by simp
    then show ?thesis using 1(2,3) x None by (simp add: popFresh.simps [of now l b])
  next
    case (Some p)
    obtain q item where p: "p = (q, item)" by (cases p)
    note i = jb_pop_inv [OF 1(2) x [unfolded Some p]]
    have lt: "due b k" if "due b1 k" for k
      using that i by (auto simp: due_def split: option.splits)
    show ?thesis
    proof (cases "now - pf_receivedAt item > of_nat l")
      case True
      obtain b2 r2 e2 where r2: "popFresh now l b1 = (b2, r2, e2)" by (cases "popFresh now l b1")
      have "popFresh now l b = (b2, r2, VDrop PlaybackStale # e2)" using x Some p True r2 by (simp add: popFresh.simps [of now l b])
      then have e: "b' = b2" "r = r2" "es = VDrop PlaybackStale # e2" using 1(3) by simp_all
      show ?thesis using 1(1) [OF x [symmetric] Some p [symmetric] True _ r2] i lt e by auto
    next
      case False
      then show ?thesis using 1(3) x Some p i lt by (auto simp: popFresh.simps [of now l b])
    qed
  qed
qed

text \<open>
  A voice stream being received: a frame arrives and playback is enabled (times of the clock and of the audio context), or the
  playback timer fires.
\<close>

datatype PlayOp = Arrives VoiceFrame rat rat | Tick rat rat

definition playStep :: "PlayOp \<Rightarrow> VoiceService \<Rightarrow> VoiceService \<times> VoiceEffect list" where
  "playStep op s =
     (case op of
        Arrives frame now cur \<Rightarrow>
          (case vs_play frame s of
             Inl e \<Rightarrow> (s, [])
           | Inr (s1, pcm16) \<Rightarrow> (fst (afterEnable frame pcm16 True now cur s1), []))
      | Tick now cur \<Rightarrow> if vs_playbackTimer s then flushPlayback now cur s else (s, []))"

fun playRun :: "PlayOp list \<Rightarrow> VoiceService \<Rightarrow> VoiceService \<times> VoiceEffect list" where
  "playRun [] s = (s, [])"
| "playRun (op # ops) s = (let (s1, es) = playStep op s; (s2, es') = playRun ops s1 in (s2, es @ es'))"

text \<open>The scheduled frames: number, start and duration.\<close>

definition scheduled :: "VoiceEffect list \<Rightarrow> (int \<times> rat \<times> rat) list" where
  "scheduled es = concat (map (\<lambda>e. case e of VPlay q st d _ \<Rightarrow> [(q, st, d)] | _ \<Rightarrow> []) es)"

lemma scheduled_append [simp]: "scheduled (a @ b) = scheduled a @ scheduled b" "scheduled [] = []"
  by (simp_all add: scheduled_def)

lemma scheduled_drops: "set es \<subseteq> {VDrop PlaybackStale} \<Longrightarrow> scheduled es = []"
  by (induction es) (auto simp: scheduled_def)

definition play_inv :: "VoiceService \<Rightarrow> bool" where
  "play_inv s = (jb_inv playable (vs_jitter s) \<and> (vs_playbackTimer s \<or> jb_frames (vs_jitter s) = []))"

text \<open>One step either schedules nothing, or one frame that is due, not before the end of the last one.\<close>

lemma playStep_spec:
  assumes inv: "play_inv s" and st: "playStep op s = (s', es)" and ok: "VDrop PlaybackLeadReset \<notin> set es"
  shows "play_inv s' \<and> (\<forall>k. due (vs_jitter s') k \<longrightarrow> due (vs_jitter s) k) \<and> (vs_playbackTimer s \<longrightarrow> vs_playbackTimer s') \<and>
    (scheduled es = [] \<and> (vs_playbackTimer s \<longrightarrow> vs_nextPlaybackTime s' = vs_nextPlaybackTime s) \<or>
     (\<exists>q t d. scheduled es = [(q, t, d)] \<and> 0 \<le> d \<and> vs_playbackTimer s \<and> vs_nextPlaybackTime s \<le> t \<and> vs_nextPlaybackTime s' = t + d \<and>
       due (vs_jitter s) q \<and> (\<forall>k. due (vs_jitter s') k \<longrightarrow> q < k)))"
proof (cases op)
  case (Arrives frame now cur)
  show ?thesis
  proof (cases "vs_play frame s")
    case (Inl e)
    then show ?thesis using inv st Arrives by (simp add: playStep_def)
  next
    case (Inr x)
    then obtain pcm where x: "x = (enablePlayback s, pcm)" and d: "decodeInboundVoiceFrame frame (vs_profile s) = Inr pcm"
      by (auto simp: vs_play_def res_bind_Inr_iff)
    let ?item = "\<lparr>pf_frame = frame, pf_pcm16 = pcm, pf_receivedAt = now\<rparr>"
    have "vf_frameMs frame = int (frameMs (voice (vs_profile s)))"
      using d by (auto simp: decodeInboundVoiceFrame_def split: if_splits)
    then have "insert (vf_seq frame, ?item) playable = playable" by (auto simp: playable_def)
    then have p: "jb_inv playable (jb_push (vf_seq frame) ?item (vs_jitter s))"
      "\<forall>k. due (jb_push (vf_seq frame) ?item (vs_jitter s)) k \<longrightarrow> due (vs_jitter s) k"
      using jb_push_inv [of playable "vs_jitter s" "vf_seq frame" ?item] inv by (simp_all add: play_inv_def)
    have s': "s' = fst (afterEnable frame pcm True now cur (enablePlayback s))" "es = []"
      using st Arrives Inr x by (simp_all add: playStep_def)
    have "vs_jitter s' = jb_push (vf_seq frame) ?item (vs_jitter s)" "vs_playbackTimer s'"
      "vs_playbackTimer s \<longrightarrow> vs_nextPlaybackTime s' = vs_nextPlaybackTime s"
      by (simp_all add: s' afterEnable_def playbackEnabled_def enablePlayback_def Let_def)
    then show ?thesis using p s'(2) by (simp add: play_inv_def)
  qed
next
  case (Tick now cur)
  let ?L = "maxQueuedLatencyMs (voice (vs_profile s))"
  show ?thesis
  proof (cases "vs_playbackTimer s \<and> vs_outputCtx s")
    case False
    then show ?thesis using inv st Tick by (auto simp: playStep_def flushPlayback_def split: if_splits)
  next
    case True
    obtain b r e where pf: "popFresh now ?L (vs_jitter s) = (b, r, e)" by (cases "popFresh now ?L (vs_jitter s)")
    have lead: "\<not> vs_nextPlaybackTime s - cur > of_nat ?L / 1000"
    proof
      assume "vs_nextPlaybackTime s - cur > of_nat ?L / 1000"
      then have "es = [VDrop PlaybackLeadReset]" using st Tick True by (simp add: playStep_def flushPlayback_def Let_def)
      then show False using ok by simp
    qed
    have i: "jb_inv playable (vs_jitter s)" using inv by (simp add: play_inv_def)
    note P = popFresh_spec [OF i pf]
    have fl: "playStep op s = flushPlayback now cur s" using Tick True by (simp add: playStep_def)
    show ?thesis
    proof (cases r)
      case None
      then have "s' = s\<lparr>vs_jitter := b\<rparr>" "es = e" using st fl pf True lead by (simp_all add: flushPlayback_def Let_def)
      then show ?thesis using P True scheduled_drops by (auto simp: play_inv_def)
    next
      case (Some qi)
      obtain q item where qi: "qi = (q, item)" by (cases qi)
      have d: "0 \<le> (of_int (vf_frameMs (pf_frame item)) / 1000 :: rat)" using P Some qi by (auto simp: playable_def)
      have h: "scheduled e = []" using P scheduled_drops by blast
      show ?thesis
      proof (cases "pcm16ToFloat (pf_pcm16 item)")
        case (Inl x)
        then have "s' = s\<lparr>vs_jitter := b\<rparr>" "es = e" using st fl pf True lead Some qi by (simp_all add: flushPlayback_def Let_def)
        then show ?thesis using P True h by (auto simp: play_inv_def)
      next
        case (Inr floats)
        let ?t = "max cur (vs_nextPlaybackTime s)" and ?d = "of_int (vf_frameMs (pf_frame item)) / 1000 :: rat"
        have "s' = s\<lparr>vs_jitter := b, vs_nextPlaybackTime := ?t + ?d\<rparr>" "es = e @ [VPlay q ?t ?d floats]"
          using st fl pf True lead Some qi Inr by (simp_all add: flushPlayback_def Let_def)
        moreover have "scheduled (e @ [VPlay q ?t ?d floats]) = [(q, ?t, ?d)]" using h by (simp add: scheduled_def)
        moreover have "vs_nextPlaybackTime s \<le> ?t" by simp
        ultimately have "\<exists>q t d. scheduled es = [(q, t, d)] \<and> 0 \<le> d \<and> vs_playbackTimer s \<and> vs_nextPlaybackTime s \<le> t \<and>
            vs_nextPlaybackTime s' = t + d \<and> due (vs_jitter s) q \<and> (\<forall>k. due (vs_jitter s') k \<longrightarrow> q < k)"
          using P True d Some qi by (intro exI [of _ q] exI [of _ ?t] exI [of _ ?d]) simp
        moreover have "play_inv s'" "vs_playbackTimer s'" "\<forall>k. due (vs_jitter s') k \<longrightarrow> due (vs_jitter s) k"
          using P True \<open>s' = _\<close> by (simp_all add: play_inv_def)
        ultimately show ?thesis by blast
      qed
    qed
  qed
qed

lemma playRun_spec:
  assumes "play_inv s" and "playRun ops s = (s', es)" and "VDrop PlaybackLeadReset \<notin> set es"
  shows "sorted_wrt (\<lambda>(q, t, d) (q', t', d'). q < q' \<and> t + d \<le> t') (scheduled es) \<and>
    (\<forall>(q, t, d) \<in> set (scheduled es). due (vs_jitter s) q \<and> (vs_playbackTimer s \<longrightarrow> vs_nextPlaybackTime s \<le> t) \<and> 0 \<le> d)"
  using assms
proof (induction ops arbitrary: s es s')
  case (Cons op ops)
  obtain s1 e1 where st: "playStep op s = (s1, e1)" by (cases "playStep op s")
  obtain s2 e2 where r: "playRun ops s1 = (s2, e2)" by (cases "playRun ops s1")
  have es: "es = e1 @ e2" using Cons.prems(2) st r by simp
  have ok: "VDrop PlaybackLeadReset \<notin> set e1" "VDrop PlaybackLeadReset \<notin> set e2" using Cons.prems(3) es by auto
  note P = playStep_spec [OF Cons.prems(1) st ok(1)]
  note IH = Cons.IH [OF conjunct1 [OF P] r ok(2)]
  have later: "due (vs_jitter s) q \<and> 0 \<le> d \<and> (vs_playbackTimer s \<longrightarrow> vs_nextPlaybackTime s1 \<le> t) \<and> due (vs_jitter s1) q"
    if "(q, t, d) \<in> set (scheduled e2)" for q t d using that IH P by fastforce
  consider (none) "scheduled e1 = []" "vs_playbackTimer s \<longrightarrow> vs_nextPlaybackTime s1 = vs_nextPlaybackTime s"
    | (one) q t d where "scheduled e1 = [(q, t, d)]" "0 \<le> d" "vs_playbackTimer s" "vs_nextPlaybackTime s \<le> t"
      "vs_nextPlaybackTime s1 = t + d" "due (vs_jitter s) q" "\<forall>k. due (vs_jitter s1) k \<longrightarrow> q < k"
    using P by blast
  then show ?case
  proof cases
    case none
    then show ?thesis using IH later es by fastforce
  next
    case one
    have "q < q' \<and> t + d \<le> t'" if "(q', t', d') \<in> set (scheduled e2)" for q' t' d' using later [OF that] one by auto
    then show ?thesis using IH later es one by fastforce
  qed
qed simp

section \<open>Properties\<close>

text \<open>
  C19. What the microphone captures is what the other side decodes. Let a service that has just started capture any sequence of
  buffers, of any lengths. The frames it sends are exactly the frames of the captured stream, cut into equal lengths without
  losing, repeating or mixing a sample, that the voice gate lets pass; each of them is accepted by a peer with the same profile and
  decodes to the 16-bit samples of that frame.
\<close>

theorem captured_stream_is_heard:
  assumes "capturing rate ms [] s" and "ms = int (frameMs (voice (vs_profile s)))" and "vs_vad s = vad_reset (vs_vad s)"
    and "8000 \<le> rate" and "rate \<le> 192000" and "vs_seq s = 0" and "int (length (concat (map snd captured))) < 2 ^ 53"
  shows "map (heardBy (vs_profile s)) (snd (captureRun captured s)) =
    map (Some \<circ> Inr \<circ> floatToPcm16) (snd (gateRun (chunksOf (nat (samplesPerFrame rate ms)) (concat (map snd captured))) s))"
proof -
  let ?n = "nat (samplesPerFrame rate ms)" and ?p = "vs_profile s"
  let ?fs = "snd (gateRun (chunksOf ?n (concat (map snd captured))) s)"
  have n: "0 < ?n" "int ?n = samplesPerFrame rate ms" using samplesPerFrame_pos [of rate ms] by simp_all
  have len: "int (length f) = samplesPerFrame rate ms" if "f \<in> set ?fs" for f
    using subsetD [OF gateRun_fresh(1) [OF assms(3)] that] chunksOf_length [of f ?n] n(2) by simp
  have cnt: "length ?fs \<le> length (concat (map snd captured))"
    using gateRun_fresh(2) [OF assms(3)] chunksOf_count [OF n(1)] le_trans by blast
  have "map (heardBy ?p) (snd (captureRun captured s)) = map (heardBy ?p) (map untimed (snd (captureRun captured s)))"
    by (simp add: heardBy_untimed)
  also have "\<dots> = map (heardBy ?p) (sentFrom 0 rate ms 1 ?fs)"
    using captureRun_spec [OF assms(1) refl, of captured] assms(2,6) by simp
  also have "\<dots> = map (Some \<circ> Inr \<circ> floatToPcm16) ?fs"
    using len cnt assms(2,4,5,7) by (intro heardBy_sentFrom) auto
  finally show ?thesis .
qed

definition demoVoice :: VoiceService where
  "demoVoice = (newVoice (getProfile MaximumPrivacy))\<lparr>vs_stream := True, vs_inputCtx := Some 8000, vs_nodes := Some (8000, 60)\<rparr>"

lemma demoVoice_profile: "frameMs (voice (getProfile MaximumPrivacy)) = 60" "voiceMode (voice (getProfile MaximumPrivacy)) = MaxPrivacyMode"
  by (simp_all add: getProfile_def maximum_privacy_def)

theorem captured_stream_is_heard_witness:
  "map (heardBy (getProfile MaximumPrivacy)) (snd (captureRun [(5, replicate 300 0), (6, replicate 300 0)] demoVoice)) =
   [Some (Inr (floatToPcm16 (replicate 480 0)))]"
proof -
  have d: "capturing 8000 60 [] demoVoice" "vs_profile demoVoice = getProfile MaximumPrivacy" "vs_vad demoVoice = vad_reset (vs_vad demoVoice)"
    "vs_seq demoVoice = 0"
    by (simp_all add: demoVoice_def newVoice_def capturing_def samplesPerFrame_def newVad_def vad_reset_def)
  have spf: "samplesPerFrame 8000 60 = 480" by (simp add: samplesPerFrame_def)
  have ch: "chunksOf 480 (replicate 300 0 @ replicate 300 (0 :: rat)) = [replicate 480 0]"
    by (simp add: chunksOf.simps replicate_add [symmetric])
  show ?thesis using captured_stream_is_heard [OF d(1) _ d(3), of "[(5, replicate 300 0), (6, replicate 300 0)]"] d(2,4) demoVoice_profile
    by (simp add: spf ch gateRun_def del: captureRun.simps)
qed


text \<open>Two frames that arrive in the wrong order.\<close>

definition demoFrame :: "int \<Rightarrow> VoiceFrame" where
  "demoFrame q = \<lparr>vf_streamId = ''voice'', vf_seq = q, vf_sentAt = 0, vf_sampleRate = 8000, vf_frameMs = 40,
     vf_pcm16 = bytesToBase64Url (floatToPcm16 (replicate 320 0))\<rparr>"

definition demoArrivals :: "PlayOp list" where
  "demoArrivals = [Arrives (demoFrame 2) 0 0, Arrives (demoFrame 1) 1 0, Tick 40 0, Tick 80 0]"

lemma demo_decoded:
  "decodeInboundVoiceFrame (demoFrame 1) (getProfile Balanced) = Inr (floatToPcm16 (replicate 320 0))"
  "decodeInboundVoiceFrame (demoFrame 2) (getProfile Balanced) = Inr (floatToPcm16 (replicate 320 0))"
  unfolding demoFrame_def by (rule decode_sent, simp_all add: samplesPerFrame_def getProfile_def balanced_def)+

lemma demo_playback:
  "snd (playRun demoArrivals (newVoice (getProfile Balanced))) =
    [VPlay 1 (3 / 25) (1 / 25) (map (\<lambda>w. of_int (sint w) / 32768) (map sample16 (replicate 320 0))),
     VPlay 2 (4 / 25) (1 / 25) (map (\<lambda>w. of_int (sint w) / 32768) (map sample16 (replicate 320 0)))]"
proof -
  have v: "jitterMaxFrames (voice (getProfile Balanced)) = 12" "jitterTargetMs (voice (getProfile Balanced)) = 120"
    "maxQueuedLatencyMs (voice (getProfile Balanced)) = 400" by (simp_all add: getProfile_def balanced_def)
  have f: "vf_seq (demoFrame q) = q" "vf_frameMs (demoFrame q) = 40" for q by (simp_all add: demoFrame_def)
  have even: "even (length (floatToPcm16 (replicate 320 0)))" by (simp add: length_floatToPcm16)
  show ?thesis
    by (simp add: demoArrivals_def playStep_def vs_play_def demo_decoded newVoice_def enablePlayback_def afterEnable_def playbackEnabled_def
        v f newJitter_def jb_push_def evictFrames_none flushPlayback_def popFresh.simps jb_pop_def oldestFrame_def pcm16ToFloat_def even
        getInt16s_floatToPcm16 Let_def)
qed



definition demoBrowser :: VoiceBrowser where
  "demoBrowser = \<lparr>br_secureContext = True, br_getUserMedia = True, br_audioContext = True, br_workletNode = True, br_contextWorklet = True,
     br_sampleRate = 48000\<rparr>"


end
