(* ===== verification/Connection.thy ===== *)
theory Connection
  imports Scheduler Envelope Messages "HOL-Library.Sublist"
begin

text \<open>
  The connection to the relay (\<^verbatim>\<open>transport/WebSocketConnection.ts\<close>, \<^verbatim>\<open>transport/metrics.ts\<close>).

  Every socket ever opened is kept with the variables its handlers close over, because its events may come after the connection has moved on
  to another one. The browser's part (the ready state, the buffered amount, the timers, the session storage) is part of the
  state. The loop of \<^verbatim>\<open>drain\<close> yields to a timer after each frame; \<open>cn_yielded\<close> says that one is pending. A random number is an
  argument \<open>rnd\<close>. What the handlers of the connection are told is an effect.
\<close>

section \<open>Metrics\<close>

datatype VoiceDropMetric = BeforeEncrypt | BeforeDecrypt | BrowserBackpressure | MPlaybackStale | MPlaybackLeadReset

record TransportMetrics =
  m_queuedPackets :: int
  m_queuedBytes :: int
  m_sentPackets :: nat
  m_sentBytes :: nat
  m_droppedVoiceFrames :: nat
  m_voiceDroppedBeforeEncrypt :: nat
  m_voiceDroppedBeforeDecrypt :: nat
  m_voiceDroppedBrowserBackpressure :: nat
  m_voiceDroppedPlaybackStale :: nat
  m_voicePlaybackLeadResets :: nat
  m_voiceQueuePeakFrames :: nat
  m_reconnects :: nat
  m_backpressurePauses :: nat
  m_lastError :: "string option"
  m_lanePackets :: "LaneName \<Rightarrow> nat"
  m_laneBytes :: "LaneName \<Rightarrow> int"

definition createTransportMetrics :: TransportMetrics where
  "createTransportMetrics =
     \<lparr>m_queuedPackets = 0, m_queuedBytes = 0, m_sentPackets = 0, m_sentBytes = 0, m_droppedVoiceFrames = 0,
      m_voiceDroppedBeforeEncrypt = 0, m_voiceDroppedBeforeDecrypt = 0, m_voiceDroppedBrowserBackpressure = 0,
      m_voiceDroppedPlaybackStale = 0, m_voicePlaybackLeadResets = 0, m_voiceQueuePeakFrames = 0, m_reconnects = 0,
      m_backpressurePauses = 0, m_lastError = None, m_lanePackets = (\<lambda>_. 0), m_laneBytes = (\<lambda>_. 0)\<rparr>"

section \<open>State\<close>

datatype ConnectionStatus = Disconnected | Connecting | Connected | Reconnecting | ConnFailed

datatype ReadyState = WsConnecting | WsOpen | WsClosing | WsClosed

record Socket =
  sk_epoch :: nat
  sk_reconnecting :: bool \<comment> \<open>opened by a reconnect timer\<close>
  sk_opened :: bool
  sk_settled :: bool
  sk_ready :: ReadyState
  sk_buffered :: nat

record WebSocketConnection =
  cn_profile :: TransportProfile
  cn_ws :: "nat option"
  cn_scheduler :: PacketScheduler
  cn_status :: ConnectionStatus
  cn_metrics :: TransportMetrics
  cn_code :: string
  cn_slotToken :: string
  cn_epoch :: nat
  cn_reconnectAttempts :: nat
  cn_reconnectTimer :: "nat option"
  cn_drainTimer :: bool
  cn_intentionalClose :: bool
  cn_draining :: bool
  cn_sockets :: "nat \<Rightarrow> Socket"
  cn_nextSocket :: nat
  cn_reconnects :: "(nat, rat) jsmap" \<comment> \<open>pending reconnect timers with their delays\<close>
  cn_nextTimer :: nat
  cn_yielded :: bool
  cn_storage :: "(string, string) jsmap option" \<comment> \<open>session storage, none if access throws\<close>

datatype ConnEffect =
    EvStatus ConnectionStatus
  | EvEnvelope Envelope
  | EvRelay RelayEvent
  | EvMetrics TransportMetrics
  | EvDial string string \<comment> \<open>a socket is opened: room code and slot token\<close>
  | EvSend nat QueuedPacket
  | EvCommand nat bytes
  | EvClose nat
  | EvConnected \<comment> \<open>\<^verbatim>\<open>connect\<close> resolves\<close>
  | EvConnectFailed string \<comment> \<open>\<^verbatim>\<open>connect\<close> rejects\<close>

type_synonym conn_action = "WebSocketConnection \<Rightarrow> WebSocketConnection \<times> ConnEffect list"

definition andThen :: "conn_action \<Rightarrow> conn_action \<Rightarrow> conn_action" where
  "andThen f g s = (let (s1, es) = f s; (s2, es') = g s1 in (s2, es @ es'))"

definition doNothing :: conn_action where
  "doNothing s = (s, [])"

definition setting :: "(WebSocketConnection \<Rightarrow> WebSocketConnection) \<Rightarrow> conn_action" where
  "setting f s = (f s, [])"

definition updMetrics :: "(TransportMetrics \<Rightarrow> TransportMetrics) \<Rightarrow> conn_action" where
  "updMetrics f s = (s\<lparr>cn_metrics := f (cn_metrics s)\<rparr>, [])"

definition updSocket :: "nat \<Rightarrow> (Socket \<Rightarrow> Socket) \<Rightarrow> WebSocketConnection \<Rightarrow> WebSocketConnection" where
  "updSocket k f s = s\<lparr>cn_sockets := (cn_sockets s)(k := f (cn_sockets s k))\<rparr>"

abbreviation VOICE_BROWSER_BUFFER_LIMIT_BYTES :: nat where "VOICE_BROWSER_BUFFER_LIMIT_BYTES \<equiv> 65536"
abbreviation SLOT_STORAGE_PREFIX :: string where "SLOT_STORAGE_PREFIX \<equiv> ''onlytwo.slot.''"
abbreviation SLOT_PROTOCOL_PREFIX :: string where "SLOT_PROTOCOL_PREFIX \<equiv> ''onlytwo-slot.''"

definition newConnection :: "TransportProfile \<Rightarrow> (string, string) jsmap option \<Rightarrow> WebSocketConnection" where
  "newConnection p storage =
     \<lparr>cn_profile = p, cn_ws = None, cn_scheduler = newScheduler p, cn_status = Disconnected, cn_metrics = createTransportMetrics,
      cn_code = '''', cn_slotToken = '''', cn_epoch = 0, cn_reconnectAttempts = 0, cn_reconnectTimer = None, cn_drainTimer = False,
      cn_intentionalClose = False, cn_draining = False,
      cn_sockets = (\<lambda>_. \<lparr>sk_epoch = 0, sk_reconnecting = False, sk_opened = False, sk_settled = False, sk_ready = WsClosed, sk_buffered = 0\<rparr>),
      cn_nextSocket = 0, cn_reconnects = [], cn_nextTimer = 1, cn_yielded = False, cn_storage = storage\<rparr>"

section \<open>Reporting\<close>

definition emitMetrics :: conn_action where
  "emitMetrics s = (s, [EvMetrics (cn_metrics s)])"

definition setStatus :: "ConnectionStatus \<Rightarrow> conn_action" where
  "setStatus st s = (if cn_status s = st then (s, []) else (s\<lparr>cn_status := st\<rparr>, [EvStatus st]))"

definition emitRelay :: "RelayEvent \<Rightarrow> conn_action" where
  "emitRelay e s = (s, [EvRelay e])"

definition updateQueueMetrics :: conn_action where
  "updateQueueMetrics s =
     andThen (updMetrics (\<lambda>m. let snap = sch_snapshot (cn_scheduler s) in
       m\<lparr>m_queuedPackets := snap_packets snap, m_queuedBytes := snap_bytes snap, m_lanePackets := snap_lanePackets snap,
         m_laneBytes := snap_laneBytes snap\<rparr>)) emitMetrics s"

definition setError :: "js_error \<Rightarrow> conn_action" where
  "setError err = andThen (updMetrics (\<lambda>m. m\<lparr>m_lastError := (case err of Error msg \<Rightarrow> Some msg)\<rparr>)) emitMetrics"

fun countDrop :: "VoiceDropMetric \<Rightarrow> nat \<Rightarrow> TransportMetrics \<Rightarrow> TransportMetrics" where
  "countDrop BeforeEncrypt n m = m\<lparr>m_voiceDroppedBeforeEncrypt := m_voiceDroppedBeforeEncrypt m + n\<rparr>"
| "countDrop BeforeDecrypt n m = m\<lparr>m_voiceDroppedBeforeDecrypt := m_voiceDroppedBeforeDecrypt m + n\<rparr>"
| "countDrop BrowserBackpressure n m = m\<lparr>m_voiceDroppedBrowserBackpressure := m_voiceDroppedBrowserBackpressure m + n\<rparr>"
| "countDrop MPlaybackStale n m = m\<lparr>m_voiceDroppedPlaybackStale := m_voiceDroppedPlaybackStale m + n\<rparr>"
| "countDrop MPlaybackLeadReset n m = m\<lparr>m_voicePlaybackLeadResets := m_voicePlaybackLeadResets m + n\<rparr>"

definition recordVoiceDrop :: "VoiceDropMetric \<Rightarrow> nat \<Rightarrow> conn_action" where
  "recordVoiceDrop reason n =
     (if n \<le> 0 then doNothing
      else andThen (updMetrics (\<lambda>m. countDrop reason n (m\<lparr>m_droppedVoiceFrames := m_droppedVoiceFrames m + n\<rparr>))) emitMetrics)"

definition recordVoiceQueueSize :: "nat \<Rightarrow> conn_action" where
  "recordVoiceQueueSize n s =
     (if n \<le> m_voiceQueuePeakFrames (cn_metrics s) then (s, [])
      else andThen (updMetrics (\<lambda>m. m\<lparr>m_voiceQueuePeakFrames := n\<rparr>)) emitMetrics s)"

section \<open>Timers, sockets, slots\<close>

definition clearReconnectTimer :: "WebSocketConnection \<Rightarrow> WebSocketConnection" where
  "clearReconnectTimer s =
     (case cn_reconnectTimer s of
        None \<Rightarrow> s
      | Some tid \<Rightarrow> s\<lparr>cn_reconnects := map_delete tid (cn_reconnects s), cn_reconnectTimer := None\<rparr>)"

definition clearDrainTimer :: "WebSocketConnection \<Rightarrow> WebSocketConnection" where
  "clearDrainTimer s = s\<lparr>cn_drainTimer := False\<rparr>"

definition scheduleDrain :: "WebSocketConnection \<Rightarrow> WebSocketConnection" where
  "scheduleDrain s = s\<lparr>cn_drainTimer := True\<rparr>"

definition closeSocket :: conn_action where
  "closeSocket s =
     (case cn_ws s of
        None \<Rightarrow> (s, [])
      | Some k \<Rightarrow>
          ((updSocket k (\<lambda>sk. if sk_ready sk = WsClosed then sk else sk\<lparr>sk_ready := WsClosing\<rparr>) s)\<lparr>cn_ws := None\<rparr>, [EvClose k]))"

definition forgetSlotToken :: "WebSocketConnection \<Rightarrow> WebSocketConnection" where
  "forgetSlotToken s =
     (if cn_code s = '''' then s
      else s\<lparr>cn_storage := map_option (map_delete (SLOT_STORAGE_PREFIX @ cn_code s)) (cn_storage s), cn_slotToken := ''''\<rparr>)"

text \<open>\<open>token\<close> is the random token that is used if the storage has no valid one.\<close>

definition getOrCreateSlotToken ::
    "string \<Rightarrow> string \<Rightarrow> (string, string) jsmap option \<Rightarrow> (string, string) jsmap option \<times> string" where
  "getOrCreateSlotToken code token storage =
     (case storage of
        None \<Rightarrow> (None, token)
      | Some m \<Rightarrow>
          let key = SLOT_STORAGE_PREFIX @ code in
          (case map_get m key of
             Some existing \<Rightarrow> if isLowerHex 32 existing then (Some m, existing) else (Some (map_set key token m), token)
           | None \<Rightarrow> (Some (map_set key token m), token)))"

section \<open>Sending\<close>

definition isOpen :: "WebSocketConnection \<Rightarrow> bool" where
  "isOpen s = (case cn_ws s of None \<Rightarrow> False | Some k \<Rightarrow> sk_ready (cn_sockets s k) = WsOpen)"

definition buffered :: "WebSocketConnection \<Rightarrow> nat" where
  "buffered s = (case cn_ws s of None \<Rightarrow> 0 | Some k \<Rightarrow> sk_buffered (cn_sockets s k))"

definition canSendVoiceNow :: "WebSocketConnection \<Rightarrow> bool" where
  "canSendVoiceNow s = (isOpen s \<and> buffered s \<le> VOICE_BROWSER_BUFFER_LIMIT_BYTES)"

text \<open>\<^verbatim>\<open>ws.send\<close> on the current socket, with the counters of the caller.\<close>

definition sendPacket :: "QueuedPacket \<Rightarrow> conn_action" where
  "sendPacket packet s =
     (case cn_ws s of
        None \<Rightarrow> (s, [])
      | Some k \<Rightarrow>
          ((updSocket k (\<lambda>sk. sk\<lparr>sk_buffered := sk_buffered sk + length (qp_bytes packet)\<rparr>) s)
             \<lparr>cn_metrics := (cn_metrics s)\<lparr>m_sentPackets := m_sentPackets (cn_metrics s) + 1,
                m_sentBytes := m_sentBytes (cn_metrics s) + length (qp_bytes packet)\<rparr>\<rparr>,
           [EvSend k packet]))"

definition drainEnds :: conn_action where
  "drainEnds = andThen (setting (\<lambda>s. s\<lparr>cn_draining := False\<rparr>)) emitMetrics"

definition queuedCount :: "WebSocketConnection \<Rightarrow> nat" where
  "queuedCount s = (\<Sum>l\<leftarrow>LANES. length (waiting (cn_scheduler s) l))"

lemma sch_next_count:
  assumes "sch_next sc = (sc', Some p)"
  shows "(\<Sum>l\<leftarrow>LANES. length (waiting sc' l)) < (\<Sum>l\<leftarrow>LANES. length (waiting sc l))"
proof -
  obtain lane ps where w: "waiting sc lane = p # ps" "sc' = shiftLane lane sc"
    using assms by (cases rule: sch_next_cases [of sc]) auto
  then have "waiting sc' l = (if l = lane then ps else waiting sc l)" for l by (simp add: waiting_shift)
  then show ?thesis using w(1) by (cases lane) (simp_all add: LANES_def)
qed

lemma voiceDrop_sel [simp]: "cn_scheduler (fst (andThen (recordVoiceDrop r n) updateQueueMetrics s)) = cn_scheduler s"
  by (simp add: andThen_def recordVoiceDrop_def doNothing_def updMetrics_def emitMetrics_def updateQueueMetrics_def split_def Let_def)

lemma voiceDrop_scheduler:
  "(s', es) = andThen (recordVoiceDrop r n) updateQueueMetrics s \<Longrightarrow> cn_scheduler s' = cn_scheduler s"
  by (metis fst_conv voiceDrop_sel)

text \<open>The loop of \<^verbatim>\<open>drain\<close> up to the await after a frame; only dropped voice frames make it turn without one.\<close>

function drainLoop :: conn_action where
  "drainLoop s =
     (if \<not> isOpen s then drainEnds s
      else if buffered s > maxBufferedAmountBytes (outbox (cn_profile s)) then
        andThen (updMetrics (\<lambda>m. m\<lparr>m_backpressurePauses := m_backpressurePauses m + 1, m_lastError := Some ''browser_backpressure''\<rparr>))
          (andThen (setting scheduleDrain) drainEnds) s
      else
        (case sch_next (cn_scheduler s) of
           (sc, None) \<Rightarrow> drainEnds (s\<lparr>cn_scheduler := sc\<rparr>)
         | (sc, Some packet) \<Rightarrow>
             let s1 = s\<lparr>cn_scheduler := sc\<rparr> in
             if qp_lane packet = Voice \<and> buffered s1 > VOICE_BROWSER_BUFFER_LIMIT_BYTES then
               let (s2, es) = andThen (recordVoiceDrop BrowserBackpressure 1) updateQueueMetrics s1;
                   (s3, es') = drainLoop s2
               in (s3, es @ es')
             else
               let (s2, es) = andThen (sendPacket packet) updateQueueMetrics s1 in
               if buffered s2 > resumeBufferedAmountBytes (outbox (cn_profile s2)) then
                 let (s3, es') = andThen (setting scheduleDrain) drainEnds s2 in (s3, es @ es')
               else (s2\<lparr>cn_yielded := True\<rparr>, es)))"
  by pat_completeness auto
termination
proof (relation "measure queuedCount", goal_cases)
  case (2 s)
  then show ?case by (auto simp: queuedCount_def dest!: voiceDrop_scheduler dest: sch_next_count [OF sym])
qed simp

declare drainLoop.simps [simp del]

definition drain :: conn_action where
  "drain s =
     (if cn_draining s \<or> \<not> isOpen s then (s, [])
      else drainLoop ((clearDrainTimer s)\<lparr>cn_draining := True\<rparr>))"

text \<open>The timer of the await fires.\<close>

definition drainResumes :: conn_action where
  "drainResumes s = (if cn_yielded s then drainLoop (s\<lparr>cn_yielded := False\<rparr>) else (s, []))"

definition drainFires :: conn_action where
  "drainFires s = (if cn_drainTimer s then drain (s\<lparr>cn_drainTimer := False\<rparr>) else (s, []))"

definition cn_send :: "Envelope \<Rightarrow> WebSocketConnection \<Rightarrow> WebSocketConnection \<times> ConnEffect list \<times> bool" where
  "cn_send env s =
     (if env_lane env = Voice \<and> \<not> isOpen s then
        let (s1, es) = andThen (updMetrics (\<lambda>m. m\<lparr>m_lastError := Some ''voice_transport_unavailable''\<rparr>))
              (recordVoiceDrop BrowserBackpressure 1) s in (s1, es, False)
      else if env_lane env = Voice \<and> buffered s > VOICE_BROWSER_BUFFER_LIMIT_BYTES then
        let (s1, es) = andThen (updMetrics (\<lambda>m. m\<lparr>m_lastError := Some ''voice_browser_backpressure''\<rparr>))
              (recordVoiceDrop BrowserBackpressure 1) s in (s1, es, False)
      else
        (case packEnvelope env (cn_profile s) of
           Inl err \<Rightarrow> let (s1, es) = setError err s in (s1, es, False)
         | Inr bytes \<Rightarrow>
             let (sc, result) = enqueue \<lparr>qp_lane = env_lane env, qp_bytes = bytes\<rparr> (cn_scheduler s);
                 s1 = s\<lparr>cn_scheduler := sc\<rparr>;
                 s2 = (if er_dropped result > 0 \<and> env_lane env = Voice then
                         s1\<lparr>cn_metrics := (cn_metrics s1)\<lparr>m_droppedVoiceFrames := m_droppedVoiceFrames (cn_metrics s1) + er_dropped result\<rparr>\<rparr>
                       else s1)
             in if \<not> er_ok result then
                  let (s3, es) = andThen (updMetrics (\<lambda>m. m\<lparr>m_lastError :=
                        Some (case er_reason result of None \<Rightarrow> ''enqueue_failed'' | Some r \<Rightarrow> r)\<rparr>)) emitMetrics s2
                  in (s3, es, False)
                else let (s3, es) = andThen updateQueueMetrics drain s2 in (s3, es, True)))"

section \<open>Opening and closing\<close>

definition clearQueuedPackets :: conn_action where
  "clearQueuedPackets =
     andThen (setting (\<lambda>s. (clearDrainTimer s)\<lparr>cn_scheduler := sch_clear (cn_scheduler s)\<rparr>)) updateQueueMetrics"

definition cn_setProfile :: "TransportProfile \<Rightarrow> conn_action" where
  "cn_setProfile p =
     andThen (setting (\<lambda>s. s\<lparr>cn_profile := p, cn_scheduler := sch_setProfile p (cn_scheduler s)\<rparr>)) (andThen updateQueueMetrics drain)"

definition reconnectDelay :: "rat \<Rightarrow> WebSocketConnection \<Rightarrow> rat" where
  "reconnectDelay rnd s =
     (let r = reconnect (cn_profile s) in
      of_nat (min (baseDelayMs r * 2 ^ cn_reconnectAttempts s) (maxDelayMs r)) + rnd * of_nat (jitterMs r))"

definition scheduleReconnect :: "rat \<Rightarrow> conn_action" where
  "scheduleReconnect rnd s =
     (if cn_intentionalClose s then (s, [])
      else if cn_reconnectAttempts s \<ge> maxAttempts (reconnect (cn_profile s)) then
        andThen (setStatus ConnFailed)
          (andThen (updMetrics (\<lambda>m. m\<lparr>m_lastError := Some ''reconnect_exhausted''\<rparr>)) emitMetrics) s
      else
        let delay = reconnectDelay rnd s in
        andThen (setting (\<lambda>s. s\<lparr>cn_reconnectAttempts := cn_reconnectAttempts s + 1\<rparr>))
          (andThen (updMetrics (\<lambda>m. m\<lparr>m_reconnects := m_reconnects m + 1\<rparr>))
            (andThen (setStatus Reconnecting)
              (andThen emitMetrics
                (setting (\<lambda>s. s\<lparr>cn_reconnects := map_set (cn_nextTimer s) delay (cn_reconnects s),
                   cn_reconnectTimer := Some (cn_nextTimer s), cn_nextTimer := cn_nextTimer s + 1\<rparr>))))) s)"

text \<open>What becomes of a promise of \<^verbatim>\<open>open\<close> that is rejected: \<^verbatim>\<open>connect\<close> throws, the reconnect timer catches and schedules again.\<close>

definition openRejected :: "bool \<Rightarrow> string \<Rightarrow> rat \<Rightarrow> conn_action" where
  "openRejected reconnecting msg rnd = (if reconnecting then scheduleReconnect rnd else (\<lambda>s. (s, [EvConnectFailed msg])))"

text \<open>\<open>failure\<close> is the message of what \<^verbatim>\<open>new WebSocket\<close> throws, if it throws.\<close>

definition openConnection :: "bool \<Rightarrow> string option \<Rightarrow> rat \<Rightarrow> conn_action" where
  "openConnection reconnecting failure rnd =
     andThen (setting (\<lambda>s. s\<lparr>cn_epoch := cn_epoch s + 1\<rparr>))
       (andThen closeSocket
         (andThen (setStatus (if reconnecting then Reconnecting else Connecting))
           (case failure of
              Some msg \<Rightarrow> openRejected reconnecting msg rnd
            | None \<Rightarrow> (\<lambda>s.
                (s\<lparr>cn_ws := Some (cn_nextSocket s), cn_nextSocket := cn_nextSocket s + 1,
                   cn_sockets := (cn_sockets s)(cn_nextSocket s :=
                     \<lparr>sk_epoch = cn_epoch s, sk_reconnecting = reconnecting, sk_opened = False, sk_settled = False,
                      sk_ready = WsConnecting, sk_buffered = 0\<rparr>)\<rparr>,
                 [EvDial (cn_code s) (SLOT_PROTOCOL_PREFIX @ cn_slotToken s)])))))"

definition cn_connect :: "string \<Rightarrow> string \<Rightarrow> string option \<Rightarrow> conn_action" where
  "cn_connect code token failure =
     andThen (setting (\<lambda>s. let (storage, t) = getOrCreateSlotToken code token (cn_storage s) in
         s\<lparr>cn_code := code, cn_storage := storage, cn_slotToken := t, cn_intentionalClose := False, cn_reconnectAttempts := 0\<rparr>))
       (openConnection False failure 0)"

definition cn_disconnect :: "bool \<Rightarrow> conn_action" where
  "cn_disconnect forgetSlot =
     andThen (setting (\<lambda>s. clearReconnectTimer (s\<lparr>cn_intentionalClose := True\<rparr>)))
       (andThen clearQueuedPackets
         (andThen closeSocket
           (andThen (setting (if forgetSlot then forgetSlotToken else id))
             (andThen (setStatus Disconnected) updateQueueMetrics))))"

definition endSession :: "WebSocketConnection \<Rightarrow> WebSocketConnection \<times> ConnEffect list \<times> bool" where
  "endSession s =
     (let s1 = forgetSlotToken s in
      case cn_ws s of
        None \<Rightarrow> (s1, [], False)
      | Some k \<Rightarrow>
          if sk_ready (cn_sockets s k) \<noteq> WsOpen then (s1, [], False)
          else (updSocket k (\<lambda>sk. sk\<lparr>sk_buffered := sk_buffered sk + length encodeSessionEndCommand\<rparr>) s1,
                [EvCommand k encodeSessionEndCommand], True))"

section \<open>Socket and timer events\<close>

text \<open>
  A socket opens once, while it is connecting and \<^verbatim>\<open>close\<close> has not been called on it; it receives only while it is open; its
  close event comes once. \<open>WsClosing\<close> is every state from which only the close event is to come, \<open>WsClosed\<close> the one after it.
\<close>

definition resolveOnce :: "nat \<Rightarrow> conn_action" where
  "resolveOnce k s =
     (if sk_settled (cn_sockets s k) then (s, [])
      else (updSocket k (\<lambda>sk. sk\<lparr>sk_settled := True\<rparr>) s, if sk_reconnecting (cn_sockets s k) then [] else [EvConnected]))"

definition rejectOnce :: "nat \<Rightarrow> string \<Rightarrow> rat \<Rightarrow> conn_action" where
  "rejectOnce k msg rnd s =
     (if sk_settled (cn_sockets s k) then (s, [])
      else openRejected (sk_reconnecting (cn_sockets s k)) msg rnd (updSocket k (\<lambda>sk. sk\<lparr>sk_settled := True\<rparr>) s))"

definition onOpen :: "nat \<Rightarrow> conn_action" where
  "onOpen k s =
     (if sk_ready (cn_sockets s k) \<noteq> WsConnecting then (s, [])
      else
        let s1 = updSocket k (\<lambda>sk. sk\<lparr>sk_ready := WsOpen\<rparr>) s in
        if cn_epoch s1 \<noteq> sk_epoch (cn_sockets s1 k) then (s1, [])
        else andThen (setting (\<lambda>s. (updSocket k (\<lambda>sk. sk\<lparr>sk_opened := True\<rparr>) s)\<lparr>cn_reconnectAttempts := 0\<rparr>))
               (andThen (setStatus Connected) (andThen drain (resolveOnce k))) s1)"

definition onError :: "nat \<Rightarrow> rat \<Rightarrow> conn_action" where
  "onError k rnd s =
     (if sk_ready (cn_sockets s k) = WsClosed then (s, [])
      else
        let s1 = updSocket k (\<lambda>sk. sk\<lparr>sk_ready := WsClosing\<rparr>) s in
        if \<not> sk_opened (cn_sockets s1 k) \<and> cn_epoch s1 = sk_epoch (cn_sockets s1 k)
        then rejectOnce k ''WebSocket connection failed'' rnd s1 else (s1, []))"

definition onClose :: "nat \<Rightarrow> nat \<Rightarrow> string \<Rightarrow> rat \<Rightarrow> conn_action" where
  "onClose k code reason rnd s =
     (if sk_ready (cn_sockets s k) = WsClosed then (s, [])
      else
        let s1 = updSocket k (\<lambda>sk. sk\<lparr>sk_ready := WsClosed\<rparr>) s in
        if cn_epoch s1 \<noteq> sk_epoch (cn_sockets s1 k) then (s1, [])
        else
          let s2 = (if cn_ws s1 = Some k then s1\<lparr>cn_ws := None\<rparr> else s1) in
          if \<not> sk_opened (cn_sockets s2 k) then
            rejectOnce k (if reason = '''' then ''WebSocket connection closed before opening'' else reason) rnd s2
          else if code = 4000 \<or> reason = ''session ended'' then
            andThen (setting (\<lambda>s. s\<lparr>cn_intentionalClose := True\<rparr>))
              (andThen clearQueuedPackets (andThen (emitRelay SessionEnded) (setStatus Disconnected))) s2
          else if cn_intentionalClose s2 then setStatus Disconnected s2
          else andThen clearQueuedPackets (scheduleReconnect rnd) s2)"

text \<open>\<open>data\<close> is none for a message that is not an \<^verbatim>\<open>ArrayBuffer\<close>.\<close>

definition onMessage :: "nat \<Rightarrow> bytes option \<Rightarrow> conn_action" where
  "onMessage k data s =
     (if sk_ready (cn_sockets s k) \<noteq> WsOpen \<or> cn_epoch s \<noteq> sk_epoch (cn_sockets s k) then (s, [])
      else case data of None \<Rightarrow> (s, [])
      | Some bs \<Rightarrow>
          (case decodeRelayEvent bs of
             Some e \<Rightarrow> emitRelay e (if e = SessionEnded then s\<lparr>cn_intentionalClose := True\<rparr> else s)
           | None \<Rightarrow>
               (case unpackEnvelope bs (cn_profile s) of
                  Inl err \<Rightarrow> setError err s
                | Inr env \<Rightarrow> (s, [EvEnvelope env]))))"

definition reconnectFires :: "nat \<Rightarrow> string option \<Rightarrow> rat \<Rightarrow> conn_action" where
  "reconnectFires tid failure rnd s =
     (if \<not> map_has (cn_reconnects s) tid then (s, [])
      else
        let s1 = s\<lparr>cn_reconnects := map_delete tid (cn_reconnects s)\<rparr> in
        if cn_intentionalClose s1 then (s1, []) else openConnection True failure rnd s1)"

text \<open>The browser hands bytes of the buffer to the network, or the other side starts to close.\<close>

definition flushed :: "nat \<Rightarrow> nat \<Rightarrow> WebSocketConnection \<Rightarrow> WebSocketConnection" where
  "flushed k n = updSocket k (\<lambda>sk. sk\<lparr>sk_buffered := sk_buffered sk - n\<rparr>)"

definition closing :: "nat \<Rightarrow> WebSocketConnection \<Rightarrow> WebSocketConnection" where
  "closing k = updSocket k (\<lambda>sk. if sk_ready sk = WsOpen then sk\<lparr>sk_ready := WsClosing\<rparr> else sk)"

section \<open>Runs\<close>

datatype ConnOp =
    CSend Envelope
  | CConnect string string "string option"
  | CDisconnect bool
  | CEndSession
  | CClearQueued
  | CSetProfile TransportProfile
  | CVoiceDrop VoiceDropMetric nat
  | CVoiceQueue nat
  | COpened nat
  | CErrored nat rat
  | CClosed nat nat string rat
  | CMessage nat "bytes option"
  | CReconnect nat "string option" rat
  | CYielded
  | CDrainTimer
  | CFlushed nat nat
  | CClosing nat

text \<open>The third component is the packets that \<^verbatim>\<open>send\<close> said it accepted.\<close>

definition silently :: "conn_action \<Rightarrow> WebSocketConnection \<Rightarrow> WebSocketConnection \<times> ConnEffect list \<times> QueuedPacket list" where
  "silently f s = (let (s', es) = f s in (s', es, []))"

definition acceptedPacket :: "Envelope \<Rightarrow> TransportProfile \<Rightarrow> QueuedPacket list" where
  "acceptedPacket env p = (case packEnvelope env p of Inl _ \<Rightarrow> [] | Inr bs \<Rightarrow> [\<lparr>qp_lane = env_lane env, qp_bytes = bs\<rparr>])"

fun conn_step :: "ConnOp \<Rightarrow> WebSocketConnection \<Rightarrow> WebSocketConnection \<times> ConnEffect list \<times> QueuedPacket list" where
  "conn_step (CSend env) s =
     (let (s', es, ok) = cn_send env s in (s', es, if ok then acceptedPacket env (cn_profile s) else []))"
| "conn_step (CConnect code token failure) s = silently (cn_connect code token failure) s"
| "conn_step (CDisconnect forget) s = silently (cn_disconnect forget) s"
| "conn_step CEndSession s = (let (s', es, _) = endSession s in (s', es, []))"
| "conn_step CClearQueued s = silently clearQueuedPackets s"
| "conn_step (CSetProfile p) s = silently (cn_setProfile p) s"
| "conn_step (CVoiceDrop r n) s = silently (recordVoiceDrop r n) s"
| "conn_step (CVoiceQueue n) s = silently (recordVoiceQueueSize n) s"
| "conn_step (COpened k) s = silently (onOpen k) s"
| "conn_step (CErrored k rnd) s = silently (onError k rnd) s"
| "conn_step (CClosed k code reason rnd) s = silently (onClose k code reason rnd) s"
| "conn_step (CMessage k data) s = silently (onMessage k data) s"
| "conn_step (CReconnect tid failure rnd) s = silently (reconnectFires tid failure rnd) s"
| "conn_step CYielded s = silently drainResumes s"
| "conn_step CDrainTimer s = silently drainFires s"
| "conn_step (CFlushed k n) s = (flushed k n s, [], [])"
| "conn_step (CClosing k) s = (closing k s, [], [])"

fun conn_run :: "ConnOp list \<Rightarrow> WebSocketConnection \<Rightarrow> WebSocketConnection \<times> ConnEffect list \<times> QueuedPacket list" where
  "conn_run [] s = (s, [], [])"
| "conn_run (op # ops) s =
     (let (s1, es, ps) = conn_step op s; (s2, es', ps') = conn_run ops s1 in (s2, es @ es', ps @ ps'))"

end
