(* ===== verification/ConnectionRuns.thy ===== *)
theory ConnectionRuns
  imports Connection
begin

text \<open>
  What every handler of the connection keeps: one live socket, honest status, exact queue accounting, and a queue that is never
  left unattended while the socket is open. The loop of \<^verbatim>\<open>drain\<close> is reasoned about with one rule (\<open>drainLoop_rule\<close>), the other
  handlers are straight-line code.
\<close>

section \<open>Straight-line code\<close>

fun sentPackets :: "ConnEffect list \<Rightarrow> QueuedPacket list" where
  "sentPackets [] = []"
| "sentPackets (EvSend k p # es) = p # sentPackets es"
| "sentPackets (_ # es) = sentPackets es"

lemma sentPackets_append [simp]: "sentPackets (es @ es') = sentPackets es @ sentPackets es'"
  by (induction es rule: sentPackets.induct) auto

lemma fst_andThen: "fst (andThen f g s) = fst (g (fst (f s)))"
  by (simp add: andThen_def split_def Let_def)

lemma snd_andThen: "snd (andThen f g s) = snd (f s) @ snd (g (fst (f s)))"
  by (simp add: andThen_def split_def Let_def)

lemma setStatus_eq: "setStatus st s = (s\<lparr>cn_status := st\<rparr>, if cn_status s = st then [] else [EvStatus st])"
  by (simp add: setStatus_def)

lemma recordVoiceDrop_eq:
  "\<exists>m es. recordVoiceDrop r n s = (s\<lparr>cn_metrics := m\<rparr>, es) \<and> sentPackets es = []"
  by (cases "n = 0")
    (auto simp: recordVoiceDrop_def doNothing_def andThen_def updMetrics_def emitMetrics_def intro: exI [of _ "cn_metrics s"])

lemma sendPacket_eq:
  assumes "cn_ws s = Some k"
  shows "\<exists>m. sendPacket p s =
    (s\<lparr>cn_sockets := (cn_sockets s)(k := (cn_sockets s k)\<lparr>sk_buffered := sk_buffered (cn_sockets s k) + length (qp_bytes p)\<rparr>), cn_metrics := m\<rparr>,
     [EvSend k p])"
  using assms by (cases s) (auto simp: sendPacket_def updSocket_def)

lemmas line_defs = andThen_def setting_def updMetrics_def emitMetrics_def setStatus_eq updateQueueMetrics_def emitRelay_def
  setError_def drainEnds_def clearDrainTimer_def scheduleDrain_def clearQueuedPackets_def Let_def split_def

section \<open>The loop of drain\<close>

lemma drainLoop_rule [case_names stop drop send]:
  assumes stop: "\<And>s m t es. sentPackets es = [] \<Longrightarrow>
      (isOpen s \<Longrightarrow> t \<or> (\<forall>l. waiting (cn_scheduler s) l = [])) \<Longrightarrow>
      P s (s\<lparr>cn_metrics := m, cn_drainTimer := t, cn_draining := False\<rparr>) es"
    and drop: "\<And>s sc p m es s' es'. sch_next (cn_scheduler s) = (sc, Some p) \<Longrightarrow> qp_lane p = Voice \<Longrightarrow> sentPackets es = [] \<Longrightarrow>
      P (s\<lparr>cn_scheduler := sc, cn_metrics := m\<rparr>) s' es' \<Longrightarrow> P s s' (es @ es')"
    and send: "\<And>s sc k p m t d y n es. cn_ws s = Some k \<Longrightarrow> sk_ready (cn_sockets s k) = WsOpen \<Longrightarrow>
      sch_next (cn_scheduler s) = (sc, Some p) \<Longrightarrow> sentPackets es = [] \<Longrightarrow>
      t \<and> \<not> d \<and> y = cn_yielded s \<or> y \<and> d = cn_draining s \<Longrightarrow>
      P s (s\<lparr>cn_scheduler := sc, cn_sockets := (cn_sockets s)(k := (cn_sockets s k)\<lparr>sk_buffered := n\<rparr>), cn_metrics := m,
              cn_drainTimer := t, cn_draining := d, cn_yielded := y\<rparr>) (EvSend k p # es)"
  shows "P s (fst (drainLoop s)) (snd (drainLoop s))"
proof (induction s rule: drainLoop.induct)
  case (1 s)
  show ?case
  proof (cases "isOpen s \<and> buffered s \<le> maxBufferedAmountBytes (outbox (cn_profile s))")
    case False
    then show ?thesis
      using stop [where s = s and t = True] stop [where s = s and t = "cn_drainTimer s" and m = "cn_metrics s"]
      by (subst (1 2) drainLoop.simps) (auto simp: line_defs)
  next
    case open_: True
    then obtain k where k: "cn_ws s = Some k" "sk_ready (cn_sockets s k) = WsOpen" by (auto simp: isOpen_def split: option.splits)
    show ?thesis
    proof (cases rule: sch_next_cases [of "cn_scheduler s"])
      case empty
      then show ?thesis using open_ stop [where s = s and t = "cn_drainTimer s" and m = "cn_metrics s"] by (subst (1 2) drainLoop.simps) (simp add: line_defs)
    next
      case (packet lane p ps)
      then have n: "sch_next (cn_scheduler s) = (shiftLane lane (cn_scheduler s), Some p)" by simp
      let ?s1 = "s\<lparr>cn_scheduler := shiftLane lane (cn_scheduler s)\<rparr>"
      show ?thesis
      proof (cases "qp_lane p = Voice \<and> buffered ?s1 > VOICE_BROWSER_BUFFER_LIMIT_BYTES")
        case True
        obtain m es where r: "andThen (recordVoiceDrop BrowserBackpressure 1) updateQueueMetrics ?s1 = (?s1\<lparr>cn_metrics := m\<rparr>, es)"
            "sentPackets es = []"
          using recordVoiceDrop_eq [of BrowserBackpressure 1 ?s1] by (auto simp: line_defs)
        have "P (?s1\<lparr>cn_metrics := m\<rparr>) (fst (drainLoop (?s1\<lparr>cn_metrics := m\<rparr>))) (snd (drainLoop (?s1\<lparr>cn_metrics := m\<rparr>)))"
          using "1.IH" [OF _ _ n [symmetric] refl refl True r(1) [symmetric] refl] open_ by auto
        then show ?thesis using drop [OF n _ r(2)] True r(1) open_ n by (subst (1 2) drainLoop.simps) (simp add: split_def Let_def)
      next
        case False
        let ?sk = "(cn_sockets s)(k := (cn_sockets s k)\<lparr>sk_buffered := sk_buffered (cn_sockets s k) + length (qp_bytes p)\<rparr>)"
        obtain m es where r: "andThen (sendPacket p) updateQueueMetrics ?s1 =
              (?s1\<lparr>cn_sockets := ?sk, cn_metrics := m\<rparr>, EvSend k p # es)" "sentPackets es = []"
          using sendPacket_eq [of ?s1 k p] k by (auto simp: line_defs)
        note send1 = send [OF k n, where n = "sk_buffered (cn_sockets s k) + length (qp_bytes p)" and m = m]
        have pause: "P s (?s1\<lparr>cn_sockets := ?sk, cn_metrics := m, cn_drainTimer := True, cn_draining := False\<rparr>) (EvSend k p # es @ [EvMetrics m])"
          using send1 [where t = True and d = False and y = "cn_yielded s" and es = "es @ [EvMetrics m]"] r(2) by simp
        have go: "P s (?s1\<lparr>cn_sockets := ?sk, cn_metrics := m, cn_yielded := True\<rparr>) (EvSend k p # es)"
          using send1 [where t = "cn_drainTimer s" and d = "cn_draining s" and y = True and es = es] r(2) by simp
        show ?thesis
          using False open_ pause go
          by (subst (1 2) drainLoop.simps) (auto simp: n r(1) Let_def drainEnds_def scheduleDrain_def andThen_def [of "setting _"] setting_def emitMetrics_def)
      qed
    qed
  qed
qed

section \<open>The invariant of the connection\<close>

fun live :: "ReadyState \<Rightarrow> bool" where
  "live WsConnecting = True"
| "live WsOpen = True"
| "live _ = False"

text \<open>Of the current socket \<open>ws\<close>, the epoch and the number of sockets, for the socket number \<open>k\<close>.\<close>

definition socket_ok :: "nat option \<Rightarrow> nat \<Rightarrow> nat \<Rightarrow> nat \<Rightarrow> Socket \<Rightarrow> bool" where
  "socket_ok ws ep n k sk =
     ((live (sk_ready sk) \<longrightarrow> ws = Some k) \<and>
      (sk_ready sk = WsOpen \<longrightarrow> sk_opened sk) \<and>
      (n \<le> k \<longrightarrow> sk_ready sk = WsClosed \<and> ws \<noteq> Some k) \<and>
      sk_epoch sk \<le> ep \<and>
      (ws = Some k \<longrightarrow> sk_epoch sk = ep \<and> sk_ready sk \<noteq> WsClosed) \<and>
      (k < n \<and> sk_epoch sk = ep \<longrightarrow> ws = None \<or> ws = Some k))"

definition sockets_ok :: "WebSocketConnection \<Rightarrow> bool" where
  "sockets_ok s = (\<forall>k. socket_ok (cn_ws s) (cn_epoch s) (cn_nextSocket s) k (cn_sockets s k))"

definition status_ok :: "WebSocketConnection \<Rightarrow> bool" where
  "status_ok s = (cn_status s = Connected \<longleftrightarrow> (\<exists>k. cn_ws s = Some k \<and> sk_opened (cn_sockets s k)))"

text \<open>While the socket is open, a waiting packet has a running loop or a timer that will look at it.\<close>

definition attended :: "WebSocketConnection \<Rightarrow> bool" where
  "attended s = (isOpen s \<and> (\<exists>l. waiting (cn_scheduler s) l \<noteq> []) \<longrightarrow> cn_draining s \<or> cn_drainTimer s)"

definition conn_inv :: "WebSocketConnection \<Rightarrow> bool" where
  "conn_inv s = (accounting (cn_scheduler s) \<and> cn_draining s = cn_yielded s \<and> sockets_ok s \<and> status_ok s \<and> attended s)"

lemma conn_inv_new: "conn_inv (newConnection p storage)"
  by (simp add: conn_inv_def newConnection_def accounting_new sockets_ok_def socket_ok_def status_ok_def attended_def isOpen_def)

text \<open>What the parts of the invariant read.\<close>

lemma sockets_ok_upd [simp]:
  "sockets_ok (s\<lparr>cn_metrics := m\<rparr>) = sockets_ok s"
  "sockets_ok (s\<lparr>cn_scheduler := sc\<rparr>) = sockets_ok s"
  "sockets_ok (s\<lparr>cn_profile := p\<rparr>) = sockets_ok s"
  "sockets_ok (s\<lparr>cn_drainTimer := t\<rparr>) = sockets_ok s"
  "sockets_ok (s\<lparr>cn_draining := d\<rparr>) = sockets_ok s"
  "sockets_ok (s\<lparr>cn_yielded := y\<rparr>) = sockets_ok s"
  "sockets_ok (s\<lparr>cn_intentionalClose := c\<rparr>) = sockets_ok s"
  "sockets_ok (s\<lparr>cn_reconnectAttempts := n\<rparr>) = sockets_ok s"
  "sockets_ok (s\<lparr>cn_reconnectTimer := r\<rparr>) = sockets_ok s"
  "sockets_ok (s\<lparr>cn_reconnects := rs\<rparr>) = sockets_ok s"
  "sockets_ok (s\<lparr>cn_nextTimer := i\<rparr>) = sockets_ok s"
  "sockets_ok (s\<lparr>cn_code := co\<rparr>) = sockets_ok s"
  "sockets_ok (s\<lparr>cn_slotToken := st\<rparr>) = sockets_ok s"
  "sockets_ok (s\<lparr>cn_storage := sto\<rparr>) = sockets_ok s"
  "sockets_ok (s\<lparr>cn_status := sts\<rparr>) = sockets_ok s"
  by (simp_all add: sockets_ok_def)

lemma status_ok_upd [simp]:
  "status_ok (s\<lparr>cn_metrics := m\<rparr>) = status_ok s"
  "status_ok (s\<lparr>cn_scheduler := sc\<rparr>) = status_ok s"
  "status_ok (s\<lparr>cn_profile := p\<rparr>) = status_ok s"
  "status_ok (s\<lparr>cn_drainTimer := t\<rparr>) = status_ok s"
  "status_ok (s\<lparr>cn_draining := d\<rparr>) = status_ok s"
  "status_ok (s\<lparr>cn_yielded := y\<rparr>) = status_ok s"
  "status_ok (s\<lparr>cn_intentionalClose := c\<rparr>) = status_ok s"
  "status_ok (s\<lparr>cn_reconnectAttempts := n\<rparr>) = status_ok s"
  "status_ok (s\<lparr>cn_reconnectTimer := r\<rparr>) = status_ok s"
  "status_ok (s\<lparr>cn_reconnects := rs\<rparr>) = status_ok s"
  "status_ok (s\<lparr>cn_nextTimer := i\<rparr>) = status_ok s"
  "status_ok (s\<lparr>cn_code := co\<rparr>) = status_ok s"
  "status_ok (s\<lparr>cn_slotToken := st\<rparr>) = status_ok s"
  "status_ok (s\<lparr>cn_storage := sto\<rparr>) = status_ok s"
  "status_ok (s\<lparr>cn_nextSocket := nx\<rparr>) = status_ok s"
  "status_ok (s\<lparr>cn_epoch := ep\<rparr>) = status_ok s"
  by (simp_all add: status_ok_def)

lemma isOpen_upd [simp]:
  "isOpen (s\<lparr>cn_metrics := m\<rparr>) = isOpen s"
  "isOpen (s\<lparr>cn_scheduler := sc\<rparr>) = isOpen s"
  "isOpen (s\<lparr>cn_profile := p\<rparr>) = isOpen s"
  "isOpen (s\<lparr>cn_drainTimer := t\<rparr>) = isOpen s"
  "isOpen (s\<lparr>cn_draining := d\<rparr>) = isOpen s"
  "isOpen (s\<lparr>cn_yielded := y\<rparr>) = isOpen s"
  "isOpen (s\<lparr>cn_intentionalClose := c\<rparr>) = isOpen s"
  "isOpen (s\<lparr>cn_reconnectAttempts := n\<rparr>) = isOpen s"
  "isOpen (s\<lparr>cn_reconnectTimer := r\<rparr>) = isOpen s"
  "isOpen (s\<lparr>cn_reconnects := rs\<rparr>) = isOpen s"
  "isOpen (s\<lparr>cn_nextTimer := i\<rparr>) = isOpen s"
  "isOpen (s\<lparr>cn_code := co\<rparr>) = isOpen s"
  "isOpen (s\<lparr>cn_slotToken := st\<rparr>) = isOpen s"
  "isOpen (s\<lparr>cn_storage := sto\<rparr>) = isOpen s"
  "isOpen (s\<lparr>cn_nextSocket := nx\<rparr>) = isOpen s"
  "isOpen (s\<lparr>cn_epoch := ep\<rparr>) = isOpen s"
  "isOpen (s\<lparr>cn_status := sts\<rparr>) = isOpen s"
  by (simp_all add: isOpen_def split: option.splits)

lemma socket_ok_buffer [simp]: "socket_ok ws ep n k (sk\<lparr>sk_buffered := x\<rparr>) = socket_ok ws ep n k sk"
  by (simp add: socket_ok_def)

lemma waiting_clear [simp]: "waiting (sch_clear sc) l = []"
  by (cases l) (simp_all add: sch_clear_def LANES_def clearLane_def emptyLane_def)

lemma accounting_setProfile [simp]: "accounting (sch_setProfile p sc) = accounting sc"
  by (simp add: accounting_def lane_counts_def sch_setProfile_def)

lemma accounting_next_Some: "accounting sc \<Longrightarrow> sch_next sc = (sc', r) \<Longrightarrow> accounting sc'"
  using accounting_next [of sc] by simp

section \<open>Draining keeps it\<close>

definition loop_inv :: "WebSocketConnection \<Rightarrow> bool" where
  "loop_inv s = (accounting (cn_scheduler s) \<and> cn_draining s \<and> \<not> cn_yielded s \<and> sockets_ok s \<and> status_ok s)"

lemma conn_inv_drainLoop:
  assumes "loop_inv s"
  shows "conn_inv (fst (drainLoop s))"
proof -
  have "loop_inv s \<longrightarrow> conn_inv (fst (drainLoop s))"
  proof (induction rule: drainLoop_rule [where P = "\<lambda>s s' es. loop_inv s \<longrightarrow> conn_inv s'" and s = s])
    case (stop s m t es)
    then show ?case by (auto simp: conn_inv_def loop_inv_def attended_def)
  next
    case (drop s sc p m es s' es')
    then show ?case by (auto simp: loop_inv_def dest: accounting_next_Some)
  next
    case (send s sc k p m t d y n es)
    then show ?case by (auto simp: conn_inv_def loop_inv_def attended_def sockets_ok_def status_ok_def accounting_next_Some)
  qed
  with assms show ?thesis by simp
qed

text \<open>\<^verbatim>\<open>drain\<close> needs the invariant without its last part and brings it about.\<close>

definition pre_inv :: "WebSocketConnection \<Rightarrow> bool" where
  "pre_inv s = (accounting (cn_scheduler s) \<and> cn_draining s = cn_yielded s \<and> sockets_ok s \<and> status_ok s)"

lemma conn_inv_iff: "conn_inv s \<longleftrightarrow> pre_inv s \<and> attended s"
  by (auto simp: conn_inv_def pre_inv_def)

lemma conn_inv_drain:
  assumes "pre_inv s"
  shows "conn_inv (fst (drain s))"
proof (cases "cn_draining s \<or> \<not> isOpen s")
  case True
  then show ?thesis using assms by (auto simp: drain_def conn_inv_iff attended_def)
next
  case False
  then have "loop_inv ((clearDrainTimer s)\<lparr>cn_draining := True\<rparr>)"
    using assms by (auto simp: pre_inv_def loop_inv_def clearDrainTimer_def)
  with False show ?thesis by (simp add: drain_def conn_inv_drainLoop)
qed

section \<open>The handlers keep it\<close>

lemma conn_inv_intro:
  assumes "pre_inv s" and "\<not> isOpen s \<or> (\<forall>l. waiting (cn_scheduler s) l = [])"
  shows "conn_inv s"
  using assms by (auto simp: conn_inv_iff attended_def)

lemma pre_inv_upd [simp]:
  "pre_inv (s\<lparr>cn_metrics := m\<rparr>) = pre_inv s"
  "pre_inv (s\<lparr>cn_profile := p\<rparr>) = pre_inv s"
  "pre_inv (s\<lparr>cn_drainTimer := t\<rparr>) = pre_inv s"
  "pre_inv (s\<lparr>cn_intentionalClose := c\<rparr>) = pre_inv s"
  "pre_inv (s\<lparr>cn_reconnectAttempts := n\<rparr>) = pre_inv s"
  "pre_inv (s\<lparr>cn_reconnectTimer := r\<rparr>) = pre_inv s"
  "pre_inv (s\<lparr>cn_reconnects := rs\<rparr>) = pre_inv s"
  "pre_inv (s\<lparr>cn_nextTimer := i\<rparr>) = pre_inv s"
  "pre_inv (s\<lparr>cn_code := co\<rparr>) = pre_inv s"
  "pre_inv (s\<lparr>cn_slotToken := st\<rparr>) = pre_inv s"
  "pre_inv (s\<lparr>cn_storage := sto\<rparr>) = pre_inv s"
  "accounting sc \<Longrightarrow> pre_inv (s\<lparr>cn_scheduler := sc\<rparr>) = (accounting sc \<and> cn_draining s = cn_yielded s \<and> sockets_ok s \<and> status_ok s)"
  by (simp_all add: pre_inv_def)

lemma attended_upd [simp]:
  "attended (s\<lparr>cn_metrics := m\<rparr>) = attended s"
  "attended (s\<lparr>cn_status := sts\<rparr>) = attended s"
  "attended (s\<lparr>cn_intentionalClose := c\<rparr>) = attended s"
  "attended (s\<lparr>cn_reconnectAttempts := n\<rparr>) = attended s"
  "attended (s\<lparr>cn_reconnectTimer := r\<rparr>) = attended s"
  "attended (s\<lparr>cn_reconnects := rs\<rparr>) = attended s"
  "attended (s\<lparr>cn_nextTimer := i\<rparr>) = attended s"
  "attended (s\<lparr>cn_code := co\<rparr>) = attended s"
  "attended (s\<lparr>cn_slotToken := st\<rparr>) = attended s"
  "attended (s\<lparr>cn_storage := sto\<rparr>) = attended s"
  by (simp_all add: attended_def)

lemma conn_inv_voiceDrop: "conn_inv s \<Longrightarrow> conn_inv (fst (recordVoiceDrop r n s))"
  using recordVoiceDrop_eq [of r n s] by (auto simp: conn_inv_iff)

lemma attended_mono:
  assumes "attended s" and "\<And>l. waiting (cn_scheduler s) l = [] \<Longrightarrow> waiting sc l = []"
  shows "attended (s\<lparr>cn_scheduler := sc\<rparr>)"
  using assms by (auto simp: attended_def)

lemma conn_inv_send:
  assumes "conn_inv s"
  shows "conn_inv (fst (cn_send env s))"
proof -
  have m: "conn_inv (s\<lparr>cn_metrics := m\<rparr>)" for m using assms by (simp add: conn_inv_iff)
  have refused: "conn_inv (fst (andThen (updMetrics f) (recordVoiceDrop BrowserBackpressure 1) s))" for f
    using conn_inv_voiceDrop [OF m] by (simp add: andThen_def updMetrics_def split_def Let_def)
  show ?thesis
  proof (cases "packEnvelope env (cn_profile s)")
    case (Inl err)
    then show ?thesis using refused m by (auto simp: cn_send_def split_def Let_def setError_def andThen_def updMetrics_def emitMetrics_def)
  next
    case (Inr bs)
    let ?p = "\<lparr>qp_lane = env_lane env, qp_bytes = bs\<rparr>"
    obtain sc r where e: "enqueue ?p (cn_scheduler s) = (sc, r)" by fastforce
    have acc: "accounting sc" using accounting_enqueue [of "cn_scheduler s" ?p] assms e by (simp add: conn_inv_def)
    have pre: "pre_inv (s\<lparr>cn_scheduler := sc, cn_metrics := m\<rparr>)" for m using assms acc by (simp add: conn_inv_def)
    have rej: "conn_inv (s\<lparr>cn_scheduler := sc, cn_metrics := m\<rparr>)" if "\<not> er_ok r" for m
    proof -
      have "waiting sc l = []" if "waiting (cn_scheduler s) l = []" for l
        using enqueue_waiting(1) [OF e] enqueue_waiting(2) [OF e, of l] that \<open>\<not> er_ok r\<close> by (cases "l = env_lane env") auto
      then show ?thesis using attended_mono [of s sc] assms pre by (simp add: conn_inv_iff)
    qed
    show ?thesis
    proof (cases "er_ok r")
      case True
      then show ?thesis
        using Inr e refused conn_inv_drain [OF pre] conn_inv_drain [OF pre [of "cn_metrics s"]]
        by (auto simp: cn_send_def line_defs)
    next
      case False
      then show ?thesis using Inr e refused rej by (auto simp: cn_send_def line_defs)
    qed
  qed
qed

text \<open>Closing the current socket leaves none that is live.\<close>

lemma sockets_okD: "sockets_ok s \<Longrightarrow> socket_ok (cn_ws s) (cn_epoch s) (cn_nextSocket s) k (cn_sockets s k)"
  by (simp add: sockets_ok_def)

definition closed_like :: "(nat \<Rightarrow> Socket) \<Rightarrow> (nat \<Rightarrow> Socket) \<Rightarrow> bool" where
  "closed_like g f =
     (\<forall>k. \<not> live (sk_ready (f k)) \<and> sk_epoch (f k) = sk_epoch (g k) \<and> (sk_ready (f k) = WsClosed) = (sk_ready (g k) = WsClosed))"

lemma closeSocket_eq:
  assumes "sockets_ok (s\<lparr>cn_epoch := e\<rparr>)"
  shows "\<exists>f es. closeSocket s = (s\<lparr>cn_sockets := f, cn_ws := None\<rparr>, es) \<and> sentPackets es = [] \<and> closed_like (cn_sockets s) f"
proof (cases "cn_ws s")
  case None
  then have "closeSocket s = (s\<lparr>cn_sockets := cn_sockets s, cn_ws := None\<rparr>, [])" by (cases s) (simp add: closeSocket_def)
  moreover have "\<not> live (sk_ready (cn_sockets s k))" for k using sockets_okD [OF assms, of k] None by (simp add: socket_ok_def)
  ultimately show ?thesis by (intro exI [of _ "cn_sockets s"] exI [of _ "[]"]) (simp add: closed_like_def)
next
  case (Some k)
  let ?f = "(cn_sockets s)(k := (cn_sockets s k)\<lparr>sk_ready := WsClosing\<rparr>)"
  have r: "sk_ready (cn_sockets s k) \<noteq> WsClosed" using sockets_okD [OF assms, of k] Some by (simp add: socket_ok_def)
  have "\<not> live (sk_ready (cn_sockets s k'))" if "k' \<noteq> k" for k' using sockets_okD [OF assms, of k'] Some that by (simp add: socket_ok_def)
  then show ?thesis using Some r by (intro exI [of _ ?f]) (simp add: closeSocket_def updSocket_def closed_like_def)
qed

lemma sockets_ok_closed:
  assumes "sockets_ok s" "cn_epoch s \<le> e"
    and "closed_like (cn_sockets s) f"
  shows "sockets_ok (s\<lparr>cn_epoch := e, cn_sockets := f, cn_ws := None\<rparr>)"
proof -
  have "socket_ok None e (cn_nextSocket s) k (f k)" for k
  proof -
    have "socket_ok (cn_ws s) (cn_epoch s) (cn_nextSocket s) k (cn_sockets s k)" using assms(1) by (rule sockets_okD)
    moreover have "sk_ready (f k) \<noteq> WsOpen" using assms(3) by (metis closed_like_def live.simps(2))
    ultimately show ?thesis using assms(2) assms(3) by (auto simp: socket_ok_def closed_like_def)
  qed
  then show ?thesis by (simp add: sockets_ok_def)
qed

lemma conn_inv_clear: "pre_inv s \<Longrightarrow> conn_inv (fst (clearQueuedPackets s))"
  by (rule conn_inv_intro) (simp_all add: line_defs accounting_clear pre_inv_def)

lemma conn_inv_disconnect:
  assumes "conn_inv s"
  shows "conn_inv (fst (cn_disconnect forget s))"
proof -
  have s: "sockets_ok s" "accounting (cn_scheduler s)" "cn_draining s = cn_yielded s" using assms by (simp_all add: conn_inv_def)
  let ?s1 = "fst (clearQueuedPackets (clearReconnectTimer (s\<lparr>cn_intentionalClose := True\<rparr>)))"
  have eq: "?s1 = ?s1\<lparr>cn_epoch := cn_epoch ?s1\<rparr>" by simp
  have s1: "sockets_ok ?s1" "accounting (cn_scheduler ?s1)" "cn_draining ?s1 = cn_yielded ?s1" "\<And>l. waiting (cn_scheduler ?s1) l = []"
    using s by (simp_all add: line_defs clearReconnectTimer_def accounting_clear split: option.splits)
  obtain f es where c: "closeSocket ?s1 = (?s1\<lparr>cn_sockets := f, cn_ws := None\<rparr>, es)"
      "closed_like (cn_sockets ?s1) f"
    using closeSocket_eq [where s = ?s1 and e = "cn_epoch ?s1"] s1(1) eq by auto
  have "sockets_ok (?s1\<lparr>cn_sockets := f, cn_ws := None\<rparr>)"
    using sockets_ok_closed [OF s1(1) order_refl c(2)] by simp
  then show ?thesis
    using s1 by (intro conn_inv_intro)
      (auto simp: cn_disconnect_def andThen_def setting_def split_def Let_def c(1) forgetSlotToken_def setStatus_eq pre_inv_def status_ok_def
        updateQueueMetrics_def updMetrics_def emitMetrics_def isOpen_def)
qed

text \<open>No current socket that has been open: the states in which the status may be anything but connected.\<close>

definition offline :: "WebSocketConnection \<Rightarrow> bool" where
  "offline s = (accounting (cn_scheduler s) \<and> cn_draining s = cn_yielded s \<and> sockets_ok s \<and> (\<forall>k. cn_ws s = Some k \<longrightarrow> \<not> sk_opened (cn_sockets s k)))"

lemma offline_not_open: "offline s \<Longrightarrow> \<not> isOpen s"
  by (auto simp: offline_def isOpen_def socket_ok_def dest: sockets_okD split: option.splits)

lemma conn_inv_offline: "offline s \<Longrightarrow> cn_status s \<noteq> Connected \<Longrightarrow> conn_inv s"
  using offline_not_open [of s] by (auto simp: conn_inv_def offline_def status_ok_def attended_def)

lemma offline_upd [simp]:
  "offline (s\<lparr>cn_metrics := m\<rparr>) = offline s"
  "offline (s\<lparr>cn_status := sts\<rparr>) = offline s"
  "offline (s\<lparr>cn_drainTimer := t\<rparr>) = offline s"
  "offline (s\<lparr>cn_intentionalClose := c\<rparr>) = offline s"
  "offline (s\<lparr>cn_reconnectAttempts := n\<rparr>) = offline s"
  "offline (s\<lparr>cn_reconnectTimer := r\<rparr>) = offline s"
  "offline (s\<lparr>cn_reconnects := rs\<rparr>) = offline s"
  "offline (s\<lparr>cn_nextTimer := i\<rparr>) = offline s"
  "offline s \<Longrightarrow> offline (s\<lparr>cn_scheduler := sch_clear (cn_scheduler s)\<rparr>)"
  by (auto simp: offline_def accounting_clear)

lemma offline_iff: "conn_inv s \<Longrightarrow> offline s \<longleftrightarrow> cn_status s \<noteq> Connected"
  by (auto simp: conn_inv_def offline_def status_ok_def)

lemma conn_inv_scheduleReconnect:
  assumes "offline s" "cn_intentionalClose s \<Longrightarrow> cn_status s \<noteq> Connected"
  shows "conn_inv (fst (scheduleReconnect rnd s))"
  using assms by (auto simp: scheduleReconnect_def line_defs intro!: conn_inv_offline)

lemma conn_inv_openRejected:
  assumes "offline s" "cn_status s \<noteq> Connected"
  shows "conn_inv (fst (openRejected reconnecting msg rnd s))"
  using assms by (simp add: openRejected_def conn_inv_scheduleReconnect conn_inv_offline)

lemma sockets_ok_dial:
  assumes "sockets_ok s" "cn_epoch s < e" "closed_like (cn_sockets s) f"
    and "sk_epoch sk = e" "sk_ready sk = WsConnecting"
  shows "sockets_ok (s\<lparr>cn_epoch := e, cn_sockets := f(cn_nextSocket s := sk), cn_ws := Some (cn_nextSocket s), cn_nextSocket := cn_nextSocket s + 1\<rparr>)"
proof -
  have "socket_ok (Some (cn_nextSocket s)) e (cn_nextSocket s + 1) k ((f(cn_nextSocket s := sk)) k)" for k
  proof (cases "k = cn_nextSocket s")
    case True
    then show ?thesis using assms(4,5) by (simp add: socket_ok_def)
  next
    case False
    moreover have "socket_ok (cn_ws s) (cn_epoch s) (cn_nextSocket s) k (cn_sockets s k)" using assms(1) by (rule sockets_okD)
    moreover have "sk_ready (f k) \<noteq> WsOpen" using assms(3) by (metis closed_like_def live.simps(2))
    ultimately show ?thesis using assms(2,3) by (auto simp: socket_ok_def closed_like_def)
  qed
  then show ?thesis by (simp add: sockets_ok_def)
qed

lemma conn_inv_open:
  assumes "conn_inv s"
  shows "conn_inv (fst (openConnection reconnecting failure rnd s))"
proof -
  let ?s1 = "s\<lparr>cn_epoch := cn_epoch s + 1\<rparr>"
  let ?st = "if reconnecting then Reconnecting else Connecting"
  have s: "sockets_ok s" "sockets_ok (?s1\<lparr>cn_epoch := cn_epoch s\<rparr>)" using assms by (simp_all add: conn_inv_def)
  obtain f es where c: "closeSocket ?s1 = (?s1\<lparr>cn_sockets := f, cn_ws := None\<rparr>, es)" "closed_like (cn_sockets s) f"
    using closeSocket_eq [OF s(2)] by auto
  note c' = openConnection_def andThen_def setting_def split_def Let_def setStatus_eq c(1) [simplified]
  show ?thesis
  proof (cases failure)
    case (Some msg)
    have "offline (?s1\<lparr>cn_sockets := f, cn_ws := None, cn_status := ?st\<rparr>)"
      using assms sockets_ok_closed [OF s(1) _ c(2), of "cn_epoch s + 1"] by (simp add: offline_def conn_inv_def)
    from conn_inv_openRejected [OF this] Some show ?thesis by (simp add: c')
  next
    case None
    let ?sk = "\<lparr>sk_epoch = cn_epoch s + 1, sk_reconnecting = reconnecting, sk_opened = False, sk_settled = False,
      sk_ready = WsConnecting, sk_buffered = 0\<rparr>"
    let ?s2 = "fst (openConnection reconnecting failure rnd s)"
    let ?t = "s\<lparr>cn_epoch := cn_epoch s + 1, cn_sockets := f(cn_nextSocket s := ?sk), cn_ws := Some (cn_nextSocket s), cn_nextSocket := cn_nextSocket s + 1\<rparr>"
    have "sockets_ok ?t" using sockets_ok_dial [OF s(1) _ c(2), of "cn_epoch s + 1" ?sk] by simp
    moreover have "sockets_ok ?s2 = sockets_ok ?t" using None by (simp add: sockets_ok_def c')
    ultimately have "offline ?s2" using assms None by (simp add: offline_def conn_inv_def c')
    moreover have "cn_status ?s2 \<noteq> Connected" using None by (simp add: c')
    ultimately show ?thesis by (rule conn_inv_offline)
  qed
qed

lemma conn_inv_connect:
  assumes "conn_inv s"
  shows "conn_inv (fst (cn_connect code token failure s))"
proof -
  let ?s = "fst (setting (\<lambda>s. let (storage, t) = getOrCreateSlotToken code token (cn_storage s) in
         s\<lparr>cn_code := code, cn_storage := storage, cn_slotToken := t, cn_intentionalClose := False, cn_reconnectAttempts := 0\<rparr>) s)"
  have "conn_inv ?s" using assms by (simp add: setting_def split_def Let_def conn_inv_iff)
  then show ?thesis using conn_inv_open [of ?s] by (simp add: cn_connect_def andThen_def split_def Let_def)
qed

text \<open>Of a socket the invariant reads the ready state, the epoch and whether it has been open.\<close>

lemma updSocket_same:
  assumes "sk_ready (f (cn_sockets s k)) = sk_ready (cn_sockets s k)" "sk_epoch (f (cn_sockets s k)) = sk_epoch (cn_sockets s k)"
    "sk_opened (f (cn_sockets s k)) = sk_opened (cn_sockets s k)"
  shows "sockets_ok (updSocket k f s) = sockets_ok s" "status_ok (updSocket k f s) = status_ok s" "isOpen (updSocket k f s) = isOpen s"
proof -
  have "socket_ok ws ep n k' ((cn_sockets (updSocket k f s)) k') = socket_ok ws ep n k' (cn_sockets s k')" for ws ep n k'
    using assms by (simp add: socket_ok_def updSocket_def)
  then show "sockets_ok (updSocket k f s) = sockets_ok s" by (simp add: sockets_ok_def) (simp add: updSocket_def)
  have "sk_opened (cn_sockets (updSocket k f s) k') = sk_opened (cn_sockets s k')"
       "sk_ready (cn_sockets (updSocket k f s) k') = sk_ready (cn_sockets s k')" for k'
    using assms by (simp_all add: updSocket_def)
  then show "status_ok (updSocket k f s) = status_ok s" "isOpen (updSocket k f s) = isOpen s"
    by (simp_all add: status_ok_def isOpen_def split: option.splits) (simp_all add: updSocket_def)
qed

lemma conn_inv_updSocket:
  assumes "sk_ready (f (cn_sockets s k)) = sk_ready (cn_sockets s k)" "sk_epoch (f (cn_sockets s k)) = sk_epoch (cn_sockets s k)"
    "sk_opened (f (cn_sockets s k)) = sk_opened (cn_sockets s k)"
  shows "conn_inv (updSocket k f s) = conn_inv s"
  using updSocket_same [of f s k, OF assms] by (simp add: conn_inv_def attended_def) (simp add: updSocket_def)

lemma offline_updSocket:
  assumes "sk_ready (f (cn_sockets s k)) = sk_ready (cn_sockets s k)" "sk_epoch (f (cn_sockets s k)) = sk_epoch (cn_sockets s k)"
    "sk_opened (f (cn_sockets s k)) = sk_opened (cn_sockets s k)"
  shows "offline (updSocket k f s) = offline s"
  using updSocket_same(1) [of f s k, OF assms] assms by (auto simp: offline_def) (auto simp: updSocket_def split: if_splits)

lemma conn_inv_onOpen:
  assumes "conn_inv s"
  shows "conn_inv (fst (onOpen k s))"
proof (cases "sk_ready (cn_sockets s k) = WsConnecting")
  case True
  have inv: "sockets_ok s" "accounting (cn_scheduler s)" "cn_draining s = cn_yielded s" using assms by (simp_all add: conn_inv_def)
  have k: "cn_ws s = Some k" "sk_epoch (cn_sockets s k) = cn_epoch s"
    using sockets_okD [OF inv(1), of k] True by (simp_all add: socket_ok_def)
  let ?s1 = "s\<lparr>cn_sockets := (cn_sockets s)(k := (cn_sockets s k)\<lparr>sk_ready := WsOpen, sk_opened := True\<rparr>),
      cn_reconnectAttempts := 0, cn_status := Connected\<rparr>"
  have "socket_ok (Some k) (cn_epoch s) (cn_nextSocket s) k' (cn_sockets ?s1 k')" for k'
    using sockets_okD [OF inv(1), of k'] k by (cases "k' = k") (simp_all add: socket_ok_def)
  then have "sockets_ok ?s1" using k by (simp add: sockets_ok_def)
  then have "conn_inv (fst (drain ?s1))" using inv k by (intro conn_inv_drain) (auto simp: pre_inv_def status_ok_def)
  then have "conn_inv (fst (resolveOnce k (fst (drain ?s1))))" by (simp add: resolveOnce_def conn_inv_updSocket)
  moreover have "fst (onOpen k s) = fst (resolveOnce k (fst (drain ?s1)))"
    using True k by (simp add: onOpen_def updSocket_def line_defs)
  ultimately show ?thesis by simp
qed (simp add: onOpen_def assms)

lemma conn_inv_rejectOnce:
  assumes "offline s" "cn_status s \<noteq> Connected"
  shows "conn_inv (fst (rejectOnce k msg rnd s))"
proof -
  have "offline (updSocket k (\<lambda>sk. sk\<lparr>sk_settled := True\<rparr>) s)" using assms(1) by (simp add: offline_updSocket)
  moreover have "cn_status (updSocket k (\<lambda>sk. sk\<lparr>sk_settled := True\<rparr>) s) \<noteq> Connected" using assms(2) by (simp add: updSocket_def)
  ultimately show ?thesis using assms by (simp add: rejectOnce_def conn_inv_openRejected conn_inv_offline)
qed

text \<open>A socket that fails or closes: what is left of it is not live, and it stays current only if it has not been removed.\<close>

lemma sockets_ok_fail:
  assumes "sockets_ok s" "sk_ready (cn_sockets s k) \<noteq> WsClosed" "\<not> live r" "r = WsClosed \<Longrightarrow> ws = None" "ws = cn_ws s \<or> ws = None \<and> cn_ws s = Some k"
  shows "sockets_ok (s\<lparr>cn_sockets := (cn_sockets s)(k := (cn_sockets s k)\<lparr>sk_ready := r\<rparr>), cn_ws := ws\<rparr>)"
proof -
  have "socket_ok ws (cn_epoch s) (cn_nextSocket s) k' (((cn_sockets s)(k := (cn_sockets s k)\<lparr>sk_ready := r\<rparr>)) k')" for k'
    using sockets_okD [OF assms(1), of k'] assms(2-) by (cases "k' = k"; cases r) (auto simp: socket_ok_def)
  then show ?thesis by (simp add: sockets_ok_def)
qed

lemma conn_inv_onError:
  assumes "conn_inv s"
  shows "conn_inv (fst (onError k rnd s))"
proof (cases "sk_ready (cn_sockets s k) = WsClosed")
  case False
  let ?s1 = "updSocket k (\<lambda>sk. sk\<lparr>sk_ready := WsClosing\<rparr>) s"
  have inv: "sockets_ok s" "accounting (cn_scheduler s)" "cn_draining s = cn_yielded s" "status_ok s" "attended s"
    using assms by (simp_all add: conn_inv_def)
  have so: "sockets_ok ?s1" using sockets_ok_fail [OF inv(1) False, of WsClosing "cn_ws s"] by (simp add: updSocket_def sockets_ok_def)
  have st: "status_ok ?s1" using inv(4) by (auto simp: status_ok_def updSocket_def)
  have "isOpen ?s1 \<Longrightarrow> isOpen s" by (auto simp: isOpen_def updSocket_def split: option.splits if_splits)
  then have at': "attended ?s1" using inv(5) by (auto simp: attended_def updSocket_def)
  have c: "conn_inv ?s1" using so st at' inv by (simp add: conn_inv_def) (simp add: updSocket_def)
  show ?thesis
  proof (cases "\<not> sk_opened (cn_sockets s k) \<and> cn_epoch s = sk_epoch (cn_sockets s k)")
    case True
    have "k < cn_nextSocket s" using sockets_okD [OF inv(1), of k] False by (auto simp: socket_ok_def)
    then have "cn_ws s = None \<or> cn_ws s = Some k" using sockets_okD [OF inv(1), of k] True by (auto simp: socket_ok_def)
    then have "cn_status ?s1 \<noteq> Connected" using inv(4) True by (auto simp: status_ok_def updSocket_def)
    moreover from this have "offline ?s1" using offline_iff [OF c] by simp
    ultimately show ?thesis using False True conn_inv_rejectOnce [of ?s1] by (simp add: onError_def Let_def) (simp add: updSocket_def)
  next
    case False
    then show ?thesis using c by (auto simp: onError_def Let_def assms updSocket_def)
  qed
qed (simp add: onError_def assms)

lemma conn_inv_onClose:
  assumes "conn_inv s"
  shows "conn_inv (fst (onClose k code reason rnd s))"
proof (cases "sk_ready (cn_sockets s k) = WsClosed")
  case False
  let ?s1 = "updSocket k (\<lambda>sk. sk\<lparr>sk_ready := WsClosed\<rparr>) s"
  let ?ws = "if cn_ws s = Some k then None else cn_ws s"
  define s2 where "s2 = ?s1\<lparr>cn_ws := ?ws\<rparr>"
  have s2: "s2 = (if cn_ws ?s1 = Some k then ?s1\<lparr>cn_ws := None\<rparr> else ?s1)"
    by (cases s) (simp add: s2_def updSocket_def)
  have inv: "sockets_ok s" "accounting (cn_scheduler s)" "cn_draining s = cn_yielded s" "status_ok s" "attended s"
    using assms by (simp_all add: conn_inv_def)
  have k: "k < cn_nextSocket s" "cn_ws s = Some k \<Longrightarrow> sk_epoch (cn_sockets s k) = cn_epoch s"
      "sk_epoch (cn_sockets s k) = cn_epoch s \<Longrightarrow> cn_ws s = None \<or> cn_ws s = Some k"
    using sockets_okD [OF inv(1), of k] False by (auto simp: socket_ok_def)
  show ?thesis
  proof (cases "sk_epoch (cn_sockets s k) = cn_epoch s")
    case ep: True
    have ws: "?ws = None" using k(3) [OF ep] by auto
    have "sockets_ok (s\<lparr>cn_sockets := (cn_sockets s)(k := (cn_sockets s k)\<lparr>sk_ready := WsClosed\<rparr>), cn_ws := None\<rparr>)"
      using k(3) [OF ep] by (intro sockets_ok_fail [OF inv(1) False]) auto
    then have off: "offline s2" using inv ws by (simp add: s2_def offline_def updSocket_def)
    have fresh: "cn_status s2 \<noteq> Connected" if "\<not> sk_opened (cn_sockets s k)"
      using inv(4) that k(3) [OF ep] by (auto simp: s2_def status_ok_def updSocket_def)
    have up: "fst (onClose k code reason rnd s) =
        (if \<not> sk_opened (cn_sockets s k) then fst (rejectOnce k (if reason = '''' then ''WebSocket connection closed before opening'' else reason) rnd s2)
         else if code = 4000 \<or> reason = ''session ended'' then
           fst (andThen (setting (\<lambda>s. s\<lparr>cn_intentionalClose := True\<rparr>))
              (andThen clearQueuedPackets (andThen (emitRelay SessionEnded) (setStatus Disconnected))) s2)
         else if cn_intentionalClose s then fst (setStatus Disconnected s2)
         else fst (andThen clearQueuedPackets (scheduleReconnect rnd) s2))"
    proof -
      have "sk_opened (cn_sockets s2 k) = sk_opened (cn_sockets s k)" "cn_intentionalClose s2 = cn_intentionalClose s"
          "cn_epoch ?s1 = sk_epoch (cn_sockets ?s1 k)"
        using ep by (simp_all add: s2_def updSocket_def)
      with False show ?thesis unfolding onClose_def Let_def s2 [symmetric] by simp
    qed
    have ended: "conn_inv (fst (andThen (setting (\<lambda>s. s\<lparr>cn_intentionalClose := True\<rparr>))
              (andThen clearQueuedPackets (andThen (emitRelay SessionEnded) (setStatus Disconnected))) s2))"
      using off by (intro conn_inv_offline) (simp_all add: line_defs offline_def accounting_clear)
    have gone: "conn_inv (fst (setStatus Disconnected s2))" using off by (intro conn_inv_offline) (simp_all add: setStatus_eq)
    have retry: "conn_inv (fst (andThen clearQueuedPackets (scheduleReconnect rnd) s2))" if "\<not> cn_intentionalClose s"
    proof -
      have "offline (fst (clearQueuedPackets s2))" "cn_intentionalClose (fst (clearQueuedPackets s2)) = cn_intentionalClose s"
        using off by (simp_all add: line_defs offline_def accounting_clear s2_def updSocket_def)
      then show ?thesis unfolding fst_andThen using that by (intro conn_inv_scheduleReconnect) blast+
    qed
    show ?thesis unfolding up using conn_inv_rejectOnce [OF off fresh] ended gone retry by presburger
  next
    case other: False
    then have "cn_ws s \<noteq> Some k" using k(2) by auto
    moreover have "sockets_ok (s\<lparr>cn_sockets := (cn_sockets s)(k := (cn_sockets s k)\<lparr>sk_ready := WsClosed\<rparr>)\<rparr>)"
    proof -
      have "socket_ok (cn_ws s) (cn_epoch s) (cn_nextSocket s) k' (((cn_sockets s)(k := (cn_sockets s k)\<lparr>sk_ready := WsClosed\<rparr>)) k')" for k'
        using sockets_okD [OF inv(1), of k'] other k by (cases "k' = k") (auto simp: socket_ok_def)
      then show ?thesis by (simp add: sockets_ok_def)
    qed
    moreover have "isOpen ?s1 = isOpen s" using \<open>cn_ws s \<noteq> Some k\<close> by (auto simp: isOpen_def updSocket_def split: option.splits)
    moreover have "status_ok ?s1" using inv(4) \<open>cn_ws s \<noteq> Some k\<close> by (auto simp: status_ok_def updSocket_def)
    ultimately have "conn_inv ?s1" using inv by (simp add: conn_inv_def attended_def) (simp add: updSocket_def)
    then show ?thesis using False other by (simp add: onClose_def Let_def) (simp add: updSocket_def)
  qed
qed (simp add: onClose_def assms)

lemma conn_inv_upd [simp]:
  "conn_inv (s\<lparr>cn_metrics := m\<rparr>) = conn_inv s"
  "conn_inv (s\<lparr>cn_intentionalClose := c\<rparr>) = conn_inv s"
  "conn_inv (s\<lparr>cn_reconnects := rs\<rparr>) = conn_inv s"
  "conn_inv (s\<lparr>cn_slotToken := st\<rparr>) = conn_inv s"
  "conn_inv (s\<lparr>cn_storage := sto\<rparr>) = conn_inv s"
  by (simp_all add: conn_inv_iff)

lemma conn_inv_onMessage: "conn_inv s \<Longrightarrow> conn_inv (fst (onMessage k data s))"
  by (auto simp: onMessage_def line_defs split: option.splits sum.splits)

lemma conn_inv_reconnectFires: "conn_inv s \<Longrightarrow> conn_inv (fst (reconnectFires tid failure rnd s))"
  by (simp add: reconnectFires_def Let_def conn_inv_open)

lemma conn_inv_endSession: "conn_inv s \<Longrightarrow> conn_inv (fst (endSession s))"
  by (auto simp: endSession_def Let_def forgetSlotToken_def conn_inv_updSocket split: option.splits)

lemma conn_inv_setProfile: "conn_inv s \<Longrightarrow> conn_inv (fst (cn_setProfile p s))"
  unfolding cn_setProfile_def fst_andThen
  by (rule conn_inv_drain) (simp add: setting_def updateQueueMetrics_def fst_andThen updMetrics_def emitMetrics_def conn_inv_def)

lemma conn_inv_resumes:
  assumes "conn_inv s"
  shows "conn_inv (fst (drainResumes s))"
  using assms by (auto simp: drainResumes_def conn_inv_def loop_inv_def intro!: conn_inv_drainLoop [simplified conn_inv_def])

lemma conn_inv_fires: "conn_inv s \<Longrightarrow> conn_inv (fst (drainFires s))"
  by (auto simp: drainFires_def conn_inv_iff [of s] intro: conn_inv_drain)

lemma conn_inv_closing:
  assumes "conn_inv s"
  shows "conn_inv (closing k s)"
proof (cases "sk_ready (cn_sockets s k) = WsOpen")
  case True
  have inv: "sockets_ok s" "status_ok s" "attended s" using assms by (simp_all add: conn_inv_def)
  let ?s1 = "s\<lparr>cn_sockets := (cn_sockets s)(k := (cn_sockets s k)\<lparr>sk_ready := WsClosing\<rparr>)\<rparr>"
  have "sockets_ok ?s1"
    using sockets_ok_fail [OF inv(1), of k WsClosing "cn_ws s"] True by (simp add: sockets_ok_def)
  moreover have "status_ok ?s1" using inv(2) by (auto simp: status_ok_def)
  moreover have "isOpen ?s1 \<Longrightarrow> isOpen s" by (auto simp: isOpen_def split: option.splits if_splits)
  then have "attended ?s1" using inv(3) by (auto simp: attended_def)
  ultimately show ?thesis using assms True by (simp add: conn_inv_def closing_def updSocket_def)
qed (simp add: closing_def conn_inv_updSocket assms)

definition conn_state :: "ConnOp \<Rightarrow> WebSocketConnection \<Rightarrow> WebSocketConnection" where
  "conn_state op s = fst (conn_step op s)"

lemma fst_silently [simp]: "fst (silently f s) = fst (f s)"
  by (simp add: silently_def split_def Let_def)

lemmas conn_inv_ops = conn_inv_send conn_inv_connect conn_inv_disconnect conn_inv_endSession conn_inv_setProfile conn_inv_voiceDrop
  conn_inv_onOpen conn_inv_onError conn_inv_onClose conn_inv_onMessage conn_inv_reconnectFires conn_inv_resumes conn_inv_fires conn_inv_closing

lemma conn_inv_step: "conn_inv s \<Longrightarrow> conn_inv (fst (conn_step op s))"
  by (cases op) (simp_all add: conn_inv_ops split_def Let_def conn_inv_clear conn_inv_iff [THEN iffD1] flushed_def conn_inv_updSocket
      recordVoiceQueueSize_def andThen_def updMetrics_def emitMetrics_def)

interpretation conn: invariant_system conn_state conn_inv
  by unfold_locales (simp add: conn_state_def conn_inv_step)

lemma conn_run_state: "fst (conn_run ops s) = fold conn_state ops s"
  by (induction ops arbitrary: s) (simp_all add: conn_state_def split_def Let_def)

lemma conn_inv_run: "conn_inv s \<Longrightarrow> conn_inv (fst (conn_run ops s))"
  by (simp add: conn_run_state conn.run_inv)

end
