(* ===== verification/ConnectionProps.thy ===== *)
theory ConnectionProps
  imports ConnectionRuns
begin

text \<open>
  What the connection promises: frames leave in the order in which they were accepted, on the reliable lanes without a gap; a
  disconnected connection stays silent; the attempts to reconnect come to an end.
\<close>

section \<open>The order of frames\<close>

text \<open>
  A relation between what left or still waits and what was there before. Every step relates the two by it, and steps compose;
  with \<open>(=)\<close> nothing is lost, with \<^const>\<open>subseq\<close> something may be, but the order stays.
\<close>

locale loss =
  fixes R :: "QueuedPacket list \<Rightarrow> QueuedPacket list \<Rightarrow> bool"
  assumes R_refl: "R xs xs"
    and R_trans: "R xs ys \<Longrightarrow> R ys zs \<Longrightarrow> R xs zs"
    and R_app: "R xs ys \<Longrightarrow> R (us @ xs @ vs) (us @ ys @ vs)"
begin

lemma R_prefix: "R xs ys \<Longrightarrow> R (us @ xs) (us @ ys)"
  using R_app [of xs ys us "[]"] by simp

lemma R_suffix: "R xs ys \<Longrightarrow> R (xs @ vs) (ys @ vs)"
  using R_app [of xs ys "[]" vs] by simp

text \<open>Two steps: \<open>w\<close> waited, \<open>a\<close> came, \<open>x\<close> left and \<open>v\<close> waits; then \<open>b\<close> came, \<open>y\<close> left and \<open>u\<close> waits.\<close>

lemma steps_compose:
  assumes "R (x @ v) (w @ a)" and "R (y @ u) (v @ b)"
  shows "R ((x @ y) @ u) (w @ (a @ b))"
proof -
  have "R (x @ y @ u) ((x @ v) @ b)" using R_prefix [OF assms(2), of x] by simp
  moreover have "R ((x @ v) @ b) ((w @ a) @ b)" using assms(1) by (rule R_suffix)
  ultimately show ?thesis using R_trans by simp
qed

end

interpretation in_order: loss subseq
  by unfold_locales (auto intro: list_emb_append_mono subseq_order.order_trans)

interpretation without_loss: loss "(=)"
  by unfold_locales auto

text \<open>What a step does to lane \<open>l\<close>, up to \<open>R\<close>.\<close>

definition lane_step ::
    "(QueuedPacket list \<Rightarrow> QueuedPacket list \<Rightarrow> bool) \<Rightarrow> LaneName \<Rightarrow> WebSocketConnection \<Rightarrow> WebSocketConnection \<Rightarrow> ConnEffect list \<Rightarrow> QueuedPacket list \<Rightarrow> bool"
  where
  "lane_step R l s s' es acc =
     R (on_lane l (sentPackets es) @ waiting (cn_scheduler s') l) (waiting (cn_scheduler s) l @ on_lane l acc)"

lemma lane_step_weaken: "lane_step (=) l s s' es acc \<Longrightarrow> lane_step subseq l s s' es acc"
  by (simp add: lane_step_def)

lemma lane_step_drainLoop:
  assumes "accounting (cn_scheduler s)"
  shows "lane_step subseq l s (fst (drainLoop s)) (snd (drainLoop s)) []"
    and "l \<noteq> Voice \<Longrightarrow> lane_step (=) l s (fst (drainLoop s)) (snd (drainLoop s)) []"
proof -
  have "accounting (cn_scheduler s) \<longrightarrow>
    lane_step (if l = Voice then subseq else (=)) l s (fst (drainLoop s)) (snd (drainLoop s)) []"
  proof (induction rule: drainLoop_rule [where P = "\<lambda>s s' es. accounting (cn_scheduler s) \<longrightarrow>
      lane_step (if l = Voice then subseq else (=)) l s s' es []" and s = s])
    case (stop s m t es)
    then show ?case by (simp add: lane_step_def)
  next
    case (drop s sc p m es s' es')
    show ?case
    proof
      assume acc: "accounting (cn_scheduler s)"
      have "waiting (cn_scheduler s) l = (if l = Voice then p # waiting sc l else waiting sc l)"
        using sch_next_lane [of "cn_scheduler s" sc p l] drop(1,2) acc by (simp add: accounting_def)
      then show "lane_step (if l = Voice then subseq else (=)) l s s' (es @ es') []"
        using drop(3,4) accounting_next_Some [OF acc drop(1)] by (auto simp: lane_step_def split: if_splits)
    qed
  next
    case (send s sc k p m t d y n es)
    then show ?case
      using sch_next_lane [of "cn_scheduler s" sc p l] by (auto simp: lane_step_def accounting_def)
  qed
  then have *: "lane_step (if l = Voice then subseq else (=)) l s (fst (drainLoop s)) (snd (drainLoop s)) []" using assms by simp
  then show "lane_step subseq l s (fst (drainLoop s)) (snd (drainLoop s)) []"
    using lane_step_weaken by (cases "l = Voice") auto
  show "l \<noteq> Voice \<Longrightarrow> lane_step (=) l s (fst (drainLoop s)) (snd (drainLoop s)) []" using * by simp
qed

lemma lane_step_drain:
  assumes "accounting (cn_scheduler s)"
  shows "lane_step subseq l s (fst (drain s)) (snd (drain s)) []"
    and "l \<noteq> Voice \<Longrightarrow> lane_step (=) l s (fst (drain s)) (snd (drain s)) []"
  using lane_step_drainLoop [of "(clearDrainTimer s)\<lparr>cn_draining := True\<rparr>" l] assms
  by (auto simp: drain_def lane_step_def clearDrainTimer_def)

text \<open>Most handlers leave the queue alone and send nothing.\<close>

definition still :: "conn_action \<Rightarrow> bool" where
  "still f = (\<forall>s. cn_scheduler (fst (f s)) = cn_scheduler s \<and> sentPackets (snd (f s)) = [])"

named_theorems still_intros \<open>handlers that leave the queue alone\<close>

lemma still_andThen [still_intros]: "still f \<Longrightarrow> still g \<Longrightarrow> still (andThen f g)"
  by (simp add: still_def fst_andThen snd_andThen)

lemma still_basic [still_intros]:
  "still emitMetrics" "still (updMetrics h)" "still (setStatus st)" "still (setError e)" "still (resolveOnce k)"
  "still (recordVoiceQueueSize n)" "still closeSocket" "still updateQueueMetrics" "still (emitRelay ev)"
  by (auto simp: still_def emitMetrics_def updMetrics_def setStatus_eq setError_def fst_andThen snd_andThen resolveOnce_def updSocket_def
      recordVoiceQueueSize_def closeSocket_def updateQueueMetrics_def emitRelay_def split: option.splits)

lemma still_voiceDrop [still_intros]: "still (recordVoiceDrop r n)"
  unfolding still_def
proof
  fix s
  show "cn_scheduler (fst (recordVoiceDrop r n s)) = cn_scheduler s \<and> sentPackets (snd (recordVoiceDrop r n s)) = []"
    using recordVoiceDrop_eq [of r n s] by auto
qed

lemma still_setting [still_intros]: "(\<And>s. cn_scheduler (h s) = cn_scheduler s) \<Longrightarrow> still (setting h)"
  by (simp add: still_def setting_def)

lemma still_scheduleReconnect [still_intros]: "still (scheduleReconnect rnd)"
  by (auto simp: still_def scheduleReconnect_def line_defs)

lemma still_openRejected [still_intros]: "still (openRejected reconnecting msg rnd)"
  using still_scheduleReconnect [of rnd] by (simp add: openRejected_def still_def)

lemma still_open [still_intros]: "still (openConnection reconnecting failure rnd)"
  unfolding openConnection_def
  by (cases failure) (auto intro!: still_intros, simp_all add: still_def)

lemma still_connect [still_intros]: "still (cn_connect code token failure)"
  unfolding cn_connect_def by (intro still_intros) (simp add: split_def Let_def)

lemma still_rejectOnce [still_intros]: "still (rejectOnce k msg rnd)"
  using still_openRejected by (auto simp: still_def rejectOnce_def updSocket_def)

lemma still_onError [still_intros]: "still (onError k rnd)"
  using still_rejectOnce [of k "''WebSocket connection failed''" rnd] by (auto simp: still_def onError_def Let_def updSocket_def)

lemma still_onMessage [still_intros]: "still (onMessage k data)"
  by (auto simp: still_def onMessage_def line_defs split: option.splits sum.splits)

lemma still_reconnectFires [still_intros]: "still (reconnectFires tid failure rnd)"
  using still_open [of True failure rnd] by (auto simp: still_def reconnectFires_def Let_def)

lemma lane_step_still: "still f \<Longrightarrow> lane_step (=) l s (fst (f s)) (snd (f s)) []"
  by (simp add: still_def lane_step_def)

lemma lane_step_empty: "sentPackets es = [] \<Longrightarrow> waiting (cn_scheduler s') l = [] \<Longrightarrow> lane_step subseq l s s' es []"
  by (simp add: lane_step_def)

lemma enqueue_lane:
  assumes "enqueue p sc = (sc', r)"
  shows "subseq (waiting sc' l) (waiting sc l @ on_lane l (if er_ok r then [p] else []))"
    and "dropPolicy (lanes (sch_profile sc) l) = Fail \<Longrightarrow> waiting sc' l = waiting sc l @ on_lane l (if er_ok r then [p] else [])"
proof -
  have "subseq (drop n xs @ ys) (xs @ ys)" for n and xs ys :: "QueuedPacket list"
    by (intro list_emb_append_mono) (auto intro: suffix_imp_subseq suffix_drop)
  then show "subseq (waiting sc' l) (waiting sc l @ on_lane l (if er_ok r then [p] else []))"
    using enqueue_waiting(1) [OF assms] enqueue_waiting(2) [OF assms, of l] by (cases "l = qp_lane p") auto
  show "waiting sc' l = waiting sc l @ on_lane l (if er_ok r then [p] else [])" if "dropPolicy (lanes (sch_profile sc) l) = Fail"
    using enqueue_waiting(1,3) [OF assms] enqueue_waiting(2) [OF assms, of l] that by (cases "l = qp_lane p") auto
qed

definition queueMetrics :: "WebSocketConnection \<Rightarrow> TransportMetrics" where
  "queueMetrics s = cn_metrics (fst (updateQueueMetrics s))"

lemma updateQueueMetrics_eq: "updateQueueMetrics s = (s\<lparr>cn_metrics := queueMetrics s\<rparr>, [EvMetrics (queueMetrics s)])"
  by (simp add: queueMetrics_def line_defs)

text \<open>The ways through \<^verbatim>\<open>send\<close>: refused before the queue, or queued with the result \<open>r\<close>.\<close>

lemma send_cases:
  obtains (refused) f where "still f" "conn_step (CSend env) s = (fst (f s), snd (f s), [])"
  | (queued) bs sc r m f es where "packEnvelope env (cn_profile s) = Inr bs"
      "enqueue \<lparr>qp_lane = env_lane env, qp_bytes = bs\<rparr> (cn_scheduler s) = (sc, r)" "sentPackets es = []" "f = (if er_ok r then drain else doNothing)"
      "conn_step (CSend env) s = (fst (f (s\<lparr>cn_scheduler := sc, cn_metrics := m\<rparr>)), es @ snd (f (s\<lparr>cn_scheduler := sc, cn_metrics := m\<rparr>)),
         if er_ok r then [\<lparr>qp_lane = env_lane env, qp_bytes = bs\<rparr>] else [])"
proof -
  let ?drop = "\<lambda>msg. andThen (updMetrics (\<lambda>m. m\<lparr>m_lastError := Some msg\<rparr>)) (recordVoiceDrop BrowserBackpressure 1)"
  have refuse: thesis if "cn_send env s = (fst (f s), snd (f s), False)" "still f" for f
    using refused [OF that(2)] that(1) by simp
  have still: "still (?drop msg)" for msg by (intro still_intros)
  consider "env_lane env = Voice \<and> \<not> isOpen s" | "env_lane env = Voice \<and> isOpen s \<and> buffered s > VOICE_BROWSER_BUFFER_LIMIT_BYTES"
    | (pack) "\<not> (env_lane env = Voice \<and> \<not> isOpen s)" "\<not> (env_lane env = Voice \<and> buffered s > VOICE_BROWSER_BUFFER_LIMIT_BYTES)"
    by blast
  then show thesis
  proof cases
    case 1
    then show thesis using refuse [of "?drop ''voice_transport_unavailable''"] still by (simp add: cn_send_def split_def Let_def)
  next
    case 2
    then show thesis using refuse [of "?drop ''voice_browser_backpressure''"] still by (simp add: cn_send_def split_def Let_def)
  next
    case pack
    show thesis
    proof (cases "packEnvelope env (cn_profile s)")
      case (Inl err)
      then show thesis using refuse [of "setError err"] pack by (simp add: cn_send_def split_def Let_def still_basic)
    next
      case (Inr bs)
      obtain sc r where e: "enqueue \<lparr>qp_lane = env_lane env, qp_bytes = bs\<rparr> (cn_scheduler s) = (sc, r)" by fastforce
      define s2 where "s2 = (if er_dropped r > 0 \<and> env_lane env = Voice then
          s\<lparr>cn_scheduler := sc, cn_metrics := (cn_metrics s)\<lparr>m_droppedVoiceFrames := m_droppedVoiceFrames (cn_metrics s) + er_dropped r\<rparr>\<rparr>
        else s\<lparr>cn_scheduler := sc\<rparr>)"
      have s2: "s2\<lparr>cn_metrics := m\<rparr> = s\<lparr>cn_scheduler := sc, cn_metrics := m\<rparr>" for m by (simp add: s2_def)
      have c: "cn_send env s =
          (if \<not> er_ok r then let (s3, es) = andThen (updMetrics (\<lambda>m. m\<lparr>m_lastError :=
                 Some (case er_reason r of None \<Rightarrow> ''enqueue_failed'' | Some r \<Rightarrow> r)\<rparr>)) emitMetrics s2 in (s3, es, False)
           else let (s3, es) = andThen updateQueueMetrics drain s2 in (s3, es, True))"
        unfolding cn_send_def if_not_P [OF pack(1)] if_not_P [OF pack(2)] using Inr e by (simp add: s2_def Let_def)
      show thesis
      proof (cases "er_ok r")
        case True
        then have "conn_step (CSend env) s = (fst (drain (s\<lparr>cn_scheduler := sc, cn_metrics := queueMetrics s2\<rparr>)),
            [EvMetrics (queueMetrics s2)] @ snd (drain (s\<lparr>cn_scheduler := sc, cn_metrics := queueMetrics s2\<rparr>)), [\<lparr>qp_lane = env_lane env, qp_bytes = bs\<rparr>])"
          using Inr by (simp add: c acceptedPacket_def andThen_def updateQueueMetrics_eq s2 Let_def split_def)
        then show thesis using queued [OF Inr e _ refl, where es = "[EvMetrics (queueMetrics s2)]" and m = "queueMetrics s2"] True by simp
      next
        case False
        obtain m where "conn_step (CSend env) s = (s2\<lparr>cn_metrics := m\<rparr>, [EvMetrics m], [])"
          using False by (simp add: c andThen_def updMetrics_def emitMetrics_def)
        then show thesis using queued [OF Inr e _ refl, where es = "[EvMetrics m]" and m = m] False by (simp add: doNothing_def s2)
      qed
    qed
  qed
qed

lemma waiting_setProfile [simp]: "waiting (sch_setProfile p sc) l = waiting sc l"
  by (simp add: sch_setProfile_def)

definition lossless :: "WebSocketConnection \<Rightarrow> LaneName \<Rightarrow> bool" where
  "lossless s l = (l \<noteq> Voice \<and> dropPolicy (lanes (sch_profile (cn_scheduler s)) l) = Fail)"

lemma lane_step_send:
  assumes "conn_inv s" and "conn_step (CSend env) s = (s', es, acc)"
  shows "lane_step subseq l s s' es acc" and "lossless s l \<Longrightarrow> lane_step (=) l s s' es acc"
proof -
  have "lane_step subseq l s s' es acc \<and> (lossless s l \<longrightarrow> lane_step (=) l s s' es acc)"
  proof (cases rule: send_cases [of env s])
    case (refused f)
    then show ?thesis using assms(2) lane_step_still [of f l s] by (auto intro: lane_step_weaken)
  next
    case (queued bs sc r m f es1)
    let ?s2 = "s\<lparr>cn_scheduler := sc, cn_metrics := m\<rparr>"
    let ?a = "if er_ok r then [\<lparr>qp_lane = env_lane env, qp_bytes = bs\<rparr>] else []"
    have acc: "accounting (cn_scheduler ?s2)"
      using accounting_enqueue [of "cn_scheduler s" "\<lparr>qp_lane = env_lane env, qp_bytes = bs\<rparr>"] queued(2) assms(1) by (simp add: conn_inv_def)
    have f: "lane_step subseq l ?s2 (fst (f ?s2)) (snd (f ?s2)) []" "l \<noteq> Voice \<Longrightarrow> lane_step (=) l ?s2 (fst (f ?s2)) (snd (f ?s2)) []"
      using lane_step_drain [OF acc, of l] queued(4) by (auto simp: lane_step_def doNothing_def split: if_splits)
    have eq: "s' = fst (f ?s2)" "sentPackets es = sentPackets (snd (f ?s2))" "acc = ?a" using queued(3,5) assms(2) by auto
    have "lane_step subseq l s s' es acc"
      using in_order.steps_compose [where x = "[]" and v = "waiting sc l" and w = "waiting (cn_scheduler s) l" and a = "on_lane l ?a" and b = "[]"
          and y = "on_lane l (sentPackets es)" and u = "waiting (cn_scheduler s') l"] enqueue_lane(1) [OF queued(2), of l] f(1)
      unfolding lane_step_def eq by simp
    moreover have "lane_step (=) l s s' es acc" if "lossless s l"
      using enqueue_lane(2) [OF queued(2), of l] f(2) that unfolding lane_step_def eq lossless_def by simp
    ultimately show ?thesis by blast
  qed
  then show "lane_step subseq l s s' es acc" and "lossless s l \<Longrightarrow> lane_step (=) l s s' es acc" by blast+
qed

text \<open>The operations that throw the queue away: giving up the connection, and losing it.\<close>

fun clears :: "ConnOp \<Rightarrow> bool" where
  "clears (CDisconnect _) = True"
| "clears CClearQueued = True"
| "clears (CClosed _ _ _ _) = True"
| "clears _ = False"

lemma lane_step_onOpen:
  assumes "accounting (cn_scheduler s)"
  shows "lane_step subseq l s (fst (onOpen k s)) (snd (onOpen k s)) []"
    and "l \<noteq> Voice \<Longrightarrow> lane_step (=) l s (fst (onOpen k s)) (snd (onOpen k s)) []"
proof -
  let ?s1 = "(updSocket k (\<lambda>sk. sk\<lparr>sk_opened := True\<rparr>) (updSocket k (\<lambda>sk. sk\<lparr>sk_ready := WsOpen\<rparr>) s))\<lparr>cn_reconnectAttempts := 0, cn_status := Connected\<rparr>"
  consider (ignored) s1 where "onOpen k s = (s1, [])" "cn_scheduler s1 = cn_scheduler s"
    | (opened) es where "sentPackets es = []"
        "onOpen k s = (fst (resolveOnce k (fst (drain ?s1))), es @ snd (drain ?s1) @ snd (resolveOnce k (fst (drain ?s1))))"
  proof (cases "sk_ready (cn_sockets s k) \<noteq> WsConnecting \<or> cn_epoch s \<noteq> sk_epoch (cn_sockets s k)")
    case True
    then show thesis
    proof (cases "sk_ready (cn_sockets s k) = WsConnecting")
      case connecting: True
      with True show thesis
        by (intro ignored [of "updSocket k (\<lambda>sk. sk\<lparr>sk_ready := WsOpen\<rparr>) s"]) (simp_all add: onOpen_def Let_def updSocket_def)
    qed (intro ignored [of s], simp_all add: onOpen_def)
  next
    case False
    then show thesis
      by (intro opened [of "if cn_status s = Connected then [] else [EvStatus Connected]"])
        (simp_all add: onOpen_def Let_def updSocket_def andThen_def setting_def split_def setStatus_eq)
  qed
  then have "lane_step subseq l s (fst (onOpen k s)) (snd (onOpen k s)) [] \<and>
      (l \<noteq> Voice \<longrightarrow> lane_step (=) l s (fst (onOpen k s)) (snd (onOpen k s)) [])"
  proof cases
    case ignored
    then show ?thesis by (simp add: lane_step_def)
  next
    case opened
    have "still (resolveOnce k)" by (rule still_basic)
    with opened show ?thesis using lane_step_drain [of ?s1 l] assms by (simp add: lane_step_def still_def updSocket_def)
  qed
  then show "lane_step subseq l s (fst (onOpen k s)) (snd (onOpen k s)) []"
    and "l \<noteq> Voice \<Longrightarrow> lane_step (=) l s (fst (onOpen k s)) (snd (onOpen k s)) []" by blast+
qed

lemma lane_step_cleared:
  assumes "still f"
  shows "lane_step subseq l s (fst (andThen clearQueuedPackets f t)) (snd (andThen clearQueuedPackets f t)) []"
  using assms by (intro lane_step_empty) (simp_all add: still_def line_defs)

lemma lane_step_ended:
  assumes "still f"
  shows "lane_step subseq l s (fst (andThen (setting h) (andThen clearQueuedPackets f) t)) (snd (andThen (setting h) (andThen clearQueuedPackets f) t)) []"
  using lane_step_cleared [OF assms, of l s "h t"]
  by (simp only: fst_andThen [of "setting h"] snd_andThen [of "setting h"]) (simp add: setting_def)

lemma lane_step_onClose:
  shows "lane_step subseq l s (fst (onClose k code reason rnd s)) (snd (onClose k code reason rnd s)) []"
proof -
  define s1 where "s1 = updSocket k (\<lambda>sk. sk\<lparr>sk_ready := WsClosed\<rparr>) s"
  define s2 where "s2 = (if cn_ws s1 = Some k then s1\<lparr>cn_ws := None\<rparr> else s1)"
  have sch: "cn_scheduler s1 = cn_scheduler s" "cn_scheduler s2 = cn_scheduler s" by (simp_all add: s2_def s1_def updSocket_def)
  have weak: "lane_step subseq l s (fst (f t)) (snd (f t)) []" if "still f" "cn_scheduler t = cn_scheduler s" for f t
    using that by (simp add: lane_step_def still_def)
  show ?thesis
    unfolding onClose_def Let_def s1_def [symmetric] s2_def [symmetric]
    using weak [OF still_rejectOnce sch(2)] weak [OF still_basic(3) sch(2)] lane_step_ended [OF still_andThen [OF still_basic(9) still_basic(3)]]
      lane_step_cleared [OF still_scheduleReconnect] sch
    by (auto simp: lane_step_def [of _ _ _ _ "[]"])
qed

lemma lane_step_conn:
  assumes "conn_inv s" and "conn_step op s = (s', es, acc)"
  shows "lane_step subseq l s s' es acc"
    and "lossless s l \<Longrightarrow> \<not> clears op \<Longrightarrow> lane_step (=) l s s' es acc"
proof -
  have acc: "accounting (cn_scheduler s)" using assms(1) by (simp add: conn_inv_def)
  have *: "lane_step subseq l s (fst (f s)) (snd (f s)) [] \<and> (lossless s l \<longrightarrow> lane_step (=) l s (fst (f s)) (snd (f s)) [])" if "still f" for f
    using lane_step_still [OF that, of l s] lane_step_weaken by blast
  have pump: "lane_step subseq l s (fst (f s)) (snd (f s)) [] \<and> (lossless s l \<longrightarrow> lane_step (=) l s (fst (f s)) (snd (f s)) [])"
    if "f \<in> {drainResumes, drainFires, cn_setProfile p}" for f p
    using that lane_step_drain [of "s\<lparr>cn_drainTimer := False\<rparr>" l] lane_step_drainLoop [of "s\<lparr>cn_yielded := False\<rparr>" l] acc
      lane_step_drain [of "fst (andThen (setting (\<lambda>s. s\<lparr>cn_profile := p, cn_scheduler := sch_setProfile p (cn_scheduler s)\<rparr>)) updateQueueMetrics s)" l]
    by (auto simp: drainResumes_def drainFires_def lane_step_def lossless_def cn_setProfile_def fst_andThen snd_andThen setting_def
        updateQueueMetrics_eq)
  have "lane_step subseq l s s' es acc \<and> (lossless s l \<and> \<not> clears op \<longrightarrow> lane_step (=) l s s' es acc)"
  proof (cases op)
    case (CSend env)
    then show ?thesis using lane_step_send [OF assms(1), of env s' es acc l] assms(2) by blast
  next
    case (CDisconnect forget)
    have "still (andThen closeSocket (andThen (setting (if forget then forgetSlotToken else id)) (andThen (setStatus Disconnected) updateQueueMetrics)))"
      by (intro still_intros) (simp add: forgetSlotToken_def)
    from lane_step_ended [OF this, of l s "\<lambda>s. clearReconnectTimer (s\<lparr>cn_intentionalClose := True\<rparr>)" s] CDisconnect assms(2) show ?thesis
      unfolding cn_disconnect_def [symmetric] by (auto simp: silently_def split_def Let_def)
  next
    case CEndSession
    then show ?thesis using assms(2)
      by (auto simp: endSession_def Let_def lane_step_def forgetSlotToken_def updSocket_def split: option.splits if_splits)
  next
    case CClearQueued
    then show ?thesis using assms(2) by (auto simp: silently_def line_defs intro!: lane_step_empty)
  next
    case (CClosed k code reason rnd)
    then show ?thesis using assms(2) lane_step_onClose [of l s k code reason rnd] by (auto simp: silently_def split_def Let_def)
  next
    case (COpened k)
    then show ?thesis using assms(2) lane_step_onOpen [OF acc, of l k] by (auto simp: silently_def split_def Let_def lossless_def)
  next
    case (CSetProfile p)
    then show ?thesis using assms(2) pump [of "cn_setProfile p" p] by (auto simp: silently_def split_def Let_def)
  next
    case CYielded
    then show ?thesis using assms(2) pump [of drainResumes] by (auto simp: silently_def split_def Let_def)
  next
    case CDrainTimer
    then show ?thesis using assms(2) pump [of drainFires] by (auto simp: silently_def split_def Let_def)
  next
    case (CConnect code token failure)
    then show ?thesis using assms(2) * [OF still_connect [of code token failure]] by (auto simp: silently_def split_def Let_def)
  next
    case (CVoiceDrop r n)
    then show ?thesis using assms(2) * [OF still_voiceDrop [of r n]] by (auto simp: silently_def split_def Let_def)
  next
    case (CVoiceQueue n)
    then show ?thesis using assms(2) * [OF still_basic(6) [of n]] by (auto simp: silently_def split_def Let_def)
  next
    case (CErrored k rnd)
    then show ?thesis using assms(2) * [OF still_onError [of k rnd]] by (auto simp: silently_def split_def Let_def)
  next
    case (CMessage k data)
    then show ?thesis using assms(2) * [OF still_onMessage [of k data]] by (auto simp: silently_def split_def Let_def)
  next
    case (CReconnect tid failure rnd)
    then show ?thesis using assms(2) * [OF still_reconnectFires [of tid failure rnd]] by (auto simp: silently_def split_def Let_def)
  qed (use assms(2) in \<open>auto simp: flushed_def closing_def updSocket_def lane_step_def\<close>)
  then show "lane_step subseq l s s' es acc" and "lossless s l \<Longrightarrow> \<not> clears op \<Longrightarrow> lane_step (=) l s s' es acc" by blast+
qed

section \<open>Runs\<close>

lemma lane_step_run:
  assumes "conn_inv s" and "conn_run ops s = (s', es, acc)"
  shows "lane_step subseq l s s' es acc"
  using assms
proof (induction ops arbitrary: s s' es acc)
  case Nil
  then show ?case by (simp add: lane_step_def)
next
  case (Cons op ops)
  obtain s1 es1 ps1 where 1: "conn_step op s = (s1, es1, ps1)" by (metis prod_cases3)
  obtain s2 es2 ps2 where 2: "conn_run ops s1 = (s2, es2, ps2)" by (metis prod_cases3)
  have "conn_inv s1" using conn_inv_step [OF Cons.prems(1), of op] 1 by simp
  from lane_step_conn(1) [OF Cons.prems(1) 1, of l] Cons.IH [OF this 2] show ?case
    using Cons.prems(2) 1 2 in_order.steps_compose [of _ "waiting (cn_scheduler s1) l"] by (auto simp: lane_step_def)
qed

text \<open>A profile change on a lossless lane has to keep it lossless.\<close>

fun keeps_lane :: "LaneName \<Rightarrow> ConnOp \<Rightarrow> bool" where
  "keeps_lane l (CSetProfile p) = (dropPolicy (lanes p l) = Fail)"
| "keeps_lane l op = (\<not> clears op)"

text \<open>Only \<^verbatim>\<open>setProfile\<close> changes the profile of the queue.\<close>

lemma sch_profile_drainLoop [simp]: "sch_profile (cn_scheduler (fst (drainLoop s))) = sch_profile (cn_scheduler s)"
proof (induction rule: drainLoop_rule [where P = "\<lambda>s s' es. sch_profile (cn_scheduler s') = sch_profile (cn_scheduler s)" and s = s])
  case (drop s sc p m es s' es')
  then show ?case using sch_profile_next [of "cn_scheduler s"] by simp
next
  case (send s sc k p m t d y n es)
  then show ?case using sch_profile_next [of "cn_scheduler s"] by simp
qed simp

lemma sch_profile_drain [simp]: "sch_profile (cn_scheduler (fst (drain s))) = sch_profile (cn_scheduler s)"
  by (simp add: drain_def clearDrainTimer_def)

lemma sch_profile_send: "conn_step (CSend env) s = (s', es, acc) \<Longrightarrow> sch_profile (cn_scheduler s') = sch_profile (cn_scheduler s)"
proof (cases rule: send_cases [of env s])
  case (queued bs sc r m f es1)
  moreover have "sch_profile sc = sch_profile (cn_scheduler s)"
    using sch_profile_enqueue [of "\<lparr>qp_lane = env_lane env, qp_bytes = bs\<rparr>" "cn_scheduler s"] queued(2) by simp
  moreover assume "conn_step (CSend env) s = (s', es, acc)"
  ultimately show ?thesis by (auto simp: doNothing_def split: if_splits)
qed (auto simp: still_def)

lemma lossless_step:
  assumes "lossless s l" "keeps_lane l op" "conn_step op s = (s', es, acc)"
  shows "lossless s' l"
proof (cases op)
  case (CSend env)
  then show ?thesis using assms sch_profile_send [of env s s' es acc] by (simp add: lossless_def)
next
  case (CSetProfile p)
  then show ?thesis using assms
    by (auto simp: lossless_def silently_def split_def Let_def cn_setProfile_def fst_andThen setting_def updateQueueMetrics_eq sch_setProfile_def)
next
  case (COpened k)
  have "still (resolveOnce k)" by (rule still_basic)
  then show ?thesis using assms COpened
    by (auto simp: lossless_def silently_def split_def Let_def onOpen_def fst_andThen setting_def setStatus_eq updSocket_def still_def)
next
  case CEndSession
  then show ?thesis using assms by (auto simp: lossless_def endSession_def Let_def forgetSlotToken_def updSocket_def split: option.splits if_splits)
next
  case CYielded
  then show ?thesis using assms by (auto simp: lossless_def silently_def split_def Let_def drainResumes_def)
next
  case CDrainTimer
  then show ?thesis using assms by (auto simp: lossless_def silently_def split_def Let_def drainFires_def)
qed (use assms still_connect still_voiceDrop still_basic(6) still_onError still_onMessage still_reconnectFires in
    \<open>auto simp: lossless_def silently_def split_def Let_def still_def flushed_def closing_def updSocket_def\<close>)

lemma lane_step_run_lossless:
  assumes "conn_inv s" and "lossless s l" and "list_all (keeps_lane l) ops" and "conn_run ops s = (s', es, acc)"
  shows "lane_step (=) l s s' es acc"
  using assms
proof (induction ops arbitrary: s s' es acc)
  case Nil
  then show ?case by (simp add: lane_step_def)
next
  case (Cons op ops)
  obtain s1 es1 ps1 where 1: "conn_step op s = (s1, es1, ps1)" by (metis prod_cases3)
  obtain s2 es2 ps2 where 2: "conn_run ops s1 = (s2, es2, ps2)" by (metis prod_cases3)
  have op: "keeps_lane l op" using Cons.prems(3) by simp
  then have "\<not> clears op" by (cases op) auto
  note first = lane_step_conn(2) [OF Cons.prems(1) 1 Cons.prems(2) this]
  have "conn_inv s1" using conn_inv_step [OF Cons.prems(1), of op] 1 by simp
  from Cons.IH [OF this lossless_step [OF Cons.prems(2) op 1] _ 2] Cons.prems(3) first show ?case
    using Cons.prems(4) 1 2 without_loss.steps_compose [of _ "waiting (cn_scheduler s1) l"] by (auto simp: lane_step_def)
qed

end
