(* ===== verification/ConnectionEnds.thy ===== *)
theory ConnectionEnds
  imports ConnectionProps
begin

text \<open>
  How a connection ends: by \<^verbatim>\<open>disconnect\<close>, after which nothing but \<^verbatim>\<open>connect\<close> revives it, or by attempts to reconnect that all fail.
\<close>

section \<open>Silence after disconnect\<close>

fun talks :: "ConnEffect \<Rightarrow> bool" where
  "talks (EvStatus _) = True"
| "talks (EvEnvelope _) = True"
| "talks (EvDial _ _) = True"
| "talks (EvSend _ _) = True"
| "talks (EvCommand _ _) = True"
| "talks EvConnected = True"
| "talks _ = False"

definition gone :: "WebSocketConnection \<Rightarrow> bool" where
  "gone s = (cn_intentionalClose s \<and> cn_status s = Disconnected \<and> cn_ws s = None \<and> (\<forall>k. \<not> live (sk_ready (cn_sockets s k))))"

fun connects :: "ConnOp \<Rightarrow> bool" where
  "connects (CConnect _ _ _) = True"
| "connects _ = False"

lemma gone_not_open: "gone s \<Longrightarrow> \<not> isOpen s"
  by (simp add: gone_def isOpen_def)

lemma gone_ready: "gone s \<Longrightarrow> sk_ready (cn_sockets s k) \<noteq> WsOpen \<and> sk_ready (cn_sockets s k) \<noteq> WsConnecting"
  by (metis gone_def live.simps(1,2))

lemma gone_upd [simp]:
  "gone (s\<lparr>cn_metrics := m\<rparr>) = gone s" "gone (s\<lparr>cn_scheduler := sc\<rparr>) = gone s" "gone (s\<lparr>cn_profile := p\<rparr>) = gone s"
  "gone (s\<lparr>cn_drainTimer := t\<rparr>) = gone s" "gone (s\<lparr>cn_draining := d\<rparr>) = gone s" "gone (s\<lparr>cn_yielded := y\<rparr>) = gone s"
  "gone (s\<lparr>cn_reconnects := rs\<rparr>) = gone s" "gone (s\<lparr>cn_storage := st\<rparr>) = gone s" "gone (s\<lparr>cn_slotToken := tk\<rparr>) = gone s"
  "gone (s\<lparr>cn_reconnectTimer := r\<rparr>) = gone s"
  by (simp_all add: gone_def)

lemma gone_updSocket:
  assumes "gone s" "live (sk_ready (f (cn_sockets s k))) \<Longrightarrow> live (sk_ready (cn_sockets s k))"
  shows "gone (updSocket k f s)"
  using assms by (auto simp: gone_def updSocket_def)

text \<open>A handler that keeps a gone connection gone and says nothing.\<close>

definition mute :: "WebSocketConnection \<Rightarrow> WebSocketConnection \<times> ConnEffect list \<Rightarrow> bool" where
  "mute s r = (gone (fst r) \<and> (\<forall>e \<in> set (snd r). \<not> talks e))"

lemma mute_same: "gone s \<Longrightarrow> mute s (s, [])"
  by (simp add: mute_def)

lemma mute_voiceDrop: "gone s \<Longrightarrow> mute s (recordVoiceDrop r n s)"
  by (cases "n = 0") (simp_all add: recordVoiceDrop_def doNothing_def mute_def andThen_def updMetrics_def emitMetrics_def)

lemma mute_clear: "gone s \<Longrightarrow> mute s (clearQueuedPackets s)"
  by (simp add: mute_def line_defs)

lemma mute_drain: "gone s \<Longrightarrow> drain s = (s, [])"
  by (simp add: drain_def gone_not_open)

lemma mute_drainLoop: "gone s \<Longrightarrow> mute s (drainLoop s)"
  using gone_not_open [of s] by (subst drainLoop.simps) (simp add: mute_def line_defs)

lemma mute_send:
  assumes "gone s"
  shows "mute s (fst (cn_send env s), fst (snd (cn_send env s)))"
proof -
  have o: "\<not> isOpen s" using assms by (rule gone_not_open)
  have v: "mute s (andThen (updMetrics h) (recordVoiceDrop r n) s)" for h r n
    using mute_voiceDrop [of "s\<lparr>cn_metrics := h (cn_metrics s)\<rparr>" r n] assms by (simp add: mute_def andThen_def updMetrics_def split_def Let_def)
  have d: "drain (s\<lparr>cn_scheduler := sc, cn_metrics := m\<rparr>) = (s\<lparr>cn_scheduler := sc, cn_metrics := m\<rparr>, [])" for sc m
    by (rule mute_drain) (simp add: assms)
  show ?thesis
  proof (cases "env_lane env = Voice")
    case True
    then show ?thesis using o v by (simp add: cn_send_def split_def Let_def)
  next
    case False
    then show ?thesis using o assms d
      by (auto simp: cn_send_def split_def Let_def mute_def setError_def andThen_def updMetrics_def emitMetrics_def updateQueueMetrics_eq split: sum.splits)
  qed
qed

lemma mute_rejectOnce:
  assumes "gone s"
  shows "mute s (rejectOnce k msg rnd s)"
proof -
  let ?t = "updSocket k (\<lambda>sk. sk\<lparr>sk_settled := True\<rparr>) s"
  have "gone ?t" using assms by (rule gone_updSocket) simp
  then have "mute s (openRejected b msg rnd ?t)" for b by (simp add: mute_def openRejected_def scheduleReconnect_def gone_def)
  then show ?thesis using assms by (simp add: rejectOnce_def mute_same)
qed

lemma mute_onClose:
  assumes "gone s"
  shows "mute s (onClose k code reason rnd s)"
proof -
  define t where "t = updSocket k (\<lambda>sk. sk\<lparr>sk_ready := WsClosed\<rparr>) s"
  have t: "gone t" unfolding t_def using assms by (rule gone_updSocket) simp
  then have "cn_ws t = None" "cn_intentionalClose t" "cn_status t = Disconnected" by (simp_all add: gone_def)
  then have f: "setStatus Disconnected t = (t, [])" by (simp add: setStatus_def)
  have c: "gone (fst (clearQueuedPackets (t\<lparr>cn_intentionalClose := True\<rparr>)))" "\<forall>e \<in> set (snd (clearQueuedPackets (t\<lparr>cn_intentionalClose := True\<rparr>))). \<not> talks e"
      "cn_status (fst (clearQueuedPackets (t\<lparr>cn_intentionalClose := True\<rparr>))) = Disconnected"
    using t by (simp_all add: line_defs gone_def)
  have e: "mute s (andThen (setting (\<lambda>s. s\<lparr>cn_intentionalClose := True\<rparr>))
      (andThen clearQueuedPackets (andThen (emitRelay SessionEnded) (setStatus Disconnected))) t)"
    using c by (simp add: mute_def andThen_def split_def Let_def setting_def emitRelay_def setStatus_def)
  show ?thesis
    unfolding onClose_def Let_def t_def [symmetric]
    using assms t f e mute_rejectOnce [OF t] \<open>cn_ws t = None\<close> \<open>cn_intentionalClose t\<close> by (simp add: mute_def)
qed

lemma mute_step:
  assumes "gone s" "\<not> connects op"
  shows "gone (fst (conn_step op s)) \<and> (\<forall>e \<in> set (fst (snd (conn_step op s))). \<not> talks e)"
proof -
  note r = gone_ready [OF assms(1)]
  have ic: "cn_intentionalClose s" "cn_ws s = None" using assms(1) by (simp_all add: gone_def)
  have by_mute: ?thesis if "conn_step op s = silently f s" "mute s (f s)" for f
    using that by (simp add: mute_def silently_def split_def Let_def)
  show ?thesis
  proof (cases op)
    case (CSend env)
    then show ?thesis using mute_send [OF assms(1), of env] by (simp add: mute_def split_def Let_def)
  next
    case (CDisconnect forget)
    then show ?thesis using assms(1) ic by (auto simp: silently_def line_defs cn_disconnect_def clearReconnectTimer_def closeSocket_def forgetSlotToken_def
          gone_def split: option.splits)
  next
    case CEndSession
    then show ?thesis using assms(1) ic by (simp add: endSession_def Let_def forgetSlotToken_def)
  next
    case CClearQueued
    then show ?thesis using by_mute mute_clear [OF assms(1)] by simp
  next
    case (CSetProfile p)
    have "mute s (cn_setProfile p s)"
      using assms(1) by (simp add: mute_def cn_setProfile_def andThen_def setting_def updateQueueMetrics_eq mute_drain)
    then show ?thesis using by_mute CSetProfile by simp
  next
    case (CVoiceDrop reason n)
    then show ?thesis using by_mute mute_voiceDrop [OF assms(1)] by simp
  next
    case (CVoiceQueue n)
    have "mute s (recordVoiceQueueSize n s)"
      using assms(1) by (simp add: mute_def recordVoiceQueueSize_def andThen_def updMetrics_def emitMetrics_def)
    then show ?thesis using by_mute CVoiceQueue by simp
  next
    case (COpened k)
    have "mute s (onOpen k s)" using assms(1) r [of k] by (simp add: onOpen_def mute_same)
    then show ?thesis using by_mute COpened by simp
  next
    case (CErrored k rnd)
    let ?t = "updSocket k (\<lambda>sk. sk\<lparr>sk_ready := WsClosing\<rparr>) s"
    have "gone ?t" using assms(1) by (rule gone_updSocket) simp
    then have "mute s (onError k rnd s)"
      using mute_rejectOnce [of ?t k "''WebSocket connection failed''" rnd] assms(1) unfolding onError_def Let_def by (simp add: mute_def)
    then show ?thesis using by_mute CErrored by simp
  next
    case (CClosed k code reason rnd)
    then show ?thesis using by_mute mute_onClose [OF assms(1)] by simp
  next
    case (CMessage k data)
    have "mute s (onMessage k data s)" using assms(1) r [of k] by (simp add: onMessage_def mute_same)
    then show ?thesis using by_mute CMessage by simp
  next
    case (CReconnect tid failure rnd)
    have "mute s (reconnectFires tid failure rnd s)" using assms(1) ic by (simp add: reconnectFires_def Let_def mute_def)
    then show ?thesis using by_mute CReconnect by simp
  next
    case CYielded
    have "mute s (drainResumes s)" using assms(1) mute_drainLoop [of "s\<lparr>cn_yielded := False\<rparr>"] by (simp add: drainResumes_def mute_def)
    then show ?thesis using by_mute CYielded by simp
  next
    case CDrainTimer
    have "mute s (drainFires s)" using assms(1) mute_drain [of "s\<lparr>cn_drainTimer := False\<rparr>"] by (simp add: drainFires_def mute_def)
    then show ?thesis using by_mute CDrainTimer by simp
  next
    case (CFlushed k n)
    then show ?thesis using gone_updSocket [OF assms(1), of "\<lambda>sk. sk\<lparr>sk_buffered := sk_buffered sk - n\<rparr>" k] by (simp add: flushed_def)
  next
    case (CClosing k)
    then show ?thesis using gone_updSocket [OF assms(1), of "\<lambda>sk. if sk_ready sk = WsOpen then sk\<lparr>sk_ready := WsClosing\<rparr> else sk" k]
      by (simp add: closing_def split: if_splits)
  qed (use assms in simp)
qed

lemma mute_run:
  assumes "gone s" "list_all (\<lambda>op. \<not> connects op) ops" "conn_run ops s = (s', es, acc)"
  shows "gone s' \<and> (\<forall>e \<in> set es. \<not> talks e)"
  using assms
proof (induction ops arbitrary: s s' es acc)
  case (Cons op ops)
  obtain s1 es1 ps1 where 1: "conn_step op s = (s1, es1, ps1)" by (metis prod_cases3)
  obtain s2 es2 ps2 where 2: "conn_run ops s1 = (s2, es2, ps2)" by (metis prod_cases3)
  have "gone s1 \<and> (\<forall>e \<in> set es1. \<not> talks e)" using mute_step [OF Cons.prems(1), of op] Cons.prems(2) 1 by simp
  with Cons.IH [of s1, OF _ _ 2] Cons.prems 1 2 show ?case by auto
qed simp

lemma gone_disconnect:
  assumes "conn_inv s"
  shows "gone (fst (cn_disconnect forget s))"
proof -
  let ?s1 = "fst (clearQueuedPackets (clearReconnectTimer (s\<lparr>cn_intentionalClose := True\<rparr>)))"
  have so: "sockets_ok (?s1\<lparr>cn_epoch := cn_epoch ?s1\<rparr>)" and i: "cn_intentionalClose ?s1"
    using assms by (simp_all add: conn_inv_def line_defs clearReconnectTimer_def split: option.splits)
  obtain f es where c: "closeSocket ?s1 = (?s1\<lparr>cn_sockets := f, cn_ws := None\<rparr>, es)" "closed_like (cn_sockets ?s1) f"
    using closeSocket_eq [OF so] by auto
  then show ?thesis using i
    by (auto simp: cn_disconnect_def andThen_def setting_def split_def Let_def c(1) forgetSlotToken_def setStatus_eq updateQueueMetrics_eq gone_def closed_like_def)
qed

section \<open>Attempts to reconnect\<close>

text \<open>
  How an attempt may fail: \<^verbatim>\<open>new WebSocket\<close> throws, the socket reports an error and closes, or it closes without one. A round
  lets the pending timer fire and the attempt fail.
\<close>

datatype DialFailure = Throws string | Errors nat string | Closes nat string

fun failedRound :: "DialFailure \<times> rat \<Rightarrow> WebSocketConnection \<Rightarrow> ConnOp list" where
  "failedRound (Throws msg, rnd) s = [CReconnect (the (cn_reconnectTimer s)) (Some msg) rnd]"
| "failedRound (Errors code reason, rnd) s =
     [CReconnect (the (cn_reconnectTimer s)) None rnd, CErrored (cn_nextSocket s) rnd, CClosed (cn_nextSocket s) code reason rnd]"
| "failedRound (Closes code reason, rnd) s =
     [CReconnect (the (cn_reconnectTimer s)) None rnd, CClosed (cn_nextSocket s) code reason rnd]"

fun failedRounds :: "(DialFailure \<times> rat) list \<Rightarrow> WebSocketConnection \<Rightarrow> WebSocketConnection" where
  "failedRounds [] s = s"
| "failedRounds (f # fs) s = failedRounds fs (fst (conn_run (failedRound f s) s))"

definition retries :: "WebSocketConnection \<Rightarrow> nat" where
  "retries s = maxAttempts (reconnect (cn_profile s))"

text \<open>One timer is pending, and it is the one the connection knows.\<close>

definition pending :: "WebSocketConnection \<Rightarrow> bool" where
  "pending s =
     (conn_inv s \<and> \<not> cn_intentionalClose s \<and> cn_status s = Reconnecting \<and>
      (\<exists>tid d. cn_reconnectTimer s = Some tid \<and> cn_reconnects s = [(tid, d)]))"

definition givenUp :: "WebSocketConnection \<Rightarrow> bool" where
  "givenUp s =
     (conn_inv s \<and> \<not> cn_intentionalClose s \<and> cn_status s = ConnFailed \<and> cn_reconnects s = [] \<and>
      m_lastError (cn_metrics s) = Some ''reconnect_exhausted'')"

text \<open>What \<^verbatim>\<open>scheduleReconnect\<close> makes of a connection without a timer.\<close>

lemma scheduleReconnect_result:
  assumes "\<not> cn_intentionalClose s" "cn_reconnects s = []" "s' = fst (scheduleReconnect rnd s)"
  shows "cn_profile s' = cn_profile s" "cn_nextSocket s' = cn_nextSocket s" "\<not> cn_intentionalClose s'"
    "cn_sockets s' = cn_sockets s" "cn_ws s' = cn_ws s" "cn_epoch s' = cn_epoch s"
    "if cn_reconnectAttempts s < retries s
     then cn_reconnectAttempts s' = cn_reconnectAttempts s + 1 \<and> cn_status s' = Reconnecting \<and>
       cn_reconnectTimer s' = Some (cn_nextTimer s) \<and> cn_reconnects s' = [(cn_nextTimer s, reconnectDelay rnd s)]
     else cn_status s' = ConnFailed \<and> cn_reconnects s' = [] \<and> cn_reconnectAttempts s' = cn_reconnectAttempts s \<and>
       m_lastError (cn_metrics s') = Some ''reconnect_exhausted''"
  using assms by (auto simp: scheduleReconnect_def retries_def line_defs)

text \<open>The state the failed attempt is in when it comes to schedule the next one.\<close>

definition rescheduled :: "WebSocketConnection \<Rightarrow> WebSocketConnection \<Rightarrow> bool" where
  "rescheduled s s' =
     (\<exists>t rnd. cn_profile t = cn_profile s \<and> cn_reconnectAttempts t = cn_reconnectAttempts s \<and> \<not> cn_intentionalClose t \<and> cn_reconnects t = [] \<and>
        cn_status s' = cn_status (fst (scheduleReconnect rnd t)) \<and> cn_metrics s' = cn_metrics (fst (scheduleReconnect rnd t)) \<and>
        cn_profile s' = cn_profile t \<and> cn_intentionalClose s' = cn_intentionalClose (fst (scheduleReconnect rnd t)) \<and>
        cn_reconnectAttempts s' = cn_reconnectAttempts (fst (scheduleReconnect rnd t)) \<and>
        cn_reconnectTimer s' = cn_reconnectTimer (fst (scheduleReconnect rnd t)) \<and> cn_reconnects s' = cn_reconnects (fst (scheduleReconnect rnd t)))"

lemma rescheduled_result:
  assumes "rescheduled s s'" "conn_inv s'"
  shows "if cn_reconnectAttempts s < retries s
    then pending s' \<and> cn_reconnectAttempts s' = cn_reconnectAttempts s + 1 \<and> retries s' = retries s else givenUp s'"
proof -
  obtain t rnd where t: "cn_profile t = cn_profile s" "cn_reconnectAttempts t = cn_reconnectAttempts s" "\<not> cn_intentionalClose t" "cn_reconnects t = []"
      "cn_status s' = cn_status (fst (scheduleReconnect rnd t))" "cn_metrics s' = cn_metrics (fst (scheduleReconnect rnd t))"
      "cn_profile s' = cn_profile t" "cn_intentionalClose s' = cn_intentionalClose (fst (scheduleReconnect rnd t))"
      "cn_reconnectAttempts s' = cn_reconnectAttempts (fst (scheduleReconnect rnd t))"
      "cn_reconnectTimer s' = cn_reconnectTimer (fst (scheduleReconnect rnd t))" "cn_reconnects s' = cn_reconnects (fst (scheduleReconnect rnd t))"
    using assms(1) unfolding rescheduled_def by blast
  from scheduleReconnect_result(3,7) [OF t(3,4) refl, of rnd] show ?thesis
    using t assms(2) by (auto simp: pending_def givenUp_def retries_def split: if_splits)
qed

lemma closeSocket_frame:
  "\<exists>f es. closeSocket s = (s\<lparr>cn_sockets := f, cn_ws := None\<rparr>, es)"
  by (cases s) (auto simp: closeSocket_def updSocket_def split: option.splits intro: exI [of _ "cn_sockets s"])

lemma dial_state:
  assumes "pending s" and u: "u = fst (reconnectFires (the (cn_reconnectTimer s)) None rnd s)"
  shows "cn_profile u = cn_profile s" "cn_reconnectAttempts u = cn_reconnectAttempts s" "\<not> cn_intentionalClose u" "cn_reconnects u = []"
    "cn_ws u = Some (cn_nextSocket s)"
    "cn_sockets u (cn_nextSocket s) = \<lparr>sk_epoch = cn_epoch u, sk_reconnecting = True, sk_opened = False, sk_settled = False,
       sk_ready = WsConnecting, sk_buffered = 0\<rparr>"
proof -
  obtain tid d where t: "cn_reconnectTimer s = Some tid" "cn_reconnects s = [(tid, d)]" "\<not> cn_intentionalClose s"
    using assms(1) by (auto simp: pending_def)
  let ?s1 = "s\<lparr>cn_reconnects := [], cn_epoch := cn_epoch s + 1\<rparr>"
  obtain f es where c: "closeSocket ?s1 = (?s1\<lparr>cn_sockets := f, cn_ws := None\<rparr>, es)" using closeSocket_frame by blast
  show "cn_profile u = cn_profile s" "cn_reconnectAttempts u = cn_reconnectAttempts s" "\<not> cn_intentionalClose u" "cn_reconnects u = []"
    "cn_ws u = Some (cn_nextSocket s)"
    "cn_sockets u (cn_nextSocket s) = \<lparr>sk_epoch = cn_epoch u, sk_reconnecting = True, sk_opened = False, sk_settled = False,
       sk_ready = WsConnecting, sk_buffered = 0\<rparr>"
    using t c by (simp_all add: u reconnectFires_def Let_def map_has_def openConnection_def andThen_def setting_def split_def setStatus_eq)
qed

lemma throws_rescheduled:
  assumes "pending s"
  shows "rescheduled s (fst (reconnectFires (the (cn_reconnectTimer s)) (Some msg) rnd s))"
proof -
  obtain tid d where t: "cn_reconnectTimer s = Some tid" "cn_reconnects s = [(tid, d)]" "\<not> cn_intentionalClose s"
    using assms by (auto simp: pending_def)
  let ?s1 = "s\<lparr>cn_reconnects := [], cn_epoch := cn_epoch s + 1\<rparr>"
  obtain f es where c: "closeSocket ?s1 = (?s1\<lparr>cn_sockets := f, cn_ws := None\<rparr>, es)" using closeSocket_frame by blast
  let ?t = "?s1\<lparr>cn_sockets := f, cn_ws := None, cn_status := Reconnecting\<rparr>"
  have "fst (reconnectFires (the (cn_reconnectTimer s)) (Some msg) rnd s) = fst (scheduleReconnect rnd ?t)"
    using t c by (simp add: reconnectFires_def Let_def map_has_def openConnection_def andThen_def setting_def split_def setStatus_eq openRejected_def)
  moreover have "cn_profile (fst (scheduleReconnect rnd ?t)) = cn_profile ?t"
    using t by (intro scheduleReconnect_result(1)) simp_all
  ultimately show ?thesis unfolding rescheduled_def using t by (intro exI [of _ ?t] exI [of _ rnd]) simp
qed

text \<open>The close event of a socket that has failed before only removes it.\<close>

lemma onClose_failed:
  assumes "cn_ws t = Some k" "sk_epoch (cn_sockets t k) = cn_epoch t" "\<not> sk_opened (cn_sockets t k)" "sk_settled (cn_sockets t k)"
    "sk_ready (cn_sockets t k) \<noteq> WsClosed"
  shows "fst (onClose k code reason rnd t) = t\<lparr>cn_sockets := (cn_sockets t)(k := (cn_sockets t k)\<lparr>sk_ready := WsClosed\<rparr>), cn_ws := None\<rparr>"
  using assms by (simp add: onClose_def Let_def updSocket_def rejectOnce_def)

lemma round_rescheduled:
  assumes "pending s"
  shows "rescheduled s (fst (conn_run (failedRound f s) s))"
proof -
  obtain how rnd where f: "f = (how, rnd)" by (cases f)
  let ?k = "cn_nextSocket s"
  define u where "u = fst (reconnectFires (the (cn_reconnectTimer s)) None rnd s)"
  note d = dial_state [OF assms u_def]
  show ?thesis
  proof (cases how)
    case (Throws msg)
    then show ?thesis using throws_rescheduled [OF assms, of msg rnd] f by (simp add: silently_def split_def Let_def)
  next
    case (Errors code reason)
    define t where "t = u\<lparr>cn_sockets := (cn_sockets u)(?k := (cn_sockets u ?k)\<lparr>sk_ready := WsClosing, sk_settled := True\<rparr>)\<rparr>"
    define v where "v = fst (scheduleReconnect rnd t)"
    have t: "\<not> cn_intentionalClose t" "cn_reconnects t = []" "cn_profile t = cn_profile s" "cn_reconnectAttempts t = cn_reconnectAttempts s"
        "cn_ws t = Some ?k" "cn_epoch t = cn_epoch u"
        "cn_sockets t ?k = \<lparr>sk_epoch = cn_epoch u, sk_reconnecting = True, sk_opened = False, sk_settled = True, sk_ready = WsClosing, sk_buffered = 0\<rparr>"
      using d by (simp_all add: t_def)
    have e: "fst (onError ?k rnd u) = v"
      using d by (simp add: v_def t_def onError_def Let_def updSocket_def rejectOnce_def openRejected_def)
    note v = scheduleReconnect_result(1-6) [OF t(1,2) v_def]
    have "fst (onClose ?k code reason rnd v) = v\<lparr>cn_sockets := (cn_sockets v)(?k := (cn_sockets v ?k)\<lparr>sk_ready := WsClosed\<rparr>), cn_ws := None\<rparr>"
      by (rule onClose_failed) (simp_all add: v t)
    then have "fst (conn_run (failedRound f s) s) = v\<lparr>cn_sockets := (cn_sockets v)(?k := (cn_sockets v ?k)\<lparr>sk_ready := WsClosed\<rparr>), cn_ws := None\<rparr>"
      using f Errors e by (simp add: silently_def split_def Let_def u_def [symmetric])
    then show ?thesis unfolding rescheduled_def using v t by (intro exI [of _ t] exI [of _ rnd]) (simp add: v_def)
  next
    case (Closes code reason)
    let ?t = "u\<lparr>cn_ws := None, cn_sockets := (cn_sockets u)(?k := (cn_sockets u ?k)\<lparr>sk_ready := WsClosed, sk_settled := True\<rparr>)\<rparr>"
    let ?v = "fst (scheduleReconnect rnd ?t)"
    have "fst (onClose ?k code reason rnd u) = ?v"
      using d by (simp add: onClose_def Let_def updSocket_def rejectOnce_def openRejected_def)
    then have "fst (conn_run (failedRound f s) s) = ?v" using f Closes by (simp add: silently_def split_def Let_def u_def [symmetric])
    then show ?thesis unfolding rescheduled_def using scheduleReconnect_result(1) [of ?t ?v rnd] d by (intro exI [of _ ?t] exI [of _ rnd]) simp
  qed
qed

lemma givenUp_round:
  assumes "givenUp s"
  shows "fst (conn_run (failedRound f s) s) = s"
proof -
  have "sk_ready (cn_sockets s (cn_nextSocket s)) = WsClosed" "cn_reconnects s = []"
    using assms sockets_okD [of s "cn_nextSocket s"] by (auto simp: givenUp_def conn_inv_def socket_ok_def)
  then show ?thesis
    by (cases "(f, s)" rule: failedRound.cases) (simp_all add: silently_def reconnectFires_def onError_def onClose_def map_has_def)
qed

lemma givenUp_rounds: "givenUp s \<Longrightarrow> givenUp (failedRounds fs s)"
  by (induction fs arbitrary: s) (simp_all add: givenUp_round)

lemma pending_rounds:
  assumes "pending s" "cn_reconnectAttempts s \<le> retries s"
  shows "if length fs + cn_reconnectAttempts s \<le> retries s then pending (failedRounds fs s) else givenUp (failedRounds fs s)"
  using assms
proof (induction fs arbitrary: s)
  case (Cons f fs)
  let ?s' = "fst (conn_run (failedRound f s) s)"
  have "conn_inv ?s'" using Cons.prems(1) by (simp add: pending_def conn_inv_run)
  note r = rescheduled_result [OF round_rescheduled [OF Cons.prems(1), of f] this]
  show ?case
  proof (cases "cn_reconnectAttempts s < retries s")
    case True
    then show ?thesis using Cons.IH [of ?s'] r by auto
  next
    case False
    then show ?thesis using givenUp_rounds [of ?s' fs] r by auto
  qed
qed simp

lemma lost_rescheduled:
  assumes "conn_inv s" "cn_status s = Connected" "cn_ws s = Some k" "\<not> cn_intentionalClose s" "cn_reconnects s = []"
    "code \<noteq> 4000" "reason \<noteq> ''session ended''"
  shows "rescheduled s (fst (onClose k code reason rnd s))"
proof -
  have k: "sk_epoch (cn_sockets s k) = cn_epoch s" "sk_ready (cn_sockets s k) \<noteq> WsClosed" "sk_opened (cn_sockets s k)"
    using assms(1-3) sockets_okD [of s k] by (auto simp: conn_inv_def socket_ok_def status_ok_def)
  define u where "u = (updSocket k (\<lambda>sk. sk\<lparr>sk_ready := WsClosed\<rparr>) s)\<lparr>cn_ws := None\<rparr>"
  define t where "t = fst (clearQueuedPackets u)"
  have t: "cn_profile t = cn_profile s" "cn_reconnectAttempts t = cn_reconnectAttempts s" "\<not> cn_intentionalClose t" "cn_reconnects t = []"
    using assms(4,5) by (simp_all add: t_def u_def line_defs updSocket_def)
  have "fst (onClose k code reason rnd s) = fst (scheduleReconnect rnd t)"
  proof -
    have "onClose k code reason rnd s = andThen clearQueuedPackets (scheduleReconnect rnd) u"
      using k assms(3-) by (simp add: onClose_def Let_def u_def updSocket_def)
    then show ?thesis by (simp only: fst_andThen t_def)
  qed
  then show ?thesis unfolding rescheduled_def using t scheduleReconnect_result(1) [OF t(3,4) refl, of rnd]
    by (intro exI [of _ t] exI [of _ rnd]) simp
qed

section \<open>A concrete connection\<close>

definition demoToken :: string where
  "demoToken = ''0123456789abcdef0123456789abcdef''"

definition demoConnected :: WebSocketConnection where
  "demoConnected = fst (conn_run [CConnect ''room'' demoToken None, COpened 0] (newConnection (PROFILES VoiceFirst) None))"

lemma conn_inv_demo: "conn_inv demoConnected"
  unfolding demoConnected_def by (intro conn_inv_run conn_inv_new)

lemma sch_next_new: "sch_next (newScheduler p) = (newScheduler p, None)"
  by (cases rule: sch_next_cases [of "newScheduler p"]) (auto simp: newScheduler_def emptyLane_def)

lemma demoConnected_state:
  "cn_status demoConnected = Connected" "cn_ws demoConnected = Some 0" "\<not> cn_intentionalClose demoConnected" "cn_reconnects demoConnected = []"
  "cn_reconnectAttempts demoConnected = 0" "cn_profile demoConnected = PROFILES VoiceFirst"
  "isOpen demoConnected" "waiting (cn_scheduler demoConnected) l = []" "sch_profile (cn_scheduler demoConnected) = PROFILES VoiceFirst"
proof -
  note eval = demoConnected_def silently_def split_def Let_def cn_connect_def fst_andThen setting_def getOrCreateSlotToken_def openConnection_def
    closeSocket_def setStatus_eq newConnection_def onOpen_def updSocket_def drain_def clearDrainTimer_def isOpen_def buffered_def drainLoop.simps
    sch_next_new line_defs resolveOnce_def
  show "cn_status demoConnected = Connected" "cn_ws demoConnected = Some 0" "\<not> cn_intentionalClose demoConnected" "cn_reconnects demoConnected = []"
    "cn_reconnectAttempts demoConnected = 0" "cn_profile demoConnected = PROFILES VoiceFirst"
    "isOpen demoConnected" "waiting (cn_scheduler demoConnected) l = []" "sch_profile (cn_scheduler demoConnected) = PROFILES VoiceFirst"
    by (simp_all add: eval) (simp_all add: newScheduler_def emptyLane_def)
qed

section \<open>Properties\<close>

text \<open>
  C11. The attempts to reconnect end. A connected connection that loses its socket (a close that is neither intended nor the end
  of the session) and whose every attempt to reconnect fails, however it fails, keeps exactly one attempt scheduled until it has
  made as many as the profile allows, and then reports failure, with the error recorded and no timer left.
\<close>

theorem reconnecting_ends:
  assumes "conn_inv s" "cn_status s = Connected" "cn_ws s = Some k" "\<not> cn_intentionalClose s" "cn_reconnects s = []"
    and "code \<noteq> 4000" "reason \<noteq> ''session ended''"
    and "s' = failedRounds fs (fst (conn_step (CClosed k code reason rnd) s))"
  shows "if length fs + cn_reconnectAttempts s < maxAttempts (reconnect (cn_profile s))
    then cn_status s' = Reconnecting \<and> length (cn_reconnects s') = 1
    else cn_status s' = ConnFailed \<and> cn_reconnects s' = [] \<and> m_lastError (cn_metrics s') = Some ''reconnect_exhausted''"
proof -
  let ?s1 = "fst (onClose k code reason rnd s)"
  have s': "s' = failedRounds fs ?s1" using assms(8) by simp
  have "conn_inv ?s1" using conn_inv_onClose [OF assms(1)] .
  note r = rescheduled_result [OF lost_rescheduled [OF assms(1-7)] this]
  show ?thesis
  proof (cases "cn_reconnectAttempts s < retries s")
    case True
    with r have "pending ?s1" "cn_reconnectAttempts ?s1 = cn_reconnectAttempts s + 1" "retries ?s1 = retries s" by simp_all
    then show ?thesis using pending_rounds [of ?s1 fs] True s' by (auto simp: pending_def givenUp_def retries_def split: if_splits)
  next
    case False
    with r have "givenUp ?s1" by simp
    then show ?thesis using givenUp_rounds [of ?s1 fs] False s' by (auto simp: givenUp_def retries_def)
  qed
qed

theorem reconnecting_ends_witness:
  "let s' = failedRounds (replicate 20 (Errors 1006 '''', 1 / 2)) (fst (conn_step (CClosed 0 1006 '''' 0) demoConnected))
   in cn_status s' = ConnFailed \<and> cn_reconnects s' = [] \<and> m_lastError (cn_metrics s') = Some ''reconnect_exhausted''"
proof -
  have "maxAttempts (reconnect (PROFILES VoiceFirst)) \<le> 20" by (simp add: profile_defs)
  then show ?thesis
    using reconnecting_ends [OF conn_inv_demo demoConnected_state(1-4), of 1006 "''''" _ "replicate 20 (Errors 1006 '''', 1 / 2)" 0]
    by (auto simp: Let_def demoConnected_state simp del: failedRounds.simps conn_step.simps split: if_splits)
qed

text \<open>
  C13. Disconnect is final. After \<^verbatim>\<open>disconnect\<close>, whatever the sockets and timers of the past still report and whatever the client
  calls short of \<^verbatim>\<open>connect\<close>, the connection stays disconnected: it opens no socket, sends no frame and no command, passes no
  envelope on and reports no status.
\<close>

theorem disconnect_is_final:
  assumes "conn_inv s" and "list_all (\<lambda>op. \<not> connects op) ops"
    and "conn_run ops (fst (conn_step (CDisconnect forget) s)) = (s', es, acc)"
  shows "cn_status s' = Disconnected \<and> cn_ws s' = None \<and> (\<forall>e \<in> set es. \<not> talks e)"
proof -
  have "gone (fst (conn_step (CDisconnect forget) s))" using gone_disconnect [OF assms(1)] by simp
  from mute_run [OF this assms(2,3)] show ?thesis by (simp add: gone_def)
qed

theorem disconnect_is_final_witness:
  "\<exists>s' es acc. conn_run [COpened 0, CReconnect 1 None 0, CClosed 0 1006 '''' 0] (fst (conn_step (CDisconnect True) demoConnected)) = (s', es, acc) \<and>
     cn_status s' = Disconnected"
proof -
  obtain s' es acc where r: "conn_run [COpened 0, CReconnect 1 None 0, CClosed 0 1006 '''' 0] (fst (conn_step (CDisconnect True) demoConnected)) = (s', es, acc)"
    by (metis prod_cases3)
  from disconnect_is_final [OF conn_inv_demo _ r] show ?thesis using r by auto
qed

text \<open>
  C12. Frames leave in order. Whatever happens to the connection (sockets that open, fail, close and are replaced, buffers that
  fill, profiles that change), the frames of a lane that were handed to a socket followed by those that still wait are frames
  that \<^verbatim>\<open>send\<close> accepted, each at most once and in the order of acceptance.
\<close>

theorem frames_leave_in_order:
  assumes "conn_run ops (newConnection p storage) = (s, es, acc)"
  shows "subseq (on_lane l (sentPackets es) @ waiting (cn_scheduler s) l) (on_lane l acc)"
  using lane_step_run [OF conn_inv_new assms, of l] by (simp add: lane_step_def newConnection_def newScheduler_def emptyLane_def)

theorem frames_leave_in_order_witness:
  "\<exists>s es acc. conn_run [CConnect ''room'' demoToken None, COpened 0] (newConnection (PROFILES VoiceFirst) None) = (s, es, acc) \<and>
     subseq (on_lane Text (sentPackets es) @ waiting (cn_scheduler s) Text) (on_lane Text acc)"
  using frames_leave_in_order by (metis prod_cases3)

text \<open>
  C31. The reliable lanes lose nothing on the way. On a lane other than voice whose profile does not drop, as long as the queue is
  not thrown away on purpose (disconnect, loss of the socket, an explicit clear), what waited and what was accepted since is
  exactly what was handed to the sockets and what still waits, in the same order.
\<close>

theorem reliable_frames_are_kept:
  assumes "conn_inv s" and "l \<noteq> Voice" and "dropPolicy (lanes (sch_profile (cn_scheduler s)) l) = Fail"
    and "list_all (keeps_lane l) ops" and "conn_run ops s = (s', es, acc)"
  shows "on_lane l (sentPackets es) @ waiting (cn_scheduler s') l = waiting (cn_scheduler s) l @ on_lane l acc"
  using lane_step_run_lossless [OF assms(1) _ assms(4,5)] assms(2,3) by (simp add: lossless_def lane_step_def)

theorem reliable_frames_are_kept_witness:
  "\<exists>s' es acc. conn_run [CYielded, CFlushed 0 10, CDrainTimer] demoConnected = (s', es, acc) \<and>
     on_lane Text (sentPackets es) @ waiting (cn_scheduler s') Text = waiting (cn_scheduler demoConnected) Text @ on_lane Text acc"
proof -
  obtain s' es acc where r: "conn_run [CYielded, CFlushed 0 10, CDrainTimer] demoConnected = (s', es, acc)" by (metis prod_cases3)
  have "dropPolicy (lanes (sch_profile (cn_scheduler demoConnected)) Text) = Fail"
    unfolding demoConnected_state by (simp add: profile_defs cloneLaneBudgets_def no_override_def)
  from reliable_frames_are_kept [OF conn_inv_demo _ this _ r] show ?thesis using r by auto
qed

text \<open>
  C32. One socket at a time. In every run at most the current socket is connecting or open; the status is connected exactly when
  the current socket has been open; the queue's counters are exact; and while the socket is open, waiting packets have a drain
  loop that will resume or a timer that will start one.
\<close>

theorem one_live_socket:
  assumes "s = fst (conn_run ops (newConnection p storage))"
  shows "(\<forall>k. live (sk_ready (cn_sockets s k)) \<longrightarrow> cn_ws s = Some k) \<and>
    (cn_status s = Connected \<longleftrightarrow> (\<exists>k. cn_ws s = Some k \<and> sk_opened (cn_sockets s k))) \<and> accounting (cn_scheduler s) \<and>
    (isOpen s \<and> (\<exists>l. waiting (cn_scheduler s) l \<noteq> []) \<longrightarrow> cn_yielded s \<or> cn_drainTimer s)"
proof -
  have inv: "conn_inv s" unfolding assms by (intro conn_inv_run conn_inv_new)
  then have "live (sk_ready (cn_sockets s k)) \<longrightarrow> cn_ws s = Some k" for k
    using sockets_okD [of s k] by (simp add: conn_inv_def socket_ok_def)
  then show ?thesis using inv by (auto simp: conn_inv_def status_ok_def attended_def)
qed

theorem one_live_socket_witness:
  "cn_ws demoConnected = Some 0 \<and> sk_opened (cn_sockets demoConnected 0)"
  using one_live_socket [OF demoConnected_def] by (simp add: demoConnected_state)

end
