(* ===== verification/Negotiation.thy ===== *)
theory Negotiation
  imports Profiles Bytes Messages "HOL-Library.List_Lexorder" "HOL-Library.Char_ord"
begin

text \<open>
  What two sides agree on (\<^verbatim>\<open>protocol/negotiation.ts\<close>, \<^verbatim>\<open>profileHashInput\<close> of \<^verbatim>\<open>config/profiles.ts\<close>): the hash of the profile and
  the phrase people compare. The digest is a parameter.
\<close>

section \<open>JSON texts\<close>

text \<open>\<^verbatim>\<open>JSON.stringify\<close> on the strings, integers, arrays and objects used here.\<close>

definition jsonEscape :: "char \<Rightarrow> string" where
  "jsonEscape c =
     (if c = CHR 0x22 then [CHR 0x5C, CHR 0x22]
      else if c = CHR 0x5C then [CHR 0x5C, CHR 0x5C]
      else if c = CHR 0x08 then [CHR 0x5C] @ ''b''
      else if c = CHR 0x0C then [CHR 0x5C] @ ''f''
      else if c = CHR 0x0A then [CHR 0x5C] @ ''n''
      else if c = CHR 0x0D then [CHR 0x5C] @ ''r''
      else if c = CHR 0x09 then [CHR 0x5C] @ ''t''
      else if of_char c < (32 :: nat) then [CHR 0x5C] @ ''u00'' @ [hexDigit (of_char c div 16), hexDigit (of_char c mod 16)]
      else [c])"

definition jsonString :: "string \<Rightarrow> string" where
  "jsonString s = [CHR 0x22] @ concat (map jsonEscape s) @ [CHR 0x22]"

definition jsonInt :: "int \<Rightarrow> string" where
  "jsonInt i = (if i < 0 then ''-'' @ js_show_nat (nat (- i)) else js_show_nat (nat i))"

abbreviation jsonNat :: "nat \<Rightarrow> string" where
  "jsonNat n \<equiv> js_show_nat n"

definition jsonBool :: "bool \<Rightarrow> string" where
  "jsonBool b = (if b then ''true'' else ''false'')"

fun joinWith :: "string \<Rightarrow> string list \<Rightarrow> string" where
  "joinWith sep [] = ''''"
| "joinWith sep [x] = x"
| "joinWith sep (x # xs) = x @ sep @ joinWith sep xs"

definition jsonArray :: "string list \<Rightarrow> string" where
  "jsonArray xs = ''['' @ joinWith '','' xs @ '']''"

definition jsonObject :: "(string \<times> string) list \<Rightarrow> string" where
  "jsonObject kvs = ''{'' @ joinWith '','' (map (\<lambda>(k, v). jsonString k @ '':'' @ v) kvs) @ ''}''"

section \<open>The hash of a profile\<close>

fun dropPolicyString :: "DropPolicy \<Rightarrow> string" where
  "dropPolicyString Fail = ''fail''"
| "dropPolicyString DropOldest = ''drop-oldest''"

fun voiceModeString :: "VoicePrivacyMode \<Rightarrow> string" where
  "voiceModeString Efficient = ''efficient''"
| "voiceModeString MaxPrivacyMode = ''maximum_privacy''"

definition laneJson :: "LaneBudget \<Rightarrow> string" where
  "laneJson b = jsonObject [(''priority'', jsonNat (priority b)), (''maxPackets'', jsonNat (maxPackets b)),
     (''maxBytes'', jsonNat (maxBytes b)), (''dropPolicy'', jsonString (dropPolicyString (dropPolicy b)))]"

definition outboxJson :: "OutboxConfig \<Rightarrow> string" where
  "outboxJson ob = jsonObject [(''maxPackets'', jsonNat (outboxMaxPackets ob)), (''maxBytes'', jsonNat (outboxMaxBytes ob)),
     (''maxBufferedAmountBytes'', jsonNat (maxBufferedAmountBytes ob)),
     (''resumeBufferedAmountBytes'', jsonNat (resumeBufferedAmountBytes ob)), (''drainYieldMs'', jsonNat (drainYieldMs ob))]"

definition reconnectJson :: "ReconnectConfig \<Rightarrow> string" where
  "reconnectJson r = jsonObject [(''maxAttempts'', jsonNat (maxAttempts r)), (''baseDelayMs'', jsonNat (baseDelayMs r)),
     (''maxDelayMs'', jsonNat (maxDelayMs r)), (''jitterMs'', jsonNat (jitterMs r))]"

definition filesJson :: "FilesConfig \<Rightarrow> string" where
  "filesJson f = jsonObject [(''smallBytes'', jsonNat (smallBytes f)), (''mediumBytes'', jsonNat (mediumBytes f)),
     (''maxFileBytes'', jsonNat (maxFileBytes f)), (''maxMemoryReceiveBytes'', jsonNat (maxMemoryReceiveBytes f)),
     (''chunkBytes'', jsonNat (chunkBytes f)), (''windowChunks'', jsonNat (windowChunks f)),
     (''ackTimeoutMs'', jsonNat (ackTimeoutMs f)), (''maxRetries'', jsonNat (maxRetries f))]"

definition voiceJson :: "VoiceConfig \<Rightarrow> string" where
  "voiceJson v = jsonObject [(''enabled'', jsonBool (voiceEnabled v)), (''mode'', jsonString (voiceModeString (voiceMode v))),
     (''codec'', jsonString ''pcm16''), (''frameMs'', jsonNat (frameMs v)), (''jitterTargetMs'', jsonNat (jitterTargetMs v)),
     (''jitterMaxFrames'', jsonNat (jitterMaxFrames v)), (''vadEnabled'', jsonBool (vadEnabled v)),
     (''vadStartDb'', jsonInt (vadStartDb v)), (''vadStopDb'', jsonInt (vadStopDb v)), (''vadPreRollMs'', jsonNat (vadPreRollMs v)),
     (''vadHangoverMs'', jsonNat (vadHangoverMs v)), (''vadMinSpeechMs'', jsonNat (vadMinSpeechMs v)),
     (''maxQueuedLatencyMs'', jsonNat (maxQueuedLatencyMs v))]"

text \<open>The lanes in the order in which \<^verbatim>\<open>cloneLaneBudgets\<close> builds the object.\<close>

definition profileHashInput :: "TransportProfile \<Rightarrow> string" where
  "profileHashInput p =
     jsonObject [(''id'', jsonString (profileIdString (profileId p))), (''protocolVersion'', jsonNat (protocolVersion p)),
       (''maxFrameBytes'', jsonNat (maxFrameBytes p)), (''paddingBuckets'', jsonArray (map (\<lambda>n. jsonNat n) (paddingBuckets p))),
       (''maxSkippedMessageKeys'', jsonNat (maxSkippedMessageKeys p)), (''outbox'', outboxJson (outbox p)),
       (''lanes'', jsonObject [(''control'', laneJson (lanes p Control)), (''voice'', laneJson (lanes p Voice)),
          (''text'', laneJson (lanes p Text)), (''file'', laneJson (lanes p File))]),
       (''reconnect'', reconnectJson (reconnect p)), (''files'', filesJson (files p)), (''voice'', voiceJson (voice p))]"

text \<open>The hash, of the digest of the text.\<close>

definition profileHashOf :: "bytes \<Rightarrow> string" where
  "profileHashOf digest = bytesToHex (take 16 digest)"

definition profileHash :: "(bytes \<Rightarrow> bytes) \<Rightarrow> TransportProfile \<Rightarrow> string" where
  "profileHash sha256 p = profileHashOf (sha256 (utf8Encode (profileHashInput p)))"

section \<open>The phrase\<close>

definition WORDS :: "string list" where
  "WORDS =
     [''river'', ''lunar'', ''copper'', ''hawk'', ''signal'', ''stone'', ''violet'', ''orbit'', ''cedar'', ''silver'', ''ember'',
      ''north'', ''silent'', ''anchor'', ''prism'', ''comet'', ''field'', ''winter'', ''summit'', ''clear'', ''falcon'',
      ''harbor'', ''magnet'', ''solar'', ''forest'', ''quartz'', ''velvet'', ''island'', ''canyon'', ''brave'', ''delta'',
      ''marble'', ''radar'', ''willow'', ''aurora'', ''coral'', ''sable'', ''meteor'', ''bison'', ''atlas'', ''frost'', ''olive'',
      ''binary'', ''echo'', ''granite'', ''lotus'', ''nebula'', ''onyx'', ''pixel'', ''raven'', ''saffron'', ''tundra'',
      ''umbra'', ''vector'', ''yonder'', ''zenith'', ''amber'', ''brook'', ''cipher'', ''drift'', ''forge'', ''meadow'',
      ''plain'', ''root'']"

definition APP_VERSION :: string where
  "APP_VERSION = ''onlytwo-client-2.0.0-beta.3''"

definition FEATURE_FLAGS :: "string list" where
  "FEATURE_FLAGS =
     [''text.v2'', ''file.window.v1'', ''voice.pcm16.v2'', ''verify.phrase.v1'', ''reliable.v1'', ''voice.vad.v1'',
      ''voice.queue.v1'', ''relay.lifecycle.v1'', ''room.profile.v1'']"

definition orderedPair :: "string \<Rightarrow> string \<Rightarrow> string \<times> string" where
  "orderedPair local peer = (if local < peer then (local, peer) else (peer, local))"

text \<open>The text that is digested, of the digest of the session code and the hash of the profile.\<close>

definition phraseMaterial :: "bytes \<Rightarrow> string \<Rightarrow> bytes \<Rightarrow> bytes \<Rightarrow> TransportProfile \<Rightarrow> string \<Rightarrow> string list \<Rightarrow> string" where
  "phraseMaterial sessionDigest hash localPublicKey peerPublicKey p peerAppVersion peerFeatureFlags =
     (let (a, b) = orderedPair (bytesToHex localPublicKey) (bytesToHex peerPublicKey)
      in jsonObject [(''app'', jsonString ''onlytwo''), (''appVersion'', jsonString APP_VERSION),
           (''peerAppVersion'', jsonString peerAppVersion), (''featureFlags'', jsonArray (map jsonString FEATURE_FLAGS)),
           (''peerFeatureFlags'', jsonArray (map jsonString (sort peerFeatureFlags))),
           (''protocolVersion'', jsonNat (protocolVersion p)), (''profileHash'', jsonString hash),
           (''sessionCodeHash'', jsonString (bytesToHex (take 16 sessionDigest))), (''identityA'', jsonString a),
           (''identityB'', jsonString b)])"

definition phraseOf :: "bytes \<Rightarrow> string" where
  "phraseOf digest = joinWith '' '' (map (\<lambda>b. WORDS ! unat (and b 63)) (take 8 digest))"

definition verificationPhrase ::
    "(bytes \<Rightarrow> bytes) \<Rightarrow> bytes \<Rightarrow> bytes \<Rightarrow> TransportProfile \<Rightarrow> string \<Rightarrow> string \<Rightarrow> string list \<Rightarrow> string" where
  "verificationPhrase sha256 localPublicKey peerPublicKey p sessionCode peerAppVersion peerFeatureFlags =
     phraseOf (sha256 (utf8Encode (phraseMaterial (sha256 (utf8Encode sessionCode)) (profileHash sha256 p)
       localPublicKey peerPublicKey p peerAppVersion peerFeatureFlags)))"

section \<open>Both sides see the same phrase\<close>

lemma orderedPair_sym: "orderedPair x y = orderedPair y x"
  by (auto simp: orderedPair_def)

lemma sort_mset: "mset xs = mset ys \<Longrightarrow> sort xs = sort ys"
  by (metis properties_for_sort mset_sort sorted_sort)

lemma phraseMaterial_sym:
  assumes "mset flags = mset flags'"
  shows "phraseMaterial sd h x y p v flags = phraseMaterial sd h y x p v flags'"
  using sort_mset [OF assms] by (simp add: phraseMaterial_def orderedPair_sym)

section \<open>The phrase is bound to the keys\<close>

lemma hexDigit_inj: "m < 16 \<Longrightarrow> n < 16 \<Longrightarrow> hexDigit m = hexDigit n \<Longrightarrow> m = n"
  by (simp add: hexDigit_def less_Suc_eq numeral_eq_Suc) (elim disjE; simp)

lemma bytesToHex_inj: "bytesToHex xs = bytesToHex ys \<Longrightarrow> xs = ys"
proof (induction xs arbitrary: ys)
  case Nil
  then show ?case by (cases ys) (simp_all add: bytesToHex_def)
next
  case (Cons x xs)
  then obtain y ys' where ys: "ys = y # ys'" by (cases ys) (simp_all add: bytesToHex_def)
  have "hexDigit (unat x div 16) = hexDigit (unat y div 16)" "hexDigit (unat x mod 16) = hexDigit (unat y mod 16)"
      "bytesToHex xs = bytesToHex ys'"
    using Cons.prems ys by (simp_all add: bytesToHex_def)
  moreover have "unat x < 256" "unat y < 256" by (rule unat_byte_less)+
  ultimately have "unat x div 16 = unat y div 16" "unat x mod 16 = unat y mod 16"
    by (auto intro!: hexDigit_inj)
  then have "unat x = unat y" by (metis div_mult_mod_eq)
  then show ?case using Cons.IH [OF \<open>bytesToHex xs = bytesToHex ys'\<close>] ys by (simp add: word_unat_eq_iff)
qed

lemma joinWith_snoc: "xs \<noteq> [] \<Longrightarrow> joinWith sep (xs @ [x]) = joinWith sep xs @ sep @ x"
  by (induction sep xs rule: joinWith.induct) auto

lemma jsonEscape_hexDigit: "n < 16 \<Longrightarrow> jsonEscape (hexDigit n) = [hexDigit n]"
  by (simp add: hexDigit_def less_Suc_eq numeral_eq_Suc) (elim disjE; simp add: jsonEscape_def)

lemma jsonString_hex: "jsonString (bytesToHex bs) = [CHR 0x22] @ bytesToHex bs @ [CHR 0x22]"
proof -
  have "unat b div 16 < 16" for b :: byte using unat_byte_less [of b] by auto
  then have "concat (map jsonEscape (bytesToHex bs)) = bytesToHex bs"
    by (induction bs) (simp_all add: bytesToHex_def jsonEscape_hexDigit)
  then show ?thesis by (simp add: jsonString_def)
qed

definition identitySuffix :: "string \<Rightarrow> string \<Rightarrow> string" where
  "identitySuffix a b = '','' @ jsonString ''identityA'' @ '':'' @ [CHR 0x22] @ a @ [CHR 0x22] @
     '','' @ jsonString ''identityB'' @ '':'' @ [CHR 0x22] @ b @ [CHR 0x22] @ ''}''"

lemma identitySuffix_inj:
  assumes "length a = length a'" "identitySuffix a b = identitySuffix a' b'"
  shows "a = a' \<and> b = b'"
  using assms by (simp add: identitySuffix_def)

lemma jsonObject_suffix:
  assumes "kvs \<noteq> []"
  shows "\<exists>prefix. jsonObject (kvs @ [(k, u), (l, w)]) =
    prefix @ '','' @ jsonString k @ '':'' @ u @ '','' @ jsonString l @ '':'' @ w @ ''}''"
  using assms joinWith_snoc [of "map (\<lambda>(k, v). jsonString k @ '':'' @ v) kvs" "'',''"]
    joinWith_snoc [of "map (\<lambda>(k, v). jsonString k @ '':'' @ v) kvs @ [jsonString k @ '':'' @ u]" "'',''"]
  by (simp add: jsonObject_def)

lemma phraseMaterial_suffix:
  "\<exists>prefix. phraseMaterial sd h x y p v flags =
     prefix @ (case orderedPair (bytesToHex x) (bytesToHex y) of (a, b) \<Rightarrow> identitySuffix a b)"
proof -
  obtain a b where ab: "orderedPair (bytesToHex x) (bytesToHex y) = (a, b)" by fastforce
  then have hex: "jsonString a = [CHR 0x22] @ a @ [CHR 0x22]" "jsonString b = [CHR 0x22] @ b @ [CHR 0x22]"
    using jsonString_hex by (auto simp: orderedPair_def split: if_splits)
  obtain kvs where "kvs \<noteq> []" "phraseMaterial sd h x y p v flags = jsonObject (kvs @ [(''identityA'', jsonString a), (''identityB'', jsonString b)])"
  proof
    let ?kvs = "[(''app'', jsonString ''onlytwo''), (''appVersion'', jsonString APP_VERSION),
           (''peerAppVersion'', jsonString v), (''featureFlags'', jsonArray (map jsonString FEATURE_FLAGS)),
           (''peerFeatureFlags'', jsonArray (map jsonString (sort flags))),
           (''protocolVersion'', jsonNat (protocolVersion p)), (''profileHash'', jsonString h),
           (''sessionCodeHash'', jsonString (bytesToHex (take 16 sd)))]"
    show "?kvs \<noteq> []" by simp
    show "phraseMaterial sd h x y p v flags = jsonObject (?kvs @ [(''identityA'', jsonString a), (''identityB'', jsonString b)])"
      by (simp add: phraseMaterial_def Let_def ab)
  qed
  then show ?thesis
    using jsonObject_suffix [of kvs "''identityA''" "jsonString a" "''identityB''" "jsonString b"] by (simp add: ab identitySuffix_def hex)
qed

lemma phraseMaterial_binds:
  assumes "phraseMaterial sd h x y p v flags = phraseMaterial sd' h' x' y' p' v' flags'"
    and "length x = n" "length y = n" "length x' = n" "length y' = n"
  shows "{x, y} = {x', y'}"
proof -
  obtain a b where ab: "orderedPair (bytesToHex x) (bytesToHex y) = (a, b)" by fastforce
  obtain a' b' where ab': "orderedPair (bytesToHex x') (bytesToHex y') = (a', b')" by fastforce
  have len: "length a = 2 * n" "length b = 2 * n" "length a' = 2 * n" "length b' = 2 * n"
    using ab ab' assms(2-) by (auto simp: orderedPair_def split: if_splits)
  then have "length (identitySuffix a b) = length (identitySuffix a' b')" by (simp add: identitySuffix_def)
  then have "identitySuffix a b = identitySuffix a' b'"
    using phraseMaterial_suffix [of sd h x y p v flags] phraseMaterial_suffix [of sd' h' x' y' p' v' flags'] assms(1) ab ab' by auto
  then have "a = a' \<and> b = b'" using len by (intro identitySuffix_inj) simp_all
  then show ?thesis using ab ab' by (auto simp: orderedPair_def split: if_splits dest: bytesToHex_inj)
qed

lemma of_nat_byte_eq: "m < 256 \<Longrightarrow> n < 256 \<Longrightarrow> (of_nat m :: byte) = of_nat n \<longleftrightarrow> m = n"
  by (metis unat_of_nat_byte mod_less)

lemma utf8Char_inj:
  assumes "utf8Char c @ r = utf8Char d @ r'"
  shows "c = d \<and> r = r'"
proof -
  let ?m = "of_char c :: nat" and ?n = "of_char d :: nat"
  have lt: "?m < 256" "?n < 256" by simp_all
  have dv: "?m div 64 < 4" "?n div 64 < 4" using lt by (simp_all add: less_mult_imp_div_less)
  have "?m = ?n \<and> r = r'"
  proof (cases "?m < 128"; cases "?n < 128")
    assume "?m < 128" "?n < 128"
    then show ?thesis using assms lt by (simp add: utf8Char_def of_nat_byte_eq)
  next
    assume a: "?m < 128" "\<not> ?n < 128"
    then have "(of_nat ?m :: byte) = of_nat (192 + ?n div 64)" using assms by (simp add: utf8Char_def Let_def)
    moreover have "192 + ?n div 64 < 256" using dv by simp
    ultimately have "?m = 192 + ?n div 64" using a lt by (simp only: of_nat_byte_eq)
    then show ?thesis using a by simp
  next
    assume a: "\<not> ?m < 128" "?n < 128"
    then have "(of_nat (192 + ?m div 64) :: byte) = of_nat ?n" using assms by (simp add: utf8Char_def Let_def)
    moreover have "192 + ?m div 64 < 256" using dv by simp
    ultimately have "192 + ?m div 64 = ?n" using a lt by (simp only: of_nat_byte_eq)
    then show ?thesis using a by simp
  next
    assume a: "\<not> ?m < 128" "\<not> ?n < 128"
    then have e: "(of_nat (192 + ?m div 64) :: byte) = of_nat (192 + ?n div 64)" "(of_nat (128 + ?m mod 64) :: byte) = of_nat (128 + ?n mod 64)" "r = r'"
      using assms by (simp_all add: utf8Char_def Let_def)
    have "192 + ?m div 64 < 256" "192 + ?n div 64 < 256" "128 + ?m mod 64 < 256" "128 + ?n mod 64 < 256" using dv by (simp_all add: add_less_mono [of 128 192 _ 64, simplified])
    with e(1,2) have "192 + ?m div 64 = 192 + ?n div 64" "128 + ?m mod 64 = 128 + ?n mod 64" by (simp_all only: of_nat_byte_eq)
    then have "?m = ?n" by (metis add_left_cancel div_mult_mod_eq)
    then show ?thesis using e(3) by simp
  qed
  then show ?thesis by simp
qed

lemma utf8Encode_inj: "utf8Encode s = utf8Encode t \<Longrightarrow> s = t"
proof (induction s arbitrary: t)
  case Nil
  then show ?case by (cases t) (auto simp: utf8Encode_def utf8Char_def Let_def split: if_splits)
next
  case (Cons c s)
  then obtain d t' where t: "t = d # t'" by (cases t) (auto simp: utf8Encode_def utf8Char_def Let_def split: if_splits)
  then have "utf8Char c @ utf8Encode s = utf8Char d @ utf8Encode t'" using Cons.prems by (simp add: utf8Encode_def)
  from utf8Char_inj [OF this] Cons.IH t show ?case by blast
qed

text \<open>
  C33. The safety phrase. Two sides with the same profile, room and version and the same features see the same phrase, whichever of
  the two keys is their own; and, unless the digest maps two different texts to the same value, equal digests under phrases mean
  that both sides hold the same two keys: a third key in between shows.
\<close>

theorem phrase_names_the_keys:
  fixes sha256 :: "bytes \<Rightarrow> bytes"
  assumes "length x = n" "length y = n" "length x' = n" "length y' = n" and "mset flags = mset flags'"
    and "m = utf8Encode (phraseMaterial (sha256 (utf8Encode code)) (profileHash sha256 p) x y p v flags)"
    and "m' = utf8Encode (phraseMaterial (sha256 (utf8Encode code)) (profileHash sha256 p) x' y' p v flags')"
    and "sha256 m = sha256 m' \<longrightarrow> m = m'"
  shows "(x' = y \<and> y' = x \<longrightarrow> verificationPhrase sha256 x y p code v flags = verificationPhrase sha256 x' y' p code v flags') \<and>
    (sha256 m = sha256 m' \<longrightarrow> {x, y} = {x', y'})"
proof -
  have "phraseMaterial sd h x y p v flags = phraseMaterial sd h y x p v flags'" for sd h
    using assms(5) by (rule phraseMaterial_sym)
  then have "x' = y \<and> y' = x \<longrightarrow> verificationPhrase sha256 x y p code v flags = verificationPhrase sha256 x' y' p code v flags'"
    by (auto simp: verificationPhrase_def)
  moreover have "{x, y} = {x', y'}" if "sha256 m = sha256 m'"
  proof -
    have "m = m'" using assms(8) that by blast
    then have "phraseMaterial (sha256 (utf8Encode code)) (profileHash sha256 p) x y p v flags =
        phraseMaterial (sha256 (utf8Encode code)) (profileHash sha256 p) x' y' p v flags'"
      unfolding assms(6,7) by (rule utf8Encode_inj)
    from phraseMaterial_binds [OF this assms(1-4)] show ?thesis .
  qed
  ultimately show ?thesis by blast
qed

theorem phrase_names_the_keys_witness:
  "verificationPhrase (\<lambda>bs. bs) [1, 2] [3, 4] (PROFILES Balanced) ''ABCD-EFGH'' APP_VERSION [''b'', ''a''] =
   verificationPhrase (\<lambda>bs. bs) [3, 4] [1, 2] (PROFILES Balanced) ''ABCD-EFGH'' APP_VERSION [''a'', ''b'']"
  using phrase_names_the_keys [of "[1, 2]" 2 "[3, 4]" "[3, 4]" "[1, 2]" "[''b'', ''a'']" "[''a'', ''b'']" _ "\<lambda>bs. bs" "''ABCD-EFGH''" "PROFILES Balanced" APP_VERSION]
  by simp

end
