(* ===== verification/SessionView.thy ===== *)
theory SessionView
  imports FileSender FileReceiver Connection
begin

text \<open>
  What a session shows (\<^verbatim>\<open>session/types.ts\<close> and the view part of \<^verbatim>\<open>session/SessionController.ts\<close>): the transcript, the list
  of transfers with the order they are shown in, and the rules by which both are kept within bounds. Identifiers that
  \<^verbatim>\<open>makeId\<close> draws and the time are arguments.
\<close>

section \<open>State\<close>

datatype Phase = PhIdle | PhCreating | PhJoining | PhWaiting | PhActive | PhEnded | PhFailed
datatype SecurityState = SecNone | EncryptedUnverified | Verified | VerificationFailed
datatype VoiceState = VsIdle | VsStarting | VsActive | VsMuted | VsFailed
datatype TransferDirection = DirSend | DirReceive
datatype TransferState = TsQueued | TsOffered | TsWaiting | TsSending | TsReceiving | TsPaused | TsCompleted | TsCancelled | TsFailed

datatype ItemKind = KText | KSystem | KFile
datatype ItemFrom = FromMe | FromPeer | FromSystem
datatype ItemStatus = ItSending | ItSent | ItFailed
datatype Severity = SvInfo | SvError

record TranscriptItem =
  ti_id :: string
  ti_kind :: ItemKind
  ti_from :: ItemFrom
  ti_text :: string
  ti_at :: int
  ti_status :: "ItemStatus option"
  ti_severity :: "Severity option"
  ti_fileId :: "string option"

record TransferView =
  tv_fileId :: string
  tv_direction :: TransferDirection
  tv_name :: string
  tv_size :: int
  tv_progress :: rat
  tv_state :: TransferState
  tv_reason :: "string option"
  tv_blobUrl :: "bytes option"

record SessionViewState =
  vw_phase :: Phase
  vw_roomCode :: string
  vw_profileId :: TransportProfileId
  vw_connection :: ConnectionStatus
  vw_security :: SecurityState
  vw_safetyPhrase :: "string option"
  vw_notice :: "string option"
  vw_voice :: VoiceState
  vw_muted :: bool
  vw_audioPlaybackBlocked :: bool
  vw_invalidPackets :: nat
  vw_transcript :: "TranscriptItem list"
  vw_transfers :: "TransferView list"

abbreviation MAX_TRANSCRIPT_ITEMS :: nat where "MAX_TRANSCRIPT_ITEMS \<equiv> 500"
abbreviation MAX_RETAINED_TRANSFERS :: nat where "MAX_RETAINED_TRANSFERS \<equiv> 30"

definition initialView :: SessionViewState where
  "initialView =
     \<lparr>vw_phase = PhIdle, vw_roomCode = '''', vw_profileId = Balanced, vw_connection = Disconnected, vw_security = SecNone,
      vw_safetyPhrase = None, vw_notice = None, vw_voice = VsIdle, vw_muted = False, vw_audioPlaybackBlocked = False,
      vw_invalidPackets = 0, vw_transcript = [], vw_transfers = []\<rparr>"

section \<open>The transcript\<close>

definition trimTranscript :: "TranscriptItem list \<Rightarrow> TranscriptItem list" where
  "trimTranscript items =
     (if length items \<le> MAX_TRANSCRIPT_ITEMS then items else drop (length items - MAX_TRANSCRIPT_ITEMS) items)"

definition addTranscript :: "TranscriptItem \<Rightarrow> SessionViewState \<Rightarrow> SessionViewState" where
  "addTranscript item v = v\<lparr>vw_transcript := trimTranscript (vw_transcript v @ [item])\<rparr>"

definition updateTranscriptStatus :: "string \<Rightarrow> ItemStatus \<Rightarrow> SessionViewState \<Rightarrow> SessionViewState" where
  "updateTranscriptStatus i st v =
     v\<lparr>vw_transcript := map (\<lambda>item. if ti_id item = i then item\<lparr>ti_status := Some st\<rparr> else item) (vw_transcript v)\<rparr>"

definition systemItem :: "string \<Rightarrow> int \<Rightarrow> string \<Rightarrow> Severity \<Rightarrow> TranscriptItem" where
  "systemItem i now txt sev =
     \<lparr>ti_id = i, ti_kind = KSystem, ti_from = FromSystem, ti_text = txt, ti_at = now, ti_status = None, ti_severity = Some sev,
      ti_fileId = None\<rparr>"

definition repeatsLast :: "string \<Rightarrow> Severity \<Rightarrow> TranscriptItem list \<Rightarrow> bool" where
  "repeatsLast txt sev items =
     (items \<noteq> [] \<and> ti_kind (last items) = KSystem \<and> ti_text (last items) = txt \<and> ti_severity (last items) = Some sev)"

definition addSystem :: "string \<Rightarrow> int \<Rightarrow> string \<Rightarrow> Severity \<Rightarrow> SessionViewState \<Rightarrow> SessionViewState" where
  "addSystem i now txt sev v =
     (if repeatsLast txt sev (vw_transcript v) then v
      else v\<lparr>vw_transcript := trimTranscript (vw_transcript v @ [systemItem i now txt sev])\<rparr>)"

section \<open>Transfers\<close>

text \<open>The order of the transfers (\<^verbatim>\<open>transferOrder\<close>, newest first) is kept beside the view.\<close>

definition ensureTransferOrder :: "string \<Rightarrow> string list \<Rightarrow> string list" where
  "ensureTransferOrder fileId order = (if fileId \<in> set order then order else fileId # order)"

definition isFinished :: "TransferView \<Rightarrow> bool" where
  "isFinished t = (tv_state t \<in> {TsCompleted, TsCancelled, TsFailed})"

definition isFileItem :: "string \<Rightarrow> TranscriptItem \<Rightarrow> bool" where
  "isFileItem fileId item = (ti_kind item = KFile \<and> ti_fileId item = Some fileId)"

definition removeTransferView :: "string \<Rightarrow> string list \<times> SessionViewState \<Rightarrow> string list \<times> SessionViewState" where
  "removeTransferView fileId = (\<lambda>(order, v).
     (filter (\<lambda>i. i \<noteq> fileId) order,
      v\<lparr>vw_transfers := filter (\<lambda>t. tv_fileId t \<noteq> fileId) (vw_transfers v),
        vw_transcript := filter (\<lambda>item. \<not> isFileItem fileId item) (vw_transcript v)\<rparr>))"

definition retainedIds :: "string list \<times> SessionViewState \<Rightarrow> string list" where
  "retainedIds = (\<lambda>(order, v). filter (\<lambda>i. \<exists>t \<in> set (vw_transfers v). tv_fileId t = i \<and> isFinished t) order)"

text \<open>The files that are dropped are also removed from the sender and the receiver; they are the second component.\<close>

definition trimRetainedTransfers :: "string list \<times> SessionViewState \<Rightarrow> (string list \<times> SessionViewState) \<times> string list" where
  "trimRetainedTransfers ov =
     (let old = drop MAX_RETAINED_TRANSFERS (retainedIds ov) in (fold removeTransferView old ov, old))"

definition fileItem :: "string \<Rightarrow> int \<Rightarrow> TransferView \<Rightarrow> TranscriptItem" where
  "fileItem i now t =
     \<lparr>ti_id = i, ti_kind = KFile, ti_from = (if tv_direction t = DirSend then FromMe else FromPeer), ti_text = tv_name t, ti_at = now,
      ti_status = None, ti_severity = None, ti_fileId = Some (tv_fileId t)\<rparr>"

definition placeTransfer :: "TransferView \<Rightarrow> string list \<Rightarrow> TransferView list \<Rightarrow> TransferView list" where
  "placeTransfer t order ts =
     (let existing = map_set (tv_fileId t) t (fold (\<lambda>item. map_set (tv_fileId item) item) ts [])
      in List.map_filter (map_get existing) order)"

definition upsertTransfer ::
    "string \<Rightarrow> int \<Rightarrow> TransferView \<Rightarrow> string list \<times> SessionViewState \<Rightarrow> (string list \<times> SessionViewState) \<times> string list" where
  "upsertTransfer i now t = (\<lambda>(order, v).
     let order1 = ensureTransferOrder (tv_fileId t) order;
         v1 = v\<lparr>vw_transfers := placeTransfer t order1 (vw_transfers v)\<rparr>;
         v2 = (if \<exists>item \<in> set (vw_transcript v1). isFileItem (tv_fileId t) item then v1
               else v1\<lparr>vw_transcript := trimTranscript (vw_transcript v1 @ [fileItem i now t])\<rparr>)
     in trimRetainedTransfers (order1, v2))"

fun mapSenderStatus :: "SenderStatus \<Rightarrow> TransferState" where
  "mapSenderStatus SnOffered = TsWaiting"
| "mapSenderStatus SnSending = TsSending"
| "mapSenderStatus SnPaused = TsPaused"
| "mapSenderStatus SnQueued = TsQueued"
| "mapSenderStatus SnCompleted = TsCompleted"
| "mapSenderStatus SnCancelled = TsCancelled"
| "mapSenderStatus SnFailed = TsFailed"

fun mapReceiverStatus :: "ReceiverStatus \<Rightarrow> TransferState" where
  "mapReceiverStatus RvOffered = TsOffered"
| "mapReceiverStatus RvReceiving = TsReceiving"
| "mapReceiverStatus RvCompleted = TsCompleted"
| "mapReceiverStatus RvCancelled = TsCancelled"
| "mapReceiverStatus RvFailed = TsFailed"

definition senderView :: "SenderSnapshot \<Rightarrow> TransferView" where
  "senderView sn =
     \<lparr>tv_fileId = ss_fileId sn, tv_direction = DirSend, tv_name = ss_name sn, tv_size = ss_size sn, tv_progress = ss_progress sn,
      tv_state = mapSenderStatus (ss_status sn), tv_reason = ss_reason sn, tv_blobUrl = None\<rparr>"

definition receiverView :: "ReceiverSnapshot \<Rightarrow> TransferView" where
  "receiverView rn =
     \<lparr>tv_fileId = rs_fileId rn, tv_direction = DirReceive, tv_name = rs_name rn, tv_size = rs_size rn, tv_progress = rs_progress rn,
      tv_state = mapReceiverStatus (rs_status rn), tv_reason = rs_reason rn, tv_blobUrl = rs_blobUrl rn\<rparr>"

section \<open>The queue of files\<close>

definition isVoiceActive :: "SessionViewState \<Rightarrow> bool" where
  "isVoiceActive v = (vw_voice v = VsStarting \<or> vw_voice v = VsActive \<or> vw_voice v = VsMuted)"

definition hasActiveFile :: "SessionViewState \<Rightarrow> bool" where
  "hasActiveFile v =
     (\<exists>t \<in> set (vw_transfers v). tv_direction t = DirSend \<and> tv_state t \<in> {TsOffered, TsWaiting, TsSending, TsPaused, TsQueued})"

definition hasActiveSendingFileExceptQueued :: "string \<Rightarrow> SessionViewState \<Rightarrow> bool" where
  "hasActiveSendingFileExceptQueued fileId v =
     (\<exists>t \<in> set (vw_transfers v). tv_fileId t \<noteq> fileId \<and> tv_direction t = DirSend \<and> tv_state t \<in> {TsOffered, TsWaiting, TsSending, TsPaused})"

text \<open>The file that \<^verbatim>\<open>startNextQueuedFileIfAllowed\<close> starts, if any.\<close>

definition nextQueuedFile :: "bool \<Rightarrow> SessionViewState \<Rightarrow> string option" where
  "nextQueuedFile remoteVoiceActive v =
     (if isVoiceActive v \<or> remoteVoiceActive \<or> vw_connection v \<noteq> Connected then None
      else case find (\<lambda>t. tv_direction t = DirSend \<and> tv_state t = TsQueued) (rev (vw_transfers v)) of
        None \<Rightarrow> None
      | Some queued \<Rightarrow> if hasActiveSendingFileExceptQueued (tv_fileId queued) v then None else Some (tv_fileId queued))"

section \<open>The invariant of the view\<close>

abbreviation fileIds :: "TransferView list \<Rightarrow> string list" where
  "fileIds ts \<equiv> map tv_fileId ts"

text \<open>The transfers are shown in the order kept for them.\<close>

definition inOrder :: "string list \<Rightarrow> TransferView list \<Rightarrow> bool" where
  "inOrder order ts = (distinct order \<and> fileIds ts = filter (\<lambda>i. i \<in> set (fileIds ts)) order)"

definition view_ok :: "string list \<times> SessionViewState \<Rightarrow> bool" where
  "view_ok = (\<lambda>(order, v).
     inOrder order (vw_transfers v) \<and> length (vw_transcript v) \<le> MAX_TRANSCRIPT_ITEMS \<and> length (filter isFinished (vw_transfers v)) \<le> MAX_RETAINED_TRANSFERS)"

lemma length_trimTranscript [simp]: "length (trimTranscript items) \<le> MAX_TRANSCRIPT_ITEMS"
  by (simp add: trimTranscript_def)

lemma view_ok_initial: "view_ok ([], initialView)"
  by (simp add: view_ok_def initialView_def inOrder_def)

lemma view_ok_cong:
  assumes "view_ok (order, v)" "vw_transfers v' = vw_transfers v" "length (vw_transcript v') \<le> MAX_TRANSCRIPT_ITEMS"
  shows "view_ok (order, v')"
  using assms by (simp add: view_ok_def)

lemma view_ok_transcript:
  assumes "view_ok (order, v)"
  shows "view_ok (order, addTranscript item v)" "view_ok (order, updateTranscriptStatus i st v)" "view_ok (order, addSystem j now txt sev v)"
  using assms by (auto simp: addTranscript_def updateTranscriptStatus_def addSystem_def view_ok_def)

text \<open>The map the transfers are looked up in.\<close>

lemma fold_map_set:
  assumes "distinct (fileIds ts)"
  shows "map_get (fold (\<lambda>item. map_set (tv_fileId item) item) ts m) i = Some x \<longleftrightarrow>
    x \<in> set ts \<and> tv_fileId x = i \<or> i \<notin> set (fileIds ts) \<and> map_get m i = Some x"
  using assms by (induction ts arbitrary: m) (auto simp: map_lookup_simps split: if_splits)

lemma inOrder_eq: "inOrder order ts \<Longrightarrow> filter (\<lambda>i. i \<in> set (fileIds ts)) order = fileIds ts"
  unfolding inOrder_def by (erule conjE) (erule sym)

lemma inOrder_distinct: "inOrder order ts \<Longrightarrow> distinct (fileIds ts)"
  unfolding inOrder_def by (metis distinct_filter)

lemma placeTransfer_get:
  assumes "distinct (fileIds ts)"
  shows "map_get (map_set (tv_fileId t) t (fold (\<lambda>item. map_set (tv_fileId item) item) ts [])) i = Some x \<longleftrightarrow>
    (if i = tv_fileId t then x = t else x \<in> set ts \<and> tv_fileId x = i)"
  using fold_map_set [OF assms, of "[]" i x] by (auto simp: map_lookup_simps)

lemma set_map_filter: "x \<in> set (List.map_filter g xs) \<longleftrightarrow> (\<exists>i \<in> set xs. g i = Some x)"
  by (induction xs) (auto simp: List.map_filter_simps split: option.splits)

lemma set_placeTransfer:
  assumes "distinct (fileIds ts)"
  shows "x \<in> set (placeTransfer t order ts) \<longleftrightarrow> tv_fileId x \<in> set order \<and> (if tv_fileId x = tv_fileId t then x = t else x \<in> set ts)"
  unfolding placeTransfer_def Let_def set_map_filter placeTransfer_get [OF assms] by auto

lemma map_map_filter:
  assumes "\<And>i x. g i = Some x \<Longrightarrow> f x = i" "\<And>i. g i = None \<longleftrightarrow> \<not> P i"
  shows "map f (List.map_filter g xs) = filter P xs"
proof (induction xs)
  case (Cons a xs)
  then show ?case using assms [of a] by (cases "g a") (auto simp: List.map_filter_simps)
qed (simp add: List.map_filter_simps)

lemma fileIds_placeTransfer:
  assumes "distinct (fileIds ts)"
  shows "fileIds (placeTransfer t order ts) = filter (\<lambda>i. i = tv_fileId t \<or> i \<in> set (fileIds ts)) order"
proof -
  let ?m = "map_get (map_set (tv_fileId t) t (fold (\<lambda>item. map_set (tv_fileId item) item) ts []))"
  note get = placeTransfer_get [OF assms, of t]
  have "?m i = None \<longleftrightarrow> \<not> (i = tv_fileId t \<or> i \<in> set (fileIds ts))" for i
    using get [of i] by (metis (no_types, lifting) imageE image_eqI list.set_map not_None_eq)
  moreover have "tv_fileId x = i" if "?m i = Some x" for i x using that get [of i x] by (metis (full_types))
  ultimately show ?thesis unfolding placeTransfer_def Let_def by (rule map_map_filter [rotated])
qed

lemma fold_remove:
  "fold removeTransferView old (order, v) =
     (filter (\<lambda>i. i \<notin> set old) order,
      v\<lparr>vw_transfers := filter (\<lambda>t. tv_fileId t \<notin> set old) (vw_transfers v),
        vw_transcript := filter (\<lambda>item. \<forall>i \<in> set old. \<not> isFileItem i item) (vw_transcript v)\<rparr>)"
  by (induction old arbitrary: order v) (simp_all add: removeTransferView_def conj_commute)

lemma filter_mem_cong: "(\<And>x. P x \<Longrightarrow> Q x) \<Longrightarrow> filter P xs = filter P (filter Q xs)"
  by (induction xs) auto

lemma retainedIds_eq:
  assumes "inOrder order (vw_transfers v)"
  shows "retainedIds (order, v) = fileIds (filter isFinished (vw_transfers v))"
proof -
  let ?ts = "vw_transfers v"
  let ?P = "\<lambda>i. \<exists>t \<in> set ?ts. tv_fileId t = i \<and> isFinished t"
  have d: "distinct (fileIds ?ts)" using assms by (rule inOrder_distinct)
  have "filter ?P order = filter ?P (filter (\<lambda>i. i \<in> set (fileIds ?ts)) order)" by (rule filter_mem_cong) auto
  also have "\<dots> = filter ?P (fileIds ?ts)" by (simp only: inOrder_eq [OF assms])
  also have "\<dots> = map tv_fileId (filter (\<lambda>t. ?P (tv_fileId t)) ?ts)" by (simp add: filter_map comp_def)
  also have "filter (\<lambda>t. ?P (tv_fileId t)) ?ts = filter isFinished ?ts"
    using d by (intro filter_cong) (auto simp: distinct_map inj_on_def)
  finally show ?thesis by (simp add: retainedIds_def)
qed

lemma filter_drop_distinct:
  assumes "distinct xs"
  shows "filter (\<lambda>x. x \<notin> set (drop n xs)) xs = take n xs"
proof -
  have "filter (\<lambda>x. x \<notin> set (drop n xs)) (take n xs @ drop n xs) = take n xs"
    using set_take_disj_set_drop_if_distinct [OF assms order_refl, of n] by (simp only: filter_append) (auto simp: filter_empty_conv filter_id_conv)
  then show ?thesis by simp
qed

lemma inOrder_filter:
  assumes "inOrder order ts"
  shows "inOrder (filter (\<lambda>i. i \<notin> A) order) (filter (\<lambda>t. tv_fileId t \<notin> A) ts)"
proof -
  have "fileIds (filter (\<lambda>t. tv_fileId t \<notin> A) ts) = filter (\<lambda>i. i \<notin> A) (fileIds ts)" by (simp add: filter_map comp_def)
  also have "\<dots> = filter (\<lambda>i. i \<notin> A) (filter (\<lambda>i. i \<in> set (fileIds ts)) order)" by (simp only: inOrder_eq [OF assms])
  also have "\<dots> = filter (\<lambda>i. i \<in> set (filter (\<lambda>i. i \<notin> A) (fileIds ts))) (filter (\<lambda>i. i \<notin> A) order)"
    by (simp only: filter_filter set_filter) (rule filter_cong, auto)
  also have "filter (\<lambda>i. i \<notin> A) (fileIds ts) = fileIds (filter (\<lambda>t. tv_fileId t \<notin> A) ts)" by (simp add: filter_map comp_def)
  finally have "fileIds (filter (\<lambda>t. tv_fileId t \<notin> A) ts) =
      filter (\<lambda>i. i \<in> set (fileIds (filter (\<lambda>t. tv_fileId t \<notin> A) ts))) (filter (\<lambda>i. i \<notin> A) order)" .
  moreover have "distinct (filter (\<lambda>i. i \<notin> A) order)" using assms by (simp add: inOrder_def)
  ultimately show ?thesis unfolding inOrder_def by blast
qed

lemma inOrder_subset: "inOrder order ts \<Longrightarrow> set (fileIds ts) \<subseteq> set order"
  unfolding inOrder_def by (metis filter_is_subset)

lemma length_filter_filter: "length (filter P (filter Q xs)) \<le> length (filter P xs)"
  by (induction xs) auto

lemma view_ok_trim:
  assumes "inOrder order (vw_transfers v)" "length (vw_transcript v) \<le> MAX_TRANSCRIPT_ITEMS"
  shows "view_ok (fst (trimRetainedTransfers (order, v)))"
proof -
  let ?R = "retainedIds (order, v)"
  let ?old = "drop MAX_RETAINED_TRANSFERS ?R"
  let ?ts = "filter (\<lambda>t. tv_fileId t \<notin> set ?old) (vw_transfers v)"
  have R: "?R = fileIds (filter isFinished (vw_transfers v))" using assms(1) by (rule retainedIds_eq)
  have "distinct ?R" unfolding R using inOrder_distinct [OF assms(1)] by (rule distinct_map_filter)
  then have "filter (\<lambda>i. i \<notin> set ?old) ?R = take MAX_RETAINED_TRANSFERS ?R" by (rule filter_drop_distinct)
  moreover have "fileIds (filter isFinished ?ts) = filter (\<lambda>i. i \<notin> set ?old) ?R"
    unfolding R by (simp add: filter_map comp_def conj_commute)
  ultimately have "fileIds (filter isFinished ?ts) = take MAX_RETAINED_TRANSFERS ?R" by (simp only:)
  from arg_cong [where f = length, OF this] have "length (filter isFinished ?ts) \<le> MAX_RETAINED_TRANSFERS" by simp
  then show ?thesis using inOrder_filter [OF assms(1), of "set ?old"] assms(2)
    by (simp add: trimRetainedTransfers_def Let_def fold_remove view_ok_def le_trans [OF length_filter_le])
qed

lemma inOrder_place:
  assumes "inOrder order ts"
  shows "inOrder (ensureTransferOrder (tv_fileId t) order) (placeTransfer t (ensureTransferOrder (tv_fileId t) order) ts)"
proof -
  let ?o = "ensureTransferOrder (tv_fileId t) order"
  have sub: "set (fileIds ts) \<subseteq> set order" using assms by (rule inOrder_subset)
  have "fileIds (placeTransfer t ?o ts) = filter (\<lambda>i. i = tv_fileId t \<or> i \<in> set (fileIds ts)) ?o"
    using inOrder_distinct [OF assms] by (rule fileIds_placeTransfer)
  moreover from this have "set (fileIds (placeTransfer t ?o ts)) = insert (tv_fileId t) (set (fileIds ts))"
    using sub by (auto simp: ensureTransferOrder_def)
  moreover have "distinct ?o" using assms by (simp add: ensureTransferOrder_def inOrder_def)
  ultimately show ?thesis by (simp add: inOrder_def)
qed

lemma view_ok_upsert:
  assumes "view_ok (order, v)"
  shows "view_ok (fst (upsertTransfer i now t (order, v)))"
proof -
  let ?o = "ensureTransferOrder (tv_fileId t) order"
  let ?v1 = "v\<lparr>vw_transfers := placeTransfer t ?o (vw_transfers v)\<rparr>"
  let ?v2 = "if \<exists>item \<in> set (vw_transcript ?v1). isFileItem (tv_fileId t) item then ?v1
     else ?v1\<lparr>vw_transcript := trimTranscript (vw_transcript ?v1 @ [fileItem i now t])\<rparr>"
  have "inOrder ?o (vw_transfers ?v2)" using inOrder_place [of order "vw_transfers v" t] assms by (simp add: view_ok_def)
  moreover have "length (vw_transcript ?v2) \<le> MAX_TRANSCRIPT_ITEMS" using assms by (simp add: view_ok_def)
  ultimately have "view_ok (fst (trimRetainedTransfers (?o, ?v2)))" by (rule view_ok_trim)
  then show ?thesis by (simp add: upsertTransfer_def Let_def)
qed

lemma view_ok_remove:
  assumes "view_ok (order, v)"
  shows "view_ok (removeTransferView i (order, v))"
proof -
  have "inOrder (filter (\<lambda>j. j \<notin> {i}) order) (filter (\<lambda>t. tv_fileId t \<notin> {i}) (vw_transfers v))"
    using assms by (intro inOrder_filter) (simp add: view_ok_def)
  moreover have "length (filter isFinished (filter (\<lambda>t. tv_fileId t \<noteq> i) (vw_transfers v))) \<le> length (filter isFinished (vw_transfers v))"
    by (rule length_filter_filter)
  ultimately show ?thesis using assms le_trans [OF length_filter_le] by (auto simp: removeTransferView_def view_ok_def)
qed

lemma view_ok_ensure:
  assumes "view_ok (order, v)"
  shows "view_ok (ensureTransferOrder i order, v)"
proof (cases "i \<in> set order")
  case False
  have o: "inOrder order (vw_transfers v)" using assms by (simp add: view_ok_def)
  then have "i \<notin> set (fileIds (vw_transfers v))" using inOrder_subset [OF o] False by blast
  then have "filter (\<lambda>j. j \<in> set (fileIds (vw_transfers v))) (i # order) = fileIds (vw_transfers v)" using inOrder_eq [OF o] by simp
  then have "inOrder (i # order) (vw_transfers v)" using o False unfolding inOrder_def by (metis distinct.simps(2))
  then show ?thesis using assms False by (simp add: view_ok_def ensureTransferOrder_def)
qed (use assms in \<open>simp add: ensureTransferOrder_def\<close>)

text \<open>An update is shown, and shows nothing else differently, unless it is one of the finished transfers that are given up.\<close>

lemma upsert_shows:
  assumes "view_ok (order, v)" and "upsertTransfer i now t (order, v) = ((order', v'), old)"
  shows "x \<in> set (vw_transfers v') \<longleftrightarrow>
    tv_fileId x \<notin> set old \<and> (if tv_fileId x = tv_fileId t then x = t else x \<in> set (vw_transfers v))"
proof -
  have o: "inOrder order (vw_transfers v)" using assms(1) by (simp add: view_ok_def)
  then have sub: "set (fileIds (vw_transfers v)) \<subseteq> set order" by (rule inOrder_subset)
  have "vw_transfers v' = filter (\<lambda>t. tv_fileId t \<notin> set old)
      (placeTransfer t (ensureTransferOrder (tv_fileId t) order) (vw_transfers v))"
    using assms(2) by (auto simp: upsertTransfer_def Let_def trimRetainedTransfers_def fold_remove)
  then show ?thesis
    using set_placeTransfer [OF inOrder_distinct [OF o], of x t "ensureTransferOrder (tv_fileId t) order"] sub
    by (auto simp: ensureTransferOrder_def split: if_splits)
qed

end
