(* ===== verification/Rooms.thy ===== *)
theory Rooms
  imports Profiles Messages
begin

text \<open>
  Room codes and the requests about rooms (\<^verbatim>\<open>utils/ids.ts\<close>, \<^verbatim>\<open>protocol/rooms.ts\<close>). What \<^verbatim>\<open>fetch\<close> gives is an argument.
\<close>

section \<open>Room codes\<close>

text \<open>
  \<^verbatim>\<open>toUpperCase\<close> on a character below 256: the letter sharp s (code 223) becomes two. What it makes of the other letters beyond ASCII is
  none of the characters that are kept.
\<close>

definition upperChar :: "char \<Rightarrow> string" where
  "upperChar c =
     (if c \<in> set ''abcdefghijklmnopqrstuvwxyz'' then [char_of (of_char c - 32 :: nat)]
      else if c = CHR 0xDF then ''SS''
      else [c])"

definition codeChar :: "char \<Rightarrow> bool" where
  "codeChar c = (c \<in> set ''ABCDEFGHIJKLMNOPQRSTUVWXYZ0123456789'')"

definition cleanCode :: "string \<Rightarrow> string" where
  "cleanCode v = filter codeChar (concat (map upperChar v))"

definition normalizeRoomCode :: "string \<Rightarrow> string" where
  "normalizeRoomCode v =
     (let clean = cleanCode v in
      if length clean \<le> 4 then clean else take 4 clean @ ''-'' @ take 4 (drop 4 clean))"

definition makeId :: "string \<Rightarrow> string \<Rightarrow> string" where
  "makeId prefix uuid = prefix @ ''_'' @ take 18 (filter (\<lambda>c. c \<noteq> CHR ''-'') uuid)"

section \<open>Requests\<close>

record RoomInfo =
  room_code :: string
  room_profileId :: TransportProfileId

datatype HttpOutcome =
    FetchFailed
  | HttpError nat string \<comment> \<open>status and text\<close>
  | HttpOk "json res" \<comment> \<open>the body, or what parsing it throws\<close>

definition isSpace :: "char \<Rightarrow> bool" where
  "isSpace c = (c \<in> set [CHR 0x09, CHR 0x0A, CHR 0x0B, CHR 0x0C, CHR 0x0D, CHR 0x20, CHR 0xA0])"

definition trim :: "string \<Rightarrow> string" where
  "trim s = rev (dropWhile isSpace (rev (dropWhile isSpace s)))"

text \<open>A property of a parsed body; reading one of \<^verbatim>\<open>null\<close> throws, of another value that is no object it is undefined.\<close>

definition bodyField :: "string \<Rightarrow> json \<Rightarrow> json option res" where
  "bodyField k v = (case v of JNull \<Rightarrow> throw ''Cannot read properties of null'' | JObj obj \<Rightarrow> Inr (map_get obj k) | _ \<Rightarrow> Inr None)"

definition roomOf :: "json option \<Rightarrow> json option \<Rightarrow> RoomInfo option" where
  "roomOf code pid =
     (case code of
        Some (JStr c) \<Rightarrow>
          (case pid of
             Some (JStr i) \<Rightarrow>
               if normalizeRoomCode c \<noteq> c then None
               else (case profileIdOfString i of None \<Rightarrow> None | Some p \<Rightarrow> Some \<lparr>room_code = c, room_profileId = p\<rparr>)
           | _ \<Rightarrow> None)
      | _ \<Rightarrow> None)"

definition requestRoom :: "HttpOutcome \<Rightarrow> RoomInfo res" where
  "requestRoom r =
     (case r of
        FetchFailed \<Rightarrow> throw ''Could not reach the OnlyTwo relay''
      | HttpError status txt \<Rightarrow>
          if status = 404 then throw ''Room not found''
          else if status = 429 then throw ''Too many active rooms. Try again later.''
          else throw (if trim txt = '''' then ''Room request failed'' else trim txt)
      | HttpOk body \<Rightarrow>
          res_bind body (\<lambda>v. res_bind (bodyField ''code'' v) (\<lambda>code. res_bind (bodyField ''profileId'' v) (\<lambda>pid.
            case roomOf code pid of None \<Rightarrow> throw ''Relay returned invalid room details'' | Some room \<Rightarrow> Inr room))))"

definition lookupRoom :: "string \<Rightarrow> HttpOutcome \<Rightarrow> RoomInfo res" where
  "lookupRoom rawCode r =
     (if length (normalizeRoomCode rawCode) \<noteq> 9 then throw ''Enter the full room code'' else requestRoom r)"

section \<open>Codes are canonical\<close>

lemma codeChar_upper: "codeChar c \<Longrightarrow> upperChar c = [c]"
  by (auto simp: codeChar_def upperChar_def)

lemma cleanCode_code: "\<forall>c \<in> set s. codeChar c \<Longrightarrow> cleanCode s = s"
  by (induction s) (simp_all add: cleanCode_def codeChar_upper)

lemma cleanCode_append: "cleanCode (s @ t) = cleanCode s @ cleanCode t"
  by (simp add: cleanCode_def)

lemma cleanCode_dash: "cleanCode ''-'' = ''''"
  by (simp add: cleanCode_def upperChar_def codeChar_def)

lemma codeChar_clean: "c \<in> set (cleanCode s) \<Longrightarrow> codeChar c"
  by (simp add: cleanCode_def)

lemma cleanCode_parts:
  "cleanCode (take n (cleanCode v)) = take n (cleanCode v)" "cleanCode (take n (drop m (cleanCode v))) = take n (drop m (cleanCode v))"
  "cleanCode (cleanCode v) = cleanCode v"
  by (auto intro!: cleanCode_code dest!: in_set_takeD in_set_dropD codeChar_clean)

lemma take_8: "take 8 xs = take 4 xs @ take 4 (drop 4 xs)"
  using take_add [of 4 4 xs] by simp

lemma normalize_clean: "cleanCode (normalizeRoomCode v) = take 8 (cleanCode v)"
proof (cases "length (cleanCode v) \<le> 4")
  case True
  then show ?thesis by (simp add: normalizeRoomCode_def cleanCode_parts)
next
  case False
  then have "normalizeRoomCode v = take 4 (cleanCode v) @ ''-'' @ take 4 (drop 4 (cleanCode v))"
    by (simp add: normalizeRoomCode_def Let_def)
  then show ?thesis by (simp only: cleanCode_append cleanCode_dash cleanCode_parts take_8 append_Nil)
qed

lemma normalize_take8: "normalizeRoomCode v = normalizeRoomCode (take 8 (cleanCode v))"
  by (auto simp: normalizeRoomCode_def Let_def cleanCode_parts min_def drop_take)

lemma length_normalize: "length (normalizeRoomCode v) = 9 \<longleftrightarrow> 8 \<le> length (cleanCode v)"
  by (simp add: normalizeRoomCode_def Let_def) linarith

lemma roomOf_canonical: "roomOf code pid = Some room \<Longrightarrow> normalizeRoomCode (room_code room) = room_code room"
  by (auto simp: roomOf_def split: option.splits json.splits if_splits)

lemma requestRoom_canonical: "requestRoom r = Inr room \<Longrightarrow> normalizeRoomCode (room_code room) = room_code room"
  by (auto simp: requestRoom_def throw_def res_bind_Inr_iff dest: roomOf_canonical split: HttpOutcome.splits if_splits option.splits)

text \<open>
  C38. Two spellings of a room code have the same normal form exactly if they agree, after dropping separators and ignoring case, on
  their first eight letters and digits. The normal form is a fixed point, so what a user copies from the screen joins the same room; a
  code is complete (nine characters, which \<^verbatim>\<open>joinRoom\<close> asks for) exactly if eight letters or digits were entered, and it then
  reads as four characters, a dash and four characters. Whatever the relay answers, a room is taken from the answer only with a code in
  normal form and a known profile.
\<close>

theorem room_codes_are_canonical:
  "(normalizeRoomCode v = normalizeRoomCode w \<longleftrightarrow> take 8 (cleanCode v) = take 8 (cleanCode w)) \<and>
   normalizeRoomCode (normalizeRoomCode v) = normalizeRoomCode v \<and>
   (length (normalizeRoomCode v) = 9 \<longleftrightarrow> 8 \<le> length (cleanCode v)) \<and>
   (length (normalizeRoomCode v) = 9 \<longleftrightarrow> (\<exists>a b. normalizeRoomCode v = a @ ''-'' @ b \<and> length a = 4 \<and> length b = 4 \<and> (\<forall>c \<in> set (a @ b). codeChar c))) \<and>
   (lookupRoom v r = Inr room \<longrightarrow> length (normalizeRoomCode v) = 9 \<and> normalizeRoomCode (room_code room) = room_code room)"
proof (intro conjI)
  show "normalizeRoomCode v = normalizeRoomCode w \<longleftrightarrow> take 8 (cleanCode v) = take 8 (cleanCode w)"
    by (metis normalize_clean normalize_take8)
  show "normalizeRoomCode (normalizeRoomCode v) = normalizeRoomCode v"
    by (metis normalize_clean normalize_take8 cleanCode_parts(1))
  show "length (normalizeRoomCode v) = 9 \<longleftrightarrow> 8 \<le> length (cleanCode v)" by (rule length_normalize)
  show "length (normalizeRoomCode v) = 9 \<longleftrightarrow>
      (\<exists>a b. normalizeRoomCode v = a @ ''-'' @ b \<and> length a = 4 \<and> length b = 4 \<and> (\<forall>c \<in> set (a @ b). codeChar c))" (is "?full \<longleftrightarrow> ?form")
  proof
    assume ?full
    then have n: "8 \<le> length (cleanCode v)" by (simp add: length_normalize)
    show ?form
    proof (intro exI conjI)
      show "normalizeRoomCode v = take 4 (cleanCode v) @ ''-'' @ take 4 (drop 4 (cleanCode v))"
        using n by (simp add: normalizeRoomCode_def Let_def)
    qed (use n in \<open>auto dest!: in_set_takeD in_set_dropD codeChar_clean\<close>)
  qed auto
  show "lookupRoom v r = Inr room \<longrightarrow> length (normalizeRoomCode v) = 9 \<and> normalizeRoomCode (room_code room) = room_code room"
    by (auto simp: lookupRoom_def throw_def split: if_splits dest: requestRoom_canonical)
qed

theorem room_codes_are_canonical_witness:
  "normalizeRoomCode ''ab12-cd34'' = normalizeRoomCode '' AB12 CD34 '' \<and> length (normalizeRoomCode ''ab12-cd34'') = 9 \<and>
   normalizeRoomCode (room_code \<lparr>room_code = ''AB12-CD34'', room_profileId = Balanced\<rparr>) = ''AB12-CD34''"
proof -
  let ?r = "HttpOk (Inr (JObj [(''code'', JStr ''AB12-CD34''), (''profileId'', JStr ''balanced'')]))"
  have c: "cleanCode ''ab12-cd34'' = ''AB12CD34''" "cleanCode '' AB12 CD34 '' = ''AB12CD34''" by code_simp+
  have "lookupRoom ''ab12-cd34'' ?r = Inr \<lparr>room_code = ''AB12-CD34'', room_profileId = Balanced\<rparr>" by code_simp
  then show ?thesis
    using room_codes_are_canonical [of "''ab12-cd34''" "'' AB12 CD34 ''" ?r "\<lparr>room_code = ''AB12-CD34'', room_profileId = Balanced\<rparr>"] c
    by (simp only: simp_thms HOL.refl RoomInfo.simps list.size) (metis)
qed

end
