(* ===== verification/CryptoClient.thy ===== *)
theory CryptoClient
  imports Ratchet Profiles
begin

text \<open>
  The page's side of the crypto worker (\<^verbatim>\<open>client/src/crypto/CryptoClient.ts\<close>): one request
  at a time through a promise chain, a map of pending requests keyed by random ids, the wait
  for the worker's \<^verbatim>\<open>READY\<close>, the two timeouts and the crash handler. It is composed with the
  worker of theory \<open>Ratchet\<close> and its message queue, and the two message ports between them.

  A call of \<^verbatim>\<open>serialRequest\<close> is known by its ticket, the number of calls before it. The promise
  chain is the list of calls whose \<^verbatim>\<open>run\<close> has not been invoked, and \<open>Current\<close> is where the
  invoked one stands. Continuations after an \<^verbatim>\<open>await\<close> are steps of their own, so that other
  events can come between. A timer is its deadline, on the clock \<open>cl_now\<close> in milliseconds.
  \<^verbatim>\<open>crypto.randomUUID\<close> is the function \<open>uuid\<close> from the number of ids drawn before. The logs
  \<open>cl_calls\<close>, \<open>cl_log\<close> and \<open>sy_posted\<close> record what happened and are never read.
\<close>

section \<open>Requests\<close>

definition REQUEST_TIMEOUT_MS :: nat where "REQUEST_TIMEOUT_MS = 30000"
definition READY_TIMEOUT_MS :: nat where "READY_TIMEOUT_MS = 10000"

fun requestType :: "Request \<Rightarrow> string" where
  "requestType (Configure _ _ _) = ''CONFIGURE''"
| "requestType (GenerateIdentity _) = ''GENERATE_IDENTITY''"
| "requestType (EstablishSession _ _) = ''ESTABLISH_SESSION''"
| "requestType (Encrypt _ _ _ _) = ''ENCRYPT''"
| "requestType (Decrypt _) = ''DECRYPT''"
| "requestType Reset = ''RESET''"

text \<open>
  The methods of the class build the worker's requests (with the randomness the worker draws for them). \<^verbatim>\<open>encrypt\<close>
  returns the fields of the result as they are: the counter is a number here, so converting it does nothing.
\<close>

definition client_configure :: "TransportProfile \<Rightarrow> Request" where
  "client_configure profile =
     Configure (Some (paddingBuckets profile)) (Some (maxSkippedMessageKeys profile))
       (Some (protocolVersion profile))"

definition client_generateIdentity :: "bytes \<Rightarrow> Request" where
  "client_generateIdentity priv = GenerateIdentity priv"

definition client_establishSession :: "bytes \<Rightarrow> string \<Rightarrow> Request" where
  "client_establishSession peerPublicKey profileHashValue = EstablishSession peerPublicKey profileHashValue"

definition client_encrypt :: "(nat \<Rightarrow> byte) \<Rightarrow> (nat \<Rightarrow> byte) \<Rightarrow> bytes \<Rightarrow> AadContext \<Rightarrow> Request" where
  "client_encrypt rndNonce rndPad data ctx = Encrypt rndNonce rndPad data ctx"

definition client_decrypt :: "bytes \<Rightarrow> bytes \<Rightarrow> nat \<Rightarrow> AadContext \<Rightarrow> Request" where
  "client_decrypt ct n ctr ctx =
     Decrypt \<lparr>req_ciphertext = ct, req_nonce = n, req_counter = ctr, req_aad = ctx\<rparr>"

definition client_reset :: Request where
  "client_reset = Reset"

section \<open>The client\<close>

datatype Settlement =
    Resolved Response
  | ResolvedUndefined
  | Rejected string

datatype Cause = ByReply | ByReadyTimer | ByRequestTimer | ByCrash

datatype Current =
    Idle
  | Waiting nat Request nat \<comment> \<open>in \<^verbatim>\<open>waitReady\<close>; the deadline of its timer\<close>
  | Resuming nat Request \<comment> \<open>\<^verbatim>\<open>waitReady\<close> resolved, \<^verbatim>\<open>rawRequest\<close> not yet continued\<close>
  | InFlight nat \<comment> \<open>posted; its promise is in \<open>cl_pending\<close>\<close>

record PendingRequest =
  pr_ticket :: nat
  pr_type :: string
  pr_deadline :: nat

record client =
  cl_ready :: bool
  cl_readyWaiters :: "nat list"
  cl_pending :: "(string, PendingRequest) jsmap"
  cl_chain :: "(nat \<times> Request) list"
  cl_current :: Current
  cl_uuids :: nat
  cl_now :: nat
  cl_calls :: "Request list"
  cl_log :: "(nat \<times> Cause \<times> Settlement) list"

definition initialClient :: client where
  "initialClient =
     \<lparr>cl_ready = False, cl_readyWaiters = [], cl_pending = [], cl_chain = [], cl_current = Idle,
      cl_uuids = 0, cl_now = 0, cl_calls = [], cl_log = []\<rparr>"

definition serialRequest :: "Request \<Rightarrow> client \<Rightarrow> client" where
  "serialRequest r c =
     c\<lparr>cl_chain := cl_chain c @ [(length (cl_calls c), r)], cl_calls := cl_calls c @ [r]\<rparr>"

text \<open>A promise settles once: settling a call that is no longer the current one does nothing.\<close>

fun ticketOf :: "Current \<Rightarrow> nat option" where
  "ticketOf Idle = None"
| "ticketOf (Waiting t _ _) = Some t"
| "ticketOf (Resuming t _) = Some t"
| "ticketOf (InFlight t) = Some t"

definition settleCall :: "nat \<Rightarrow> Cause \<Rightarrow> Settlement \<Rightarrow> client \<Rightarrow> client" where
  "settleCall t why v c =
     (if ticketOf (cl_current c) = Some t
      then c\<lparr>cl_current := Idle, cl_log := cl_log c @ [(t, why, v)]\<rparr> else c)"

text \<open>The chain's next \<^verbatim>\<open>run\<close>, once the call before it is settled: up to the end of \<^verbatim>\<open>waitReady\<close>.\<close>

definition waitReady :: "nat \<Rightarrow> Request \<Rightarrow> client \<Rightarrow> client" where
  "waitReady t r c =
     (if cl_ready c then c\<lparr>cl_current := Resuming t r\<rparr>
      else c\<lparr>cl_current := Waiting t r (cl_now c + READY_TIMEOUT_MS),
             cl_readyWaiters := cl_readyWaiters c @ [t]\<rparr>)"

definition runChain :: "client \<Rightarrow> client" where
  "runChain c =
     (case (cl_current c, cl_chain c) of
        (Idle, (t, r) # rest) \<Rightarrow> waitReady t r (c\<lparr>cl_chain := rest\<rparr>)
      | _ \<Rightarrow> c)"

text \<open>The rest of \<^verbatim>\<open>rawRequest\<close>; the second component is what it posts to the worker.\<close>

definition rawRequest :: "(nat \<Rightarrow> string) \<Rightarrow> client \<Rightarrow> client \<times> (nat \<times> string \<times> Request) option" where
  "rawRequest uuid c =
     (case cl_current c of
        Resuming t r \<Rightarrow>
          let i = uuid (cl_uuids c) in
          (c\<lparr>cl_current := InFlight t, cl_uuids := cl_uuids c + 1,
             cl_pending := map_set i \<lparr>pr_ticket = t, pr_type = requestType r,
                                     pr_deadline = cl_now c + REQUEST_TIMEOUT_MS\<rparr> (cl_pending c)\<rparr>,
           Some (t, i, r))
      | _ \<Rightarrow> (c, None))"

datatype PortMessage = Ready | Reply string Response

text \<open>\<^verbatim>\<open>if (msg.error)\<close>: the empty string counts as no error.\<close>

fun replyOutcome :: "Response \<Rightarrow> Settlement" where
  "replyOutcome (RError (Error msg)) = (if msg = '''' then ResolvedUndefined else Rejected msg)"
| "replyOutcome RTrue = Resolved RTrue"
| "replyOutcome (RBytes b) = Resolved (RBytes b)"
| "replyOutcome (REncrypted x) = Resolved (REncrypted x)"

definition wakeWaiter :: "nat \<Rightarrow> client \<Rightarrow> client" where
  "wakeWaiter t c =
     (case cl_current c of
        Waiting t' r _ \<Rightarrow> if t' = t then c\<lparr>cl_current := Resuming t r\<rparr> else c
      | _ \<Rightarrow> c)"

fun client_onmessage :: "PortMessage \<Rightarrow> client \<Rightarrow> client" where
  "client_onmessage Ready c =
     fold wakeWaiter (cl_readyWaiters c) (c\<lparr>cl_ready := True, cl_readyWaiters := []\<rparr>)"
| "client_onmessage (Reply i v) c =
     (if i = '''' then c
      else case map_get (cl_pending c) i of
        None \<Rightarrow> c
      | Some p \<Rightarrow> settleCall (pr_ticket p) ByReply (replyOutcome v)
                   (c\<lparr>cl_pending := map_delete i (cl_pending c)\<rparr>))"

definition client_onerror :: "string \<Rightarrow> client \<Rightarrow> client" where
  "client_onerror msg c =
     (fold (\<lambda>(i, p). settleCall (pr_ticket p) ByCrash (Rejected (''Crypto worker crashed: '' @ msg)))
        (cl_pending c) c)\<lparr>cl_pending := []\<rparr>"

text \<open>Time passes, and the timers that are due fire.\<close>

definition expireReady :: "client \<Rightarrow> client" where
  "expireReady c =
     (case cl_current c of
        Waiting t _ due \<Rightarrow>
          if due \<le> cl_now c then settleCall t ByReadyTimer (Rejected ''Crypto worker ready timeout'') c
          else c
      | _ \<Rightarrow> c)"

definition expirePending :: "client \<Rightarrow> client" where
  "expirePending c =
     fold (\<lambda>(i, p) c.
         if pr_deadline p \<le> cl_now c
         then settleCall (pr_ticket p) ByRequestTimer (Rejected (''Crypto operation timed out: '' @ pr_type p))
                (c\<lparr>cl_pending := map_delete i (cl_pending c)\<rparr>)
         else c)
       (cl_pending c) c"

definition elapse :: "nat \<Rightarrow> client \<Rightarrow> client" where
  "elapse d c = expirePending (expireReady (c\<lparr>cl_now := cl_now c + d\<rparr>))"

section \<open>Client, worker and the ports between them\<close>

record port =
  sy_client :: client
  sy_worker :: worker
  sy_inbox :: "(string \<times> Request) list" \<comment> \<open>posted requests the worker has not handled (\<^verbatim>\<open>workerChain\<close>)\<close>
  sy_outbox :: "PortMessage list" \<comment> \<open>posted by the worker and not yet received\<close>
  sy_posted :: "(nat \<times> string \<times> Request) list"

definition initialPort :: port where
  "initialPort =
     \<lparr>sy_client = initialClient, sy_worker = initialWorker, sy_inbox = [], sy_outbox = [Ready],
      sy_posted = []\<rparr>"

datatype PortEvent =
    CallMethod Request
  | RunChain
  | RunRequest
  | WorkerHandles
  | ClientReceives
  | WorkerCrashes string
  | TimePasses nat

definition postRequest :: "(nat \<Rightarrow> string) \<Rightarrow> port \<Rightarrow> port" where
  "postRequest uuid s =
     (case rawRequest uuid (sy_client s) of
        (c, None) \<Rightarrow> s\<lparr>sy_client := c\<rparr>
      | (c, Some (t, i, r)) \<Rightarrow>
          s\<lparr>sy_client := c, sy_inbox := sy_inbox s @ [(i, r)], sy_posted := sy_posted s @ [(t, i, r)]\<rparr>)"

definition workerHandles :: "webcrypto \<Rightarrow> port \<Rightarrow> port" where
  "workerHandles W s =
     (case sy_inbox s of
        [] \<Rightarrow> s
      | (i, r) # rest \<Rightarrow>
          let (w, v) = handle W r (sy_worker s) in
          s\<lparr>sy_worker := w, sy_inbox := rest, sy_outbox := sy_outbox s @ [Reply i v]\<rparr>)"

definition clientReceives :: "port \<Rightarrow> port" where
  "clientReceives s =
     (case sy_outbox s of
        [] \<Rightarrow> s
      | m # rest \<Rightarrow> s\<lparr>sy_client := client_onmessage m (sy_client s), sy_outbox := rest\<rparr>)"

fun portStep :: "webcrypto \<Rightarrow> (nat \<Rightarrow> string) \<Rightarrow> PortEvent \<Rightarrow> port \<Rightarrow> port" where
  "portStep W uuid (CallMethod r) s = s\<lparr>sy_client := serialRequest r (sy_client s)\<rparr>"
| "portStep W uuid RunChain s = s\<lparr>sy_client := runChain (sy_client s)\<rparr>"
| "portStep W uuid RunRequest s = postRequest uuid s"
| "portStep W uuid WorkerHandles s = workerHandles W s"
| "portStep W uuid ClientReceives s = clientReceives s"
| "portStep W uuid (WorkerCrashes msg) s = s\<lparr>sy_client := client_onerror msg (sy_client s)\<rparr>"
| "portStep W uuid (TimePasses d) s = s\<lparr>sy_client := elapse d (sy_client s)\<rparr>"

definition portRun :: "webcrypto \<Rightarrow> (nat \<Rightarrow> string) \<Rightarrow> PortEvent list \<Rightarrow> port" where
  "portRun W uuid es = fold (portStep W uuid) es initialPort"

section \<open>The client's invariant\<close>

definition currentTicket :: "client \<Rightarrow> nat list" where
  "currentTicket c = (case ticketOf (cl_current c) of None \<Rightarrow> [] | Some t \<Rightarrow> [t])"

fun current_ok :: "nat \<Rightarrow> Request list \<Rightarrow> (string, PendingRequest) jsmap \<Rightarrow> Current \<Rightarrow> bool" where
  "current_ok now calls ps Idle \<longleftrightarrow> ps = []"
| "current_ok now calls ps (Waiting t r due) \<longleftrightarrow> ps = [] \<and> calls ! t = r \<and> due \<le> now + READY_TIMEOUT_MS"
| "current_ok now calls ps (Resuming t r) \<longleftrightarrow> ps = [] \<and> calls ! t = r"
| "current_ok now calls ps (InFlight t) \<longleftrightarrow>
     (\<exists>i p. ps = [(i, p)] \<and> pr_ticket p = t \<and> pr_deadline p \<le> now + REQUEST_TIMEOUT_MS)"

text \<open>
  The settled calls, the current one and those in the chain are all calls, in the order they
  were made; at most one request is pending, the current one.
\<close>

definition client_ok :: "client \<Rightarrow> bool" where
  "client_ok c \<longleftrightarrow>
     map fst (cl_log c) @ currentTicket c @ map fst (cl_chain c) = [0..<length (cl_calls c)] \<and>
     (\<forall>(t, r) \<in> set (cl_chain c). cl_calls c ! t = r) \<and>
     current_ok (cl_now c) (cl_calls c) (cl_pending c) (cl_current c)"

definition finish :: "nat \<Rightarrow> Cause \<Rightarrow> Settlement \<Rightarrow> client \<Rightarrow> client" where
  "finish t why v c = c\<lparr>cl_current := Idle, cl_pending := [], cl_log := cl_log c @ [(t, why, v)]\<rparr>"

lemma finish_sel [simp]:
  "cl_current (finish t why v c) = Idle" "cl_pending (finish t why v c) = []"
  "cl_log (finish t why v c) = cl_log c @ [(t, why, v)]" "cl_chain (finish t why v c) = cl_chain c"
  "cl_calls (finish t why v c) = cl_calls c" "cl_uuids (finish t why v c) = cl_uuids c"
  "cl_now (finish t why v c) = cl_now c"
  by (simp_all add: finish_def)

lemma client_ok_initial: "client_ok initialClient"
  by (simp add: client_ok_def initialClient_def currentTicket_def)

lemma client_ok_finish: "client_ok c \<Longrightarrow> ticketOf (cl_current c) = Some t \<Longrightarrow> client_ok (finish t why v c)"
  by (simp add: client_ok_def currentTicket_def)

lemma client_ok_later: "client_ok c \<Longrightarrow> client_ok (c\<lparr>cl_now := cl_now c + d\<rparr>)"
  by (cases "cl_current c") (auto simp: client_ok_def currentTicket_def)

lemma append_upt_split:
  assumes "xs @ ys @ zs = [0..<n]"
  shows "xs = [0..<length xs]" and "length xs + length ys + length zs = n"
proof -
  have len: "length xs + length ys + length zs = n" using assms by (metis add.assoc length_append length_upt diff_zero)
  then have "xs = take (length xs) [0..<n]" using assms by (metis append_eq_conv_conj)
  with len show "xs = [0..<length xs]" by simp
  show "length xs + length ys + length zs = n" by (rule len)
qed

lemma client_ok_upto: "client_ok c \<Longrightarrow>
    map fst (cl_log c) = [0..<length (cl_log c)] \<and>
    length (cl_log c) + length (currentTicket c) + length (cl_chain c) = length (cl_calls c)"
  using append_upt_split [of "map fst (cl_log c)" "currentTicket c" "map fst (cl_chain c)"]
  by (simp add: client_ok_def)

lemma client_ok_current:
  assumes ok: "client_ok c" and t: "ticketOf (cl_current c) = Some t"
  shows "t = length (cl_log c)" and "t < length (cl_calls c)"
proof -
  have eq: "map fst (cl_log c) @ t # map fst (cl_chain c) = [0..<length (cl_calls c)]"
    using ok t by (simp add: client_ok_def currentTicket_def)
  have less: "length (cl_log c) < length (cl_calls c)"
    using arg_cong [OF eq, of length] by simp
  have "(map fst (cl_log c) @ t # map fst (cl_chain c)) ! length (cl_log c) = t"
    by (simp add: nth_append)
  with eq less show "t = length (cl_log c)" by simp
  with less show "t < length (cl_calls c)" by simp
qed

lemma settle_finish:
  "ticketOf (cl_current c) = Some t \<Longrightarrow> (settleCall t why v c)\<lparr>cl_pending := []\<rparr> = finish t why v c"
  "ticketOf (cl_current c) = Some t \<Longrightarrow> settleCall t why v (c\<lparr>cl_pending := []\<rparr>) = finish t why v c"
  "ticketOf (cl_current c) = Some t \<Longrightarrow> cl_pending c = [] \<Longrightarrow> settleCall t why v c = finish t why v c"
  by (simp_all add: settleCall_def finish_def)

lemma finish_forgets [simp]: "finish t why v (c\<lparr>cl_pending := ps\<rparr>) = finish t why v c"
  by (simp add: finish_def)

section \<open>What each event does to a client in a good state\<close>

lemma client_ok_serialRequest: "client_ok c \<Longrightarrow> client_ok (serialRequest r c)"
proof -
  assume ok: "client_ok c"
  have chain: "t < length (cl_calls c)" if "(t, r') \<in> set (cl_chain c)" for t r'
  proof -
    have "t \<in> set (map fst (cl_log c) @ currentTicket c @ map fst (cl_chain c))"
      using that by force
    with ok show ?thesis by (simp add: client_ok_def)
  qed
  have "current_ok (cl_now c) (cl_calls c @ [r]) (cl_pending c) (cl_current c)"
    using ok client_ok_current [OF ok] by (cases "cl_current c") (auto simp: client_ok_def nth_append)
  with ok chain show ?thesis
    by (auto simp: client_ok_def serialRequest_def currentTicket_def nth_append simp flip: append_assoc)
qed

lemma client_ok_runChain: "client_ok c \<Longrightarrow> client_ok (runChain c)"
  by (auto simp: client_ok_def runChain_def waitReady_def currentTicket_def split: Current.split list.split)

lemma fold_wakeWaiter:
  "fold wakeWaiter ts c =
     c\<lparr>cl_current := (case cl_current c of Waiting t r d \<Rightarrow> if t \<in> set ts then Resuming t r else Waiting t r d | x \<Rightarrow> x)\<rparr>"
  by (induction ts arbitrary: c) (auto simp: wakeWaiter_def split: Current.split)

lemma client_ok_Ready: "client_ok c \<Longrightarrow> client_ok (client_onmessage Ready c)"
  by (auto simp: client_ok_def fold_wakeWaiter currentTicket_def split: Current.split)

lemma onmessage_Reply:
  assumes "client_ok c"
  shows "client_onmessage (Reply i v) c = c \<or>
    (\<exists>t p. cl_current c = InFlight t \<and> cl_pending c = [(i, p)] \<and>
       client_onmessage (Reply i v) c = finish t ByReply (replyOutcome v) c)"
proof (cases "map_get (cl_pending c) i")
  case (Some p)
  with assms have "cl_current c = InFlight (pr_ticket p)" "cl_pending c = [(i, p)]"
    by (cases "cl_current c"; auto simp: client_ok_def split: if_splits)+
  then show ?thesis by (simp add: settle_finish)
qed simp

lemma onerror_cases:
  assumes "client_ok c"
  shows "client_onerror msg c = c \<or>
    (\<exists>t v. cl_current c = InFlight t \<and> client_onerror msg c = finish t ByCrash v c)"
proof (cases "cl_pending c")
  case Nil then show ?thesis by (simp add: client_onerror_def)
next
  case (Cons e ps)
  with assms have "\<exists>i p. cl_current c = InFlight (pr_ticket p) \<and> cl_pending c = [(i, p)]"
    by (cases "cl_current c") (auto simp: client_ok_def)
  then show ?thesis by (auto simp: client_onerror_def settle_finish simp del: append.simps)
qed

lemma elapse_InFlight:
  assumes "client_ok c" and "cl_current c = InFlight t"
  shows "elapse d c = c\<lparr>cl_now := cl_now c + d\<rparr> \<and> d < REQUEST_TIMEOUT_MS \<or>
    (\<exists>v. elapse d c = finish t ByRequestTimer v (c\<lparr>cl_now := cl_now c + d\<rparr>))"
proof -
  obtain i p where p: "cl_pending c = [(i, p)]" "pr_ticket p = t" "pr_deadline p \<le> cl_now c + REQUEST_TIMEOUT_MS"
    using assms by (auto simp: client_ok_def)
  let ?c = "c\<lparr>cl_now := cl_now c + d\<rparr>"
  show ?thesis
  proof (cases "pr_deadline p \<le> cl_now c + d")
    case True
    with p assms(2) have "elapse d c = finish t ByRequestTimer (Rejected (''Crypto operation timed out: '' @ pr_type p)) ?c"
      by (simp add: elapse_def expireReady_def expirePending_def settle_finish del: append.simps)
    then show ?thesis by blast
  next
    case False
    with p assms(2) show ?thesis by (simp add: elapse_def expireReady_def expirePending_def)
  qed
qed

lemma elapse_Waiting:
  assumes "client_ok c" and "cl_current c = Waiting t r due"
  shows "elapse d c = c\<lparr>cl_now := cl_now c + d\<rparr> \<and> d < READY_TIMEOUT_MS \<or>
    (\<exists>v. elapse d c = finish t ByReadyTimer v (c\<lparr>cl_now := cl_now c + d\<rparr>))"
  using assms
  by (auto simp: client_ok_def elapse_def expireReady_def expirePending_def settle_finish)

lemma elapse_quiet:
  assumes "client_ok c" and "cl_current c = Idle \<or> cl_current c = Resuming t r"
  shows "elapse d c = c\<lparr>cl_now := cl_now c + d\<rparr>"
  using assms by (auto simp: client_ok_def elapse_def expireReady_def expirePending_def)

lemma elapse_cases:
  assumes "client_ok c"
  shows "elapse d c = c\<lparr>cl_now := cl_now c + d\<rparr> \<or>
    (\<exists>t v. cl_current c = InFlight t \<and> elapse d c = finish t ByRequestTimer v (c\<lparr>cl_now := cl_now c + d\<rparr>)) \<or>
    (\<exists>t r due v. cl_current c = Waiting t r due \<and> elapse d c = finish t ByReadyTimer v (c\<lparr>cl_now := cl_now c + d\<rparr>))"
proof (cases "cl_current c")
  case Idle with elapse_quiet [OF assms] show ?thesis by simp
next
  case (Waiting t r due) with elapse_Waiting [OF assms Waiting, of d] show ?thesis by auto
next
  case (Resuming t r) with elapse_quiet [OF assms] show ?thesis by simp
next
  case (InFlight t) with elapse_InFlight [OF assms InFlight, of d] show ?thesis by auto
qed

lemma client_ok_Reply: "client_ok c \<Longrightarrow> client_ok (client_onmessage (Reply i v) c)"
  using onmessage_Reply [of c i v] by (auto simp: client_ok_finish)

lemma client_ok_onmessage: "client_ok c \<Longrightarrow> client_ok (client_onmessage m c)"
  by (cases m) (simp_all add: client_ok_Ready client_ok_Reply del: client_onmessage.simps)

lemma client_ok_onerror: "client_ok c \<Longrightarrow> client_ok (client_onerror msg c)"
  using onerror_cases [of c msg] by (auto simp: client_ok_finish)

lemma client_ok_elapse: "client_ok c \<Longrightarrow> client_ok (elapse d c)"
  using elapse_cases [of c d] client_ok_later [of c d] client_ok_finish [of "c\<lparr>cl_now := cl_now c + d\<rparr>"]
  by auto

lemma client_ok_rawRequest: "client_ok c \<Longrightarrow> client_ok (fst (rawRequest uuid c))"
  by (auto simp: client_ok_def rawRequest_def currentTicket_def Let_def split: Current.split)

section \<open>Every call is settled\<close>

lemma sy_client_postRequest: "sy_client (postRequest uuid s) = fst (rawRequest uuid (sy_client s))"
  by (auto simp: postRequest_def split: prod.split option.split)

lemma client_ok_step: "client_ok (sy_client s) \<Longrightarrow> client_ok (sy_client (portStep W uuid e s))"
  by (cases e)
    (auto simp: client_ok_serialRequest client_ok_runChain sy_client_postRequest client_ok_rawRequest
      client_ok_onerror client_ok_elapse workerHandles_def clientReceives_def client_ok_onmessage
      split: list.split prod.split)

interpretation port_clients: invariant_system "portStep W uuid" "\<lambda>s. client_ok (sy_client s)" for W uuid
  by unfold_locales (rule client_ok_step)

lemma client_ok_run: "client_ok (sy_client (portRun W uuid es))"
  unfolding portRun_def by (rule port_clients.run_inv) (simp add: initialPort_def client_ok_initial)

definition unsettled :: "client \<Rightarrow> nat" where
  "unsettled c = length (currentTicket c) + length (cl_chain c)"

text \<open>Thirty seconds in which the page runs its continuations and hears nothing from the worker.\<close>

definition patience :: "PortEvent list" where
  "patience = [RunChain, RunRequest, TimePasses REQUEST_TIMEOUT_MS]"

lemma unsettled_elapse:
  assumes ok: "client_ok c" and busy: "\<exists>t r due. cl_current c = InFlight t \<or> cl_current c = Waiting t r due"
  shows "unsettled (elapse REQUEST_TIMEOUT_MS c) = unsettled c - 1 \<and>
    cl_calls (elapse REQUEST_TIMEOUT_MS c) = cl_calls c"
  using elapse_InFlight [OF ok, of _ REQUEST_TIMEOUT_MS] elapse_Waiting [OF ok, of _ _ _ REQUEST_TIMEOUT_MS] busy
  by (fastforce simp: unsettled_def currentTicket_def REQUEST_TIMEOUT_MS_def READY_TIMEOUT_MS_def)

lemma run_both:
  assumes "client_ok c"
  shows "unsettled (fst (rawRequest uuid (runChain c))) = unsettled c \<and>
    cl_calls (fst (rawRequest uuid (runChain c))) = cl_calls c \<and>
    (unsettled c = 0 \<or>
      (\<exists>t r due. cl_current (fst (rawRequest uuid (runChain c))) = InFlight t \<or>
                 cl_current (fst (rawRequest uuid (runChain c))) = Waiting t r due))"
  by (auto simp: rawRequest_def runChain_def waitReady_def unsettled_def currentTicket_def Let_def
      split: Current.split list.split)

lemma unsettled_patience:
  assumes ok: "client_ok (sy_client s)"
  shows "unsettled (sy_client (fold (portStep W uuid) patience s)) = unsettled (sy_client s) - 1 \<and>
    cl_calls (sy_client (fold (portStep W uuid) patience s)) = cl_calls (sy_client s)"
proof -
  let ?c = "fst (rawRequest uuid (runChain (sy_client s)))"
  have eq: "sy_client (fold (portStep W uuid) patience s) = elapse REQUEST_TIMEOUT_MS ?c"
    by (simp add: patience_def sy_client_postRequest)
  have ok': "client_ok ?c" by (intro client_ok_rawRequest client_ok_runChain ok)
  note b = run_both [OF ok, of uuid]
  show ?thesis
  proof (cases "unsettled (sy_client s) = 0")
    case True
    with b have idle: "unsettled ?c = 0" by simp
    then have "cl_current ?c = Idle" by (cases "cl_current ?c") (auto simp: unsettled_def currentTicket_def)
    with True idle b elapse_quiet [OF ok'] show ?thesis by (simp add: eq unsettled_def currentTicket_def)
  next
    case False
    with b unsettled_elapse [OF ok'] show ?thesis by (simp add: eq)
  qed
qed

lemma unsettled_rounds:
  assumes "client_ok (sy_client s)"
  shows "unsettled (sy_client (fold (portStep W uuid) (concat (replicate n patience)) s)) =
      unsettled (sy_client s) - n \<and>
    cl_calls (sy_client (fold (portStep W uuid) (concat (replicate n patience)) s)) = cl_calls (sy_client s)"
  using assms
proof (induction n arbitrary: s)
  case (Suc n)
  have "client_ok (sy_client (fold (portStep W uuid) patience s))"
    using Suc.prems by (rule port_clients.run_inv)
  with Suc.IH [of "fold (portStep W uuid) patience s"] unsettled_patience [OF Suc.prems, of W uuid] show ?case by simp
qed simp

section \<open>The calls are carried out one after the other\<close>

definition workerAfter :: "webcrypto \<Rightarrow> Request list \<Rightarrow> worker" where
  "workerAfter W rs = fold (\<lambda>r w. fst (handle W r w)) rs initialWorker"

text \<open>What a worker that is asked for the requests one by one answers to the \<open>j\<close>-th.\<close>

definition answerAt :: "webcrypto \<Rightarrow> Request list \<Rightarrow> nat \<Rightarrow> Response" where
  "answerAt W rs j = snd (handle W (rs ! j) (workerAfter W (take j rs)))"

definition postedRequests :: "port \<Rightarrow> Request list" where
  "postedRequests s = map (snd \<circ> snd) (sy_posted s)"

definition postedTickets :: "port \<Rightarrow> nat list" where
  "postedTickets s = map fst (sy_posted s)"

lemma workerAfter_snoc: "workerAfter W (rs @ [r]) = fst (handle W r (workerAfter W rs))"
  by (simp add: workerAfter_def)

lemma answerAt_append: "j < length rs \<Longrightarrow> answerAt W (rs @ rs') j = answerAt W rs j"
  by (simp add: answerAt_def nth_append)

text \<open>The calls that reached the worker: the settled ones its timer did not stop, and the one in flight.\<close>

definition reached :: "client \<Rightarrow> nat list" where
  "reached c = map fst (filter (\<lambda>(t, why, v). why \<noteq> ByReadyTimer) (cl_log c)) @
     (case cl_current c of InFlight t \<Rightarrow> [t] | _ \<Rightarrow> [])"

definition handled :: "port \<Rightarrow> nat" where
  "handled s = length (sy_posted s) - length (sy_inbox s)"

definition posted_ok :: "(nat \<Rightarrow> string) \<Rightarrow> port \<Rightarrow> bool" where
  "posted_ok uuid s \<longleftrightarrow>
     cl_uuids (sy_client s) = length (sy_posted s) \<and>
     map (fst \<circ> snd) (sy_posted s) = map uuid [0..<length (sy_posted s)] \<and>
     postedTickets s = reached (sy_client s) \<and>
     postedRequests s = map (\<lambda>t. cl_calls (sy_client s) ! t) (postedTickets s) \<and>
     (\<forall>t. cl_current (sy_client s) = InFlight t \<longrightarrow>
        map fst (cl_pending (sy_client s)) = [uuid (length (sy_posted s) - 1)])"

definition queue_ok :: "webcrypto \<Rightarrow> port \<Rightarrow> bool" where
  "queue_ok W s \<longleftrightarrow>
     length (sy_inbox s) \<le> length (sy_posted s) \<and>
     sy_inbox s = map snd (drop (handled s) (sy_posted s)) \<and>
     sy_worker s = workerAfter W (take (handled s) (postedRequests s))"

definition replies_ok :: "webcrypto \<Rightarrow> (nat \<Rightarrow> string) \<Rightarrow> port \<Rightarrow> bool" where
  "replies_ok W uuid s \<longleftrightarrow>
     (\<forall>i v. Reply i v \<in> set (sy_outbox s) \<longrightarrow>
        (\<exists>j < handled s. i = uuid j \<and> v = answerAt W (postedRequests s) j))"

definition answers_ok :: "webcrypto \<Rightarrow> port \<Rightarrow> bool" where
  "answers_ok W s \<longleftrightarrow>
     (\<forall>t v. (t, ByReply, v) \<in> set (cl_log (sy_client s)) \<longrightarrow>
        (\<exists>j < length (sy_posted s). postedTickets s ! j = t \<and> v = replyOutcome (answerAt W (postedRequests s) j)))"

definition port_ok :: "webcrypto \<Rightarrow> (nat \<Rightarrow> string) \<Rightarrow> port \<Rightarrow> bool" where
  "port_ok W uuid s \<longleftrightarrow>
     client_ok (sy_client s) \<and> posted_ok uuid s \<and> queue_ok W s \<and> replies_ok W uuid s \<and> answers_ok W s"

lemmas port_ok_defs = port_ok_def posted_ok_def queue_ok_def replies_ok_def answers_ok_def
  postedRequests_def postedTickets_def handled_def

lemma port_ok_initial: "port_ok W uuid initialPort"
  by (simp add: port_ok_defs initialPort_def client_ok_initial)
    (simp add: initialClient_def reached_def workerAfter_def)

lemma posted_client [simp]:
  "postedRequests (s\<lparr>sy_client := c\<rparr>) = postedRequests s" "postedTickets (s\<lparr>sy_client := c\<rparr>) = postedTickets s"
  "handled (s\<lparr>sy_client := c\<rparr>) = handled s"
  "postedRequests (s\<lparr>sy_outbox := out\<rparr>) = postedRequests s" "postedTickets (s\<lparr>sy_outbox := out\<rparr>) = postedTickets s"
  "handled (s\<lparr>sy_outbox := out\<rparr>) = handled s"
  by (simp_all add: postedRequests_def postedTickets_def handled_def)

text \<open>A step of the client alone that keeps the log, or settles the current call.\<close>

lemma port_ok_client:
  assumes ok: "port_ok W uuid s" and c: "client_ok c"
    and same: "cl_uuids c = cl_uuids (sy_client s)" "reached c = reached (sy_client s)"
    and calls: "\<And>t. t \<in> set (reached (sy_client s)) \<Longrightarrow> cl_calls c ! t = cl_calls (sy_client s) ! t"
    and current: "\<And>t. cl_current c = InFlight t \<Longrightarrow>
        cl_current (sy_client s) = InFlight t \<and> cl_pending c = cl_pending (sy_client s)"
    and log: "\<And>t v. (t, ByReply, v) \<in> set (cl_log c) \<Longrightarrow> (t, ByReply, v) \<in> set (cl_log (sy_client s)) \<or>
        (\<exists>j < length (sy_posted s). postedTickets s ! j = t \<and> v = replyOutcome (answerAt W (postedRequests s) j))"
  shows "port_ok W uuid (s\<lparr>sy_client := c\<rparr>)"
proof -
  have p: "posted_ok uuid s" using ok by (simp add: port_ok_def)
  then have t: "postedTickets s = reached (sy_client s)" by (simp add: posted_ok_def)
  have "map (\<lambda>t. cl_calls (sy_client s) ! t) (postedTickets s) = map (\<lambda>t. cl_calls c ! t) (postedTickets s)"
    using calls by (simp add: t)
  with p have "postedRequests s = map (\<lambda>t. cl_calls c ! t) (postedTickets s)" by (simp only: posted_ok_def)
  with p same current have "posted_ok uuid (s\<lparr>sy_client := c\<rparr>)"
    by (auto simp: posted_ok_def)
  moreover have "answers_ok W (s\<lparr>sy_client := c\<rparr>)"
    unfolding answers_ok_def
  proof (intro allI impI)
    fix t v
    assume "(t, ByReply, v) \<in> set (cl_log (sy_client (s\<lparr>sy_client := c\<rparr>)))"
    then have "(t, ByReply, v) \<in> set (cl_log c)" by simp
    from log [OF this] ok
    show "\<exists>j < length (sy_posted (s\<lparr>sy_client := c\<rparr>)). postedTickets (s\<lparr>sy_client := c\<rparr>) ! j = t \<and>
        v = replyOutcome (answerAt W (postedRequests (s\<lparr>sy_client := c\<rparr>)) j)"
      by (auto simp: port_ok_def answers_ok_def)
  qed
  ultimately show ?thesis
    using ok c by (simp add: port_ok_def queue_ok_def replies_ok_def)
qed

lemma reached_less: "client_ok c \<Longrightarrow> t \<in> set (reached c) \<Longrightarrow> t < length (cl_calls c)"
proof -
  assume ok: "client_ok c" and t: "t \<in> set (reached c)"
  have "t \<in> set (map fst (cl_log c) @ currentTicket c @ map fst (cl_chain c))"
    using t by (cases "cl_current c") (auto simp: reached_def currentTicket_def)
  with ok show ?thesis by (simp add: client_ok_def)
qed

lemma port_ok_finish:
  assumes ok: "port_ok W uuid s" and c: "client_ok c"
    and eqs: "cl_uuids c = cl_uuids (sy_client s)" "cl_log c = cl_log (sy_client s)"
      "cl_calls c = cl_calls (sy_client s)" "cl_current c = cl_current (sy_client s)"
    and t: "cl_current c = InFlight t \<and> why \<noteq> ByReadyTimer \<or> (\<exists>r due. cl_current c = Waiting t r due \<and> why = ByReadyTimer)"
    and v: "why = ByReply \<Longrightarrow>
      \<exists>j < length (sy_posted s). postedTickets s ! j = t \<and> v = replyOutcome (answerAt W (postedRequests s) j)"
  shows "port_ok W uuid (s\<lparr>sy_client := finish t why v c\<rparr>)"
proof (rule port_ok_client [OF ok])
  show "client_ok (finish t why v c)" using t by (intro client_ok_finish [OF c]) auto
  show "reached (finish t why v c) = reached (sy_client s)"
    using t eqs by (auto simp: reached_def)
qed (use eqs v in auto)

lemma port_ok_later: "port_ok W uuid s \<Longrightarrow> port_ok W uuid (s\<lparr>sy_client := (sy_client s)\<lparr>cl_now := cl_now (sy_client s) + d\<rparr>\<rparr>)"
  by (rule port_ok_client) (auto simp: port_ok_def client_ok_later reached_def)

lemma port_ok_elapse:
  assumes ok: "port_ok W uuid s"
  shows "port_ok W uuid (s\<lparr>sy_client := elapse d (sy_client s)\<rparr>)"
proof -
  let ?c = "(sy_client s)\<lparr>cl_now := cl_now (sy_client s) + d\<rparr>"
  have c: "client_ok (sy_client s)" using ok by (simp add: port_ok_def)
  have c': "client_ok ?c" by (rule client_ok_later [OF c])
  from elapse_cases [OF c, of d] show ?thesis
    using port_ok_later [OF ok, of d] port_ok_finish [OF ok c', of _ ByRequestTimer] port_ok_finish [OF ok c', of _ ByReadyTimer]
    by auto
qed

lemma port_ok_crash:
  assumes ok: "port_ok W uuid s"
  shows "port_ok W uuid (s\<lparr>sy_client := client_onerror msg (sy_client s)\<rparr>)"
proof -
  have c: "client_ok (sy_client s)" using ok by (simp add: port_ok_def)
  from onerror_cases [OF c, of msg] show ?thesis using ok port_ok_finish [OF ok c, of _ ByCrash] by auto
qed

lemma port_ok_call:
  assumes ok: "port_ok W uuid s"
  shows "port_ok W uuid (s\<lparr>sy_client := serialRequest r (sy_client s)\<rparr>)"
proof (rule port_ok_client [OF ok])
  have c: "client_ok (sy_client s)" using ok by (simp add: port_ok_def)
  then show "client_ok (serialRequest r (sy_client s))" by (rule client_ok_serialRequest)
  show "cl_calls (serialRequest r (sy_client s)) ! t = cl_calls (sy_client s) ! t"
    if "t \<in> set (reached (sy_client s))" for t
    using reached_less [OF c that] by (simp add: serialRequest_def nth_append)
qed (auto simp: serialRequest_def reached_def)

lemma runChain_sel:
  "cl_uuids (runChain c) = cl_uuids c" "cl_calls (runChain c) = cl_calls c" "cl_log (runChain c) = cl_log c"
  "cl_pending (runChain c) = cl_pending c" "cl_current (runChain c) = InFlight t \<longleftrightarrow> cl_current c = InFlight t"
  by (auto simp: runChain_def waitReady_def split: Current.split list.split)

lemma reached_cong:
  assumes "cl_log c = cl_log d" and eq: "\<And>t. cl_current c = InFlight t \<longleftrightarrow> cl_current d = InFlight t"
  shows "reached c = reached d"
proof (cases "\<exists>t. cl_current c = InFlight t")
  case True
  then obtain t where "cl_current c = InFlight t" by blast
  with eq [of t] assms(1) show ?thesis by (simp add: reached_def)
next
  case False
  then have "\<And>t. cl_current c \<noteq> InFlight t" "\<And>t. cl_current d \<noteq> InFlight t" using eq by blast+
  with assms(1) show ?thesis by (simp add: reached_def split: Current.split)
qed

lemma port_ok_runChain:
  assumes ok: "port_ok W uuid s"
  shows "port_ok W uuid (s\<lparr>sy_client := runChain (sy_client s)\<rparr>)"
proof (rule port_ok_client [OF ok])
  show "client_ok (runChain (sy_client s))" using ok by (simp add: port_ok_def client_ok_runChain)
  show "reached (runChain (sy_client s)) = reached (sy_client s)"
    by (rule reached_cong) (simp_all add: runChain_sel)
qed (auto simp: runChain_sel)

lemma Ready_sel:
  "cl_uuids (client_onmessage Ready c) = cl_uuids c" "cl_calls (client_onmessage Ready c) = cl_calls c"
  "cl_log (client_onmessage Ready c) = cl_log c" "cl_pending (client_onmessage Ready c) = cl_pending c"
  "cl_current (client_onmessage Ready c) = InFlight t \<longleftrightarrow> cl_current c = InFlight t"
  by (auto simp: fold_wakeWaiter split: Current.split)

lemma port_ok_Ready:
  assumes ok: "port_ok W uuid s"
  shows "port_ok W uuid (s\<lparr>sy_client := client_onmessage Ready (sy_client s)\<rparr>)"
proof (rule port_ok_client [OF ok])
  show "client_ok (client_onmessage Ready (sy_client s))"
    using ok by (simp add: port_ok_def client_ok_Ready del: client_onmessage.simps)
  show "reached (client_onmessage Ready (sy_client s)) = reached (sy_client s)"
    by (rule reached_cong) (simp_all add: Ready_sel del: client_onmessage.simps)
qed (auto simp: Ready_sel simp del: client_onmessage.simps)

lemma port_ok_Reply:
  assumes ok: "port_ok W uuid s" and inj: "inj uuid"
    and j: "j < length (sy_posted s)" and v: "v = answerAt W (postedRequests s) j"
  shows "port_ok W uuid (s\<lparr>sy_client := client_onmessage (Reply (uuid j) v) (sy_client s)\<rparr>)"
proof -
  have c: "client_ok (sy_client s)" and p: "posted_ok uuid s" using ok by (simp_all add: port_ok_def)
  have "\<exists>j < length (sy_posted s). postedTickets s ! j = t \<and> replyOutcome v = replyOutcome (answerAt W (postedRequests s) j)"
    if t: "cl_current (sy_client s) = InFlight t" and pend: "cl_pending (sy_client s) = [(uuid j, q)]" for t q
  proof -
    have last: "j = length (sy_posted s) - 1" using p t pend inj by (auto simp: posted_ok_def dest: injD)
    have "postedTickets s = reached (sy_client s)" using p by (simp add: posted_ok_def)
    then have "postedTickets s \<noteq> []" "List.last (postedTickets s) = t" using t by (simp_all add: reached_def)
    then have "postedTickets s ! j = t" using last by (simp add: last_conv_nth postedTickets_def)
    with j v show ?thesis by blast
  qed
  with onmessage_Reply [OF c, of "uuid j" v] show ?thesis using ok port_ok_finish [OF ok c, of _ ByReply "replyOutcome v"] by auto
qed

lemma port_ok_receives:
  assumes ok: "port_ok W uuid s" and inj: "inj uuid"
  shows "port_ok W uuid (clientReceives s)"
proof (cases "sy_outbox s")
  case Nil with ok show ?thesis by (simp add: clientReceives_def)
next
  case (Cons m rest)
  let ?s = "s\<lparr>sy_outbox := rest\<rparr>"
  have ok': "port_ok W uuid ?s"
    using ok Cons by (auto simp: port_ok_def posted_ok_def queue_ok_def replies_ok_def answers_ok_def)
  have eq: "clientReceives s = ?s\<lparr>sy_client := client_onmessage m (sy_client ?s)\<rparr>"
    using Cons by (simp add: clientReceives_def)
  show ?thesis
  proof (cases m)
    case Ready with port_ok_Ready [OF ok'] eq show ?thesis by simp
  next
    case (Reply i v)
    then obtain j where j: "j < handled s" "i = uuid j" "v = answerAt W (postedRequests s) j"
      using ok Cons by (auto simp: port_ok_def replies_ok_def)
    then have "j < length (sy_posted ?s)" by (simp add: handled_def)
    from port_ok_Reply [OF ok' inj this] j(2,3) show ?thesis by (simp only: eq Reply posted_client)
  qed
qed

lemma port_ok_worker:
  assumes ok: "port_ok W uuid s"
  shows "port_ok W uuid (workerHandles W s)"
proof (cases "sy_inbox s")
  case Nil with ok show ?thesis by (simp add: workerHandles_def)
next
  case (Cons e rest)
  obtain i r where e: "e = (i, r)" by (cases e)
  define k where "k = handled s"
  have q: "queue_ok W s" and p: "posted_ok uuid s" and rep: "replies_ok W uuid s" using ok by (simp_all add: port_ok_def)
  have k: "k < length (sy_posted s)" "length rest = length (sy_posted s) - Suc k"
    using q Cons by (auto simp: queue_ok_def k_def handled_def)
  have drop: "drop k (sy_posted s) = sy_posted s ! k # drop (Suc k) (sy_posted s)"
    using k(1) by (simp add: Cons_nth_drop_Suc)
  have inbox: "snd (sy_posted s ! k) = (i, r)" "rest = map snd (drop (Suc k) (sy_posted s))"
    using q Cons e drop by (simp_all add: queue_ok_def k_def)
  have i: "i = uuid k"
  proof -
    have "map (fst \<circ> snd) (sy_posted s) ! k = map uuid [0..<length (sy_posted s)] ! k"
      using p by (simp only: posted_ok_def)
    with k(1) inbox(1) show ?thesis by simp
  qed
  have r: "postedRequests s ! k = r" using inbox(1) k(1) by (simp add: postedRequests_def)
  have take: "take (Suc k) (postedRequests s) = take k (postedRequests s) @ [r]"
    using k(1) r by (simp add: take_Suc_conv_app_nth postedRequests_def)
  let ?s = "workerHandles W s"
  have eq: "?s = s\<lparr>sy_worker := fst (handle W r (sy_worker s)), sy_inbox := rest,
      sy_outbox := sy_outbox s @ [Reply i (snd (handle W r (sy_worker s)))]\<rparr>"
    using Cons e by (simp add: workerHandles_def case_prod_beta)
  have same: "postedRequests ?s = postedRequests s" "postedTickets ?s = postedTickets s" "handled ?s = Suc k"
    "sy_posted ?s = sy_posted s" "sy_client ?s = sy_client s"
    using k by (auto simp: eq postedRequests_def postedTickets_def handled_def)
  have w: "sy_worker s = workerAfter W (take k (postedRequests s))" using q by (simp add: queue_ok_def k_def)
  have "queue_ok W ?s"
    unfolding queue_ok_def same using k inbox(2) by (simp add: eq take workerAfter_snoc w)
  moreover have "replies_ok W uuid ?s"
    unfolding replies_ok_def same
    using rep r w by (auto simp: eq i replies_ok_def k_def [symmetric] answerAt_def less_Suc_eq)
  moreover have "posted_ok uuid ?s" using p unfolding posted_ok_def same .
  moreover have "answers_ok W ?s" using ok unfolding port_ok_def answers_ok_def same by blast
  ultimately show ?thesis using ok by (simp add: port_ok_def same)
qed

lemma port_ok_post:
  assumes ok: "port_ok W uuid s"
  shows "port_ok W uuid (postRequest uuid s)"
proof (cases "\<exists>t r. cl_current (sy_client s) = Resuming t r")
  case False
  with ok show ?thesis by (auto simp: postRequest_def rawRequest_def split: Current.split)
next
  case True
  then obtain t r where cur: "cl_current (sy_client s) = Resuming t r" by blast
  let ?n = "length (sy_posted s)"
  have c: "client_ok (sy_client s)" and p: "posted_ok uuid s" and q: "queue_ok W s" using ok by (simp_all add: port_ok_def)
  have r: "cl_calls (sy_client s) ! t = r" and no: "cl_pending (sy_client s) = []"
    using c cur by (simp_all add: client_ok_def)
  let ?s = "postRequest uuid s"
  obtain req where c': "sy_client ?s = (sy_client s)\<lparr>cl_current := InFlight t, cl_uuids := Suc ?n, cl_pending := [(uuid ?n, req)]\<rparr>"
    using cur no p by (auto simp: postRequest_def rawRequest_def Let_def posted_ok_def)
  have s': "sy_posted ?s = sy_posted s @ [(t, uuid ?n, r)]" "sy_inbox ?s = sy_inbox s @ [(uuid ?n, r)]"
    "sy_worker ?s = sy_worker s" "sy_outbox ?s = sy_outbox s"
    using cur p by (auto simp: postRequest_def rawRequest_def Let_def posted_ok_def)
  have h: "handled ?s = handled s" "handled s \<le> ?n" using q by (auto simp: handled_def s' queue_ok_def)
  have app: "postedRequests ?s = postedRequests s @ [r]" "postedTickets ?s = postedTickets s @ [t]"
    by (simp_all add: postedRequests_def postedTickets_def s')
  have len: "length (postedRequests s) = ?n" "length (postedTickets s) = ?n"
    by (simp_all add: postedRequests_def postedTickets_def)
  have "reached (sy_client ?s) = reached (sy_client s) @ [t]" using cur by (simp add: reached_def c')
  then have "posted_ok uuid ?s"
    using p r by (simp add: posted_ok_def s' c' app)
  moreover have "queue_ok W ?s"
    using q h len by (simp add: queue_ok_def s' app)
  moreover have "replies_ok W uuid ?s"
    using ok h len by (fastforce simp: port_ok_def replies_ok_def s' app answerAt_append)
  moreover have "answers_ok W ?s"
    using ok len by (fastforce simp: port_ok_def answers_ok_def s' c' app answerAt_append nth_append)
  moreover have "client_ok (sy_client ?s)"
    by (simp add: sy_client_postRequest client_ok_rawRequest c)
  ultimately show ?thesis by (simp add: port_ok_def)
qed

lemma port_ok_step: "inj uuid \<Longrightarrow> port_ok W uuid s \<Longrightarrow> port_ok W uuid (portStep W uuid e s)"
  by (cases e) (simp_all add: port_ok_call port_ok_runChain port_ok_post port_ok_worker port_ok_receives
      port_ok_crash port_ok_elapse)

lemma port_ok_run:
  assumes "inj uuid"
  shows "port_ok W uuid (portRun W uuid es)"
proof -
  have "port_ok W uuid (fold (portStep W uuid) es s)" if "port_ok W uuid s" for s
    using that by (induction es arbitrary: s) (auto simp: port_ok_step assms)
  then show ?thesis by (simp add: portRun_def port_ok_initial)
qed

fun callsOf :: "PortEvent list \<Rightarrow> Request list" where
  "callsOf [] = []"
| "callsOf (CallMethod r # es) = r # callsOf es"
| "callsOf (_ # es) = callsOf es"

lemma elapse_calls: "client_ok c \<Longrightarrow> cl_calls (elapse d c) = cl_calls c"
  using elapse_cases [of c d] by auto

lemma receives_calls: "client_ok (sy_client s) \<Longrightarrow> cl_calls (sy_client (clientReceives s)) = cl_calls (sy_client s)"
proof (cases "sy_outbox s")
  case (Cons m rest)
  assume ok: "client_ok (sy_client s)"
  show ?thesis
  proof (cases m)
    case Ready with Cons show ?thesis by (simp add: clientReceives_def fold_wakeWaiter)
  next
    case (Reply i v)
    with Cons onmessage_Reply [OF ok, of i v] show ?thesis
      by (auto simp: clientReceives_def simp del: client_onmessage.simps)
  qed
qed (simp add: clientReceives_def)

lemma onerror_calls: "client_ok c \<Longrightarrow> cl_calls (client_onerror msg c) = cl_calls c"
  using onerror_cases [of c msg] by auto

lemma step_calls:
  "client_ok (sy_client s) \<Longrightarrow>
   cl_calls (sy_client (portStep W uuid e s)) = cl_calls (sy_client s) @ callsOf [e]"
  by (cases e)
    (auto simp: onerror_calls serialRequest_def runChain_sel sy_client_postRequest rawRequest_def Let_def workerHandles_def
      receives_calls elapse_calls split: Current.split list.split prod.split)

lemma callsOf_Cons: "callsOf (e # es) = callsOf [e] @ callsOf es"
  by (cases e) auto

lemma run_calls: "cl_calls (sy_client (portRun W uuid es)) = callsOf es"
proof -
  have "cl_calls (sy_client (fold (portStep W uuid) es s)) = cl_calls (sy_client s) @ callsOf es"
    if "client_ok (sy_client s)" for s
    using that
  proof (induction es arbitrary: s)
    case (Cons e es)
    with Cons.IH [OF client_ok_step [OF Cons.prems]] show ?case
      by (simp add: step_calls [OF Cons.prems] callsOf_Cons [of e es] del: callsOf.simps)
  qed simp
  from this [of initialPort] show ?thesis
    by (simp add: portRun_def initialPort_def client_ok_initial) (simp add: initialClient_def)
qed

lemma reached_sorted: "client_ok c \<Longrightarrow> sorted_wrt (<) (reached c)"
proof -
  assume ok: "client_ok c"
  have log: "map fst (cl_log c) = [0..<length (cl_log c)]" using client_ok_upto [OF ok] by simp
  have inc: "sorted_wrt (<) (map fst (cl_log c))" unfolding log by simp
  have settled: "sorted_wrt (<) (map fst (filter P (cl_log c)))" for P
    using inc by (simp add: sorted_wrt_map sorted_wrt_filter)
  have less: "t < length (cl_log c)" if "t \<in> set (map fst (filter P (cl_log c)))" for t P
  proof -
    have "t \<in> set (map fst (cl_log c))" using that by auto
    then show ?thesis unfolding log by simp
  qed
  show ?thesis
  proof (cases "\<exists>t. cl_current c = InFlight t")
    case True
    then obtain t where t: "cl_current c = InFlight t" by blast
    then have "t = length (cl_log c)" using client_ok_current [OF ok] by simp
    with t settled less show ?thesis by (simp add: reached_def sorted_wrt_append del: set_map)
  next
    case False
    then show ?thesis using settled by (simp add: reached_def split: Current.split)
  qed
qed

lemma all_answered:
  assumes ok: "port_ok W uuid s"
    and all: "\<forall>(t, why, v) \<in> set (cl_log (sy_client s)). why = ByReply"
    and settled: "length (cl_log (sy_client s)) = length (cl_calls (sy_client s))"
  shows "map (snd \<circ> snd) (cl_log (sy_client s)) =
    map (\<lambda>j. replyOutcome (answerAt W (cl_calls (sy_client s)) j)) [0..<length (cl_calls (sy_client s))]"
proof -
  let ?c = "sy_client s" and ?n = "length (cl_calls (sy_client s))"
  have c: "client_ok ?c" and p: "posted_ok uuid s" using ok by (simp_all add: port_ok_def)
  have log: "map fst (cl_log ?c) = [0..<?n]" using client_ok_upto [OF c] settled by simp
  have none: "currentTicket ?c = []" using client_ok_upto [OF c] settled by simp
  have "filter (\<lambda>(t, why, v). why \<noteq> ByReadyTimer) (cl_log ?c) = cl_log ?c"
    using all by (auto simp: filter_id_conv)
  with none log have "reached ?c = [0..<?n]"
    by (cases "cl_current ?c") (auto simp: reached_def currentTicket_def)
  with p have t: "postedTickets s = [0..<?n]" by (simp add: posted_ok_def)
  with p have r: "postedRequests s = cl_calls ?c" by (simp add: posted_ok_def map_nth)
  have len: "length (sy_posted s) = ?n" using arg_cong [OF t, of length] by (simp add: postedTickets_def)
  show ?thesis
  proof (rule nth_equalityI)
    fix k
    assume "k < length (map (snd \<circ> snd) (cl_log ?c))"
    then have k: "k < ?n" "k < length (cl_log ?c)" using settled by simp_all
    obtain tk why v where e: "cl_log ?c ! k = (tk, why, v)" by (cases "cl_log ?c ! k")
    have mem: "(tk, why, v) \<in> set (cl_log ?c)" using e k(2) nth_mem by metis
    have "map fst (cl_log ?c) ! k = k" unfolding log using k(1) by simp
    then have "tk = k" "why = ByReply" using e k(2) mem all by auto
    with mem ok obtain j where "j < ?n" "postedTickets s ! j = k" "v = replyOutcome (answerAt W (cl_calls ?c) j)"
      by (auto simp: port_ok_def answers_ok_def r len)
    with t e k show "map (snd \<circ> snd) (cl_log ?c) ! k =
        map (\<lambda>j. replyOutcome (answerAt W (cl_calls ?c) j)) [0..<?n] ! k" by simp
  qed (simp add: settled)
qed

text \<open>
  C9. The crypto client and the worker behind it are one sequential service. Whatever the order of
  calls, continuations, messages, crashes and timeouts: the calls are settled in the order
  they were made, each once; the requests that reach the worker are those calls, in that
  order, except the ones the ready timer refused; the worker's state is the one those
  requests leave one after the other; and a call that is settled by a reply gets the worker's answer to
  its own request, never a late answer to an earlier one that timed out. If no call
  failed, the results are exactly those of a worker called directly.
\<close>

theorem crypto_calls_are_sequential:
  assumes "inj uuid"
  shows "let s = portRun W uuid es; c = sy_client s in
    map fst (cl_log c) = [0..<length (cl_log c)] \<and>
    postedTickets s = reached c \<and> sorted_wrt (<) (postedTickets s) \<and>
    postedRequests s = map (\<lambda>t. callsOf es ! t) (postedTickets s) \<and>
    sy_worker s = workerAfter W (take (handled s) (postedRequests s)) \<and>
    (\<forall>t v. (t, ByReply, v) \<in> set (cl_log c) \<longrightarrow>
       (\<exists>j < length (postedRequests s). postedTickets s ! j = t \<and>
          v = replyOutcome (answerAt W (postedRequests s) j))) \<and>
    ((\<forall>(t, why, v) \<in> set (cl_log c). why = ByReply) \<and> length (cl_log c) = length (callsOf es) \<longrightarrow>
       map (snd \<circ> snd) (cl_log c) =
         map (\<lambda>j. replyOutcome (answerAt W (callsOf es) j)) [0..<length (callsOf es)])"
proof -
  let ?s = "portRun W uuid es"
  have ok: "port_ok W uuid ?s" by (rule port_ok_run [OF assms])
  then have c: "client_ok (sy_client ?s)" and p: "posted_ok uuid ?s" and q: "queue_ok W ?s" and a: "answers_ok W ?s"
    by (simp_all add: port_ok_def)
  have len: "length (postedRequests ?s) = length (sy_posted ?s)" by (simp add: postedRequests_def)
  note facts = p [unfolded posted_ok_def run_calls] q [unfolded queue_ok_def] a [unfolded answers_ok_def]
    all_answered [OF ok, unfolded run_calls]
  show ?thesis
    unfolding Let_def len
    by (intro conjI) (use facts client_ok_upto [OF c] reached_sorted [OF c] in \<open>blast | simp\<close>)+
qed

text \<open>
  C10. No call of the crypto client hangs. After any history, calls that are still
  waiting are all settled within thirty seconds each, even if the worker never answers again:
  the page's continuations and its two timers are enough. The calls made are then settled in
  order, each exactly once.
\<close>

theorem crypto_calls_settle:
  "let n = unsettled (sy_client (portRun W uuid es)) in
   map fst (cl_log (sy_client (portRun W uuid (es @ concat (replicate n patience))))) =
     [0..<length (callsOf es)]"
proof -
  let ?s = "portRun W uuid es"
  let ?t = "portRun W uuid (es @ concat (replicate (unsettled (sy_client ?s)) patience))"
  have t: "?t = fold (portStep W uuid) (concat (replicate (unsettled (sy_client ?s)) patience)) ?s"
    by (simp add: portRun_def)
  have calls: "cl_calls (sy_client ?t) = callsOf es" and none: "unsettled (sy_client ?t) = 0"
    using unsettled_rounds [OF client_ok_run [of W uuid es]] by (simp_all add: t run_calls)
  from client_ok_upto [OF client_ok_run] calls none
  have "map fst (cl_log (sy_client ?t)) = [0..<length (callsOf es)]"
    by (metis add.right_neutral add_is_0 unsettled_def)
  then show ?thesis by (simp add: Let_def)
qed

text \<open>
  A run with a request that times out and is answered late: the second call gets its own
  answer, the late one is ignored.
\<close>

definition lateEvents :: "PortEvent list" where
  "lateEvents =
     [CallMethod client_reset, CallMethod (client_generateIdentity [7]), ClientReceives, RunChain, RunRequest,
      TimePasses 30000, RunChain, RunRequest, WorkerHandles, ClientReceives, WorkerHandles, ClientReceives]"

definition unaryIds :: "nat \<Rightarrow> string" where
  "unaryIds n = replicate (Suc n) (CHR ''u'')"

lemma unaryIds_inj: "inj unaryIds"
  by (rule injI) (metis unaryIds_def length_replicate nat.inject)

lemma late_log:
  "cl_log (sy_client (portRun W unaryIds lateEvents)) =
     [(0, ByRequestTimer, Rejected ''Crypto operation timed out: RESET''),
      (1, ByReply, Resolved (RBytes (wc_publicKey W [7])))]"
  by (simp add: lateEvents_def client_reset_def client_generateIdentity_def unaryIds_def portRun_def initialPort_def initialClient_def serialRequest_def
      clientReceives_def wakeWaiter_def runChain_def waitReady_def postRequest_def rawRequest_def elapse_def
      expireReady_def expirePending_def settleCall_def workerHandles_def REQUEST_TIMEOUT_MS_def
      READY_TIMEOUT_MS_def generateIdentity_def Let_def)

theorem crypto_calls_are_sequential_witness:
  "inj unaryIds \<and>
   (let s = portRun toyCrypto unaryIds lateEvents in
      cl_log (sy_client s) =
        [(0, ByRequestTimer, Rejected ''Crypto operation timed out: RESET''),
         (1, ByReply, Resolved (RBytes (wc_publicKey toyCrypto [7])))] \<and>
      (\<exists>j < length (postedRequests s). postedTickets s ! j = 1 \<and>
         Resolved (RBytes (wc_publicKey toyCrypto [7])) = replyOutcome (answerAt toyCrypto (postedRequests s) j)))"
proof -
  have mem: "(1, ByReply, Resolved (RBytes (wc_publicKey toyCrypto [7])))
      \<in> set (cl_log (sy_client (portRun toyCrypto unaryIds lateEvents)))"
    by (simp add: late_log)
  show ?thesis
    using crypto_calls_are_sequential [OF unaryIds_inj, of toyCrypto lateEvents] mem
    by (auto simp: Let_def unaryIds_inj late_log)
qed

end
