(* ===== verification/AppView.thy ===== *)
theory AppView
  imports SessionView Rooms Bytes
begin

text \<open>
  The user interface (\<^verbatim>\<open>client/src/ui/AppView.ts\<close>, \<^verbatim>\<open>dom.ts\<close>): what is drawn for a state of the session, which
  controls that drawing offers, and the view's own state (drafts, sheet, menu, toast, scheduled frames). A document is a tree
  of elements with attributes and handlers; a handler is named by an \<open>Action\<close>, and \<open>perform\<close> is what it does. The
  browser (time format, page address, share sheet) is a parameter. The values of the two text inputs change as the user types; they are kept
  beside the tree. Focus, selection and scroll position are left out. Three symbols of captions that are not in the
  string type are written in ASCII: the ellipsis, the menu symbol and the microphone.
\<close>

section \<open>Documents\<close>

datatype SheetName = SheetRoom | SheetVerify | SheetAbout | SheetLeave
datatype ToastTone = ToneInfo | ToneError
datatype MenuItem = MenuRoom | MenuCopy | MenuShare | MenuLeave

datatype Action =
    ACreateRoom
  | AJoinRoom bool \<comment> \<open>\<^verbatim>\<open>busy\<close> when it was drawn\<close>
  | ATypeRoom
  | ASetProfile
  | AHelp
  | ACopyCode
  | AShareRoom
  | ASecurity
  | AMenuToggle
  | AMenu MenuItem
  | AAccept string
  | ADecline string
  | ACancel string
  | ARemove string
  | ADownload bytes string \<comment> \<open>following the link to a blob, with the name it is saved under\<close>
  | AEnableAudio
  | AFileChosen
  | AAttach
  | ATypeMessage
  | ASendText
  | AToggleMute
  | AStopVoice
  | AStartVoice
  | ACloseSheet
  | AMarkVerified bool
  | AEndChat
  | AStay

datatype Handler = OnClick Action | OnSubmit Action | OnInput Action | OnChange Action

datatype Kind = KindButton | KindSubmit | KindFile

datatype Attr =
    Class string
  | TypeOf Kind
  | Disabled bool
  | Title string
  | AriaLabel string
  | Placeholder string
  | AutocompleteOff
  | InputModeText
  | MaxLength nat
  | OptionValue TransportProfileId
  | Selected bool
  | Link bytes string
  | WidthPercent rat

datatype node = Text string | Elem string "Attr list" "Handler list" "node list"

definition textNode :: "string \<Rightarrow> node list" where
  "textNode s = (if s = '''' then [] else [Text s])"

definition el :: "string \<Rightarrow> string option \<Rightarrow> string option \<Rightarrow> node list \<Rightarrow> node" where
  "el tag className txt kids =
     Elem tag (case className of Some c \<Rightarrow> if c = '''' then [] else [Class c] | None \<Rightarrow> []) []
       ((case txt of Some s \<Rightarrow> textNode s | None \<Rightarrow> []) @ kids)"

definition button :: "string \<Rightarrow> string \<Rightarrow> Attr list \<Rightarrow> Action \<Rightarrow> node" where
  "button caption className extra a = Elem ''button'' (TypeOf KindButton # Class className # extra) [OnClick a] (textNode caption)"

abbreviation div_of :: "string \<Rightarrow> node list \<Rightarrow> node" where "div_of c kids \<equiv> el ''div'' (Some c) None kids"
abbreviation div_text :: "string \<Rightarrow> string \<Rightarrow> node" where "div_text c s \<equiv> el ''div'' (Some c) (Some s) []"
abbreviation plain_text :: "string \<Rightarrow> string \<Rightarrow> node" where "plain_text tag s \<equiv> el tag None (Some s) []"

text \<open>
  The controls a document offers. A disabled element does nothing; a form can be submitted only if it has a
  submit button that is not disabled (also with the enter key).
\<close>

fun hasSubmit :: "node \<Rightarrow> bool" where
  "hasSubmit (Text _) = False"
| "hasSubmit (Elem tag as hs kids) =
     ((TypeOf KindSubmit \<in> set as \<and> Disabled True \<notin> set as) \<or> list_ex hasSubmit kids)"

fun handlerAction :: "bool \<Rightarrow> Handler \<Rightarrow> Action list" where
  "handlerAction submits (OnClick a) = [a]"
| "handlerAction submits (OnInput a) = [a]"
| "handlerAction submits (OnChange a) = [a]"
| "handlerAction submits (OnSubmit a) = (if submits then [a] else [])"

fun linkAction :: "Attr \<Rightarrow> Action list" where
  "linkAction (Link blob name) = [ADownload blob name]"
| "linkAction _ = []"

fun controls :: "node \<Rightarrow> Action list" where
  "controls (Text _) = []"
| "controls (Elem tag as hs kids) =
     (if Disabled True \<in> set as then []
      else concat (map linkAction as) @ concat (map (handlerAction (list_ex hasSubmit kids)) hs)) @
     concat (map controls kids)"

section \<open>Words for people\<close>

abbreviation ELLIPSIS :: string where "ELLIPSIS \<equiv> ''...''"

record browser =
  br_time :: "int \<Rightarrow> string option" \<comment> \<open>\<^verbatim>\<open>Intl.DateTimeFormat\<close>; \<open>None\<close> if it throws\<close>
  br_roomLink :: "string \<Rightarrow> string"
  br_canShare :: bool

definition formatTime :: "browser \<Rightarrow> int \<Rightarrow> string" where
  "formatTime br t = (case br_time br t of Some s \<Rightarrow> s | None \<Rightarrow> '''')"

definition lowerChar :: "char \<Rightarrow> char" where
  "lowerChar c = (let n = of_char c :: nat in if 65 \<le> n \<and> n \<le> 90 then char_of (n + 32) else c)"

fun startsWith :: "string \<Rightarrow> string \<Rightarrow> bool" where
  "startsWith [] s = True"
| "startsWith (w # ws) [] = False"
| "startsWith (w # ws) (c # cs) = (w = c \<and> startsWith ws cs)"

fun occursIn :: "string \<Rightarrow> string \<Rightarrow> bool" where
  "occursIn w [] = startsWith w []"
| "occursIn w (c # cs) = (startsWith w (c # cs) \<or> occursIn w cs)"

definition mentions :: "string list \<Rightarrow> string \<Rightarrow> bool" where
  "mentions ws s = list_ex (\<lambda>w. occursIn w (map lowerChar s)) ws"

definition noticeToastTone :: "string \<Rightarrow> ToastTone option" where
  "noticeToastTone notice =
     (if mentions [''denied'', ''failed'', ''could not'', ''not ready'', ''blocked'', ''unstable'', ''mismatch'', ''lost'',
                   ''unavailable'', ''incompatible''] notice then Some ToneError
      else if mentions [''enabled'', ''copied''] notice then Some ToneInfo
      else None)"

fun profilePlainDescription :: "TransportProfileId \<Rightarrow> string" where
  "profilePlainDescription Balanced = ''Best default for normal chat, files, and voice.''"
| "profilePlainDescription LowData = ''Uses less bandwidth. Voice may feel less responsive.''"
| "profilePlainDescription VoiceFirst = ''Keeps calls more stable. File transfer may slow down.''"
| "profilePlainDescription MaximumPrivacy =
     ''Uses larger fixed-size traffic. More private against traffic patterns, but uses more bandwidth.''"

fun connectionLabel :: "ConnectionStatus \<Rightarrow> string" where
  "connectionLabel Connected = ''Connected''"
| "connectionLabel Connecting = ''Connecting''"
| "connectionLabel Reconnecting = ''Reconnecting''"
| "connectionLabel ConnFailed = ''Failed''"
| "connectionLabel Disconnected = ''Disconnected''"

fun encryptionLabel :: "SecurityState \<Rightarrow> string" where
  "encryptionLabel Verified = ''Verified''"
| "encryptionLabel EncryptedUnverified = ''Encrypted, not verified''"
| "encryptionLabel VerificationFailed = ''Verification failed''"
| "encryptionLabel SecNone = ''Not ready''"

fun truthy :: "string option \<Rightarrow> bool" where
  "truthy None = False"
| "truthy (Some s) = (s \<noteq> '''')"

definition reasonOr :: "string \<Rightarrow> TransferView \<Rightarrow> string" where
  "reasonOr dflt t = (if truthy (tv_reason t) then the (tv_reason t) else dflt)"

definition transferStateLabel :: "TransferView \<Rightarrow> string" where
  "transferStateLabel t =
     (case tv_state t of
        TsQueued \<Rightarrow> ''Queued''
      | TsOffered \<Rightarrow> if tv_direction t = DirReceive then ''Incoming file'' else ''Offered''
      | TsWaiting \<Rightarrow> ''Waiting for peer acceptance''
      | TsSending \<Rightarrow> ''Uploading''
      | TsReceiving \<Rightarrow> ''Downloading''
      | TsPaused \<Rightarrow> reasonOr ''Paused'' t
      | TsCompleted \<Rightarrow> if tv_direction t = DirReceive then ''Received'' else ''Sent''
      | TsCancelled \<Rightarrow> ''Cancelled''
      | TsFailed \<Rightarrow> reasonOr ''Transfer failed'' t)"

definition isTerminalTransfer :: "TransferState \<Rightarrow> bool" where
  "isTerminalTransfer st = (st \<in> {TsCompleted, TsCancelled, TsFailed})"

definition progressPercent :: "rat \<Rightarrow> rat" where
  "progressPercent p = max 0 (min 100 (p * 100))"

definition formatProgress :: "rat \<Rightarrow> string" where
  "formatProgress p = js_show_nat (nat \<lfloor>progressPercent p + 1 / 2\<rfloor>) @ ''%''"

definition inProgress :: "TransferView \<Rightarrow> bool" where
  "inProgress t = (\<not> isTerminalTransfer (tv_state t) \<and> tv_state t \<noteq> TsOffered)"

definition transferMeta :: "TransferView \<Rightarrow> string" where
  "transferMeta t =
     transferStateLabel t @ (if inProgress t then [CHR '' '', CHR 0xB7, CHR '' ''] @ formatProgress (tv_progress t) else '''')"

fun statusLabel :: "ItemStatus \<Rightarrow> string" where
  "statusLabel ItSending = ''Sending''"
| "statusLabel ItSent = ''Sent''"
| "statusLabel ItFailed = ''Failed''"

fun statusName :: "ItemStatus \<Rightarrow> string" where
  "statusName ItSending = ''sending''"
| "statusName ItSent = ''sent''"
| "statusName ItFailed = ''failed''"

fun securityName :: "SecurityState \<Rightarrow> string" where
  "securityName SecNone = ''none''"
| "securityName EncryptedUnverified = ''encrypted_unverified''"
| "securityName Verified = ''verified''"
| "securityName VerificationFailed = ''verification_failed''"

fun severityName :: "Severity \<Rightarrow> string" where
  "severityName SvInfo = ''info''"
| "severityName SvError = ''error''"

fun toneName :: "ToastTone \<Rightarrow> string" where
  "toneName ToneInfo = ''info''"
| "toneName ToneError = ''error''"

text \<open>\<^verbatim>\<open>split(" ")\<close> without the empty pieces, and \<^verbatim>\<open>join(" ")\<close>.\<close>

fun splitSpaces :: "string \<Rightarrow> string \<Rightarrow> string list" where
  "splitSpaces acc [] = [rev acc]"
| "splitSpaces acc (c # cs) = (if c = CHR '' '' then rev acc # splitSpaces [] cs else splitSpaces (c # acc) cs)"

fun joinSpaces :: "string list \<Rightarrow> string" where
  "joinSpaces [] = ''''"
| "joinSpaces [w] = w"
| "joinSpaces (w # ws) = w @ '' '' @ joinSpaces ws"

definition phraseWords :: "string option \<Rightarrow> string list" where
  "phraseWords p = filter (\<lambda>w. w \<noteq> '''') (splitSpaces [] (case p of Some s \<Rightarrow> s | None \<Rightarrow> ''''))"

section \<open>The state of the view\<close>

record appview =
  av_state :: "SessionViewState option"
  av_activeSheet :: "SheetName option"
  av_menuOpen :: bool
  av_messageDraft :: string
  av_roomDraft :: string
  av_lastError :: "string option"
  av_toast :: "(string \<times> ToastTone) option"
  av_toastTimer :: "nat option"
  av_timers :: nat \<comment> \<open>timers set so far, which numbers them\<close>
  av_codeCopied :: bool
  av_announced :: "string list"
  av_renderScheduled :: bool
  av_lastNoticeShown :: "string option"
  av_screen :: "node option" \<comment> \<open>what the root element contains\<close>
  av_messageValue :: string
  av_roomValue :: string

definition initialView0 :: "string \<Rightarrow> appview" where
  "initialView0 urlCode =
     \<lparr>av_state = None, av_activeSheet = None, av_menuOpen = False, av_messageDraft = '''', av_roomDraft = urlCode, av_lastError = None,
      av_toast = None, av_toastTimer = None, av_timers = 0, av_codeCopied = False, av_announced = [], av_renderScheduled = False,
      av_lastNoticeShown = None, av_screen = None, av_messageValue = '''', av_roomValue = ''''\<rparr>"

definition isPreChat :: "SessionViewState \<Rightarrow> bool" where
  "isPreChat st = (vw_phase st \<in> {PhIdle, PhCreating, PhJoining, PhEnded})"

definition isStarting :: "SessionViewState \<Rightarrow> bool" where
  "isStarting st = (vw_phase st = PhCreating \<or> vw_phase st = PhJoining)"

definition av_isVoiceActive :: "SessionViewState \<Rightarrow> bool" where
  "av_isVoiceActive st = (vw_voice st \<in> {VsStarting, VsActive, VsMuted})"

definition canUseChat :: "SessionViewState \<Rightarrow> bool" where
  "canUseChat st = (vw_connection st = Connected \<and> vw_security st \<in> {EncryptedUnverified, Verified})"

definition canOpenSecuritySheet :: "SessionViewState \<Rightarrow> bool" where
  "canOpenSecuritySheet st = (truthy (vw_safetyPhrase st) \<or> vw_roomCode st \<noteq> '''')"

definition securityButtonLabel :: "SessionViewState \<Rightarrow> string" where
  "securityButtonLabel st =
     (if vw_connection st = Reconnecting then ''Reconnecting'' @ ELLIPSIS
      else if vw_phase st = PhWaiting then ''Peer offline''
      else if vw_security st = Verified then ''Verified''
      else if vw_security st = EncryptedUnverified then ''Verify chat''
      else if vw_security st = VerificationFailed then ''Verify failed''
      else ''Connecting'' @ ELLIPSIS)"

definition securityButtonClass :: "SessionViewState \<Rightarrow> string" where
  "securityButtonClass st = ''btn compact security-button '' @ securityName (vw_security st)"

definition emptyTitle :: "SessionViewState \<Rightarrow> string" where
  "emptyTitle st =
     (if vw_phase st = PhWaiting then ''Waiting for the other person.''
      else if vw_security st = EncryptedUnverified then ''Encrypted chat is ready.''
      else if vw_security st = Verified then ''Verified private chat.''
      else ''No messages yet.'')"

definition emptyCopy :: "SessionViewState \<Rightarrow> string" where
  "emptyCopy st =
     (if vw_phase st = PhWaiting then ''Share the room code with one person.''
      else if vw_security st = EncryptedUnverified then ''Send a message, or verify the phrase first.''
      else ''Say hello.'')"

section \<open>Drawing: the start screen\<close>

definition renderProfileSelect :: "bool \<Rightarrow> SessionViewState \<Rightarrow> node" where
  "renderProfileSelect disabled st =
     div_of ''profile-select''
       [plain_text ''label'' ''Room transport profile'',
        Elem ''select'' [Class ''input'', Disabled disabled] [OnChange ASetProfile]
          (map (\<lambda>i. Elem ''option'' [OptionValue i, Selected (vw_profileId st = i)] [] (textNode (label (getProfile i)))) PROFILE_IDS),
        el ''p'' (Some ''profile-note'') (Some (profilePlainDescription (profileId (getProfile (vw_profileId st))))) []]"

definition trimmedClass :: "string \<Rightarrow> string \<Rightarrow> string" where
  "trimmedClass base extra = trim (base @ '' '' @ extra)"

definition renderSheet :: "string \<Rightarrow> node \<Rightarrow> string \<Rightarrow> node" where
  "renderSheet title body extraClass =
     Elem ''div'' [Class ''sheet-overlay''] [OnClick ACloseSheet]
       [el ''section'' (Some (trimmedClass ''sheet'' extraClass)) None
          [div_of ''sheet-head'' [plain_text ''h2'' title, button ''Close'' ''btn ghost compact'' [] ACloseSheet],
           body]]"

definition aboutSection :: "string \<Rightarrow> string \<Rightarrow> node" where
  "aboutSection title s = div_of ''info-block'' [div_text ''info-label'' title, plain_text ''p'' s]"

definition renderAboutBody :: node where
  "renderAboutBody =
     div_of ''sheet-body about-body''
       [aboutSection ''Encryption''
          ''Your browser encrypts messages, files, and voice before sending them. The server only relays encrypted data.'',
        aboutSection ''Room profile''
          ''The creator chooses one transport profile for the room. Both browsers use that locked profile, including after refresh.'',
        aboutSection ''Verification''
          ''Encryption starts automatically. Compare the safety phrase to confirm who you are talking to.'',
        aboutSection ''Files''
          ''Files are sent in chunks. Large files may pause during voice to keep the call stable.'',
        aboutSection ''Voice''
          ''Voice is encrypted and sent as realtime audio frames. Late audio is dropped instead of delayed.'',
        div_of ''info-block''
          (div_text ''info-label'' ''Transport profiles'' #
           map (\<lambda>i. div_of ''mode-row''
                  [plain_text ''strong'' (label (getProfile i)), plain_text ''p'' (profilePlainDescription i)]) PROFILE_IDS)]"

definition renderStart :: "appview \<Rightarrow> SessionViewState \<Rightarrow> node" where
  "renderStart v st =
     (let busy = isStarting st in
      el ''section'' (Some ''start-screen'') None
        ([div_of ''start-card''
            ([div_text ''brand'' ''OnlyTwo'',
              plain_text ''h1'' ''Private room for two'',
              el ''p'' (Some ''start-copy'')
                (Some ''No account. No history. Messages, files, and voice are encrypted before leaving your device.'') [],
              div_text ''section-label'' ''Create a room'',
              renderProfileSelect busy st,
              button (if vw_phase st = PhCreating then ''Creating room'' @ ELLIPSIS else ''Create room'') ''btn primary wide''
                [Disabled busy] ACreateRoom,
              div_text ''divider'' ''or join with code'',
              Elem ''form'' [Class ''join-form''] [OnSubmit (AJoinRoom busy)]
                [Elem ''input'' [Class ''input room-input'', Placeholder ''ABCD-EFGH'', AutocompleteOff, InputModeText, MaxLength 9,
                                 Disabled busy] [OnInput ATypeRoom] [],
                 Elem ''button'' [TypeOf KindSubmit, Class ''btn wide'', Disabled busy] []
                   (textNode (if vw_phase st = PhJoining then ''Joining'' @ ELLIPSIS else ''Join''))],
              el ''p'' (Some ''profile-note'')
                (Some (''The person creating the room chooses its locked transport profile. '' @
                       ''Joining uses that room profile automatically.'')) [],
              button ''How OnlyTwo works'' ''link-btn'' [] AHelp] @
             (if truthy (av_lastError v) then [div_text ''error-line'' (the (av_lastError v))] else []))] @
         (if av_activeSheet v = Some SheetAbout then [renderSheet ''How OnlyTwo works'' renderAboutBody ''''] else [])))"

section \<open>Drawing: the chat\<close>

definition menuAction :: "string \<Rightarrow> MenuItem \<Rightarrow> string \<Rightarrow> node" where
  "menuAction caption m extraClass = button caption (trimmedClass ''menu-item'' extraClass) [] (AMenu m)"

definition renderHeader :: "appview \<Rightarrow> SessionViewState \<Rightarrow> node" where
  "renderHeader v st =
     el ''header'' (Some ''topbar'') None
       [div_of ''topbar-left''
          [div_text ''brand small'' ''OnlyTwo'',
           Elem ''button'' [Class (''room-code-button'' @ (if av_codeCopied v then '' copied'' else '''')), TypeOf KindButton,
                            Title ''Copy room code'', AriaLabel ''Copy room code''] [OnClick ACopyCode]
             (textNode (if av_codeCopied v then ''Copied'' else if vw_roomCode st \<noteq> '''' then vw_roomCode st else ''No room''))],
        el ''nav'' (Some ''topbar-actions'') None
          [button (securityButtonLabel st) (securityButtonClass st) [Disabled (\<not> canOpenSecuritySheet st)] ASecurity],
        button ''menu'' ''btn ghost compact more-btn'' [Title ''More actions'', AriaLabel ''More actions''] AMenuToggle,
        div_of (if av_menuOpen v then ''mobile-menu open'' else ''mobile-menu'')
          [menuAction ''Room details'' MenuRoom '''',
           menuAction ''Copy room code'' MenuCopy '''',
           menuAction ''Share room'' MenuShare '''',
           menuAction ''End chat for both'' MenuLeave ''danger'']]"

definition renderTextBubble :: "browser \<Rightarrow> TranscriptItem \<Rightarrow> node" where
  "renderTextBubble br item =
     el ''article'' (Some (''message-row '' @ (if ti_from item = FromMe then ''me'' else ''peer''))) None
       [div_of ''message-bubble''
          [div_text ''message-text'' (ti_text item),
           div_of ''message-meta''
             (plain_text ''span'' (formatTime br (ti_at item)) #
              (case ti_status item of
                 Some status \<Rightarrow>
                   if ti_from item = FromMe
                   then [el ''span'' (Some (''message-status '' @ statusName status)) (Some (statusLabel status)) []] else []
               | None \<Rightarrow> []))]]"

definition renderSystemItem :: "browser \<Rightarrow> TranscriptItem \<Rightarrow> node" where
  "renderSystemItem br item =
     div_of (''system-line '' @ (case ti_severity item of Some sv \<Rightarrow> severityName sv | None \<Rightarrow> ''info''))
       [el ''span'' (Some ''system-text'') (Some (ti_text item)) [], plain_text ''time'' (formatTime br (ti_at item))]"

definition transferActions :: "TransferView \<Rightarrow> node list" where
  "transferActions t =
     (if tv_direction t = DirReceive \<and> tv_state t = TsOffered then
        [button ''Accept'' ''btn compact primary'' [] (AAccept (tv_fileId t)),
         button ''Decline'' ''btn compact'' [] (ADecline (tv_fileId t))]
      else if \<not> isTerminalTransfer (tv_state t) then
        [button ''Cancel'' ''btn compact danger'' [] (ACancel (tv_fileId t))]
      else []) @
     (case tv_blobUrl t of
        Some blob \<Rightarrow>
          if tv_state t = TsCompleted
          then [Elem ''a'' [Class ''btn compact'', Link blob (tv_name t)] [] (textNode ''Download'')] else []
      | None \<Rightarrow> []) @
     (if isTerminalTransfer (tv_state t) then [button ''Remove'' ''btn ghost compact'' [] (ARemove (tv_fileId t))] else [])"

definition renderTransfer :: "TransferView \<Rightarrow> node" where
  "renderTransfer t =
     el ''article'' (Some (''file-event '' @ (if tv_direction t = DirSend then ''me'' else ''peer''))) None
       [div_of ''transfer-card''
          ([div_of ''transfer-top''
              [div_text ''transfer-title'' (tv_name t), div_text ''transfer-size'' (formatBytes (of_int (tv_size t)))],
            div_text ''transfer-meta'' (transferMeta t)] @
           (if inProgress t
            then [div_of ''progress''
                    [Elem ''div'' [Class ''progress-bar'', WidthPercent (progressPercent (tv_progress t))] [] []]]
            else []) @
           (if transferActions t \<noteq> [] then [div_of ''transfer-actions'' (transferActions t)] else []))]"

definition renderItem :: "browser \<Rightarrow> SessionViewState \<Rightarrow> TranscriptItem \<Rightarrow> node list" where
  "renderItem br st item =
     (case ti_kind item of
        KSystem \<Rightarrow> [renderSystemItem br item]
      | KFile \<Rightarrow>
          (case find (\<lambda>t. Some (tv_fileId t) = ti_fileId item) (vw_transfers st) of
             Some t \<Rightarrow> [renderTransfer t]
           | None \<Rightarrow> [])
      | KText \<Rightarrow> [renderTextBubble br item])"

definition renderTranscript :: "browser \<Rightarrow> SessionViewState \<Rightarrow> node" where
  "renderTranscript br st =
     div_of ''transcript''
       (if vw_transcript st = [] then
          [div_of ''empty-chat'' [plain_text ''div'' (emptyTitle st), plain_text ''p'' (emptyCopy st)]]
        else concat (map (renderItem br st) (vw_transcript st)))"

definition renderInlineVoiceControls :: "SessionViewState \<Rightarrow> node list" where
  "renderInlineVoiceControls st =
     (if av_isVoiceActive st then
        [button (if vw_voice st = VsMuted then ''Unmute'' else ''Mute'') ''btn ghost compact voice-control'' [] AToggleMute,
         button ''Stop'' ''btn danger compact voice-control'' [] AStopVoice]
      else
        [button (if vw_voice st = VsStarting then ELLIPSIS else ''mic'') ''btn ghost compact voice-control mic''
           [Title ''Start voice'', AriaLabel ''Start voice'', Disabled (\<not> canUseChat st \<or> vw_voice st = VsStarting)] AStartVoice])"

definition renderComposer :: "SessionViewState \<Rightarrow> node" where
  "renderComposer st =
     div_of ''composer-wrap''
       ((if vw_audioPlaybackBlocked st
         then [div_of ''composer-activity error''
                 [plain_text ''span'' ''Incoming voice is blocked by this browser.'',
                  button ''Enable audio'' ''link-btn small'' [] AEnableAudio]]
         else []) @
        [Elem ''form'' [Class ''composer''] [OnSubmit ASendText]
           ([button ''+'' ''btn icon'' [Title ''Attach file'', AriaLabel ''Attach file'', Disabled (\<not> canUseChat st)] AAttach,
             Elem ''input'' [Class ''input message-input'',
                             Placeholder (if canUseChat st then ''Message'' @ ELLIPSIS else ''Waiting for peer'' @ ELLIPSIS),
                             AutocompleteOff, MaxLength MAX_TEXT_MESSAGE_CHARS, Disabled (\<not> canUseChat st)] [OnInput ATypeMessage] []] @
            renderInlineVoiceControls st @
            [Elem ''button'' [TypeOf KindSubmit, Class ''btn primary composer-send'', Disabled (\<not> canUseChat st)] []
               (textNode ''Send''),
             Elem ''input'' [TypeOf KindFile, Class ''hidden-input''] [OnChange AFileChosen] []])])"

section \<open>Drawing: the sheets\<close>

definition renderKeyValueBlock :: "string \<Rightarrow> (string \<times> string) list \<Rightarrow> node" where
  "renderKeyValueBlock title rows =
     div_of ''info-block''
       (div_text ''info-label'' title #
        map (\<lambda>(k, x). div_of ''key-value'' [plain_text ''span'' k, plain_text ''strong'' x]) rows)"

definition renderRoomBody :: "SessionViewState \<Rightarrow> node" where
  "renderRoomBody st =
     (let profile = getProfile (vw_profileId st) in
      div_of ''sheet-body''
        [div_of ''info-block''
           [div_text ''info-label'' ''Room code'', div_text ''room-code-large'' (vw_roomCode st),
            div_of ''button-row''
              [button ''Copy code'' ''btn compact'' [] ACopyCode, button ''Share room'' ''btn compact'' [] AShareRoom]],
         renderKeyValueBlock ''Status''
           [(''Connection'', connectionLabel (vw_connection st)), (''Encryption'', encryptionLabel (vw_security st)),
            (''Profile'', label profile)],
         div_of ''info-block''
           [div_text ''info-label'' ''Locked room profile'', plain_text ''strong'' (label profile),
            plain_text ''p'' (profilePlainDescription (profileId profile)),
            el ''p'' (Some ''profile-note'')
              (Some (''The creator selected this profile when the room was created. '' @
                     ''Both peers use the same profile, including after refresh.'')) []],
         button ''How OnlyTwo works'' ''link-btn'' [] AHelp])"

definition phraseLines :: "string option \<Rightarrow> string list" where
  "phraseLines p =
     (let ws = phraseWords p; cut = (length ws + 1) div 2 in
      joinSpaces (take cut ws) # (if length ws > cut then [joinSpaces (drop cut ws)] else []))"

definition renderVerifyBody :: "SessionViewState \<Rightarrow> node" where
  "renderVerifyBody st =
     div_of ''sheet-body''
       [plain_text ''p'' ''Compare this phrase with the other person using a different channel or by speaking it aloud.'',
        div_of ''safety-phrase'' (map (plain_text ''div'') (phraseLines (vw_safetyPhrase st))),
        div_of ''button-row''
          [button (if vw_security st = Verified then ''Verified'' else ''Mark as verified'') ''btn primary''
             [Disabled (vw_security st = Verified)] (AMarkVerified True),
           button ''Does not match'' ''btn danger'' [] (AMarkVerified False)]]"

definition renderLeaveBody :: node where
  "renderLeaveBody =
     div_of ''sheet-body''
       [plain_text ''p''
          (''This ends the room for both people. Voice, transfers, local chat views, and cryptographic state are cleared. '' @
           ''The old room code cannot be reused.''),
        div_of ''button-row''
          [button ''End chat for both'' ''btn danger'' [] AEndChat, button ''Stay'' ''btn'' [] AStay]]"

definition renderActiveSheet :: "appview \<Rightarrow> SessionViewState \<Rightarrow> node list" where
  "renderActiveSheet v st =
     (case av_activeSheet v of
        Some SheetRoom \<Rightarrow> [renderSheet ''Room details'' (renderRoomBody st) '''']
      | Some SheetVerify \<Rightarrow> [renderSheet ''Verify chat'' (renderVerifyBody st) '''']
      | Some SheetAbout \<Rightarrow> [renderSheet ''How OnlyTwo works'' renderAboutBody '''']
      | Some SheetLeave \<Rightarrow> [renderSheet ''End chat for both?'' renderLeaveBody ''danger-sheet'']
      | None \<Rightarrow> [])"

definition renderChat :: "browser \<Rightarrow> appview \<Rightarrow> SessionViewState \<Rightarrow> node" where
  "renderChat br v st =
     el ''section'' (Some ''chat-screen'') None
       ([renderHeader v st, renderTranscript br st, renderComposer st] @ renderActiveSheet v st)"

definition renderToast :: "appview \<Rightarrow> node list" where
  "renderToast v = (case av_toast v of Some (msg, tone) \<Rightarrow> [div_text (''toast '' @ toneName tone) msg] | None \<Rightarrow> [])"

definition shell :: "browser \<Rightarrow> appview \<Rightarrow> SessionViewState \<Rightarrow> node" where
  "shell br v st =
     el ''main'' (Some ''app-shell'') None
       ((if isPreChat st then renderStart v st else renderChat br v st) # renderToast v)"

section \<open>Behaviour\<close>

text \<open>What the view asks of the controller, the clipboard, the share sheet and the file dialog.\<close>

datatype Command =
    CmdCreateRoom
  | CmdJoinRoom string
  | CmdSetProfile TransportProfileId
  | CmdAcceptFile string
  | CmdRejectFile string
  | CmdCancelFile string
  | CmdRemoveFile string
  | CmdOfferFile
  | CmdSendText string
  | CmdEnableAudio
  | CmdToggleMute
  | CmdStopVoice
  | CmdStartVoice
  | CmdMarkVerified bool
  | CmdEndChatForBoth
  | CmdOpenFileDialog
  | CmdCopyCode string
  | CmdCopyText string string \<comment> \<open>and the confirmation\<close>
  | CmdShare string string
  | CmdSaveBlob bytes string

datatype Input = NoInput | TextInput string | ProfileInput TransportProfileId | FileInput

definition scheduleRender :: "appview \<Rightarrow> appview" where
  "scheduleRender v = v\<lparr>av_renderScheduled := True\<rparr>"

definition setToast :: "string \<Rightarrow> ToastTone \<Rightarrow> bool \<Rightarrow> appview \<Rightarrow> appview" where
  "setToast msg tone draws v =
     (let v1 = v\<lparr>av_toast := Some (msg, tone), av_toastTimer := Some (av_timers v), av_timers := av_timers v + 1\<rparr>
      in if draws then scheduleRender v1 else v1)"

definition showToast :: "string \<Rightarrow> ToastTone \<Rightarrow> appview \<Rightarrow> appview" where
  "showToast msg tone v = setToast msg tone True v"

definition showError :: "string \<Rightarrow> appview \<Rightarrow> appview" where
  "showError msg v = showToast msg ToneError (v\<lparr>av_lastError := Some msg\<rparr>)"

definition outOfChat :: "Phase \<Rightarrow> bool" where
  "outOfChat p = (p \<in> {PhIdle, PhEnded})"

definition leftChat :: "SessionViewState option \<Rightarrow> SessionViewState \<Rightarrow> bool" where
  "leftChat previous new =
     (case previous of None \<Rightarrow> False | Some p \<Rightarrow> \<not> outOfChat (vw_phase p) \<and> outOfChat (vw_phase new))"

definition roomChanged :: "SessionViewState option \<Rightarrow> SessionViewState \<Rightarrow> bool" where
  "roomChanged previous new = (case previous of None \<Rightarrow> False | Some p \<Rightarrow> vw_roomCode p \<noteq> vw_roomCode new)"

definition syncLocalState :: "SessionViewState option \<Rightarrow> SessionViewState \<Rightarrow> appview \<Rightarrow> appview" where
  "syncLocalState previous new v =
     (let v1 = (if roomChanged previous new \<or> leftChat previous new then
                  v\<lparr>av_messageDraft := '''', av_announced := [], av_activeSheet := None, av_menuOpen := False, av_codeCopied := False,
                    av_lastError := None, av_roomDraft := (if leftChat previous new then '''' else av_roomDraft v)\<rparr>
                else v)
      in if vw_phase new \<in> {PhWaiting, PhActive} then v1\<lparr>av_lastError := None\<rparr> else v1)"

definition surfaceNotice :: "string option \<Rightarrow> appview \<Rightarrow> appview" where
  "surfaceNotice notice v =
     (if \<not> truthy notice then v\<lparr>av_lastNoticeShown := None\<rparr>
      else if notice = av_lastNoticeShown v then v
      else
        let v1 = v\<lparr>av_lastNoticeShown := notice\<rparr> in
        case noticeToastTone (the notice) of Some tone \<Rightarrow> setToast (the notice) tone False v1 | None \<Rightarrow> v1)"

text \<open>The listener given to \<^verbatim>\<open>controller.subscribe\<close>.\<close>

definition stateArrives :: "SessionViewState \<Rightarrow> appview \<Rightarrow> appview" where
  "stateArrives st v =
     scheduleRender (surfaceNotice (vw_notice st) ((syncLocalState (av_state v) st v)\<lparr>av_state := Some st\<rparr>))"

definition announceIncomingOffers :: "SessionViewState \<Rightarrow> appview \<Rightarrow> appview" where
  "announceIncomingOffers st v =
     fold (\<lambda>t v. if tv_direction t = DirReceive \<and> tv_state t = TsOffered \<and> tv_fileId t \<notin> set (av_announced v)
                then setToast (''Incoming file: '' @ tv_name t) ToneInfo False (v\<lparr>av_announced := av_announced v @ [tv_fileId t]\<rparr>)
                else v)
       (vw_transfers st) v"

definition render :: "browser \<Rightarrow> appview \<Rightarrow> appview" where
  "render br v =
     (case av_state v of
        None \<Rightarrow> v
      | Some st \<Rightarrow>
          let v1 = announceIncomingOffers st v;
              v2 = v1\<lparr>av_screen := Some (shell br v1 st)\<rparr>
          in if isPreChat st then v2\<lparr>av_roomValue := av_roomDraft v2\<rparr> else v2\<lparr>av_messageValue := av_messageDraft v2\<rparr>)"

definition openSheet :: "browser \<Rightarrow> SheetName \<Rightarrow> appview \<Rightarrow> appview" where
  "openSheet br sheet v = render br (v\<lparr>av_activeSheet := Some sheet, av_menuOpen := False\<rparr>)"

definition closeSheet :: "browser \<Rightarrow> appview \<Rightarrow> appview" where
  "closeSheet br v = render br (v\<lparr>av_activeSheet := None\<rparr>)"

definition openSecuritySheet :: "browser \<Rightarrow> appview \<Rightarrow> appview" where
  "openSecuritySheet br v =
     openSheet br (case av_state v of Some st \<Rightarrow> if truthy (vw_safetyPhrase st) then SheetVerify else SheetRoom
                   | None \<Rightarrow> SheetRoom) v"

definition currentCode :: "appview \<Rightarrow> string" where
  "currentCode v = (case av_state v of Some st \<Rightarrow> vw_roomCode st | None \<Rightarrow> '''')"

text \<open>\<^verbatim>\<open>copyRoomCode\<close>, \<^verbatim>\<open>copyText\<close> and \<^verbatim>\<open>shareRoom\<close> up to their await; the rest is an event.\<close>

definition copyRoomCode :: "appview \<Rightarrow> Command list" where
  "copyRoomCode v = (if currentCode v = '''' then [] else [CmdCopyCode (currentCode v)])"

definition copyText :: "string \<Rightarrow> string \<Rightarrow> Command list" where
  "copyText s confirmation = (if s = '''' then [] else [CmdCopyText s confirmation])"

definition shareText :: "browser \<Rightarrow> appview \<Rightarrow> string" where
  "shareText br v = ''Join my OnlyTwo room: '' @ currentCode v @ [CHR 0x0A] @ br_roomLink br (currentCode v)"

definition shareRoom :: "browser \<Rightarrow> appview \<Rightarrow> Command list" where
  "shareRoom br v =
     (if br_canShare br then [CmdShare (shareText br v) (br_roomLink br (currentCode v))]
      else copyText (shareText br v) ''Room link copied.'')"

fun performMenu :: "browser \<Rightarrow> MenuItem \<Rightarrow> appview \<Rightarrow> appview \<times> Command list" where
  "performMenu br MenuRoom v = (openSheet br SheetRoom v, [])"
| "performMenu br MenuCopy v = (v, copyRoomCode v)"
| "performMenu br MenuShare v = (v, shareRoom br v)"
| "performMenu br MenuLeave v = (openSheet br SheetLeave v, [])"

definition sendDraft :: "appview \<Rightarrow> appview \<times> Command list" where
  "sendDraft v =
     (let s = trim (av_messageDraft v) in
      if s = '''' then (v, []) else (v\<lparr>av_messageDraft := '''', av_messageValue := ''''\<rparr>, [CmdSendText s]))"

definition typeRoom :: "Input \<Rightarrow> appview \<Rightarrow> appview" where
  "typeRoom inp v =
     (case inp of TextInput s \<Rightarrow> v\<lparr>av_roomDraft := normalizeRoomCode s, av_roomValue := normalizeRoomCode s\<rparr> | _ \<Rightarrow> v)"

definition typeMessage :: "Input \<Rightarrow> appview \<Rightarrow> appview" where
  "typeMessage inp v = (case inp of TextInput s \<Rightarrow> v\<lparr>av_messageDraft := s, av_messageValue := s\<rparr> | _ \<Rightarrow> v)"

fun perform :: "browser \<Rightarrow> Action \<Rightarrow> Input \<Rightarrow> appview \<Rightarrow> appview \<times> Command list" where
  "perform br ACreateRoom inp v = (v, [CmdCreateRoom])"
| "perform br (AJoinRoom busy) inp v = (v, if busy then [] else [CmdJoinRoom (av_roomDraft v)])"
| "perform br ATypeRoom inp v = (typeRoom inp v, [])"
| "perform br ASetProfile inp v = (v, case inp of ProfileInput i \<Rightarrow> [CmdSetProfile i] | _ \<Rightarrow> [])"
| "perform br AHelp inp v = (openSheet br SheetAbout v, [])"
| "perform br ACopyCode inp v = (v, copyRoomCode v)"
| "perform br AShareRoom inp v = (v, shareRoom br v)"
| "perform br ASecurity inp v = (openSecuritySheet br v, [])"
| "perform br AMenuToggle inp v = (render br (v\<lparr>av_menuOpen := \<not> av_menuOpen v\<rparr>), [])"
| "perform br (AMenu m) inp v = performMenu br m (v\<lparr>av_menuOpen := False\<rparr>)"
| "perform br (AAccept f) inp v = (v, [CmdAcceptFile f])"
| "perform br (ADecline f) inp v = (v, [CmdRejectFile f])"
| "perform br (ACancel f) inp v = (v, [CmdCancelFile f])"
| "perform br (ARemove f) inp v = (v, [CmdRemoveFile f])"
| "perform br (ADownload blob name) inp v = (v, [CmdSaveBlob blob name])"
| "perform br AEnableAudio inp v = (v, [CmdEnableAudio])"
| "perform br AFileChosen inp v = (v, case inp of FileInput \<Rightarrow> [CmdOfferFile] | _ \<Rightarrow> [])"
| "perform br AAttach inp v = (v, [CmdOpenFileDialog])"
| "perform br ATypeMessage inp v = (typeMessage inp v, [])"
| "perform br ASendText inp v = sendDraft v"
| "perform br AToggleMute inp v = (v, [CmdToggleMute])"
| "perform br AStopVoice inp v = (v, [CmdStopVoice])"
| "perform br AStartVoice inp v = (v, [CmdStartVoice])"
| "perform br ACloseSheet inp v = (closeSheet br v, [])"
| "perform br (AMarkVerified ok) inp v = (closeSheet br v, [CmdMarkVerified ok])"
| "perform br AEndChat inp v = (closeSheet br v, [CmdEndChatForBoth])"
| "perform br AStay inp v = (closeSheet br v, [])"

datatype ViewEvent =
    StateArrives SessionViewState
  | FrameRuns
  | ToastExpires nat
  | CopiedExpires
  | Uses Action Input
  | CallFails string \<comment> \<open>a promise of the controller is rejected with this message\<close>
  | CopyCodeEnds "string option" \<comment> \<open>\<open>None\<close>: written; otherwise the message of the error\<close>
  | CopyTextEnds string "string option"
  | ShareEnds string bool \<comment> \<open>whether it was shared\<close>

definition frameRuns :: "browser \<Rightarrow> appview \<Rightarrow> appview" where
  "frameRuns br v = (if av_renderScheduled v then render br (v\<lparr>av_renderScheduled := False\<rparr>) else v)"

definition toastExpires :: "nat \<Rightarrow> appview \<Rightarrow> appview" where
  "toastExpires i v =
     (if av_toastTimer v = Some i then scheduleRender (v\<lparr>av_toast := None, av_toastTimer := None\<rparr>) else v)"

definition copyCodeEnds :: "string option \<Rightarrow> appview \<Rightarrow> appview" where
  "copyCodeEnds err v =
     (case err of None \<Rightarrow> showToast ''Room code copied.'' ToneInfo (v\<lparr>av_codeCopied := True\<rparr>) | Some msg \<Rightarrow> showError msg v)"

definition copyTextEnds :: "string \<Rightarrow> string option \<Rightarrow> appview \<Rightarrow> appview" where
  "copyTextEnds confirmation err v =
     (case err of None \<Rightarrow> showToast confirmation ToneInfo (v\<lparr>av_lastError := None\<rparr>) | Some msg \<Rightarrow> showError msg v)"

fun viewStep :: "browser \<Rightarrow> ViewEvent \<Rightarrow> appview \<Rightarrow> appview \<times> Command list" where
  "viewStep br (StateArrives st) v = (stateArrives st v, [])"
| "viewStep br FrameRuns v = (frameRuns br v, [])"
| "viewStep br (ToastExpires i) v = (toastExpires i v, [])"
| "viewStep br CopiedExpires v = (scheduleRender (v\<lparr>av_codeCopied := False\<rparr>), [])"
| "viewStep br (Uses a inp) v = perform br a inp v"
| "viewStep br (CallFails msg) v = (showError msg v, [])"
| "viewStep br (CopyCodeEnds err) v = (copyCodeEnds err v, [])"
| "viewStep br (CopyTextEnds confirmation err) v = (copyTextEnds confirmation err v, [])"
| "viewStep br (ShareEnds s shared) v = (v, if shared then [] else copyText s ''Room link copied.'')"

section \<open>What is offered\<close>

lemma controls_textNode [simp]: "concat (map controls (textNode s)) = []" "list_ex hasSubmit (textNode s) = False"
  by (simp_all add: textNode_def)

lemma controls_el [simp]: "controls (el tag c s kids) = concat (map controls kids)"
  by (cases c; cases s) (auto simp: el_def textNode_def)

lemma hasSubmit_el [simp]: "hasSubmit (el tag c s kids) = list_ex hasSubmit kids"
  by (auto simp: el_def split: option.split)

lemma controls_button [simp]:
  "controls (button s c extra a) = (if Disabled True \<in> set extra then [] else concat (map linkAction extra) @ [a])"
  by (simp add: button_def)

lemma hasSubmit_button [simp]:
  "hasSubmit (button s c extra a) = (TypeOf KindSubmit \<in> set extra \<and> Disabled True \<notin> set extra)"
  by (simp add: button_def)

text \<open>The transfers the transcript shows.\<close>

definition shownTransfer :: "SessionViewState \<Rightarrow> TransferView \<Rightarrow> bool" where
  "shownTransfer st t =
     (\<exists>item \<in> set (vw_transcript st). ti_kind item = KFile \<and>
        find (\<lambda>t. Some (tv_fileId t) = ti_fileId item) (vw_transfers st) = Some t)"

definition isIncomingOffer :: "TransferView \<Rightarrow> bool" where
  "isIncomingOffer t = (tv_direction t = DirReceive \<and> tv_state t = TsOffered)"

fun offeredByTransfer :: "TransferView \<Rightarrow> Action \<Rightarrow> bool" where
  "offeredByTransfer t (AAccept f) = (tv_fileId t = f \<and> isIncomingOffer t)"
| "offeredByTransfer t (ADecline f) = (tv_fileId t = f \<and> isIncomingOffer t)"
| "offeredByTransfer t (ACancel f) = (tv_fileId t = f \<and> \<not> isTerminalTransfer (tv_state t) \<and> \<not> isIncomingOffer t)"
| "offeredByTransfer t (ARemove f) = (tv_fileId t = f \<and> isTerminalTransfer (tv_state t))"
| "offeredByTransfer t (ADownload blob name) = (tv_state t = TsCompleted \<and> tv_blobUrl t = Some blob \<and> tv_name t = name)"
| "offeredByTransfer t _ = False"

fun offeredBySheet :: "SheetName option \<Rightarrow> SessionViewState \<Rightarrow> Action \<Rightarrow> bool" where
  "offeredBySheet sheet st ACloseSheet = (sheet \<noteq> None)"
| "offeredBySheet sheet st ACopyCode = (sheet = Some SheetRoom)"
| "offeredBySheet sheet st AShareRoom = (sheet = Some SheetRoom)"
| "offeredBySheet sheet st AHelp = (sheet = Some SheetRoom)"
| "offeredBySheet sheet st (AMarkVerified ok) = (sheet = Some SheetVerify \<and> (ok \<longrightarrow> vw_security st \<noteq> Verified))"
| "offeredBySheet sheet st AEndChat = (sheet = Some SheetLeave)"
| "offeredBySheet sheet st AStay = (sheet = Some SheetLeave)"
| "offeredBySheet sheet st _ = False"

fun offeredByHeader :: "SessionViewState \<Rightarrow> Action \<Rightarrow> bool" where
  "offeredByHeader st ACopyCode = True"
| "offeredByHeader st ASecurity = canOpenSecuritySheet st"
| "offeredByHeader st AMenuToggle = True"
| "offeredByHeader st (AMenu _) = True"
| "offeredByHeader st _ = False"

fun offeredByComposer :: "SessionViewState \<Rightarrow> Action \<Rightarrow> bool" where
  "offeredByComposer st AEnableAudio = vw_audioPlaybackBlocked st"
| "offeredByComposer st AFileChosen = True"
| "offeredByComposer st AAttach = canUseChat st"
| "offeredByComposer st ATypeMessage = canUseChat st"
| "offeredByComposer st ASendText = canUseChat st"
| "offeredByComposer st AToggleMute = av_isVoiceActive st"
| "offeredByComposer st AStopVoice = av_isVoiceActive st"
| "offeredByComposer st AStartVoice = (canUseChat st \<and> \<not> av_isVoiceActive st)"
| "offeredByComposer st _ = False"

fun offeredAtStart :: "appview \<Rightarrow> SessionViewState \<Rightarrow> Action \<Rightarrow> bool" where
  "offeredAtStart v st ACreateRoom = (\<not> isStarting st)"
| "offeredAtStart v st (AJoinRoom busy) = (\<not> isStarting st \<and> \<not> busy)"
| "offeredAtStart v st ATypeRoom = (\<not> isStarting st)"
| "offeredAtStart v st ASetProfile = (\<not> isStarting st)"
| "offeredAtStart v st AHelp = True"
| "offeredAtStart v st ACloseSheet = (av_activeSheet v = Some SheetAbout)"
| "offeredAtStart v st _ = False"

definition offered :: "appview \<Rightarrow> SessionViewState \<Rightarrow> Action \<Rightarrow> bool" where
  "offered v st a =
     (if isPreChat st then offeredAtStart v st a
      else offeredByHeader st a \<or> (\<exists>t. shownTransfer st t \<and> offeredByTransfer t a) \<or> offeredByComposer st a \<or>
           offeredBySheet (av_activeSheet v) st a)"

lemma controls_about: "controls renderAboutBody = []"
  by (simp add: renderAboutBody_def aboutSection_def PROFILE_IDS_def)

lemma controls_sheet: "controls (renderSheet title body extra) = ACloseSheet # ACloseSheet # controls body"
  by (simp add: renderSheet_def)

lemma controls_header: "a \<in> set (controls (renderHeader v st)) \<longleftrightarrow> offeredByHeader st a"
proof (cases a)
  case (AMenu m) then show ?thesis by (cases m) (simp_all add: renderHeader_def menuAction_def)
qed (simp_all add: renderHeader_def menuAction_def)

lemma controls_composer: "a \<in> set (controls (renderComposer st)) \<longleftrightarrow> offeredByComposer st a"
  by (cases a) (auto simp: renderComposer_def renderInlineVoiceControls_def av_isVoiceActive_def)

lemma controls_active_sheet:
  "a \<in> set (concat (map controls (renderActiveSheet v st))) \<longleftrightarrow> offeredBySheet (av_activeSheet v) st a"
  by (cases a; cases "av_activeSheet v"; (cases "the (av_activeSheet v)")?)
    (auto simp: renderActiveSheet_def controls_sheet controls_about renderRoomBody_def renderVerifyBody_def renderLeaveBody_def
      renderKeyValueBlock_def Let_def)

lemma controls_transfer: "a \<in> set (controls (renderTransfer t)) \<longleftrightarrow> offeredByTransfer t a"
  by (cases a) (auto simp: renderTransfer_def transferActions_def isIncomingOffer_def isTerminalTransfer_def inProgress_def
      split: option.split)

lemma controls_item:
  "a \<in> set (concat (map controls (renderItem br st item))) \<longleftrightarrow>
     (\<exists>t. ti_kind item = KFile \<and> find (\<lambda>t. Some (tv_fileId t) = ti_fileId item) (vw_transfers st) = Some t \<and> offeredByTransfer t a)"
  by (cases "ti_kind item"; cases "find (\<lambda>t. Some (tv_fileId t) = ti_fileId item) (vw_transfers st)"; cases "ti_status item")
    (auto simp: renderItem_def renderSystemItem_def renderTextBubble_def controls_transfer)

lemma controls_transcript:
  "a \<in> set (controls (renderTranscript br st)) \<longleftrightarrow> (\<exists>t. shownTransfer st t \<and> offeredByTransfer t a)"
proof (cases "vw_transcript st = []")
  case True then show ?thesis by (simp add: renderTranscript_def shownTransfer_def)
next
  case False
  then have "a \<in> set (controls (renderTranscript br st)) \<longleftrightarrow>
      (\<exists>item \<in> set (vw_transcript st). a \<in> set (concat (map controls (renderItem br st item))))"
    by (auto simp: renderTranscript_def)
  then show ?thesis unfolding controls_item shownTransfer_def by blast
qed

lemma controls_start: "a \<in> set (controls (renderStart v st)) \<longleftrightarrow> offeredAtStart v st a"
  by (cases a) (auto simp: renderStart_def renderProfileSelect_def controls_sheet controls_about PROFILE_IDS_def Let_def)

lemma controls_toast: "concat (map controls (renderToast v)) = []"
  by (cases "av_toast v") (auto simp: renderToast_def)

lemma controls_shell:
  "a \<in> set (controls (shell br v st)) \<longleftrightarrow> offered v st a"
proof -
  have "a \<in> set (controls (renderChat br v st)) \<longleftrightarrow>
      offeredByHeader st a \<or> (\<exists>t. shownTransfer st t \<and> offeredByTransfer t a) \<or> offeredByComposer st a \<or>
      offeredBySheet (av_activeSheet v) st a"
    using controls_active_sheet [of a v st]
    by (simp add: renderChat_def controls_header controls_transcript controls_composer)
  then show ?thesis by (simp add: shell_def offered_def controls_start controls_toast)
qed


section \<open>The screen is current\<close>

text \<open>
  The document shows the present state, or a frame is scheduled that will draw it. The only thing that may lag behind is the menu, which
  some of its own items close without drawing. A toast has a timer that takes it away.
\<close>

definition screen_ok :: "browser \<Rightarrow> appview \<Rightarrow> bool" where
  "screen_ok br v \<longleftrightarrow>
     (case av_state v of
        None \<Rightarrow> av_screen v = None
      | Some st \<Rightarrow>
          av_renderScheduled v \<or>
          (\<exists>menu. (av_menuOpen v \<longrightarrow> menu) \<and> av_screen v = Some (shell br (v\<lparr>av_menuOpen := menu\<rparr>) st) \<and>
             (if isPreChat st then av_roomValue v = av_roomDraft v else av_messageValue v = av_messageDraft v))) \<and>
     (av_toast v = None \<longleftrightarrow> av_toastTimer v = None)"

lemma shell_cong:
  assumes "av_activeSheet v = av_activeSheet w" "av_menuOpen v = av_menuOpen w" "av_lastError v = av_lastError w"
    "av_toast v = av_toast w" "av_codeCopied v = av_codeCopied w"
  shows "shell br v st = shell br w st"
  using assms
  by (simp add: shell_def renderStart_def renderChat_def renderHeader_def renderActiveSheet_def renderToast_def Let_def)

lemma announce_keeps:
  "av_state (announceIncomingOffers st v) = av_state v"
  "av_renderScheduled (announceIncomingOffers st v) = av_renderScheduled v"
  "(av_toast v = None \<longleftrightarrow> av_toastTimer v = None) \<Longrightarrow>
   (av_toast (announceIncomingOffers st v) = None \<longleftrightarrow> av_toastTimer (announceIncomingOffers st v) = None)"
proof -
  define ts where "ts = vw_transfers st"
  have "av_state (announceIncomingOffers st v) = av_state v \<and>
    av_renderScheduled (announceIncomingOffers st v) = av_renderScheduled v \<and>
    ((av_toast v = None \<longleftrightarrow> av_toastTimer v = None) \<longrightarrow>
     (av_toast (announceIncomingOffers st v) = None \<longleftrightarrow> av_toastTimer (announceIncomingOffers st v) = None))"
    unfolding announceIncomingOffers_def ts_def [symmetric]
    by (induction ts arbitrary: v) (auto simp: setToast_def Let_def)
  then show "av_state (announceIncomingOffers st v) = av_state v"
    "av_renderScheduled (announceIncomingOffers st v) = av_renderScheduled v"
    "(av_toast v = None \<longleftrightarrow> av_toastTimer v = None) \<Longrightarrow>
     (av_toast (announceIncomingOffers st v) = None \<longleftrightarrow> av_toastTimer (announceIncomingOffers st v) = None)"
    by simp_all
qed

text \<open>Drawing makes the screen current, whatever was on it.\<close>

lemma screen_ok_render:
  assumes toast: "av_toast v = None \<longleftrightarrow> av_toastTimer v = None" and none: "av_state v = None \<Longrightarrow> av_screen v = None"
  shows "screen_ok br (render br v)"
proof (cases "av_state v")
  case None
  then show ?thesis using assms by (simp add: screen_ok_def render_def)
next
  case (Some st)
  let ?v = "announceIncomingOffers st v"
  have sh: "shell br (render br v) st = shell br ?v st" by (rule shell_cong) (simp_all add: render_def Some Let_def)
  have menu: "shell br ((render br v)\<lparr>av_menuOpen := av_menuOpen (render br v)\<rparr>) st = shell br ?v st"
    by (simp add: sh)
  have st: "av_state (render br v) = Some st" "av_screen (render br v) = Some (shell br ?v st)"
    using announce_keeps(1) [of st v] by (simp_all add: render_def Some Let_def)
  have drafts: "if isPreChat st then av_roomValue (render br v) = av_roomDraft (render br v)
      else av_messageValue (render br v) = av_messageDraft (render br v)"
    by (simp add: render_def Some Let_def)
  have "av_toast (render br v) = None \<longleftrightarrow> av_toastTimer (render br v) = None"
    using announce_keeps(3) [OF toast, of st] by (simp add: render_def Some Let_def)
  with st drafts menu show ?thesis unfolding screen_ok_def by (auto intro!: exI [of _ "av_menuOpen (render br v)"])
qed

lemma screen_ok_scheduled:
  assumes "av_renderScheduled v" and "av_toast v = None \<longleftrightarrow> av_toastTimer v = None"
    and "av_state v = None \<Longrightarrow> av_screen v = None"
  shows "screen_ok br v"
  using assms by (simp add: screen_ok_def split: option.split)

definition toast_ok :: "appview \<Rightarrow> bool" where
  "toast_ok v = ((av_toast v = None \<longleftrightarrow> av_toastTimer v = None) \<and> (av_state v = None \<longrightarrow> av_screen v = None))"

lemma screen_ok_toast: "screen_ok br v \<Longrightarrow> toast_ok v"
  by (auto simp: screen_ok_def toast_ok_def split: option.splits)

lemma toast_ok_setToast: "toast_ok v \<Longrightarrow> toast_ok (setToast msg tone draws v)"
  by (simp add: toast_ok_def setToast_def scheduleRender_def Let_def)

lemma toast_ok_sync: "toast_ok v \<Longrightarrow> toast_ok ((syncLocalState previous new v)\<lparr>av_state := Some new\<rparr>)"
  by (simp add: toast_ok_def syncLocalState_def Let_def)

lemma toast_ok_notice: "toast_ok v \<Longrightarrow> toast_ok (surfaceNotice notice v)"
  using toast_ok_setToast [of "v\<lparr>av_lastNoticeShown := notice\<rparr>"]
  by (auto simp: surfaceNotice_def Let_def toast_ok_def split: option.split)

lemma screen_ok_later: "toast_ok v \<Longrightarrow> screen_ok br (scheduleRender v)"
  by (rule screen_ok_scheduled) (simp_all add: toast_ok_def scheduleRender_def)

lemma screen_ok_draws: "toast_ok v \<Longrightarrow> screen_ok br (render br v)"
  by (rule screen_ok_render) (simp_all add: toast_ok_def)

lemma toast_ok_cong:
  "toast_ok v \<Longrightarrow> av_toast w = av_toast v \<Longrightarrow> av_toastTimer w = av_toastTimer v \<Longrightarrow> av_state w = av_state v \<Longrightarrow>
   av_screen w = av_screen v \<Longrightarrow> toast_ok w"
  by (simp add: toast_ok_def)

lemma screen_ok_toasted: "toast_ok v \<Longrightarrow> screen_ok br (showToast msg tone v)"
  using screen_ok_later [OF toast_ok_setToast [of v msg tone False]]
  by (simp add: showToast_def setToast_def Let_def)

lemma screen_ok_showError: "toast_ok v \<Longrightarrow> screen_ok br (showError msg v)"
  unfolding showError_def by (rule screen_ok_toasted) (simp add: toast_ok_def)

lemma screen_ok_type:
  assumes "screen_ok br v"
  shows "screen_ok br (typeRoom inp v)" and "screen_ok br (typeMessage inp v)" and "screen_ok br (fst (sendDraft v))"
    and "screen_ok br (v\<lparr>av_menuOpen := False\<rparr>)"
proof -
  have eq: "shell br (v\<lparr>av_roomDraft := a, av_roomValue := b, av_menuOpen := m\<rparr>) st = shell br (v\<lparr>av_menuOpen := m\<rparr>) st"
    "shell br (v\<lparr>av_messageDraft := a, av_messageValue := b, av_menuOpen := m\<rparr>) st = shell br (v\<lparr>av_menuOpen := m\<rparr>) st" for a b m st
    by (rule shell_cong; simp)+
  show "screen_ok br (typeRoom inp v)" "screen_ok br (typeMessage inp v)" "screen_ok br (fst (sendDraft v))"
    "screen_ok br (v\<lparr>av_menuOpen := False\<rparr>)"
    using assms
    by (auto simp: screen_ok_def typeRoom_def typeMessage_def sendDraft_def Let_def eq split: option.splits Input.split if_splits)
qed

lemma screen_ok_sheets:
  assumes "toast_ok v"
  shows "screen_ok br (openSheet br sheet v)" and "screen_ok br (closeSheet br v)" and "screen_ok br (openSecuritySheet br v)"
    and "screen_ok br (render br (v\<lparr>av_menuOpen := m\<rparr>))"
  unfolding openSheet_def closeSheet_def openSecuritySheet_def
  by (rule screen_ok_draws; rule toast_ok_cong [OF assms]; simp)+

lemma screen_ok_menu:
  assumes "screen_ok br v"
  shows "screen_ok br (fst (performMenu br m (v\<lparr>av_menuOpen := False\<rparr>)))"
proof -
  have ok: "screen_ok br (v\<lparr>av_menuOpen := False\<rparr>)" by (rule screen_ok_type(4) [OF assms])
  then show ?thesis using screen_ok_sheets(1) [OF screen_ok_toast [OF ok]] by (cases m) simp_all
qed

lemma screen_ok_perform:
  assumes "screen_ok br v"
  shows "screen_ok br (fst (perform br a inp v))"
  using assms screen_ok_sheets [OF screen_ok_toast [OF assms]] screen_ok_type [OF assms] screen_ok_menu [OF assms]
  by (cases a) simp_all

lemma screen_ok_step:
  assumes ok: "screen_ok br v"
  shows "screen_ok br (fst (viewStep br e v))"
proof (cases e)
  case (StateArrives st)
  have "toast_ok (surfaceNotice (vw_notice st) ((syncLocalState (av_state v) st v)\<lparr>av_state := Some st\<rparr>))"
    by (intro toast_ok_notice toast_ok_sync screen_ok_toast [OF ok])
  then show ?thesis by (simp add: StateArrives stateArrives_def screen_ok_later)
next
  case FrameRuns
  have "toast_ok (v\<lparr>av_renderScheduled := False\<rparr>)" by (rule toast_ok_cong [OF screen_ok_toast [OF ok]]) simp_all
  then show ?thesis using ok by (simp add: FrameRuns frameRuns_def screen_ok_draws)
next
  case (ToastExpires i)
  have "toast_ok (v\<lparr>av_toast := None, av_toastTimer := None\<rparr>)" using screen_ok_toast [OF ok] by (simp add: toast_ok_def)
  then show ?thesis using ok by (simp add: ToastExpires toastExpires_def screen_ok_later)
next
  case CopiedExpires
  have "toast_ok (v\<lparr>av_codeCopied := False\<rparr>)" by (rule toast_ok_cong [OF screen_ok_toast [OF ok]]) simp_all
  then show ?thesis by (simp add: CopiedExpires screen_ok_later)
next
  case (CopyCodeEnds err)
  have "toast_ok (v\<lparr>av_codeCopied := True\<rparr>)" by (rule toast_ok_cong [OF screen_ok_toast [OF ok]]) simp_all
  then show ?thesis
    using screen_ok_showError [OF screen_ok_toast [OF ok]] by (simp add: CopyCodeEnds copyCodeEnds_def screen_ok_toasted split: option.split)
next
  case (CopyTextEnds confirmation err)
  have "toast_ok (v\<lparr>av_lastError := None\<rparr>)" by (rule toast_ok_cong [OF screen_ok_toast [OF ok]]) simp_all
  then show ?thesis
    using screen_ok_showError [OF screen_ok_toast [OF ok]] by (simp add: CopyTextEnds copyTextEnds_def screen_ok_toasted split: option.split)
qed (simp_all add: ok screen_ok_perform screen_ok_showError [OF screen_ok_toast [OF ok]])

interpretation app_view: invariant_system "\<lambda>e v. fst (viewStep br e v)" "screen_ok br" for br
  by unfold_locales (rule screen_ok_step)

definition viewRun :: "browser \<Rightarrow> string \<Rightarrow> ViewEvent list \<Rightarrow> appview" where
  "viewRun br urlCode es = fold (\<lambda>e v. fst (viewStep br e v)) es (initialView0 urlCode)"

lemma screen_ok_run: "screen_ok br (viewRun br urlCode es)"
  unfolding viewRun_def by (rule app_view.run_inv) (simp add: screen_ok_def initialView0_def)

lemma offered_menu: "offered (v\<lparr>av_menuOpen := m\<rparr>) st a = offered v st a"
  by (cases a) (simp_all add: offered_def)

text \<open>
  C40. The screen is never out of date. After any history of states, frames, user actions, timers and replies: the document is the
  drawing of the present state, or a frame is scheduled that will draw it; the inputs show the drafts; and
  then the actions the user can take are exactly those the present state allows. Only the menu may still be shown open after one of
  its items closed it. Every toast on the screen has a timer that takes it away.
\<close>

theorem screen_is_current:
  "let v = viewRun br urlCode es in
   (av_toast v = None \<longleftrightarrow> av_toastTimer v = None) \<and>
   (case av_state v of
      None \<Rightarrow> av_screen v = None
    | Some st \<Rightarrow>
        av_renderScheduled v \<or>
        (\<exists>menu. (av_menuOpen v \<longrightarrow> menu) \<and> av_screen v = Some (shell br (v\<lparr>av_menuOpen := menu\<rparr>) st)) \<and>
        (if isPreChat st then av_roomValue v = av_roomDraft v else av_messageValue v = av_messageDraft v) \<and>
        (\<forall>n a. av_screen v = Some n \<longrightarrow> (a \<in> set (controls n) \<longleftrightarrow> offered v st a)))"
proof -
  let ?v = "viewRun br urlCode es"
  have ok: "screen_ok br ?v" by (rule screen_ok_run)
  then have toast: "av_toast ?v = None \<longleftrightarrow> av_toastTimer ?v = None" unfolding screen_ok_def by (rule conjunct2)
  show ?thesis
  proof (cases "av_state ?v")
    case None
    with ok toast show ?thesis by (simp add: Let_def screen_ok_def)
  next
    case (Some st)
    have "av_renderScheduled ?v \<or>
        (\<exists>menu. (av_menuOpen ?v \<longrightarrow> menu) \<and> av_screen ?v = Some (shell br (?v\<lparr>av_menuOpen := menu\<rparr>) st)) \<and>
        (if isPreChat st then av_roomValue ?v = av_roomDraft ?v else av_messageValue ?v = av_messageDraft ?v)"
      using ok unfolding screen_ok_def Some option.case by blast
    moreover have "a \<in> set (controls n) \<longleftrightarrow> offered ?v st a"
      if "av_screen ?v = Some (shell br (?v\<lparr>av_menuOpen := menu\<rparr>) st)" "av_screen ?v = Some n" for menu n a
      using that by (simp add: controls_shell offered_menu)
    ultimately show ?thesis using toast unfolding Let_def Some option.case by blast
  qed
qed

theorem screen_is_current_witness:
  "let br = \<lparr>br_time = (\<lambda>_. None), br_roomLink = (\<lambda>c. c), br_canShare = False\<rparr>;
       v = viewRun br '''' [StateArrives initialView, FrameRuns] in
   \<exists>n. av_screen v = Some n \<and> ACreateRoom \<in> set (controls n) \<and> ASendText \<notin> set (controls n)"
proof -
  define br :: browser where "br = \<lparr>br_time = (\<lambda>_. None), br_roomLink = (\<lambda>c. c), br_canShare = False\<rparr>"
  let ?v = "viewRun br '''' [StateArrives initialView, FrameRuns]"
  have v: "av_state ?v = Some initialView" "\<not> av_renderScheduled ?v" "av_screen ?v \<noteq> None"
    by (simp_all add: viewRun_def frameRuns_def stateArrives_def scheduleRender_def surfaceNotice_def syncLocalState_def
        roomChanged_def leftChat_def render_def announceIncomingOffers_def initialView0_def initialView_def Let_def)
  have "isPreChat initialView" "\<not> isStarting initialView" by (simp_all add: isPreChat_def isStarting_def initialView_def)
  with v screen_is_current [of br "''''" "[StateArrives initialView, FrameRuns]"] show ?thesis
    by (auto simp: Let_def br_def [symmetric] offered_def)
qed

end
