(* ===== verification/Async.thy ===== *)
theory Async
  imports Prelude
begin

text \<open>
  Asynchronous code as programs. A program of type \<open>('s, 'e, 'q, 'r, 'a) prog\<close> returns a value, throws, acts on the state (which
  may produce effects and decides how to go on), or awaits the response to a request. Between two awaits a program runs without
  interruption; while it awaits, other programs run. \<open>run\<close> executes a program up to its next await, and a \<open>system\<close> is a state
  with the programs that are waiting.

  A program is \<open>safe\<close> for an invariant and a guarantee if each of its actions, started in a state with the invariant, keeps the
  invariant and fulfils the guarantee, whatever the responses are. Whatever other safe programs do in between, a system of
  safe programs keeps the invariant, and all actions in its log fulfil the guarantee.
\<close>

section \<open>Programs\<close>

datatype ('s, 'e, 'q, 'r, 'a) prog =
    Ret 'a
  | Exc js_error
  | Act "'s \<Rightarrow> 's \<times> 'e list \<times> ('s, 'e, 'q, 'r, 'a) prog"
  | Await 'q "'r \<Rightarrow> ('s, 'e, 'q, 'r, 'a) prog"

primrec bindP :: "('s, 'e, 'q, 'r, 'a) prog \<Rightarrow> ('a \<Rightarrow> ('s, 'e, 'q, 'r, 'b) prog) \<Rightarrow> ('s, 'e, 'q, 'r, 'b) prog" where
  "bindP (Ret x) f = f x"
| "bindP (Exc e) f = Exc e"
| "bindP (Act g) f = Act (\<lambda>s. map_prod id (map_prod id (\<lambda>p. bindP p f)) (g s))"
| "bindP (Await q k) f = Await q (\<lambda>r. bindP (k r) f)"

text \<open>\<^verbatim>\<open>try { p } catch (e) { h(e) }\<close>\<close>

primrec catchP :: "('s, 'e, 'q, 'r, 'a) prog \<Rightarrow> (js_error \<Rightarrow> ('s, 'e, 'q, 'r, 'a) prog) \<Rightarrow> ('s, 'e, 'q, 'r, 'a) prog" where
  "catchP (Ret x) h = Ret x"
| "catchP (Exc e) h = h e"
| "catchP (Act g) h = Act (\<lambda>s. map_prod id (map_prod id (\<lambda>p. catchP p h)) (g s))"
| "catchP (Await q k) h = Await q (\<lambda>r. catchP (k r) h)"

abbreviation seqP :: "('s, 'e, 'q, 'r, unit) prog \<Rightarrow> ('s, 'e, 'q, 'r, 'b) prog \<Rightarrow> ('s, 'e, 'q, 'r, 'b) prog" where
  "seqP p p' \<equiv> bindP p (\<lambda>_. p')"

text \<open>\<^verbatim>\<open>try { p } finally { q }\<close>\<close>

definition finallyP :: "('s, 'e, 'q, 'r, 'a) prog \<Rightarrow> ('s, 'e, 'q, 'r, unit) prog \<Rightarrow> ('s, 'e, 'q, 'r, 'a) prog" where
  "finallyP p q = bindP (catchP (bindP p (\<lambda>x. Ret (Inr x))) (\<lambda>e. Ret (Inl e)))
     (\<lambda>r. seqP q (case r of Inl e \<Rightarrow> Exc e | Inr x \<Rightarrow> Ret x))"

text \<open>Actions: a change of the state with effects, a look at the state, a thrown error.\<close>

definition doP :: "('s \<Rightarrow> 's \<times> 'e list) \<Rightarrow> ('s, 'e, 'q, 'r, unit) prog" where
  "doP f = Act (\<lambda>s. case f s of (s', es) \<Rightarrow> (s', es, Ret ()))"

definition lookP :: "('s \<Rightarrow> ('s, 'e, 'q, 'r, 'a) prog) \<Rightarrow> ('s, 'e, 'q, 'r, 'a) prog" where
  "lookP h = Act (\<lambda>s. (s, [], h s))"

abbreviation skipP :: "('s, 'e, 'q, 'r, unit) prog" where
  "skipP \<equiv> Ret ()"

definition liftP :: "'a res \<Rightarrow> ('s, 'e, 'q, 'r, 'a) prog" where
  "liftP r = (case r of Inl e \<Rightarrow> Exc e | Inr x \<Rightarrow> Ret x)"

section \<open>Execution\<close>

text \<open>The log has the state before and after each action with its effects.\<close>

type_synonym ('s, 'e) log = "('s \<times> 's \<times> 'e list) list"

datatype ('s, 'e, 'q, 'r, 'a) outcome = Finished "js_error + 'a" | Waits 'q "'r \<Rightarrow> ('s, 'e, 'q, 'r, 'a) prog"

primrec run :: "('s, 'e, 'q, 'r, 'a) prog \<Rightarrow> 's \<Rightarrow> 's \<times> ('s, 'e) log \<times> ('s, 'e, 'q, 'r, 'a) outcome" where
  "run (Ret x) = (\<lambda>s. (s, [], Finished (Inr x)))"
| "run (Exc e) = (\<lambda>s. (s, [], Finished (Inl e)))"
| "run (Await q k) = (\<lambda>s. (s, [], Waits q k))"
| "run (Act g) = (\<lambda>s. case map_prod id (map_prod id run) (g s) of
     (s1, es, next) \<Rightarrow> (case next s1 of (s2, lg, out) \<Rightarrow> (s2, (s, s1, es) # lg, out)))"

lemma run_Act [simp]:
  "g s = (s1, es, p) \<Longrightarrow> run (Act g) s = (case run p s1 of (s2, lg, out) \<Rightarrow> (s2, (s, s1, es) # lg, out))"
  by simp

text \<open>Where a program stops to wait, the programs around it stop too.\<close>

lemma run_bind_waits: "run p s = (s', lg, Waits q k) \<Longrightarrow> run (bindP p f) s = (s', lg, Waits q (\<lambda>r. bindP (k r) f))"
proof (induction p arbitrary: s s' lg)
  case (Act g)
  obtain s1 es p1 where g: "g s = (s1, es, p1)" by (metis prod_cases3)
  obtain s2 lg2 out2 where r: "run p1 s1 = (s2, lg2, out2)" by (metis prod_cases3)
  have "out2 = Waits q k" "s' = s2" "lg = (s, s1, es) # lg2" using Act.prems r by (auto simp: g)
  then show ?case using Act.IH [of "g s" "snd (g s)" p1 s1 s2 lg2, OF rangeI] g r by simp
qed auto

lemma run_catch_waits: "run p s = (s', lg, Waits q k) \<Longrightarrow> run (catchP p h) s = (s', lg, Waits q (\<lambda>r. catchP (k r) h))"
proof (induction p arbitrary: s s' lg)
  case (Act g)
  obtain s1 es p1 where g: "g s = (s1, es, p1)" by (metis prod_cases3)
  obtain s2 lg2 out2 where r: "run p1 s1 = (s2, lg2, out2)" by (metis prod_cases3)
  have "out2 = Waits q k" "s' = s2" "lg = (s, s1, es) # lg2" using Act.prems r by (auto simp: g)
  then show ?case using Act.IH [of "g s" "snd (g s)" p1 s1 s2 lg2, OF rangeI] g r by simp
qed auto

lemma run_look: "run (lookP h) s = (case run (h s) s of (s', lg, out) \<Rightarrow> (s', (s, s, []) # lg, out))"
  by (simp add: lookP_def)

record ('s, 'e, 'q, 'r) system =
  sy_state :: 's
  sy_waiting :: "(nat, 'q \<times> ('r \<Rightarrow> ('s, 'e, 'q, 'r, unit) prog)) jsmap"
  sy_next :: nat
  sy_log :: "('s, 'e) log"

definition newSystem :: "'s \<Rightarrow> ('s, 'e, 'q, 'r) system" where
  "newSystem s = \<lparr>sy_state = s, sy_waiting = [], sy_next = 0, sy_log = []\<rparr>"

definition launch :: "('s, 'e, 'q, 'r, unit) prog \<Rightarrow> ('s, 'e, 'q, 'r) system \<Rightarrow> ('s, 'e, 'q, 'r) system" where
  "launch p sy =
     (case run p (sy_state sy) of (s, lg, out) \<Rightarrow>
        let sy1 = sy\<lparr>sy_state := s, sy_log := sy_log sy @ lg\<rparr> in
        (case out of
           Finished _ \<Rightarrow> sy1
         | Waits q k \<Rightarrow> sy1\<lparr>sy_waiting := map_set (sy_next sy) (q, k) (sy_waiting sy1), sy_next := sy_next sy + 1\<rparr>))"

definition resumeWith :: "nat \<Rightarrow> 'r \<Rightarrow> ('s, 'e, 'q, 'r) system \<Rightarrow> ('s, 'e, 'q, 'r) system" where
  "resumeWith i r sy =
     (case map_get (sy_waiting sy) i of
        None \<Rightarrow> sy
      | Some (q, k) \<Rightarrow> launch (k r) (sy\<lparr>sy_waiting := map_delete i (sy_waiting sy)\<rparr>))"

section \<open>The log is a history of the state\<close>

primrec chained :: "'s \<Rightarrow> ('s, 'e) log \<Rightarrow> 's \<Rightarrow> bool" where
  "chained s [] t = (s = t)"
| "chained s (x # lg) t = (fst x = s \<and> chained (fst (snd x)) lg t)"

lemma chained_append: "chained s lg t \<Longrightarrow> chained t lg' u \<Longrightarrow> chained s (lg @ lg') u"
  by (induction lg arbitrary: s) auto

lemma run_chained: "run p s = (s', lg, out) \<Longrightarrow> chained s lg s'"
proof (induction p arbitrary: s s' lg out)
  case (Act g)
  obtain s1 es p1 where g: "g s = (s1, es, p1)" by (metis prod_cases3)
  obtain s2 lg2 out2 where r: "run p1 s1 = (s2, lg2, out2)" by (metis prod_cases3)
  have "chained s1 lg2 s2" using Act.IH [of "g s" "snd (g s)" p1, OF rangeI _ _ r] g by simp
  then show ?case using Act.prems r by (auto simp: g)
qed auto

lemma launch_chained:
  assumes "chained s0 (sy_log sy) (sy_state sy)"
  shows "chained s0 (sy_log (launch p sy)) (sy_state (launch p sy))"
proof -
  obtain s lg out where r: "run p (sy_state sy) = (s, lg, out)" by (metis prod_cases3)
  show ?thesis using chained_append [OF assms run_chained [OF r]] by (simp add: launch_def r Let_def split: outcome.split)
qed

lemma resume_chained:
  assumes "chained s0 (sy_log sy) (sy_state sy)"
  shows "chained s0 (sy_log (resumeWith i r sy)) (sy_state (resumeWith i r sy))"
  using assms by (auto simp: resumeWith_def split: option.split intro!: launch_chained)

section \<open>Safe programs\<close>

primrec safe :: "('s \<Rightarrow> bool) \<Rightarrow> ('s \<Rightarrow> 's \<Rightarrow> 'e list \<Rightarrow> bool) \<Rightarrow> ('s, 'e, 'q, 'r, 'a) prog \<Rightarrow> bool" where
  "safe I G (Ret x) = True"
| "safe I G (Exc e) = True"
| "safe I G (Await q k) = (\<forall>r. safe I G (k r))"
| "safe I G (Act g) = (\<forall>s. I s \<longrightarrow> (case map_prod id (map_prod id (safe I G)) (g s) of (s', es, ok) \<Rightarrow> I s' \<and> G s s' es \<and> ok))"

locale program_logic =
  fixes I :: "'s \<Rightarrow> bool"
    and G :: "'s \<Rightarrow> 's \<Rightarrow> 'e list \<Rightarrow> bool"
  assumes G_look: "I s \<Longrightarrow> G s s []"
begin

lemma safe_Act: "(\<And>s. I s \<Longrightarrow> I (fst (g s)) \<and> G s (fst (g s)) (fst (snd (g s))) \<and> safe I G (snd (snd (g s)))) \<Longrightarrow> safe I G (Act g)"
  by (auto simp: split_def)

lemma safe_ActD: "safe I G (Act g) \<Longrightarrow> I s \<Longrightarrow> I (fst (g s)) \<and> G s (fst (g s)) (fst (snd (g s))) \<and> safe I G (snd (snd (g s)))"
  by (auto simp: split_def)

declare safe.simps(4) [simp del]

lemma safe_bind: "safe I G p \<Longrightarrow> (\<And>x. safe I G (f x)) \<Longrightarrow> safe I G (bindP p f)"
proof (induction p)
  case (Act g)
  have "safe I G (bindP (snd (snd (g s))) f)" if "I s" for s
    using Act.IH [of "g s" "snd (g s)" "snd (snd (g s))"] safe_ActD [OF Act.prems(1) that] Act.prems(2)
    by (metis UNIV_I prod.collapse prod_set_simps(2) rangeI singletonI snds.intros)
  then show ?case using safe_ActD [OF Act.prems(1)] by (auto intro!: safe_Act)
qed auto

lemma safe_catch: "safe I G p \<Longrightarrow> (\<And>e. safe I G (h e)) \<Longrightarrow> safe I G (catchP p h)"
proof (induction p)
  case (Act g)
  have "safe I G (catchP (snd (snd (g s))) h)" if "I s" for s
    using Act.IH [of "g s" "snd (g s)" "snd (snd (g s))"] safe_ActD [OF Act.prems(1) that] Act.prems(2)
    by (metis UNIV_I prod.collapse prod_set_simps(2) rangeI singletonI snds.intros)
  then show ?case using safe_ActD [OF Act.prems(1)] by (auto intro!: safe_Act)
qed auto

lemma safe_finally: "safe I G p \<Longrightarrow> safe I G q \<Longrightarrow> safe I G (finallyP p q)"
  unfolding finallyP_def by (intro safe_bind safe_catch) (auto split: sum.splits)

lemma safe_do: "(\<And>s. I s \<Longrightarrow> I (fst (f s)) \<and> G s (fst (f s)) (snd (f s))) \<Longrightarrow> safe I G (doP f)"
  unfolding doP_def by (intro safe_Act) (auto simp: split_def)

lemma safe_look: "(\<And>s. I s \<Longrightarrow> safe I G (h s)) \<Longrightarrow> safe I G (lookP h)"
  unfolding lookP_def by (intro safe_Act) (simp add: G_look)

lemma safe_lift: "safe I G (liftP r)"
  by (simp add: liftP_def split: sum.splits)

lemma run_safe:
  assumes "safe I G p" "I s" "run p s = (s', lg, out)"
  shows "I s' \<and> (\<forall>(t, t', es) \<in> set lg. I t \<and> I t' \<and> G t t' es) \<and> (\<forall>q k. out = Waits q k \<longrightarrow> (\<forall>r. safe I G (k r)))"
  using assms
proof (induction p arbitrary: s s' lg out)
  case (Act g)
  obtain s1 es p1 where g: "g s = (s1, es, p1)" by (metis prod_cases3)
  obtain s2 lg2 out2 where r: "run p1 s1 = (s2, lg2, out2)" by (metis prod_cases3)
  have p1: "I s1" "G s s1 es" "safe I G p1" using safe_ActD [OF Act.prems(1,2)] g by auto
  have "I s2 \<and> (\<forall>(t, t', es) \<in> set lg2. I t \<and> I t' \<and> G t t' es) \<and> (\<forall>q k. out2 = Waits q k \<longrightarrow> (\<forall>r. safe I G (k r)))"
    using Act.IH [of "g s" "snd (g s)" p1, OF rangeI _ _ p1(3,1) r] g by simp
  moreover have "s' = s2" "lg = (s, s1, es) # lg2" "out = out2" using Act.prems(3) r by (simp_all add: g)
  ultimately show ?case using p1 Act.prems(2) by auto
qed auto

definition system_ok :: "('s, 'e, 'q, 'r) system \<Rightarrow> bool" where
  "system_ok sy =
     (I (sy_state sy) \<and> (\<forall>(s, s', es) \<in> set (sy_log sy). I s \<and> I s' \<and> G s s' es) \<and>
      (\<forall>i q k. map_get (sy_waiting sy) i = Some (q, k) \<longrightarrow> (\<forall>r. safe I G (k r))))"

lemma system_ok_new: "I s \<Longrightarrow> system_ok (newSystem s)"
  by (simp add: system_ok_def newSystem_def)

lemma system_ok_launch:
  assumes "safe I G p" "system_ok sy"
  shows "system_ok (launch p sy)"
proof -
  obtain s lg out where r: "run p (sy_state sy) = (s, lg, out)" by (metis prod_cases3)
  have "I (sy_state sy)" using assms(2) by (simp add: system_ok_def)
  from run_safe [OF assms(1) this r] show ?thesis
    using assms(2) by (auto simp: launch_def r Let_def system_ok_def map_lookup_simps split: outcome.splits if_splits)
qed

lemma system_ok_resume:
  assumes "system_ok sy"
  shows "system_ok (resumeWith i r sy)"
proof (cases "map_get (sy_waiting sy) i")
  case (Some qk)
  then obtain q k where k: "map_get (sy_waiting sy) i = Some (q, k)" by (cases qk) auto
  have "safe I G (k r)" using assms k by (simp add: system_ok_def)
  moreover have "system_ok (sy\<lparr>sy_waiting := map_delete i (sy_waiting sy)\<rparr>)"
    using assms by (auto simp: system_ok_def map_lookup_simps split: if_splits)
  ultimately show ?thesis by (simp add: resumeWith_def k system_ok_launch)
qed (simp add: resumeWith_def assms)

end

end
