(* ===== verification/SessionState.thy ===== *)
theory SessionState
  imports Async SessionView Negotiation Rooms Reliable Voice
begin

text \<open>
  The state of \<^verbatim>\<open>session/SessionController.ts\<close> and what it does without waiting: the view it shows, the transport it
  drives, the queues of voice frames and of inbound tasks, the epochs. The transport and the channel for reliable delivery are part of
  the state; sender, receiver, voice service and crypto worker are called. A call that returns nothing and calls nothing back is an
  effect. A call that is awaited, or that may call back before it returns, is a request of a program (next theory).

  The elements of the world (clocks, random values, the JSON text of a value) are functions in \<open>se_world\<close>; each draw takes
  the next tick, so that nothing is assumed of the values. An ellipsis in a notice is written as three dots.
\<close>

section \<open>State\<close>

record World =
  w_parse :: "bytes \<Rightarrow> json res" \<comment> \<open>\<^verbatim>\<open>JSON.parse\<close> of the decoded text\<close>
  w_print :: "json \<Rightarrow> bytes"
  w_now :: "nat \<Rightarrow> int"
  w_performanceNow :: "nat \<Rightarrow> rat"
  w_uuid :: "nat \<Rightarrow> string"
  w_random :: "nat \<Rightarrow> rat"
  w_slotToken :: "nat \<Rightarrow> string"
  w_dialFailure :: "nat \<Rightarrow> string option" \<comment> \<open>what \<^verbatim>\<open>new WebSocket\<close> throws\<close>

record SecureChannel =
  sc_sequence :: int
  sc_profile :: TransportProfile

text \<open>The tasks \<^verbatim>\<open>enqueueInbound\<close> is given, with the epoch they were made in.\<close>

datatype InboundTask =
    TStatus ConnectionStatus nat
  | TRelay RelayEvent nat
  | TEnvelope Envelope nat
  | TVoice

text \<open>
  Objects that are compared by identity have a number: a \<^verbatim>\<open>SecureChannel\<close>, a public key. Promises the code keeps
  are numbered too, 0 is one that is resolved from the start, and \<open>se_settled\<close> has those that have been settled since. The
  chain of inbound tasks is a queue and whether its first task is running. \<open>se_pump\<close> is the epoch of a pump of voice frames between two
  turns of its loop. Two fields are not in the code and nothing depends on them: \<open>se_confirmed\<close> is the secure epoch in which the user
  last confirmed the phrase, and \<open>se_viewStale\<close> says that the secure epoch has changed and the security shown has not been set since.
\<close>

record Session =
  se_world :: World
  se_tick :: nat
  se_profile :: TransportProfile
  se_secure :: "nat option"
  se_channels :: "nat \<Rightarrow> SecureChannel"
  se_nextObject :: nat
  se_transport :: WebSocketConnection
  se_outboundVoice :: "VoiceFrame VoiceQueue"
  se_inboundVoice :: "Envelope VoiceQueue"
  se_outboundVoicePumping :: bool
  se_inboundVoiceScheduled :: bool
  se_voiceQueueEpoch :: nat
  se_inbound :: "InboundTask list"
  se_inboundBusy :: bool
  se_epochPreparation :: "nat option"
  se_lifecycleEpoch :: nat
  se_secureEpoch :: nat
  se_startupInFlight :: bool
  se_endSessionTimer :: bool
  se_remoteVoiceActive :: bool
  se_localPublicKey :: "(nat \<times> bytes) option"
  se_peerPublicKey :: "bytes option"
  se_initialHandshakeSent :: bool
  se_replyHandshakeSent :: bool
  se_establishing :: bool
  se_cryptoSerial :: nat
  se_settled :: "nat list"
  se_transferOrder :: "string list"
  se_reliable :: ReliableChannel
  se_view :: SessionViewState
  se_pump :: "nat option"
  se_confirmed :: "nat option"
  se_viewStale :: bool

datatype Call =
    SenderSetProfile TransportProfile
  | SenderReset
  | SenderRemove string
  | SenderStartQueued string
  | ReceiverSetProfile TransportProfile
  | ReceiverReset
  | ReceiverRemove string
  | VoiceSetProfile TransportProfile
  | VoiceHalt \<comment> \<open>\<^verbatim>\<open>voice.stop\<close>\<close>
  | VoiceStopPlayback
  | VoiceSetMuted bool
  | CryptoResets
  | Warns js_error

text \<open>
  \<open>Transmits c e env\<close>: the transport is given a frame that channel \<open>c\<close> began to encrypt in secure epoch \<open>e\<close>. \<open>Handles c e m\<close>: a
  message that channel \<open>c\<close> decrypted from a frame that arrived in secure epoch \<open>e\<close> is acted on. \<open>Wire\<close> is what the transport does
  outside.
\<close>

datatype SessEffect =
    Shows SessionViewState
  | Wire ConnEffect
  | Calls Call
  | Transmits nat nat Envelope
  | Handles nat nat AppMessage

type_synonym sess_action = "Session \<Rightarrow> Session \<times> SessEffect list"

fun actions :: "sess_action list \<Rightarrow> sess_action" where
  "actions [] s = (s, [])"
| "actions (a # as) s = (let (s1, es) = a s; (s2, es') = actions as s1 in (s2, es @ es'))"

definition modify :: "(Session \<Rightarrow> Session) \<Rightarrow> sess_action" where
  "modify f s = (f s, [])"

definition call :: "Call \<Rightarrow> sess_action" where
  "call c s = (s, [Calls c])"

definition onlyIf :: "(Session \<Rightarrow> bool) \<Rightarrow> sess_action \<Rightarrow> sess_action" where
  "onlyIf b a s = (if b s then a s else (s, []))"

definition with_state :: "(Session \<Rightarrow> sess_action) \<Rightarrow> sess_action" where
  "with_state h s = h s s"

definition ticked :: "Session \<Rightarrow> Session" where
  "ticked s = s\<lparr>se_tick := se_tick s + 1\<rparr>"

section \<open>The view\<close>

definition patch :: "(SessionViewState \<Rightarrow> SessionViewState) \<Rightarrow> sess_action" where
  "patch f s = (s\<lparr>se_view := f (se_view s)\<rparr>, [Shows (f (se_view s))])"

definition emit :: sess_action where
  "emit s = (s, [Shows (se_view s)])"

definition se_addSystem :: "string \<Rightarrow> Severity \<Rightarrow> sess_action" where
  "se_addSystem txt sev s =
     (if repeatsLast txt sev (vw_transcript (se_view s)) then (s, [])
      else patch (addSystem (makeId ''sys'' (w_uuid (se_world s) (se_tick s))) (w_now (se_world s) (se_tick s)) txt sev) (ticked s))"

definition se_ensureTransferOrder :: "string \<Rightarrow> sess_action" where
  "se_ensureTransferOrder fileId = modify (\<lambda>s. s\<lparr>se_transferOrder := ensureTransferOrder fileId (se_transferOrder s)\<rparr>)"

definition removeFrom :: "string \<Rightarrow> SessEffect list" where
  "removeFrom fileId = [Calls (SenderRemove fileId), Calls (ReceiverRemove fileId)]"

definition se_upsertTransfer :: "TransferView \<Rightarrow> sess_action" where
  "se_upsertTransfer t s =
     (let ((order, v), old) = upsertTransfer (makeId ''file'' (w_uuid (se_world s) (se_tick s))) (w_now (se_world s) (se_tick s)) t
            (se_transferOrder s, se_view s)
      in ((ticked s)\<lparr>se_transferOrder := order, se_view := v\<rparr>, concat (map removeFrom old) @ [Shows v]))"

definition startNextQueuedFileIfAllowed :: sess_action where
  "startNextQueuedFileIfAllowed s =
     (case nextQueuedFile (se_remoteVoiceActive s) (se_view s) of
        None \<Rightarrow> (s, [])
      | Some fileId \<Rightarrow> (s, [Calls (SenderStartQueued fileId)]))"

definition updateSender :: "SenderSnapshot \<Rightarrow> sess_action" where
  "updateSender snap =
     actions [se_upsertTransfer (senderView snap),
       onlyIf (\<lambda>_. ss_status snap \<in> {SnCompleted, SnCancelled, SnFailed}) startNextQueuedFileIfAllowed]"

definition updateReceiver :: "ReceiverSnapshot \<Rightarrow> sess_action" where
  "updateReceiver snap = se_upsertTransfer (receiverView snap)"

definition removeFile :: "string \<Rightarrow> sess_action" where
  "removeFile fileId s =
     (case find (\<lambda>t. tv_fileId t = fileId) (vw_transfers (se_view s)) of
        None \<Rightarrow> (s, [])
      | Some t \<Rightarrow>
          if \<not> isFinished t then (s, [])
          else let (order, v) = removeTransferView fileId (se_transferOrder s, se_view s)
               in (s\<lparr>se_transferOrder := order, se_view := v\<rparr>, removeFrom fileId @ [Shows v]))"

section \<open>Callbacks of reliable delivery\<close>

definition tracked :: "string option \<Rightarrow> ItemStatus \<Rightarrow> sess_action" where
  "tracked trackingId st =
     (case trackingId of None \<Rightarrow> actions [] | Some i \<Rightarrow> if i = '''' then actions [] else patch (updateTranscriptStatus i st))"

fun onReliable :: "REvent \<Rightarrow> sess_action" where
  "onReliable (EvDelivered _ trackingId) = tracked trackingId ItSent"
| "onReliable (EvFailed _ trackingId reason) =
     actions [tracked trackingId ItFailed, patch (\<lambda>v. v\<lparr>vw_notice := Some reason\<rparr>), se_addSystem reason SvError]"
| "onReliable _ = actions []"

definition reliably :: "(ReliableChannel \<Rightarrow> ReliableChannel \<times> REvent list) \<Rightarrow> sess_action" where
  "reliably f s =
     (let (r, evs) = f (se_reliable s) in actions (map onReliable evs) (s\<lparr>se_reliable := r\<rparr>))"

section \<open>The transport and what it reports\<close>

text \<open>A call of the transport that only counts.\<close>

definition meter :: "conn_action \<Rightarrow> sess_action" where
  "meter a s = (let (t, es) = a (se_transport s) in (s\<lparr>se_transport := t\<rparr>, map Wire es))"

definition dropped :: "VoiceDropMetric \<Rightarrow> nat \<Rightarrow> sess_action" where
  "dropped reason n = meter (recordVoiceDrop reason n)"

definition enqueueInbound :: "InboundTask \<Rightarrow> Session \<Rightarrow> Session" where
  "enqueueInbound t s = s\<lparr>se_inbound := se_inbound s @ [t]\<rparr>"

definition scheduleInboundVoice :: "Session \<Rightarrow> Session" where
  "scheduleInboundVoice s =
     (if se_inboundVoiceScheduled s then s else enqueueInbound TVoice (s\<lparr>se_inboundVoiceScheduled := True\<rparr>))"

definition queueInboundVoice :: "Envelope \<Rightarrow> nat \<Rightarrow> sess_action" where
  "queueInboundVoice env epoch s =
     (if epoch \<noteq> se_secureEpoch s \<or> se_secure s = None then dropped BeforeDecrypt 1 s
      else
        let (q, n) = vq_push (w_performanceNow (se_world s) (se_tick s)) env (se_inboundVoice s)
        in actions [modify (\<lambda>s. (ticked s)\<lparr>se_inboundVoice := q\<rparr>), dropped BeforeDecrypt n,
             meter (recordVoiceQueueSize (vq_size q)), modify scheduleInboundVoice] s)"

definition routeEnvelope :: "Envelope \<Rightarrow> sess_action" where
  "routeEnvelope env s =
     (if outerType env = DATA \<and> streamId env = 4 then queueInboundVoice env (se_secureEpoch s) s
      else (enqueueInbound (TEnvelope env (se_secureEpoch s)) s, []))"

fun report :: "ConnEffect \<Rightarrow> sess_action" where
  "report (EvStatus st) s = (enqueueInbound (TStatus st (se_lifecycleEpoch s)) s, [])"
| "report (EvRelay e) s = (enqueueInbound (TRelay e (se_lifecycleEpoch s)) s, [])"
| "report (EvEnvelope env) s = routeEnvelope env s"
| "report e s = (s, [Wire e])"

definition transport :: "conn_action \<Rightarrow> sess_action" where
  "transport a s = (let (t, es) = a (se_transport s) in actions (map report es) (s\<lparr>se_transport := t\<rparr>))"

definition transportSend :: "Envelope \<Rightarrow> Session \<Rightarrow> Session \<times> SessEffect list \<times> bool" where
  "transportSend env s =
     (let (t, es, ok) = cn_send env (se_transport s); (s', es') = actions (map report es) (s\<lparr>se_transport := t\<rparr>)
      in (s', es', ok))"

section \<open>The voice queues\<close>

definition voiceQueueMaxFrames :: "TransportProfile \<Rightarrow> nat" where
  "voiceQueueMaxFrames p = max 1 (nat \<lceil>of_nat (maxQueuedLatencyMs (voice p)) / (of_nat (frameMs (voice p)) :: rat)\<rceil>)"

definition createVoiceQueue :: "TransportProfile \<Rightarrow> 'a VoiceQueue" where
  "createVoiceQueue p = newVoiceQueue (of_nat (voiceQueueMaxFrames p)) (of_nat (maxQueuedLatencyMs (voice p)))"

definition updateVoiceQueueLimits :: sess_action where
  "updateVoiceQueueLimits s =
     (let mx = of_nat (voiceQueueMaxFrames (se_profile s)); age = of_nat (maxQueuedLatencyMs (voice (se_profile s)));
          (qo, no) = vq_setLimits mx age (se_outboundVoice s); (qi, ni) = vq_setLimits mx age (se_inboundVoice s)
      in actions [modify (\<lambda>s. s\<lparr>se_outboundVoice := qo, se_inboundVoice := qi\<rparr>), dropped BeforeEncrypt no, dropped BeforeDecrypt ni] s)"

definition clearOutboundVoiceQueue :: sess_action where
  "clearOutboundVoiceQueue s =
     (let (q, n) = vq_clear (se_outboundVoice s)
      in actions [modify (\<lambda>s. s\<lparr>se_voiceQueueEpoch := se_voiceQueueEpoch s + 1, se_outboundVoice := q\<rparr>), dropped BeforeEncrypt n] s)"

definition clearVoiceQueues :: sess_action where
  "clearVoiceQueues =
     actions [clearOutboundVoiceQueue,
       (\<lambda>s. let (q, n) = vq_clear (se_inboundVoice s) in actions [modify (\<lambda>s. s\<lparr>se_inboundVoice := q\<rparr>), dropped BeforeDecrypt n] s),
       modify (\<lambda>s. s\<lparr>se_inboundVoiceScheduled := False\<rparr>)]"

definition toggleMute :: sess_action where
  "toggleMute s =
     (if vw_voice (se_view s) \<noteq> VsActive \<and> vw_voice (se_view s) \<noteq> VsMuted then (s, [])
      else
        let muted = (\<not> vw_muted (se_view s))
        in actions [call (VoiceSetMuted muted), onlyIf (\<lambda>_. muted) clearOutboundVoiceQueue,
             patch (\<lambda>v. v\<lparr>vw_muted := muted, vw_voice := (if muted then VsMuted else VsActive)\<rparr>)] s)"

section \<open>Profiles, the end of a session\<close>

definition useProfile :: "TransportProfileId \<Rightarrow> sess_action" where
  "useProfile i =
     actions [modify (\<lambda>s. s\<lparr>se_profile := getProfile i\<rparr>), transport (cn_setProfile (getProfile i)), call (VoiceSetProfile (getProfile i)),
       call (SenderSetProfile (getProfile i)), call (ReceiverSetProfile (getProfile i)), updateVoiceQueueLimits]"

definition se_setProfile :: "TransportProfileId \<Rightarrow> sess_action" where
  "se_setProfile i s =
     (if vw_phase (se_view s) \<noteq> PhIdle \<and> vw_phase (se_view s) \<noteq> PhEnded then (s, [])
      else actions [useProfile i, patch (\<lambda>v. v\<lparr>vw_profileId := i\<rparr>)] s)"

definition nextEpochs :: "Session \<Rightarrow> Session" where
  "nextEpochs s =
     s\<lparr>se_lifecycleEpoch := se_lifecycleEpoch s + 1, se_secureEpoch := se_secureEpoch s + 1, se_endSessionTimer := False,
       se_establishing := False, se_initialHandshakeSent := False, se_replyHandshakeSent := False, se_epochPreparation := None,
       se_remoteVoiceActive := False, se_viewStale := True\<rparr>"

definition renewed :: sess_action where
  "renewed = modify (\<lambda>s. s\<lparr>se_viewStale := False\<rparr>)"

definition forgetSecrets :: "Session \<Rightarrow> Session" where
  "forgetSecrets s = s\<lparr>se_secure := None, se_localPublicKey := None, se_peerPublicKey := None, se_cryptoSerial := 0\<rparr>"

definition endedView :: "string \<Rightarrow> SessionViewState \<Rightarrow> SessionViewState" where
  "endedView notice v =
     v\<lparr>vw_phase := PhEnded, vw_connection := Disconnected, vw_security := SecNone, vw_safetyPhrase := None, vw_voice := VsIdle,
       vw_muted := False, vw_audioPlaybackBlocked := False, vw_notice := Some notice, vw_transcript := [], vw_transfers := []\<rparr>"

definition se_disconnect :: "bool \<Rightarrow> bool \<Rightarrow> string \<Rightarrow> sess_action" where
  "se_disconnect silent forgetSlot notice =
     actions [modify nextEpochs, clearVoiceQueues, call VoiceHalt, call SenderReset, call ReceiverReset,
       transport (cn_disconnect forgetSlot), call CryptoResets, modify forgetSecrets,
       modify (\<lambda>s. s\<lparr>se_transferOrder := [], se_reliable := rel_reset (se_reliable s)\<rparr>),
       onlyIf (\<lambda>_. \<not> silent) (actions [patch (endedView notice), renewed])]"

definition leaveRoom :: sess_action where
  "leaveRoom = se_disconnect False False ''Room closed on this device.''"

definition endChatForBoth :: sess_action where
  "endChatForBoth s =
     (if vw_phase (se_view s) = PhIdle \<or> vw_phase (se_view s) = PhEnded then (s, [])
      else
        let (t, es, sent) = endSession (se_transport s)
        in actions (map report es @
             [if \<not> sent then se_disconnect False True ''Chat ended on this device.''
              else actions [patch (\<lambda>v. v\<lparr>vw_notice := Some ''Ending chat for both...''\<rparr>), modify (\<lambda>s. s\<lparr>se_endSessionTimer := True\<rparr>)]])
           (s\<lparr>se_endSessionTimer := False, se_transport := t\<rparr>))"

text \<open>The timer that \<^verbatim>\<open>endChatForBoth\<close> sets.\<close>

definition endSessionFires :: sess_action where
  "endSessionFires =
     onlyIf se_endSessionTimer (actions [modify (\<lambda>s. s\<lparr>se_endSessionTimer := False\<rparr>), se_disconnect False True ''Chat ended for both.''])"

end
