(* ===== verification/Session.thy ===== *)
theory Session
  imports SessionState
begin

text \<open>
  The asynchronous operations of \<^verbatim>\<open>session/SessionController.ts\<close> and \<^verbatim>\<open>crypto/SecureChannel.ts\<close>, as programs. Every
  \<^verbatim>\<open>await\<close> is an \<open>Await\<close>: on a request to another part, on a promise the code keeps (\<open>QSettled\<close>), or, after a call of an
  asynchronous function of the controller itself, on the turn of the event loop (\<open>QTick\<close>), so that whatever may run in between may
  run in between. The responses are arbitrary.
\<close>

section \<open>Requests\<close>

datatype SessReq =
    QTick
  | QSettled nat
  | QDigest bytes
  | QConfigure TransportProfile
  | QGenerateIdentity
  | QReset
  | QEstablishSession bytes string
  | QEncrypt bytes AadContext
  | QDecrypt bytes bytes int AadContext
  | QCreateRoom TransportProfileId
  | QLookupRoom string
  | QConnect
  | QSenderOffer File bool
  | QSenderAccept string
  | QSenderCancel string string bool \<comment> \<open>file, reason, whether the peer is told\<close>
  | QSenderAck string int
  | QSenderNack string int string
  | QSenderPause string string
  | QSenderResume string
  | QSenderSetGlobalPaused bool string
  | QReceiverOffer CoreAppMessage
  | QReceiverAccept string
  | QReceiverReject string
  | QReceiverCancel string string
  | QReceiverPeerCancel string string
  | QReceiverChunk CoreAppMessage
  | QReceiverCompleteNotice CoreAppMessage
  | QVoiceStart
  | QVoicePlay CoreAppMessage
  | QVoiceEnablePlayback

datatype SessResp =
    RUnit
  | RBool bool
  | RBytes bytes
  | RString string
  | RNumber int
  | RCipher bytes bytes int \<comment> \<open>ciphertext, nonce, counter\<close>
  | RHttp HttpOutcome
  | RFail js_error

type_synonym 'a sess = "(Session, SessEffect, SessReq, SessResp, 'a) prog"

definition ask :: "SessReq \<Rightarrow> (SessResp \<Rightarrow> 'a option) \<Rightarrow> 'a sess" where
  "ask q f = Await q (\<lambda>r. case r of
     RFail e \<Rightarrow> Exc e
   | _ \<Rightarrow> (case f r of None \<Rightarrow> Exc (Error ''unexpected response'') | Some x \<Rightarrow> Ret x))"

definition askUnit :: "SessReq \<Rightarrow> unit sess" where
  "askUnit q = ask q (\<lambda>r. Some ())"

definition askBool :: "SessReq \<Rightarrow> bool sess" where
  "askBool q = ask q (\<lambda>r. case r of RBool b \<Rightarrow> Some b | _ \<Rightarrow> None)"

definition askBytes :: "SessReq \<Rightarrow> bytes sess" where
  "askBytes q = ask q (\<lambda>r. case r of RBytes b \<Rightarrow> Some b | _ \<Rightarrow> None)"

definition askString :: "SessReq \<Rightarrow> string sess" where
  "askString q = ask q (\<lambda>r. case r of RString b \<Rightarrow> Some b | _ \<Rightarrow> None)"

definition askNumber :: "SessReq \<Rightarrow> int sess" where
  "askNumber q = ask q (\<lambda>r. case r of RNumber b \<Rightarrow> Some b | _ \<Rightarrow> None)"

definition askCipher :: "SessReq \<Rightarrow> (bytes \<times> bytes \<times> int) sess" where
  "askCipher q = ask q (\<lambda>r. case r of RCipher c n ctr \<Rightarrow> Some (c, n, ctr) | _ \<Rightarrow> None)"

definition askHttp :: "SessReq \<Rightarrow> HttpOutcome sess" where
  "askHttp q = ask q (\<lambda>r. case r of RHttp h \<Rightarrow> Some h | _ \<Rightarrow> None)"

text \<open>\<^verbatim>\<open>await\<close> of a call: the call runs, and the caller goes on in a later turn, with its value or the error.\<close>

definition awaitP :: "'a sess \<Rightarrow> 'a sess" where
  "awaitP p = bindP (catchP (bindP p (\<lambda>x. Ret (Inr x))) (\<lambda>e. Ret (Inl e))) (\<lambda>r. Await QTick (\<lambda>_. liftP r))"

definition quietly :: "(Session \<Rightarrow> Session) \<Rightarrow> unit sess" where
  "quietly f = doP (modify f)"

definition whenP :: "bool \<Rightarrow> unit sess \<Rightarrow> unit sess" where
  "whenP b p = (if b then p else skipP)"

section \<open>Crypto\<close>

text \<open>\<^verbatim>\<open>runCrypto\<close>: a task starts when the one before it in the chain has been settled.\<close>

definition settlePromise :: "nat \<Rightarrow> Session \<Rightarrow> Session" where
  "settlePromise n s = s\<lparr>se_settled := n # se_settled s\<rparr>"

definition newPromise :: "Session \<Rightarrow> Session" where
  "newPromise s = s\<lparr>se_nextObject := se_nextObject s + 1\<rparr>"

definition runCrypto :: "'a sess \<Rightarrow> 'a sess" where
  "runCrypto task = Act (\<lambda>s.
     ((newPromise s)\<lparr>se_cryptoSerial := se_nextObject s\<rparr>, [],
      Await (QSettled (se_cryptoSerial s)) (\<lambda>_. finallyP task (quietly (settlePromise (se_nextObject s))))))"

fun streamForLane :: "LaneName \<Rightarrow> int" where
  "streamForLane Control = 1"
| "streamForLane Text = 2"
| "streamForLane File = 3"
| "streamForLane Voice = 4"

definition nextSequence :: "int \<Rightarrow> int" where
  "nextSequence n = (let m = (n + 1) mod 2 ^ 32 in if m = 0 then 1 else m)"

definition encodeAppMessage :: "World \<Rightarrow> AppMessage \<Rightarrow> bytes" where
  "encodeAppMessage w m = w_print w (JObj (appObject m))"

definition decodeAppMessage :: "World \<Rightarrow> int \<Rightarrow> bytes \<Rightarrow> AppMessage res" where
  "decodeAppMessage w now bs = res_bind (res_bind (w_parse w bs) objectOf) (decodeAppMessageObject now)"

definition draftOf :: "SecureChannel \<Rightarrow> LaneName \<Rightarrow> int \<Rightarrow> AadContext" where
  "draftOf ch lane sq =
     \<lparr>ctx_protocolVersion = int (protocolVersion (sc_profile ch)), outerType = DATA, flags = 0, streamId = streamForLane lane, sequence = sq\<rparr>"

definition sealed :: "AadContext \<Rightarrow> LaneName \<Rightarrow> bytes \<times> bytes \<times> int \<Rightarrow> Envelope" where
  "sealed draft lane = (\<lambda>(ct, n, ctr).
     \<lparr>ctx_protocolVersion = ctx_protocolVersion draft, outerType = outerType draft, flags = flags draft, streamId = streamId draft,
      sequence = sequence draft, counter = ctr, nonce = n, payload = ct, env_lane = lane\<rparr>)"

definition encryptAppMessage :: "nat \<Rightarrow> AppMessage \<Rightarrow> LaneName \<Rightarrow> Envelope sess" where
  "encryptAppMessage c message lane = Act (\<lambda>s.
     let ch = se_channels s c; sq = nextSequence (sc_sequence ch); draft = draftOf ch lane sq in
     (s\<lparr>se_channels := (se_channels s)(c := ch\<lparr>sc_sequence := sq\<rparr>)\<rparr>, [],
      bindP (askCipher (QEncrypt (encodeAppMessage (se_world s) message) (createAadContext draft (sc_profile ch))))
        (\<lambda>encrypted. Ret (sealed draft lane encrypted))))"

definition decryptAppMessage :: "nat \<Rightarrow> Envelope \<Rightarrow> AppMessage sess" where
  "decryptAppMessage c env =
     (if outerType env \<noteq> DATA then Exc (Error ''Expected encrypted data frame'')
      else lookP (\<lambda>s.
        bindP (askBytes (QDecrypt (payload env) (nonce env) (counter env) (createAadContext env (sc_profile (se_channels s c)))))
          (\<lambda>plaintext. Act (\<lambda>s. (ticked s, [], liftP (decodeAppMessage (se_world s) (w_now (se_world s) (se_tick s)) plaintext))))))"

section \<open>Sending\<close>

definition sendRawApp :: "AppMessage \<Rightarrow> LaneName \<Rightarrow> bool sess" where
  "sendRawApp message lane = lookP (\<lambda>s0.
     case se_secure s0 of
       None \<Rightarrow> Ret False
     | Some c \<Rightarrow>
         if lane = Voice \<and> \<not> canSendVoiceNow (se_transport s0) then seqP (doP (dropped BeforeEncrypt 1)) (Ret False)
         else
           catchP
             (bindP (awaitP (runCrypto (encryptAppMessage c message lane))) (\<lambda>env. Act (\<lambda>s.
                if se_secureEpoch s0 \<noteq> se_secureEpoch s \<or> se_secure s \<noteq> Some c then (s, [], Ret False)
                else let (s', es, ok) = transportSend env s in (s', Transmits c (se_secureEpoch s0) env # es, Ret ok))))
             (\<lambda>err. seqP (doP (call (Warns err))) (Ret False)))"

text \<open>The rest of \<^verbatim>\<open>sendPending\<close>, for the message that has just been put into \<open>flying\<close>.\<close>

definition sendPendingP :: "REvent list \<Rightarrow> bool sess" where
  "sendPendingP evs =
     (case evs of
        [Reliable.EvSend m lane] \<Rightarrow> lookP (\<lambda>s.
          let p = last (flying (se_reliable s)) in
          bindP (awaitP (sendRawApp m lane)) (\<lambda>ok.
            seqP (doP (\<lambda>s. reliably (sendPendingDone ok (w_random (se_world s) (se_tick s)) p) (ticked s))) (Ret ok)))
      | _ \<Rightarrow> Ret False)"

definition reliableSend :: "CoreAppMessage \<Rightarrow> ReliableChannelName \<Rightarrow> string option \<Rightarrow> bool sess" where
  "reliableSend body channel trackingId = Act (\<lambda>s.
     let w = se_world s; n = se_tick s; (r, evs) = rel_send (w_now w n) (w_uuid w n) body channel trackingId (se_reliable s)
     in ((ticked s)\<lparr>se_reliable := r\<rparr>, [], sendPendingP evs))"

text \<open>A timer of the reliable channel fires.\<close>

definition reliableTimer :: "string \<Rightarrow> unit sess" where
  "reliableTimer i = Act (\<lambda>s.
     let (r, evs) = timerFires (w_now (se_world s) (se_tick s)) i (se_reliable s);
         (s', es) = actions (map onReliable evs) ((ticked s)\<lparr>se_reliable := r\<rparr>)
     in (s', es, bindP (sendPendingP evs) (\<lambda>_. skipP)))"

definition sendApp :: "AppMessage \<Rightarrow> LaneName \<Rightarrow> string option \<Rightarrow> bool sess" where
  "sendApp message lane trackingId =
     (case message of
        Core body \<Rightarrow>
          if shouldSendReliably message lane
          then awaitP (reliableSend body (if lane = Text then ChText else ChControl) trackingId)
          else awaitP (sendRawApp message lane)
      | _ \<Rightarrow> awaitP (sendRawApp message lane))"

section \<open>Handshakes\<close>

definition encodeHandshake :: "World \<Rightarrow> HandshakeMessage \<Rightarrow> bytes" where
  "encodeHandshake w hs = w_print w (JObj (handshakeObject hs))"

definition decodeHandshake :: "World \<Rightarrow> bytes \<Rightarrow> HandshakeMessage res" where
  "decodeHandshake w bs = res_bind (res_bind (w_parse w bs) objectOf) decodeHandshakeObject"

definition profileHashP :: "TransportProfile \<Rightarrow> string sess" where
  "profileHashP p = awaitP (bindP (askBytes (QDigest (utf8Encode (profileHashInput p)))) (\<lambda>d. Ret (profileHashOf d)))"

definition handshakeOf :: "World \<Rightarrow> TransportProfile \<Rightarrow> bytes \<Rightarrow> string \<Rightarrow> Envelope" where
  "handshakeOf w p key hash =
     \<lparr>ctx_protocolVersion = int (protocolVersion p), outerType = HANDSHAKE, flags = 0, streamId = 0, sequence = 0, counter = 0,
      nonce = replicate 12 0,
      payload = encodeHandshake w \<lparr>hs_publicKey = bytesToBase64Url key, hs_profileId = profileId p, hs_profileHash = hash,
        hs_appVersion = APP_VERSION, hs_featureFlags = FEATURE_FLAGS\<rparr>,
      env_lane = Control\<rparr>"

text \<open>There is one object for each profile, so that comparing objects is comparing ids.\<close>

definition sendHandshake :: "unit sess" where
  "sendHandshake = lookP (\<lambda>s0.
     case se_localPublicKey s0 of
       None \<Rightarrow> skipP
     | Some key \<Rightarrow>
         bindP (profileHashP (se_profile s0)) (\<lambda>hash. Act (\<lambda>s.
           if se_lifecycleEpoch s0 \<noteq> se_lifecycleEpoch s \<or> se_secureEpoch s0 \<noteq> se_secureEpoch s \<or>
              se_localPublicKey s \<noteq> Some key \<or> profileId (se_profile s) \<noteq> profileId (se_profile s0)
           then (s, [], skipP)
           else
             let (s', es, ok) = transportSend (handshakeOf (se_world s) (se_profile s) (snd key) hash) s
             in (s', es, if ok then skipP else Exc (Error ''Could not queue secure handshake'')))))"

definition sendInitialHandshake :: "unit sess" where
  "sendInitialHandshake = lookP (\<lambda>s.
     if se_initialHandshakeSent s then skipP
     else seqP (quietly (\<lambda>s. s\<lparr>se_initialHandshakeSent := True\<rparr>)) (awaitP sendHandshake))"

definition sendReplyHandshake :: "unit sess" where
  "sendReplyHandshake = lookP (\<lambda>s.
     if se_replyHandshakeSent s then skipP
     else seqP (quietly (\<lambda>s. s\<lparr>se_replyHandshakeSent := True\<rparr>)) (awaitP sendHandshake))"

definition verificationPhraseP :: "bytes \<Rightarrow> bytes \<Rightarrow> TransportProfile \<Rightarrow> string \<Rightarrow> HandshakeMessage \<Rightarrow> string sess" where
  "verificationPhraseP key peerKey p code hs =
     awaitP (bindP (askBytes (QDigest (utf8Encode code))) (\<lambda>sessionDigest.
       bindP (profileHashP p) (\<lambda>hash.
         bindP (askBytes (QDigest (utf8Encode (phraseMaterial sessionDigest hash key peerKey p (hs_appVersion hs) (hs_featureFlags hs)))))
           (\<lambda>digest. Ret (phraseOf digest)))))"

definition incompatible :: string where
  "incompatible = ''This peer is using an incompatible OnlyTwo version. Refresh both browsers.''"

definition accepts :: "HandshakeMessage \<Rightarrow> TransportProfile \<Rightarrow> string \<Rightarrow> bool" where
  "accepts hs p hash =
     (hs_appVersion hs = APP_VERSION \<and> hs_profileId hs = profileId p \<and> hs_profileHash hs = hash \<and>
      filter (\<lambda>flag. flag \<notin> set (hs_featureFlags hs)) FEATURE_FLAGS = [])"

definition openChannel :: "bytes \<Rightarrow> Session \<Rightarrow> Session" where
  "openChannel peerKey s =
     s\<lparr>se_channels := (se_channels s)(se_nextObject s := \<lparr>sc_sequence = 0, sc_profile = se_profile s\<rparr>),
       se_secure := Some (se_nextObject s), se_nextObject := se_nextObject s + 1, se_peerPublicKey := Some peerKey\<rparr>"

definition establish :: "HandshakeMessage \<Rightarrow> bytes \<Rightarrow> unit sess" where
  "establish hs peerKey =
     seqP (lookP (\<lambda>s. whenP (\<not> se_replyHandshakeSent s) (awaitP sendReplyHandshake)))
       (bindP (lookP (\<lambda>s. profileHashP (se_profile s))) (\<lambda>hash.
          lookP (\<lambda>s.
            if \<not> accepts hs (se_profile s) hash then
              doP (actions [patch (\<lambda>v. v\<lparr>vw_security := VerificationFailed, vw_notice := Some incompatible\<rparr>),
                se_addSystem incompatible SvError])
            else
              seqP (awaitP (runCrypto (lookP (\<lambda>s. seqP (askUnit (QConfigure (se_profile s))) (askUnit (QEstablishSession peerKey hash))))))
                (seqP (quietly (openChannel peerKey))
                  (lookP (\<lambda>s.
                     bindP (case se_localPublicKey s of
                         None \<Rightarrow> awaitP (Exc (Error ''Cannot read properties of null''))
                       | Some (i, key) \<Rightarrow> verificationPhraseP key peerKey (se_profile s) (vw_roomCode (se_view s)) hs) (\<lambda>phrase.
                       doP (actions [with_state (\<lambda>s. patch (\<lambda>v.
                            v\<lparr>vw_phase := PhActive, vw_profileId := profileId (se_profile s), vw_security := EncryptedUnverified,
                              vw_safetyPhrase := Some phrase, vw_notice := Some ''Encrypted. Verify the phrase.'', vw_invalidPackets := 0\<rparr>)),
                         se_addSystem ''Secure session ready. Verify the safety phrase.'' SvInfo]))))))))"

definition handleHandshake :: "bytes \<Rightarrow> unit sess" where
  "handleHandshake data = lookP (\<lambda>s.
     case se_localPublicKey s of
       None \<Rightarrow> skipP
     | Some (i, key) \<Rightarrow>
         bindP (liftP (decodeHandshake (se_world s) data)) (\<lambda>hs.
           bindP (liftP (base64UrlToBytes (hs_publicKey hs))) (\<lambda>peerKey.
             if bytesToBase64Url peerKey = bytesToBase64Url key then skipP
             else if se_secure s \<noteq> None then
               (if map_option bytesToBase64Url (se_peerPublicKey s) = Some (bytesToBase64Url peerKey) then skipP
                else doP (patch (\<lambda>v. v\<lparr>vw_security := VerificationFailed, vw_notice := Some ''Peer identity changed. Leave this room.''\<rparr>)))
             else if se_establishing s then skipP
             else seqP (quietly (\<lambda>s. s\<lparr>se_establishing := True\<rparr>))
                    (finallyP (establish hs peerKey) (quietly (\<lambda>s. s\<lparr>se_establishing := False\<rparr>))))))"

end
