(* ===== verification/SessionTasks.thy ===== *)
theory SessionTasks
  imports Session
begin

text \<open>
  What \<^verbatim>\<open>session/SessionController.ts\<close> does about inbound messages and tasks, about voice frames, and when the user asks; and
  the system of all of it. \<open>start_op\<close> has what may start at any time: a call of the user interface, an event of the socket or of a timer, a callback
  of the sender, the receiver or the voice service, the next inbound task.
\<close>

section \<open>Messages\<close>

definition updateFilePauseForVoice :: "unit sess" where
  "updateFilePauseForVoice = lookP (\<lambda>s.
     let shouldPause = (isVoiceActive (se_view s) \<or> se_remoteVoiceActive s) in
     seqP (askUnit (QSenderSetGlobalPaused shouldPause ''Paused during voice''))
       (whenP (\<not> shouldPause) (doP startNextQueuedFileIfAllowed)))"

definition validRemoteVoiceStart :: "TransportProfile \<Rightarrow> string \<Rightarrow> int \<Rightarrow> int \<Rightarrow> VoicePrivacyMode option \<Rightarrow> bool" where
  "validRemoteVoiceStart p sid rate ms md =
     (sid = ''voice'' \<and> ms = int (frameMs (voice p)) \<and> (md = None \<or> md = Some (voiceMode (voice p))) \<and> 8000 \<le> rate \<and> rate \<le> 192000)"

definition textItem :: "ItemFrom \<Rightarrow> string \<Rightarrow> string \<Rightarrow> int \<Rightarrow> ItemStatus \<Rightarrow> TranscriptItem" where
  "textItem from i body createdAt st =
     \<lparr>ti_id = i, ti_kind = KText, ti_from = from, ti_text = body, ti_at = createdAt, ti_status = Some st, ti_severity = None, ti_fileId = None\<rparr>"

definition notify :: "string \<Rightarrow> SessionViewState \<Rightarrow> SessionViewState" where
  "notify txt v = v\<lparr>vw_notice := Some txt\<rparr>"

fun handleCore :: "CoreAppMessage \<Rightarrow> unit sess" where
  "handleCore (SessionVerified _) =
     doP (onlyIf (\<lambda>s. vw_security (se_view s) \<noteq> Verified)
       (actions [patch (notify ''Peer marked this chat verified.''), se_addSystem ''Peer marked the secure session as verified.'' SvInfo]))"
| "handleCore (TextMessage i body createdAt) = doP (patch (addTranscript (textItem FromPeer i body createdAt ItSent)))"
| "handleCore (FileOffer fileId name mime sz chunk chunks sha) =
     seqP (askUnit (QReceiverOffer (FileOffer fileId name mime sz chunk chunks sha))) (doP (se_ensureTransferOrder fileId))"
| "handleCore (FileAccept fileId) = askUnit (QSenderAccept fileId)"
| "handleCore (FileReject fileId reason) = seqP (askUnit (QSenderCancel fileId reason False)) (doP startNextQueuedFileIfAllowed)"
| "handleCore (FileChunk fileId index chunks data) = askUnit (QReceiverChunk (FileChunk fileId index chunks data))"
| "handleCore (FileAck fileId index) = askUnit (QSenderAck fileId index)"
| "handleCore (FileNack fileId index reason) = askUnit (QSenderNack fileId index reason)"
| "handleCore (FilePause fileId reason) = askUnit (QSenderPause fileId reason)"
| "handleCore (FileResume fileId) = askUnit (QSenderResume fileId)"
| "handleCore (FileCancel fileId reason) =
     seqP (askUnit (QSenderCancel fileId reason False))
       (seqP (askUnit (QReceiverPeerCancel fileId reason)) (doP startNextQueuedFileIfAllowed))"
| "handleCore (FileComplete fileId sha) = askUnit (QReceiverCompleteNotice (FileComplete fileId sha))"
| "handleCore (VoiceStart sid rate ms md) = lookP (\<lambda>s.
     if \<not> validRemoteVoiceStart (se_profile s) sid rate ms md then Exc (Error ''Invalid voice stream metadata'')
     else seqP (doP (actions [modify (\<lambda>s. s\<lparr>se_remoteVoiceActive := True\<rparr>), patch (notify ''Peer started voice.''),
                  se_addSystem ''Peer started voice.'' SvInfo]))
            updateFilePauseForVoice)"
| "handleCore (VoiceFrame sid sq sentAt rate ms pcm) = lookP (\<lambda>s.
     if \<not> se_remoteVoiceActive s then Exc (Error ''Voice frame received before voice start'')
     else bindP (askBool (QVoicePlay (VoiceFrame sid sq sentAt rate ms pcm))) (\<lambda>playing.
       doP (onlyIf (\<lambda>s. \<not> playing \<and> \<not> vw_audioPlaybackBlocked (se_view s))
         (actions [patch (\<lambda>v. notify ''Incoming voice is blocked. Tap Enable audio.'' (v\<lparr>vw_audioPlaybackBlocked := True\<rparr>)),
           se_addSystem ''Incoming voice is blocked. Tap Enable audio.'' SvError]))))"
| "handleCore (VoiceStop sid) =
     (if sid \<noteq> ''voice'' then Exc (Error ''Invalid voice stream metadata'')
      else seqP (doP (actions [modify (\<lambda>s. s\<lparr>se_remoteVoiceActive := False, se_inboundVoice := fst (vq_clear (se_inboundVoice s))\<rparr>),
                   call VoiceStopPlayback, patch (\<lambda>v. notify ''Peer ended voice.'' (v\<lparr>vw_audioPlaybackBlocked := False\<rparr>))]))
             (seqP updateFilePauseForVoice (doP (se_addSystem ''Peer ended voice.'' SvInfo))))"

definition reliableReceive :: "AppMessage \<Rightarrow> CoreAppMessage option sess" where
  "reliableReceive message = Act (\<lambda>s.
     let (r, evs) = rel_receive (w_now (se_world s) (se_tick s)) message (se_reliable s);
         (s', es) = actions (map onReliable evs) ((ticked s)\<lparr>se_reliable := r\<rparr>)
     in (s', es,
         case message of
           ReliableMsg i _ body _ _ \<Rightarrow>
             bindP (awaitP (sendRawApp (ReliableAck i) Control)) (\<lambda>_. Act (\<lambda>s.
               let (r, _, new) = rel_receiveDone (w_now (se_world s) (se_tick s)) i body (se_reliable s)
               in ((ticked s)\<lparr>se_reliable := r\<rparr>, [], Ret new)))
         | _ \<Rightarrow> Ret None))"

definition handleAppMessage :: "AppMessage \<Rightarrow> unit sess" where
  "handleAppMessage message =
     (case message of
        Core body \<Rightarrow> handleCore body
      | _ \<Rightarrow> bindP (awaitP (reliableReceive message)) (\<lambda>unwrapped.
          case unwrapped of None \<Rightarrow> skipP | Some body \<Rightarrow> awaitP (handleCore body)))"

definition countInvalid :: sess_action where
  "countInvalid = patch (\<lambda>v.
     let n = vw_invalidPackets v + 1; v1 = v\<lparr>vw_invalidPackets := n\<rparr>
     in if n = 3 \<or> n mod 20 = 0 then notify ''Network unstable. Some packets were dropped.'' v1 else v1)"

definition onEnvelope :: "Envelope \<Rightarrow> nat \<Rightarrow> unit sess" where
  "onEnvelope env epoch = lookP (\<lambda>s0.
     if epoch \<noteq> se_secureEpoch s0 then skipP
     else
       catchP
         (if outerType env = HANDSHAKE then
            (if streamId env \<noteq> 0 then Exc (Error ''Invalid handshake stream'') else awaitP (handleHandshake (payload env)))
          else
            (case se_secure s0 of
               None \<Rightarrow> skipP
             | Some c \<Rightarrow>
                 bindP (awaitP (runCrypto (decryptAppMessage c env))) (\<lambda>message. Act (\<lambda>s.
                   if epoch \<noteq> se_secureEpoch s \<or> se_secure s \<noteq> Some c then (s, [], skipP)
                   else
                     (case validateInboundStream message (streamId env) of
                        Inl e \<Rightarrow> (s, [], Exc e)
                      | Inr _ \<Rightarrow> (s, [Handles c epoch message], awaitP (handleAppMessage message)))))))
         (\<lambda>err. doP (actions [countInvalid, call (Warns err)])))"

section \<open>Fresh epochs\<close>

definition freshView :: "string \<Rightarrow> SessionViewState \<Rightarrow> SessionViewState" where
  "freshView notice v =
     v\<lparr>vw_phase := PhWaiting, vw_security := SecNone, vw_safetyPhrase := None, vw_voice := VsIdle, vw_muted := False,
       vw_audioPlaybackBlocked := False, vw_transfers := [],
       vw_transcript := filter (\<lambda>item. ti_kind item \<noteq> KFile) (vw_transcript v), vw_notice := Some notice\<rparr>"

definition dropEpoch :: "string \<Rightarrow> sess_action" where
  "dropEpoch notice =
     actions [modify (\<lambda>s. s\<lparr>se_secureEpoch := se_secureEpoch s + 1, se_establishing := False, se_initialHandshakeSent := False,
         se_replyHandshakeSent := False, se_viewStale := True\<rparr>),
       transport clearQueuedPackets, modify (\<lambda>s. s\<lparr>se_remoteVoiceActive := False\<rparr>), clearVoiceQueues, call VoiceHalt,
       call SenderReset, call ReceiverReset, modify (\<lambda>s. s\<lparr>se_transferOrder := []\<rparr>),
       reliably (failAll ''Session changed. Unsent messages were not delivered.''),
       modify (\<lambda>s. forgetSecrets (s\<lparr>se_reliable := rel_reset (se_reliable s)\<rparr>)),
       patch (freshView notice), renewed]"

definition keepKey :: "bytes \<Rightarrow> Session \<Rightarrow> Session" where
  "keepKey key s = (newPromise s)\<lparr>se_localPublicKey := Some (se_nextObject s, key)\<rparr>"

definition freshKeys :: "nat \<Rightarrow> unit sess" where
  "freshKeys lifecycle =
     seqP (catchP (askUnit QReset) (\<lambda>_. skipP))
       (lookP (\<lambda>s. if lifecycle \<noteq> se_lifecycleEpoch s then skipP
         else seqP (askUnit (QConfigure (se_profile s)))
           (bindP (askBytes QGenerateIdentity) (\<lambda>key. lookP (\<lambda>s.
              if lifecycle \<noteq> se_lifecycleEpoch s then skipP
              else seqP (quietly (keepKey key))
                (whenP (cn_status (se_transport s) = Connected) (awaitP sendInitialHandshake)))))))"

definition prepareFreshCryptoEpoch :: "string \<Rightarrow> unit sess" where
  "prepareFreshCryptoEpoch notice = lookP (\<lambda>s0.
     case se_epochPreparation s0 of
       Some work \<Rightarrow> askUnit (QSettled work)
     | None \<Rightarrow>
         seqP (doP (actions [dropEpoch notice, modify (\<lambda>s. (newPromise s)\<lparr>se_epochPreparation := Some (se_nextObject s0)\<rparr>)]))
           (finallyP (awaitP (finallyP (freshKeys (se_lifecycleEpoch s0)) (quietly (settlePromise (se_nextObject s0)))))
             (quietly (\<lambda>s. if se_epochPreparation s = Some (se_nextObject s0) then s\<lparr>se_epochPreparation := None\<rparr> else s))))"

definition onConnectionStatus :: "ConnectionStatus \<Rightarrow> unit sess" where
  "onConnectionStatus st =
     seqP (doP (patch (\<lambda>v. v\<lparr>vw_connection := st\<rparr>)))
       (case st of
          Reconnecting \<Rightarrow> awaitP (prepareFreshCryptoEpoch ''Connection interrupted. Reconnecting securely...'')
        | Connected \<Rightarrow>
            seqP (lookP (\<lambda>s. whenP (se_localPublicKey s = None)
                (awaitP (prepareFreshCryptoEpoch ''Establishing a fresh secure session...''))))
              (seqP (lookP (\<lambda>s. whenP (se_localPublicKey s \<noteq> None \<and> se_secure s = None \<and> \<not> se_initialHandshakeSent s)
                  (awaitP sendInitialHandshake)))
                updateFilePauseForVoice)
        | ConnFailed \<Rightarrow>
            doP (actions [patch (\<lambda>v. notify ''Connection lost.'' (v\<lparr>vw_phase := PhFailed\<rparr>)), se_addSystem ''Connection lost.'' SvError])
        | _ \<Rightarrow> skipP)"

fun onRelayEvent :: "RelayEvent \<Rightarrow> unit sess" where
  "onRelayEvent PeerPresent =
     seqP (lookP (\<lambda>s. whenP (se_secure s \<noteq> None \<or> se_peerPublicKey s \<noteq> None \<or> se_localPublicKey s = None)
         (awaitP (prepareFreshCryptoEpoch ''Establishing a fresh secure session...''))))
       (awaitP sendInitialHandshake)"
| "onRelayEvent PeerDisconnected =
     seqP (awaitP (prepareFreshCryptoEpoch ''Peer disconnected. Waiting for rejoin...''))
       (doP (actions [patch (\<lambda>v. notify ''Peer disconnected. Waiting for rejoin...'' (v\<lparr>vw_phase := PhWaiting\<rparr>)),
          se_addSystem ''Peer disconnected. Waiting for rejoin.'' SvInfo]))"
| "onRelayEvent PeerRejoined =
     seqP (awaitP (prepareFreshCryptoEpoch ''Peer rejoined. Establishing a new secure session...''))
       (seqP (doP (se_addSystem ''Peer rejoined. New secure session started.'' SvInfo)) (awaitP sendInitialHandshake))"
| "onRelayEvent SessionEnded = doP (se_disconnect False True ''Chat ended for both.'')"

section \<open>The chain of inbound tasks\<close>

definition processOneInboundVoice :: "unit sess" where
  "processOneInboundVoice =
     finallyP
       (Act (\<lambda>s.
          let (q, v, n) = shiftFresh (w_performanceNow (se_world s) (se_tick s)) (se_inboundVoice s);
              (s', es) = dropped BeforeDecrypt n ((ticked s)\<lparr>se_inboundVoice := q\<rparr>)
          in (s', es, case v of None \<Rightarrow> skipP | Some env \<Rightarrow> awaitP (onEnvelope env (se_secureEpoch s)))))
       (quietly (\<lambda>s.
          let s1 = s\<lparr>se_inboundVoiceScheduled := False\<rparr> in if vq_size (se_inboundVoice s1) > 0 then scheduleInboundVoice s1 else s1))"

fun runTask :: "InboundTask \<Rightarrow> unit sess" where
  "runTask (TStatus st lifecycle) = lookP (\<lambda>s. whenP (lifecycle = se_lifecycleEpoch s) (onConnectionStatus st))"
| "runTask (TRelay e lifecycle) = lookP (\<lambda>s. whenP (lifecycle = se_lifecycleEpoch s) (onRelayEvent e))"
| "runTask (TEnvelope env epoch) = onEnvelope env epoch"
| "runTask TVoice = processOneInboundVoice"

text \<open>The first task of the chain starts, if none is running.\<close>

definition nextInbound :: "unit sess" where
  "nextInbound = lookP (\<lambda>s.
     case se_inbound s of
       [] \<Rightarrow> skipP
     | t # ts \<Rightarrow>
         if se_inboundBusy s then skipP
         else seqP (quietly (\<lambda>s. s\<lparr>se_inbound := ts, se_inboundBusy := True\<rparr>))
                (seqP (catchP (awaitP (runTask t)) (\<lambda>err. doP (call (Warns err))))
                  (quietly (\<lambda>s. s\<lparr>se_inboundBusy := False\<rparr>))))"

section \<open>Outbound voice\<close>

definition speaking :: "Session \<Rightarrow> bool" where
  "speaking s = (vw_voice (se_view s) \<noteq> VsIdle \<and> \<not> vw_muted (se_view s))"

definition voiceMessage :: "VoiceFrame \<Rightarrow> AppMessage" where
  "voiceMessage f = Core (VoiceFrame (vf_streamId f) (vf_seq f) (vf_sentAt f) (vf_sampleRate f) (vf_frameMs f) (vf_pcm16 f))"

text \<open>
  The end of \<^verbatim>\<open>pumpOutboundVoice\<close>. The start of another pump is left to the next step (\<open>se_pump\<close> is set and no pump is
  running); it never comes to that (\<open>pump_never_restarts\<close>).
\<close>

definition pumpEnds :: "nat \<Rightarrow> Session \<Rightarrow> Session" where
  "pumpEnds epoch s =
     (let s1 = s\<lparr>se_outboundVoicePumping := False\<rparr> in
      if epoch = se_voiceQueueEpoch s1 \<and> vq_size (se_outboundVoice s1) > 0 \<and> speaking s1 then s1\<lparr>se_pump := Some epoch\<rparr> else s1)"

text \<open>One turn of the loop of \<^verbatim>\<open>pumpOutboundVoice\<close>; after the await, the next turn is left to the next step.\<close>

definition pumpAction :: "nat \<Rightarrow> Session \<Rightarrow> Session \<times> SessEffect list \<times> unit sess" where
  "pumpAction epoch s =
    (if epoch = se_voiceQueueEpoch s \<and> se_secure s \<noteq> None \<and> speaking s then
       (let (q, v, n) = shiftFresh (w_performanceNow (se_world s) (se_tick s)) (se_outboundVoice s);
            (s1, es1) = dropped BeforeEncrypt n ((ticked s)\<lparr>se_outboundVoice := q\<rparr>)
        in case v of
             None \<Rightarrow> (pumpEnds epoch s1, es1, skipP)
           | Some frame \<Rightarrow>
               if \<not> canSendVoiceNow (se_transport s1) then
                 let (q', k) = vq_clear (se_outboundVoice s1); (s2, es2) = dropped BeforeEncrypt (1 + k) (s1\<lparr>se_outboundVoice := q'\<rparr>)
                 in (pumpEnds epoch s2, es1 @ es2, skipP)
               else (s1, es1, bindP (awaitP (sendRawApp (voiceMessage frame) Voice)) (\<lambda>_. quietly (\<lambda>s. s\<lparr>se_pump := Some epoch\<rparr>))))
     else (pumpEnds epoch s, [], skipP))"

definition pumpTurn :: "nat \<Rightarrow> unit sess" where
  "pumpTurn epoch = Act (\<lambda>s. pumpAction epoch (s\<lparr>se_pump := None\<rparr>))"

definition pumpOutboundVoice :: "unit sess" where
  "pumpOutboundVoice = lookP (\<lambda>s.
     if se_outboundVoicePumping s then skipP
     else seqP (quietly (\<lambda>s. s\<lparr>se_outboundVoicePumping := True\<rparr>)) (pumpTurn (se_voiceQueueEpoch s)))"

definition nextPump :: "unit sess" where
  "nextPump = lookP (\<lambda>s.
     case se_pump s of
       None \<Rightarrow> skipP
     | Some epoch \<Rightarrow> if se_outboundVoicePumping s then pumpTurn epoch else pumpOutboundVoice)"

definition queueOutboundVoice :: "VoiceFrame \<Rightarrow> unit sess" where
  "queueOutboundVoice frame = Act (\<lambda>s.
     if se_secure s = None \<or> \<not> speaking s then (s, [], skipP)
     else
       let (q, n) = vq_push (w_performanceNow (se_world s) (se_tick s)) frame (se_outboundVoice s);
           (s', es) = actions [modify (\<lambda>s. (ticked s)\<lparr>se_outboundVoice := q\<rparr>), dropped BeforeEncrypt n,
             meter (recordVoiceQueueSize (vq_size q))] s
       in (s', es, pumpOutboundVoice))"

end
