(* ===== verification/SessionSystem.thy ===== *)
theory SessionSystem
  imports SessionTasks
begin

text \<open>
  The calls of the user interface on \<^verbatim>\<open>session/SessionController.ts\<close>, and the session as a system: everything that may start at any
  time, and the responses to what waits.
\<close>

section \<open>Rooms\<close>

definition startingView :: "string \<Rightarrow> Phase \<Rightarrow> TransportProfileId \<Rightarrow> SessionViewState \<Rightarrow> SessionViewState" where
  "startingView code phase i v =
     v\<lparr>vw_phase := phase, vw_roomCode := code, vw_profileId := i, vw_connection := Connecting, vw_security := SecNone,
       vw_safetyPhrase := None,
       vw_notice := Some (if phase = PhCreating then ''Room created. Share the code.'' else ''Joining room...''),
       vw_transcript := [], vw_transfers := [], vw_invalidPackets := 0, vw_voice := VsIdle, vw_muted := False,
       vw_audioPlaybackBlocked := False\<rparr>"

definition restart :: "string \<Rightarrow> Phase \<Rightarrow> TransportProfileId \<Rightarrow> sess_action" where
  "restart code phase i =
     actions [se_disconnect True False '''', useProfile i,
       modify (\<lambda>s. s\<lparr>se_transferOrder := [], se_remoteVoiceActive := False, se_reliable := rel_reset (se_reliable s),
         se_initialHandshakeSent := False, se_replyHandshakeSent := False, se_establishing := False\<rparr>),
       patch (startingView code phase i), renewed]"

definition dial :: "string \<Rightarrow> sess_action" where
  "dial code s =
     transport (cn_connect code (w_slotToken (se_world s) (se_tick s)) (w_dialFailure (se_world s) (se_tick s))) (ticked s)"

definition se_start :: "string \<Rightarrow> Phase \<Rightarrow> TransportProfileId \<Rightarrow> unit sess" where
  "se_start code phase i =
     seqP (doP (restart code phase i)) (lookP (\<lambda>s0.
       seqP (askUnit (QConfigure (se_profile s0))) (bindP (askBytes QGenerateIdentity) (\<lambda>key. lookP (\<lambda>s.
         if se_lifecycleEpoch s0 \<noteq> se_lifecycleEpoch s then skipP
         else seqP (quietly (keepKey key)) (seqP (doP (dial code)) (seqP (askUnit QConnect) (lookP (\<lambda>s.
           if se_lifecycleEpoch s0 \<noteq> se_lifecycleEpoch s then skipP
           else seqP (doP (patch (\<lambda>v. notify ''Waiting for the other person.'' (v\<lparr>vw_phase := PhWaiting\<rparr>))))
                  (awaitP sendInitialHandshake))))))))))"

definition messageOf :: "js_error \<Rightarrow> string" where
  "messageOf err = (case err of Error msg \<Rightarrow> msg)"

text \<open>\<^verbatim>\<open>createRoom\<close> and \<^verbatim>\<open>joinRoom\<close> differ in what they show and in the request.\<close>

definition enterRoom :: "Phase \<Rightarrow> string \<Rightarrow> RoomInfo sess \<Rightarrow> unit sess" where
  "enterRoom phase notice room =
     seqP (quietly (\<lambda>s. s\<lparr>se_startupInFlight := True\<rparr>))
       (finallyP
         (catchP
           (seqP (doP (patch (\<lambda>v. notify notice (v\<lparr>vw_phase := phase\<rparr>))))
             (bindP (awaitP room) (\<lambda>r. awaitP (se_start (room_code r) phase (room_profileId r)))))
           (\<lambda>err. seqP (doP (actions [se_disconnect True False '''',
                patch (\<lambda>v. notify (messageOf err) (v\<lparr>vw_phase := PhIdle, vw_roomCode := ''''\<rparr>))]))
              (Exc err)))
         (quietly (\<lambda>s. s\<lparr>se_startupInFlight := False\<rparr>)))"

definition createRoom :: "unit sess" where
  "createRoom = lookP (\<lambda>s.
     if se_startupInFlight s then skipP
     else enterRoom PhCreating ''Creating room...''
       (lookP (\<lambda>s. bindP (askHttp (QCreateRoom (vw_profileId (se_view s)))) (\<lambda>h. liftP (requestRoom h)))))"

definition joinRoom :: "string \<Rightarrow> unit sess" where
  "joinRoom rawCode = lookP (\<lambda>s.
     if se_startupInFlight s then skipP
     else
       let code = normalizeRoomCode rawCode in
       if length code \<noteq> 9 then Exc (Error ''Enter the full room code'')
       else enterRoom PhJoining ''Looking up room...'' (bindP (askHttp (QLookupRoom code)) (\<lambda>h. liftP (lookupRoom code h))))"

section \<open>Text and files\<close>

definition notReady :: "SessionViewState \<Rightarrow> SessionViewState" where
  "notReady v = notify ''Encryption is not ready. Leave and rejoin this room.'' (v\<lparr>vw_security := SecNone\<rparr>)"

text \<open>The message's id and time.\<close>

definition createTextMessage :: "World \<Rightarrow> nat \<Rightarrow> string \<Rightarrow> (string \<times> int) res" where
  "createTextMessage w n body =
     (if body = '''' \<or> length body > MAX_TEXT_MESSAGE_CHARS then
        throw (''Messages must be between 1 and '' @ js_show_nat MAX_TEXT_MESSAGE_CHARS @ '' characters'')
      else Inr (makeId ''msg'' (w_uuid w n), w_now w n))"

definition sendText :: "string \<Rightarrow> unit sess" where
  "sendText body =
     (let txt = trim body in
      if txt = '''' then skipP
      else lookP (\<lambda>s.
        if se_secure s = None then doP (patch notReady)
        else
          bindP (liftP (createTextMessage (se_world s) (se_tick s) txt)) (\<lambda>(i, createdAt).
            seqP (doP (actions [modify ticked, patch (addTranscript (textItem FromMe i txt createdAt ItSending))]))
              (bindP (awaitP (sendApp (Core (TextMessage i txt createdAt)) Text (Some i))) (\<lambda>ok.
                 whenP (\<not> ok) (doP (patch (updateTranscriptStatus i ItFailed))))))))"

definition offerFile :: "File \<Rightarrow> unit sess" where
  "offerFile file = lookP (\<lambda>s.
     if se_secure s = None then doP (patch (notify ''Encryption is not ready.''))
     else
       let voiceActive = isVoiceActive (se_view s); queued = (voiceActive \<or> hasActiveFile (se_view s)) in
       bindP (askString (QSenderOffer file queued)) (\<lambda>fileId.
         doP (actions [se_ensureTransferOrder fileId,
           onlyIf (\<lambda>_. queued) (se_addSystem (if voiceActive then ''File queued until voice ends.'' else ''File queued.'') SvInfo)])))"

definition cancelFile :: "string \<Rightarrow> unit sess" where
  "cancelFile fileId = lookP (\<lambda>s.
     case find (\<lambda>t. tv_fileId t = fileId) (vw_transfers (se_view s)) of
       None \<Rightarrow> skipP
     | Some t \<Rightarrow>
         seqP (askUnit (if tv_direction t = DirSend then QSenderCancel fileId ''cancelled'' True else QReceiverCancel fileId ''cancelled''))
           (doP startNextQueuedFileIfAllowed))"

section \<open>Voice\<close>

definition startVoice :: "unit sess" where
  "startVoice = lookP (\<lambda>s.
     if se_secure s = None then doP (patch (notify ''Encryption is not ready.''))
     else if vw_voice (se_view s) \<noteq> VsIdle then skipP
     else
       seqP (doP (actions [clearVoiceQueues,
           patch (\<lambda>v. notify ''Starting voice...'' (v\<lparr>vw_voice := VsStarting, vw_audioPlaybackBlocked := False\<rparr>))]))
         (seqP updateFilePauseForVoice
           (catchP
             (bindP (askNumber QVoiceStart) (\<lambda>rate.
                seqP (doP (actions [patch (\<lambda>v. notify ''Voice active. Files are paused.''
                        (v\<lparr>vw_voice := VsActive, vw_muted := False, vw_audioPlaybackBlocked := False\<rparr>)),
                      se_addSystem ''Voice started.'' SvInfo]))
                  (lookP (\<lambda>s. bindP (awaitP (sendApp (Core (VoiceStart ''voice'' rate (int (frameMs (voice (se_profile s))))
                      (Some (voiceMode (voice (se_profile s)))))) Control None)) (\<lambda>_. skipP)))))
             (\<lambda>err.
                seqP (doP (actions [clearVoiceQueues, call VoiceHalt,
                    patch (\<lambda>v. notify (messageOf err) (v\<lparr>vw_voice := VsFailed\<rparr>))]))
                  (seqP updateFilePauseForVoice (doP (se_addSystem (''Voice unavailable: '' @ messageOf err) SvError)))))))"

definition voiceFailedFires :: sess_action where
  "voiceFailedFires = onlyIf (\<lambda>s. vw_voice (se_view s) = VsFailed) (patch (\<lambda>v. v\<lparr>vw_voice := VsIdle\<rparr>))"

definition stopVoice :: "unit sess" where
  "stopVoice = lookP (\<lambda>s.
     if vw_voice (se_view s) = VsIdle then skipP
     else
       seqP (doP (actions [clearVoiceQueues, call VoiceHalt]))
         (bindP (awaitP (sendApp (Core (VoiceStop ''voice'')) Control None)) (\<lambda>_.
            seqP (doP (patch (\<lambda>v. notify ''Voice ended.''
                (v\<lparr>vw_voice := VsIdle, vw_muted := False, vw_audioPlaybackBlocked := False\<rparr>))))
              (seqP updateFilePauseForVoice (doP (se_addSystem ''Voice ended.'' SvInfo))))))"

definition enableAudioPlayback :: "unit sess" where
  "enableAudioPlayback =
     bindP (askBool QVoiceEnablePlayback) (\<lambda>enabled.
       doP (patch (\<lambda>v. notify (if enabled then ''Audio playback enabled.'' else ''Audio playback is still blocked by this browser.'')
         (v\<lparr>vw_audioPlaybackBlocked := \<not> enabled\<rparr>))))"

section \<open>Verification\<close>

definition mismatch :: string where
  "mismatch = ''Verification mismatch. End this chat.''"

definition markVerified :: "bool \<Rightarrow> unit sess" where
  "markVerified matches = Act (\<lambda>s.
     if se_secure s = None then let (s', es) = patch notReady s in (s', es, skipP)
     else if \<not> matches then
       let (s', es) = actions [patch (\<lambda>v. notify mismatch (v\<lparr>vw_security := VerificationFailed\<rparr>)), se_addSystem mismatch SvError] s
       in (s', es, skipP)
     else
       let (s', es) = actions [modify (\<lambda>s. s\<lparr>se_confirmed := Some (se_secureEpoch s)\<rparr>),
             patch (\<lambda>v. notify ''Verified on this device.'' (v\<lparr>vw_security := Verified\<rparr>)),
             se_addSystem ''Secure session verified.'' SvInfo, modify ticked] s
       in (s', es, bindP (awaitP (sendApp (Core (SessionVerified (w_now (se_world s) (se_tick s)))) Control None)) (\<lambda>_. skipP)))"

section \<open>The system\<close>

datatype SessOp =
    OSetProfile TransportProfileId
  | OCreateRoom
  | OJoinRoom string
  | OSendText string
  | OOfferFile File
  | OAcceptFile string
  | ORejectFile string
  | OCancelFile string
  | ORemoveFile string
  | OStartVoice
  | OStopVoice
  | OToggleMute
  | OEnableAudioPlayback
  | OMarkVerified bool
  | OEndChatForBoth
  | ODisconnect
  | OUnload
  | OSocket ConnOp \<comment> \<open>an event of the socket or a timer of the transport\<close>
  | OEndSessionTimer
  | OVoiceFailedTimer
  | OReliableTimer string
  | OInbound
  | OPump
  | OMicrophone VoiceFrame
  | OPlaybackDrop VoiceDropMetric
  | OFileSends CoreAppMessage LaneName \<comment> \<open>the sender or the receiver sends a message\<close>
  | OSenderUpdate SenderSnapshot
  | OReceiverUpdate ReceiverSnapshot

text \<open>The operations of the transport the outside has; the others are called by the controller only.\<close>

fun socketEvent :: "ConnOp \<Rightarrow> conn_action" where
  "socketEvent (COpened k) = onOpen k"
| "socketEvent (CErrored k rnd) = onError k rnd"
| "socketEvent (CClosed k code reason rnd) = onClose k code reason rnd"
| "socketEvent (CMessage k data) = onMessage k data"
| "socketEvent (CReconnect tid failure rnd) = reconnectFires tid failure rnd"
| "socketEvent CYielded = drainResumes"
| "socketEvent CDrainTimer = drainFires"
| "socketEvent (CFlushed k n) = setting (flushed k n)"
| "socketEvent (CClosing k) = setting (closing k)"
| "socketEvent _ = doNothing"

fun start_op :: "SessOp \<Rightarrow> unit sess" where
  "start_op (OSetProfile i) = doP (se_setProfile i)"
| "start_op OCreateRoom = createRoom"
| "start_op (OJoinRoom code) = joinRoom code"
| "start_op (OSendText body) = sendText body"
| "start_op (OOfferFile file) = offerFile file"
| "start_op (OAcceptFile fileId) = askUnit (QReceiverAccept fileId)"
| "start_op (ORejectFile fileId) = askUnit (QReceiverReject fileId)"
| "start_op (OCancelFile fileId) = cancelFile fileId"
| "start_op (ORemoveFile fileId) = doP (removeFile fileId)"
| "start_op OStartVoice = startVoice"
| "start_op OStopVoice = stopVoice"
| "start_op OToggleMute = doP toggleMute"
| "start_op OEnableAudioPlayback = enableAudioPlayback"
| "start_op (OMarkVerified b) = markVerified b"
| "start_op OEndChatForBoth = doP endChatForBoth"
| "start_op ODisconnect = doP leaveRoom"
| "start_op OUnload = doP (se_disconnect True False '''')"
| "start_op (OSocket e) = doP (transport (socketEvent e))"
| "start_op OEndSessionTimer = doP endSessionFires"
| "start_op OVoiceFailedTimer = doP voiceFailedFires"
| "start_op (OReliableTimer i) = reliableTimer i"
| "start_op OInbound = nextInbound"
| "start_op OPump = nextPump"
| "start_op (OMicrophone frame) = queueOutboundVoice frame"
| "start_op (OPlaybackDrop reason) = doP (dropped reason 1)"
| "start_op (OFileSends m lane) = bindP (sendApp (Core m) lane None) (\<lambda>_. skipP)"
| "start_op (OSenderUpdate snap) = doP (updateSender snap)"
| "start_op (OReceiverUpdate snap) = doP (updateReceiver snap)"

datatype SessStep = Starts SessOp | Responds nat SessResp

type_synonym sess_system = "(Session, SessEffect, SessReq, SessResp) system"

text \<open>What waits for a promise goes on only when the promise has been settled.\<close>

fun answerable :: "SessReq \<Rightarrow> Session \<Rightarrow> bool" where
  "answerable (QSettled n) s = (n = 0 \<or> n \<in> set (se_settled s))"
| "answerable _ s = True"

fun sess_step :: "SessStep \<Rightarrow> sess_system \<Rightarrow> sess_system" where
  "sess_step (Starts op) sy = launch (start_op op) sy"
| "sess_step (Responds i r) sy =
     (case map_get (sy_waiting sy) i of
        None \<Rightarrow> sy
      | Some (q, k) \<Rightarrow> if answerable q (sy_state sy) then resumeWith i r sy else sy)"

definition newSession :: "World \<Rightarrow> (string, string) jsmap option \<Rightarrow> Session" where
  "newSession w storage =
     \<lparr>se_world = w, se_tick = 0, se_profile = getProfile Balanced, se_secure = None,
      se_channels = (\<lambda>_. \<lparr>sc_sequence = 0, sc_profile = getProfile Balanced\<rparr>), se_nextObject = 1,
      se_transport = newConnection (getProfile Balanced) storage, se_outboundVoice = createVoiceQueue (getProfile Balanced),
      se_inboundVoice = createVoiceQueue (getProfile Balanced), se_outboundVoicePumping = False, se_inboundVoiceScheduled = False,
      se_voiceQueueEpoch = 0, se_inbound = [], se_inboundBusy = False, se_epochPreparation = None, se_lifecycleEpoch = 0,
      se_secureEpoch = 0, se_startupInFlight = False, se_endSessionTimer = False, se_remoteVoiceActive = False,
      se_localPublicKey = None, se_peerPublicKey = None, se_initialHandshakeSent = False, se_replyHandshakeSent = False,
      se_establishing = False, se_cryptoSerial = 0, se_settled = [], se_transferOrder = [], se_reliable = newReliable DEFAULT_POLICY,
      se_view = initialView, se_pump = None, se_confirmed = None, se_viewStale = False\<rparr>"

definition sess_run :: "SessStep list \<Rightarrow> Session \<Rightarrow> sess_system" where
  "sess_run steps s = fold sess_step steps (newSystem s)"

end
