(* ===== verification/SessionLogic.thy ===== *)
theory SessionLogic
  imports SessionSystem
begin

text \<open>
  The invariant of a session and what every action guarantees, for the actions of \<^verbatim>\<open>session/SessionController.ts\<close>. The rules of
  \<open>program_logic\<close> carry both to the programs and to the system (next theory).
\<close>

section \<open>Invariant and guarantee\<close>

text \<open>What may be shown: at most 500 items, at most 30 finished transfers, each file once.\<close>

definition shown_ok :: "SessionViewState \<Rightarrow> bool" where
  "shown_ok v =
     (length (vw_transcript v) \<le> MAX_TRANSCRIPT_ITEMS \<and> length (filter isFinished (vw_transfers v)) \<le> MAX_RETAINED_TRANSFERS \<and>
      distinct (fileIds (vw_transfers v)))"

definition verified_ok :: "Session \<Rightarrow> bool" where
  "verified_ok s =
     (vw_security (se_view s) = Verified \<longrightarrow> se_viewStale s \<or> se_confirmed s = Some (se_secureEpoch s) \<and> se_secure s \<noteq> None)"

text \<open>Voice frames wait only while there is a channel to send them on.\<close>

definition pump_ok :: "Session \<Rightarrow> bool" where
  "pump_ok s = (vq_items (se_outboundVoice s) \<noteq> [] \<longrightarrow> se_secure s \<noteq> None)"

definition sess_inv :: "Session \<Rightarrow> bool" where
  "sess_inv s =
     (shown_ok (se_view s) \<and> distinct (se_transferOrder s) \<and> verified_ok s \<and> pump_ok s \<and>
      (\<forall>c. se_secure s = Some c \<longrightarrow> c < se_nextObject s))"

text \<open>Epochs do not go back, and a channel that becomes the current one is new.\<close>

definition advances :: "Session \<Rightarrow> Session \<Rightarrow> bool" where
  "advances s s' =
     (se_lifecycleEpoch s \<le> se_lifecycleEpoch s' \<and> se_secureEpoch s \<le> se_secureEpoch s' \<and> se_nextObject s \<le> se_nextObject s' \<and>
      (se_secure s' = se_secure s \<or> se_secure s' = None \<or> (\<exists>c \<ge> se_nextObject s. se_secure s' = Some c)))"

definition startable :: "string \<Rightarrow> Session \<Rightarrow> bool" where
  "startable fileId s =
     (\<not> isVoiceActive (se_view s) \<and> \<not> se_remoteVoiceActive s \<and> vw_connection (se_view s) = Connected \<and>
      (\<exists>t \<in> set (vw_transfers (se_view s)). tv_fileId t = fileId \<and> tv_direction t = DirSend \<and> tv_state t = TsQueued) \<and>
      \<not> hasActiveSendingFileExceptQueued fileId (se_view s))"

fun effect_ok :: "Session \<Rightarrow> Session \<Rightarrow> SessEffect \<Rightarrow> bool" where
  "effect_ok s s' (Shows v) = shown_ok v"
| "effect_ok s s' (Transmits c epoch env) = (se_secure s = Some c \<and> se_secureEpoch s = epoch)"
| "effect_ok s s' (Handles c epoch m) = (se_secure s = Some c \<and> se_secureEpoch s = epoch)"
| "effect_ok s s' (Calls (SenderStartQueued f)) = startable f s'"
| "effect_ok s s' _ = True"

definition guarantee :: "Session \<Rightarrow> Session \<Rightarrow> SessEffect list \<Rightarrow> bool" where
  "guarantee s s' es = (advances s s' \<and> (\<forall>e \<in> set es. effect_ok s s' e))"

text \<open>Effects that are fine in every state.\<close>

fun quiet :: "SessEffect \<Rightarrow> bool" where
  "quiet (Shows v) = shown_ok v"
| "quiet (Transmits _ _ _) = False"
| "quiet (Handles _ _ _) = False"
| "quiet (Calls (SenderStartQueued _)) = False"
| "quiet _ = True"

lemma quiet_ok: "quiet e \<Longrightarrow> effect_ok s s' e"
  by (cases e rule: quiet.cases) auto

lemma advances_refl [simp]: "advances s s"
  by (simp add: advances_def)

lemma advances_trans: "advances s t \<Longrightarrow> advances t u \<Longrightarrow> advances s u"
  unfolding advances_def by (elim conjE disjE exE) (auto intro: le_trans)

section \<open>Plain actions\<close>

definition plain :: "sess_action \<Rightarrow> bool" where
  "plain a = (\<forall>s. sess_inv s \<longrightarrow> sess_inv (fst (a s)) \<and> advances s (fst (a s)) \<and> (\<forall>e \<in> set (snd (a s)). quiet e))"

lemma plainI: "(\<And>s. sess_inv s \<Longrightarrow> sess_inv (fst (a s)) \<and> advances s (fst (a s)) \<and> (\<forall>e \<in> set (snd (a s)). quiet e)) \<Longrightarrow> plain a"
  by (simp add: plain_def)

lemma plainD:
  assumes "plain a" "sess_inv s" "a s = (s', es)"
  shows "sess_inv s'" "advances s s'" "\<forall>e \<in> set es. quiet e"
  using assms unfolding plain_def by (metis fst_conv snd_conv)+

lemma plain_guarantee:
  assumes "plain a" "sess_inv s"
  shows "sess_inv (fst (a s)) \<and> guarantee s (fst (a s)) (snd (a s))"
  using assms by (auto simp: plain_def guarantee_def intro: quiet_ok)

lemma plain_Nil [intro]: "plain (actions [])"
  by (simp add: plain_def)

lemma plain_Cons [intro]:
  assumes "plain a" "plain (actions as)"
  shows "plain (actions (a # as))"
proof (rule plainI)
  fix s assume inv: "sess_inv s"
  obtain s1 es1 where a: "a s = (s1, es1)" by (cases "a s")
  obtain s2 es2 where as: "actions as s1 = (s2, es2)" by (cases "actions as s1")
  note one = plainD [OF assms(1) inv a]
  note two = plainD [OF assms(2) one(1) as]
  show "sess_inv (fst (actions (a # as) s)) \<and> advances s (fst (actions (a # as) s)) \<and> (\<forall>e \<in> set (snd (actions (a # as) s)). quiet e)"
    using one two by (auto simp: a as intro: advances_trans)
qed

lemma plain_map: "(\<And>x. x \<in> set xs \<Longrightarrow> plain (f x)) \<Longrightarrow> plain (actions (map f xs))"
  by (induction xs) auto

lemma plain_onlyIf [intro]: "plain a \<Longrightarrow> plain (onlyIf b a)"
  by (simp add: plain_def onlyIf_def)

lemma plain_call [intro]: "(\<And>f. c \<noteq> SenderStartQueued f) \<Longrightarrow> plain (call c)"
  by (cases c) (auto simp: plain_def call_def)

lemma plain_modify: "(\<And>s. sess_inv s \<Longrightarrow> sess_inv (f s) \<and> advances s (f s)) \<Longrightarrow> plain (modify f)"
  by (simp add: plain_def modify_def)

lemma plain_with_state: "(\<And>s. plain (h s)) \<Longrightarrow> plain (with_state h)"
  by (simp add: plain_def with_state_def)

section \<open>Actions that leave the session alone\<close>

text \<open>What the invariant speaks about.\<close>

definition kernel ::
    "Session \<Rightarrow> SessionViewState \<times> string list \<times> VoiceFrame VoiceQueue \<times> nat option \<times> nat \<times> nat \<times> nat \<times> nat option \<times> bool" where
  "kernel s =
     (se_view s, se_transferOrder s, se_outboundVoice s, se_secure s, se_nextObject s,
      se_lifecycleEpoch s, se_secureEpoch s, se_confirmed s, se_viewStale s)"

lemma kernel_inv: "kernel s' = kernel s \<Longrightarrow> sess_inv s \<Longrightarrow> sess_inv s'"
  by (simp add: kernel_def sess_inv_def verified_ok_def pump_ok_def)

lemma kernel_advances: "kernel s' = kernel s \<Longrightarrow> advances s s'"
  by (simp add: kernel_def advances_def)

definition aside :: "sess_action \<Rightarrow> bool" where
  "aside a = (\<forall>s. kernel (fst (a s)) = kernel s \<and> (\<forall>e \<in> set (snd (a s)). \<exists>w. e = Wire w))"

lemma quiet_wire: "\<exists>w. e = Wire w \<Longrightarrow> quiet e"
  by auto

lemma aside_plain: "aside a \<Longrightarrow> plain a"
  by (rule plainI) (simp add: aside_def kernel_inv kernel_advances quiet_wire)

lemma aside_Nil [intro]: "aside (actions [])"
  by (simp add: aside_def)

lemma aside_Cons [intro]: "aside a \<Longrightarrow> aside (actions as) \<Longrightarrow> aside (actions (a # as))"
  by (auto simp: aside_def split_def Let_def)

lemma aside_map: "(\<And>x. aside (f x)) \<Longrightarrow> aside (actions (map f xs))"
  by (induction xs) auto

lemma aside_modify: "(\<And>s. kernel (f s) = kernel s) \<Longrightarrow> aside (modify f)"
  by (simp add: aside_def modify_def)

lemma kernel_simps [simp]:
  "kernel (s\<lparr>se_transport := t\<rparr>) = kernel s" "kernel (s\<lparr>se_inbound := ts\<rparr>) = kernel s" "kernel (s\<lparr>se_inboundVoice := q\<rparr>) = kernel s"
  "kernel (s\<lparr>se_inboundVoiceScheduled := b\<rparr>) = kernel s" "kernel (s\<lparr>se_tick := n\<rparr>) = kernel s" "kernel (s\<lparr>se_reliable := r\<rparr>) = kernel s"
  "kernel (ticked s) = kernel s" "kernel (enqueueInbound tk s) = kernel s" "kernel (scheduleInboundVoice s) = kernel s"
  "kernel (s\<lparr>se_settled := ps\<rparr>) = kernel s" "kernel (s\<lparr>se_channels := cs\<rparr>) = kernel s" "kernel (settlePromise n s) = kernel s"
  "kernel (s\<lparr>se_initialHandshakeSent := b\<rparr>) = kernel s" "kernel (s\<lparr>se_replyHandshakeSent := b\<rparr>) = kernel s"
  "kernel (s\<lparr>se_establishing := b\<rparr>) = kernel s" "kernel (s\<lparr>se_remoteVoiceActive := b\<rparr>) = kernel s"
  "kernel (s\<lparr>se_endSessionTimer := b\<rparr>) = kernel s" "kernel (s\<lparr>se_startupInFlight := b\<rparr>) = kernel s"
  "kernel (s\<lparr>se_inboundBusy := b\<rparr>) = kernel s" "kernel (s\<lparr>se_epochPreparation := w\<rparr>) = kernel s" "kernel (s\<lparr>se_profile := p\<rparr>) = kernel s"
  "kernel (s\<lparr>se_localPublicKey := k\<rparr>) = kernel s" "kernel (s\<lparr>se_peerPublicKey := k'\<rparr>) = kernel s" "kernel (s\<lparr>se_cryptoSerial := n\<rparr>) = kernel s"
  "kernel (s\<lparr>se_pump := e\<rparr>) = kernel s" "kernel (s\<lparr>se_outboundVoicePumping := b\<rparr>) = kernel s"
  by (simp_all add: kernel_def ticked_def enqueueInbound_def scheduleInboundVoice_def settlePromise_def)

lemma aside_meter: "aside (meter a)"
  by (auto simp: aside_def meter_def split_def Let_def)

lemma aside_dropped: "aside (dropped r n)"
  by (simp add: dropped_def aside_meter)

lemma aside_queueInboundVoice: "aside (queueInboundVoice env epoch)"
proof -
  have "aside (actions [modify (\<lambda>s. (ticked s)\<lparr>se_inboundVoice := q\<rparr>), dropped BeforeDecrypt n,
      meter (recordVoiceQueueSize (vq_size q)), modify scheduleInboundVoice])" for q :: "Envelope VoiceQueue" and n
    by (intro aside_Cons aside_Nil aside_modify aside_dropped aside_meter) simp_all
  moreover have "aside (dropped BeforeDecrypt 1)" by (rule aside_dropped)
  ultimately show ?thesis unfolding aside_def queueInboundVoice_def by (simp add: split_def Let_def del: actions.simps)
qed

lemma aside_report: "aside (report e)"
proof (cases e)
  case (EvEnvelope env)
  have "kernel (fst (report e s)) = kernel s \<and> (\<forall>x \<in> set (snd (report e s)). \<exists>w. x = Wire w)" for s
    using aside_queueInboundVoice [of env "se_secureEpoch s"] EvEnvelope by (simp add: aside_def routeEnvelope_def)
  then show ?thesis by (simp add: aside_def)
qed (simp_all add: aside_def)

lemma aside_transport: "aside (transport a)"
  using aside_map [where f = report, OF aside_report] by (simp add: aside_def transport_def split_def Let_def)

lemma aside_transportSend:
  "kernel (fst (transportSend env s)) = kernel s \<and> (\<forall>e \<in> set (fst (snd (transportSend env s))). \<exists>w. e = Wire w)"
  using aside_map [where f = report, OF aside_report] by (simp add: aside_def transportSend_def split_def Let_def)

lemmas plain_aside [intro] = aside_plain [OF aside_meter] aside_plain [OF aside_dropped] aside_plain [OF aside_transport]

section \<open>The actions of the controller\<close>

text \<open>A change of the view is plain if it leaves the transfers alone, does not lengthen the transcript beyond the bound, and does not say verified.\<close>

definition modest :: "(SessionViewState \<Rightarrow> SessionViewState) \<Rightarrow> bool" where
  "modest f = (\<forall>v. shown_ok v \<longrightarrow> shown_ok (f v) \<and> (vw_security (f v) = Verified \<longrightarrow> vw_security v = Verified))"

lemma plain_patch: "modest f \<Longrightarrow> plain (patch f)"
  by (rule plainI) (auto simp: modest_def patch_def sess_inv_def verified_ok_def pump_ok_def advances_def)

lemma modestI:
  assumes "\<And>v. vw_transfers (f v) = vw_transfers v \<or> vw_transfers (f v) = []"
    and "\<And>v. length (vw_transcript v) \<le> MAX_TRANSCRIPT_ITEMS \<Longrightarrow> length (vw_transcript (f v)) \<le> MAX_TRANSCRIPT_ITEMS"
    and "\<And>v. vw_security (f v) = vw_security v \<or> vw_security (f v) \<noteq> Verified"
  shows "modest f"
proof (unfold modest_def, intro allI impI)
  fix v assume v: "shown_ok v"
  show "shown_ok (f v) \<and> (vw_security (f v) = Verified \<longrightarrow> vw_security v = Verified)"
    using v assms(1) [of v] assms(2) [of v] assms(3) [of v] by (auto simp: shown_ok_def)
qed

lemma modest_transcript: "modest (addTranscript item)" "modest (updateTranscriptStatus i st)" "modest (addSystem i now txt sev)"
  by (rule modestI; simp add: addTranscript_def updateTranscriptStatus_def addSystem_def)+

lemma plain_addSystem [intro]: "plain (se_addSystem txt sev)"
proof (rule plainI)
  fix s assume s: "sess_inv s"
  then have t: "sess_inv (ticked s)" by (rule kernel_inv [rotated]) simp
  have "advances s (ticked s)" by (rule kernel_advances) simp
  then show "sess_inv (fst (se_addSystem txt sev s)) \<and> advances s (fst (se_addSystem txt sev s)) \<and>
      (\<forall>e \<in> set (snd (se_addSystem txt sev s)). quiet e)"
    using s plain_patch [OF modest_transcript(3)] t unfolding plain_def se_addSystem_def by (auto intro: advances_trans)
qed

lemma upsert_view_ok:
  assumes "distinct order" "shown_ok v" and "upsertTransfer i now t (order, v) = ((order', v'), old)"
  shows "view_ok (order', v')"
proof -
  let ?o = "ensureTransferOrder (tv_fileId t) order" and ?ts = "placeTransfer t (ensureTransferOrder (tv_fileId t) order) (vw_transfers v)"
  let ?P = "\<lambda>i. i = tv_fileId t \<or> i \<in> set (fileIds (vw_transfers v))"
  let ?v1 = "v\<lparr>vw_transfers := ?ts\<rparr>"
  let ?v2 = "if \<exists>item \<in> set (vw_transcript ?v1). isFileItem (tv_fileId t) item then ?v1
     else ?v1\<lparr>vw_transcript := trimTranscript (vw_transcript ?v1 @ [fileItem i now t])\<rparr>"
  have f: "fileIds ?ts = filter ?P ?o" using assms(2) by (intro fileIds_placeTransfer) (simp add: shown_ok_def)
  have "filter (\<lambda>i. i \<in> set (filter ?P ?o)) ?o = filter ?P ?o" by (rule filter_cong) auto
  moreover have "distinct ?o" using assms(1) by (simp add: ensureTransferOrder_def)
  ultimately have "inOrder ?o ?ts" unfolding inOrder_def f by simp
  then have "view_ok (fst (trimRetainedTransfers (?o, ?v2)))" using assms(2) by (intro view_ok_trim) (auto simp: shown_ok_def)
  then show ?thesis using assms(3) by (simp add: upsertTransfer_def Let_def)
qed

lemma view_ok_shown: "view_ok (order, v) \<Longrightarrow> shown_ok v \<and> distinct order"
  using inOrder_distinct by (auto simp: view_ok_def shown_ok_def inOrder_def)

lemma upsert_security:
  assumes "upsertTransfer i now t (order, v) = ((order', v'), old)"
  shows "vw_security v' = vw_security v"
  using assms by (auto simp: upsertTransfer_def Let_def trimRetainedTransfers_def fold_remove)

lemma quiet_removeFrom: "e \<in> set (removeFrom i) \<Longrightarrow> quiet e"
  by (auto simp: removeFrom_def)

lemma inv_view:
  assumes "sess_inv s" "shown_ok v" "distinct order" "vw_security v = vw_security (se_view s)"
  shows "sess_inv (s\<lparr>se_transferOrder := order, se_view := v\<rparr>)"
  using assms by (simp add: sess_inv_def verified_ok_def pump_ok_def)

lemma plain_upsert [intro]: "plain (se_upsertTransfer t)"
proof (rule plainI)
  fix s assume s: "sess_inv s"
  obtain order v old where u: "upsertTransfer (makeId ''file'' (w_uuid (se_world s) (se_tick s))) (w_now (se_world s) (se_tick s)) t
      (se_transferOrder s, se_view s) = ((order, v), old)" by (metis surj_pair)
  have "view_ok (order, v)" using s by (intro upsert_view_ok [OF _ _ u]) (simp_all add: sess_inv_def)
  note v = view_ok_shown [OF this]
  have "sess_inv (ticked s)" using s by (rule kernel_inv [rotated]) simp
  moreover have "vw_security v = vw_security (se_view (ticked s))" using upsert_security [OF u] by (simp add: ticked_def)
  ultimately have "sess_inv ((ticked s)\<lparr>se_transferOrder := order, se_view := v\<rparr>)" using v by (intro inv_view) auto
  moreover have "advances s ((ticked s)\<lparr>se_transferOrder := order, se_view := v\<rparr>)" by (simp add: advances_def ticked_def)
  ultimately show "sess_inv (fst (se_upsertTransfer t s)) \<and> advances s (fst (se_upsertTransfer t s)) \<and>
      (\<forall>e \<in> set (snd (se_upsertTransfer t s)). quiet e)"
    using v by (auto simp: se_upsertTransfer_def u Let_def dest: quiet_removeFrom)
qed

lemma plain_ensure [intro]: "plain (se_ensureTransferOrder i)"
  unfolding se_ensureTransferOrder_def
  by (rule plain_modify) (auto simp: sess_inv_def verified_ok_def pump_ok_def ensureTransferOrder_def advances_def)

lemma plain_removeFile [intro]: "plain (removeFile i)"
proof (rule plainI)
  fix s assume s: "sess_inv s"
  let ?v = "snd (removeTransferView i (se_transferOrder s, se_view s))" and ?o = "fst (removeTransferView i (se_transferOrder s, se_view s))"
  have sh: "shown_ok (se_view s)" "distinct (se_transferOrder s)" using s by (simp_all add: sess_inv_def)
  then have "shown_ok ?v" "distinct ?o"
    using le_trans [OF length_filter_le] le_trans [OF length_filter_filter]
    by (auto simp: removeTransferView_def shown_ok_def distinct_map_filter)
  moreover have "vw_security ?v = vw_security (se_view s)" by (simp add: removeTransferView_def)
  ultimately have "sess_inv (s\<lparr>se_transferOrder := ?o, se_view := ?v\<rparr>)" "shown_ok ?v" using inv_view [OF s] by auto
  moreover have "advances s (s\<lparr>se_transferOrder := ?o, se_view := ?v\<rparr>)" by (simp add: advances_def)
  ultimately show "sess_inv (fst (removeFile i s)) \<and> advances s (fst (removeFile i s)) \<and> (\<forall>e \<in> set (snd (removeFile i s)). quiet e)"
    using s by (auto simp: removeFile_def split_def Let_def removeFrom_def split: option.splits)
qed

lemma plain_tracked [intro]: "plain (tracked i st)"
  unfolding tracked_def by (cases i) (auto intro: plain_patch modest_transcript)

lemma modest_notice: "modest (\<lambda>v. v\<lparr>vw_notice := n\<rparr>)" "modest (notify txt)"
  by (rule modestI; simp add: notify_def)+

lemma plain_onReliable [intro]: "plain (onReliable e)"
proof (cases e)
  case (EvFailed i tr reason)
  then show ?thesis by (auto intro!: plain_Cons plain_patch modest_notice)
qed auto

lemma plain_reliably [intro]: "plain (reliably f)"
proof (rule plainI)
  fix s assume "sess_inv s"
  then have "sess_inv (s\<lparr>se_reliable := fst (f (se_reliable s))\<rparr>)" by (rule kernel_inv [rotated]) simp
  moreover have "advances s (s\<lparr>se_reliable := fst (f (se_reliable s))\<rparr>)" by (rule kernel_advances) simp
  moreover have "plain (actions (map onReliable (snd (f (se_reliable s)))))" by (rule plain_map) auto
  ultimately show "sess_inv (fst (reliably f s)) \<and> advances s (fst (reliably f s)) \<and> (\<forall>e \<in> set (snd (reliably f s)). quiet e)"
    unfolding plain_def reliably_def split_def Let_def by (blast intro: advances_trans)
qed

section \<open>Teardown\<close>

text \<open>Actions with a condition before and after: what is torn down is torn down in an order.\<close>

definition triple :: "(Session \<Rightarrow> bool) \<Rightarrow> sess_action \<Rightarrow> (Session \<Rightarrow> bool) \<Rightarrow> bool" where
  "triple P a Q = (\<forall>s. sess_inv s \<longrightarrow> P s \<longrightarrow>
     sess_inv (fst (a s)) \<and> Q (fst (a s)) \<and> advances s (fst (a s)) \<and> (\<forall>e \<in> set (snd (a s)). quiet e))"

abbreviation anyway :: "Session \<Rightarrow> bool" where
  "anyway \<equiv> \<lambda>_. True"

lemma plain_triple: "plain a \<longleftrightarrow> triple anyway a anyway"
  by (simp add: plain_def triple_def)

lemma triple_weaken: "plain a \<Longrightarrow> triple P a anyway"
  by (simp add: plain_def triple_def)

lemma triple_Nil: "triple P (actions []) P"
  by (simp add: triple_def)

lemma triple_Cons:
  assumes "triple P a Q" "triple Q (actions as) R"
  shows "triple P (actions (a # as)) R"
  unfolding triple_def
proof (intro allI impI)
  fix s assume s: "sess_inv s" "P s"
  obtain s1 es1 where a: "a s = (s1, es1)" by (cases "a s")
  obtain s2 es2 where as: "actions as s1 = (s2, es2)" by (cases "actions as s1")
  have one: "sess_inv s1 \<and> Q s1 \<and> advances s s1 \<and> (\<forall>e \<in> set es1. quiet e)" using assms(1) s a unfolding triple_def by (metis fst_conv snd_conv)
  then have two: "sess_inv s2 \<and> R s2 \<and> advances s1 s2 \<and> (\<forall>e \<in> set es2. quiet e)"
    using assms(2) as unfolding triple_def by (metis fst_conv snd_conv)
  show "sess_inv (fst (actions (a # as) s)) \<and> R (fst (actions (a # as) s)) \<and> advances s (fst (actions (a # as) s)) \<and>
      (\<forall>e \<in> set (snd (actions (a # as) s)). quiet e)"
    using one two by (auto simp: a as intro: advances_trans)
qed

lemma triple_modify: "(\<And>s. sess_inv s \<Longrightarrow> P s \<Longrightarrow> sess_inv (f s) \<and> Q (f s) \<and> advances s (f s)) \<Longrightarrow> triple P (modify f) Q"
  by (simp add: triple_def modify_def)

definition stale :: "Session \<Rightarrow> bool" where
  "stale s = se_viewStale s"

definition torn :: "Session \<Rightarrow> bool" where
  "torn s = (se_viewStale s \<and> vq_items (se_outboundVoice s) = [])"

definition unverified :: "Session \<Rightarrow> bool" where
  "unverified s = (vw_security (se_view s) \<noteq> Verified)"

lemmas inv_defs = sess_inv_def verified_ok_def pump_ok_def advances_def

lemma triple_kernel:
  assumes "plain a" "\<And>s. kernel (fst (a s)) = kernel s"
  shows "triple stale a stale" "triple torn a torn"
  using assms by (auto simp: plain_def triple_def stale_def torn_def kernel_def)

lemma torn_aside: "aside a \<Longrightarrow> triple torn a torn"
  by (rule triple_kernel [OF aside_plain]) (simp_all add: aside_def)

lemma stale_aside: "aside a \<Longrightarrow> triple stale a stale"
  by (rule triple_kernel [OF aside_plain]) (simp_all add: aside_def)

lemma torn_call: "(\<And>f. c \<noteq> SenderStartQueued f) \<Longrightarrow> triple torn (call c) torn"
  by (rule triple_kernel [OF plain_call]) (simp_all add: call_def)

lemma triple_renewed: "triple unverified renewed anyway"
  unfolding renewed_def by (rule triple_modify) (simp add: inv_defs unverified_def)

lemma triple_patch: "modest f \<Longrightarrow> (\<And>v. vw_security (f v) \<noteq> Verified) \<Longrightarrow> triple P (patch f) unverified"
  using plain_patch [of f] by (auto simp: plain_def triple_def unverified_def patch_def)

lemma clearOutbound_aside:
  "plain clearOutboundVoiceQueue \<and> triple stale clearOutboundVoiceQueue torn"
proof -
  have k: "triple stale (modify (\<lambda>s. s\<lparr>se_voiceQueueEpoch := se_voiceQueueEpoch s + 1, se_outboundVoice := q\<rparr>)) torn"
    "plain (modify (\<lambda>s. s\<lparr>se_voiceQueueEpoch := se_voiceQueueEpoch s + 1, se_outboundVoice := q\<rparr>))"
    if "vq_items q = []" for q using that
    by (auto intro!: triple_modify plain_modify simp: inv_defs stale_def torn_def)
  let ?f = "\<lambda>q. modify (\<lambda>s. s\<lparr>se_voiceQueueEpoch := se_voiceQueueEpoch s + 1, se_outboundVoice := q\<rparr>)"
  have "plain (actions [?f q, dropped BeforeEncrypt n])" "triple stale (actions [?f q, dropped BeforeEncrypt n]) torn" if "vq_items q = []" for q n
    using that by (intro plain_Cons plain_Nil k plain_aside triple_Cons [OF k(1)] triple_Cons [OF torn_aside [OF aside_dropped] triple_Nil], assumption)+
  moreover have "vq_items (fst (vq_clear q)) = []" for q :: "VoiceFrame VoiceQueue" by (simp add: vq_clear_def)
  ultimately show ?thesis unfolding plain_def triple_def clearOutboundVoiceQueue_def split_def Let_def by blast
qed

lemma aside_clearInbound:
  "aside (\<lambda>s. let (q, n) = vq_clear (se_inboundVoice s) in actions [modify (\<lambda>s. s\<lparr>se_inboundVoice := q\<rparr>), dropped BeforeDecrypt n] s)"
proof -
  have "aside (actions [modify (\<lambda>s. s\<lparr>se_inboundVoice := q\<rparr>), dropped BeforeDecrypt n])" for q n
    by (intro aside_Cons aside_Nil aside_modify aside_dropped) simp
  then show ?thesis by (simp add: aside_def split_def Let_def del: actions.simps)
qed

lemma plain_clearVoiceQueues [intro]: "plain clearVoiceQueues"
  unfolding clearVoiceQueues_def
  by (intro plain_Cons plain_Nil conjunct1 [OF clearOutbound_aside] aside_plain aside_clearInbound aside_modify) simp

lemma triple_clearVoiceQueues: "triple stale clearVoiceQueues torn"
  unfolding clearVoiceQueues_def
  by (intro triple_Cons [OF conjunct2 [OF clearOutbound_aside]] triple_Cons [OF torn_aside] triple_Nil aside_clearInbound aside_modify) simp

lemma modest_endedView: "modest (endedView notice)" "modest (freshView notice)" "modest (startingView code phase i)"
  by (rule modestI; simp add: endedView_def freshView_def startingView_def le_trans [OF length_filter_le])+

lemma triple_forget: "triple torn (modify forgetSecrets) torn"
  by (rule triple_modify) (simp add: inv_defs torn_def forgetSecrets_def)

lemma triple_disconnect: "triple P (se_disconnect silent forget notice) anyway"
proof -
  have "plain (actions [patch (endedView notice), renewed])"
    unfolding plain_triple by (intro triple_Cons [OF triple_patch triple_Cons [OF triple_renewed triple_Nil]])
      (simp_all add: modest_endedView endedView_def)
  then have last: "plain (onlyIf (\<lambda>_. \<not> silent) (actions [patch (endedView notice), renewed]))" by (rule plain_onlyIf)
  have "triple torn (modify (\<lambda>s. s\<lparr>se_transferOrder := [], se_reliable := rel_reset (se_reliable s)\<rparr>)) torn"
    by (rule triple_modify) (simp add: inv_defs torn_def)
  moreover have "triple P (modify nextEpochs) stale"
    by (rule triple_modify) (auto simp: inv_defs stale_def nextEpochs_def)
  ultimately show ?thesis unfolding se_disconnect_def
    by (intro triple_Cons [of P _ stale] triple_Cons [OF triple_clearVoiceQueues] triple_Cons [OF torn_call] triple_Cons [OF torn_aside]
        triple_Cons [OF triple_forget] triple_Cons [of torn _ torn "[_]"] triple_Cons [OF triple_weaken [OF last]] triple_Nil aside_transport) simp_all
qed

lemma plain_disconnect [intro]: "plain (se_disconnect silent forget notice)"
  unfolding plain_triple by (rule triple_disconnect)

lemma torn_patch: "modest f \<Longrightarrow> triple torn (patch f) torn"
  using plain_patch [of f] by (auto simp: plain_def triple_def torn_def patch_def)

lemma torn_addSystem: "triple torn (se_addSystem txt sev) torn"
  using plain_addSystem by (auto simp: plain_def triple_def torn_def se_addSystem_def patch_def ticked_def)

lemma torn_tracked: "triple torn (tracked i st) torn"
  unfolding tracked_def by (auto intro!: torn_patch triple_Nil modest_transcript split: option.split)

lemma torn_onReliable: "triple torn (onReliable e) torn"
proof (cases e)
  case (EvFailed i tr reason)
  show ?thesis unfolding EvFailed onReliable.simps
    by (intro triple_Cons [OF torn_tracked] triple_Cons [OF torn_patch] triple_Cons [OF torn_addSystem] triple_Nil modest_notice)
qed (simp_all only: onReliable.simps triple_Nil torn_tracked)

lemma torn_map: "(\<And>x. triple torn (f x) torn) \<Longrightarrow> triple torn (actions (map f xs)) torn"
  by (induction xs) (unfold list.map, (rule triple_Nil), (blast intro: triple_Cons))

lemma torn_reliably: "triple torn (reliably f) torn"
proof -
  have "torn (fst (reliably f s))" if "sess_inv s" "torn s" for s
  proof -
    have "sess_inv (s\<lparr>se_reliable := fst (f (se_reliable s))\<rparr>)" using that(1) by (rule kernel_inv [rotated]) simp
    moreover have "torn (s\<lparr>se_reliable := fst (f (se_reliable s))\<rparr>)" using that(2) by (simp add: torn_def)
    ultimately show ?thesis
      using torn_map [where f = onReliable and xs = "snd (f (se_reliable s))", OF torn_onReliable]
      unfolding triple_def reliably_def split_def Let_def by blast
  qed
  then show ?thesis using plain_reliably [of f] by (simp add: plain_def triple_def)
qed

lemma plain_dropEpoch [intro]: "plain (dropEpoch notice)"
proof -
  have "triple anyway (modify (\<lambda>s. s\<lparr>se_secureEpoch := se_secureEpoch s + 1, se_establishing := False, se_initialHandshakeSent := False,
         se_replyHandshakeSent := False, se_viewStale := True\<rparr>)) stale"
    by (rule triple_modify) (simp add: inv_defs stale_def)
  moreover have "triple torn (modify (\<lambda>s. s\<lparr>se_transferOrder := []\<rparr>)) torn"
    by (rule triple_modify) (simp add: inv_defs torn_def)
  moreover have "triple torn (modify (\<lambda>s. forgetSecrets (s\<lparr>se_reliable := rel_reset (se_reliable s)\<rparr>))) torn"
    by (rule triple_modify) (simp add: inv_defs torn_def forgetSecrets_def)
  moreover have "aside (modify (\<lambda>s. s\<lparr>se_remoteVoiceActive := False\<rparr>))" by (rule aside_modify) simp
  moreover have "triple torn (patch (freshView notice)) unverified" by (rule triple_patch) (simp_all add: modest_endedView freshView_def)
  ultimately show ?thesis unfolding dropEpoch_def plain_triple
    by (intro triple_Cons [of anyway _ stale] triple_Cons [OF triple_clearVoiceQueues] triple_Cons [OF stale_aside] triple_Cons [OF torn_call]
        triple_Cons [OF torn_reliably] triple_Cons [of torn _ torn] triple_Cons [of torn _ unverified] triple_Cons [OF triple_renewed] triple_Nil
        aside_transport) simp_all
qed

lemma plain_setLimits [intro]: "plain updateVoiceQueueLimits"
proof (rule plainI)
  fix s assume s: "sess_inv s"
  obtain qo no where o: "vq_setLimits (of_nat (voiceQueueMaxFrames (se_profile s))) (of_nat (maxQueuedLatencyMs (voice (se_profile s)))) (se_outboundVoice s) = (qo, no)"
    by (metis surj_pair)
  obtain qi ni where i: "vq_setLimits (of_nat (voiceQueueMaxFrames (se_profile s))) (of_nat (maxQueuedLatencyMs (voice (se_profile s)))) (se_inboundVoice s) = (qi, ni)"
    by (metis surj_pair)
  let ?as = "[dropped BeforeEncrypt no, dropped BeforeDecrypt ni]" and ?s = "s\<lparr>se_outboundVoice := qo, se_inboundVoice := qi\<rparr>"
  have "vq_items (se_outboundVoice s) = [] \<Longrightarrow> vq_items qo = []"
    using o by (auto simp: vq_setLimits_def trimOverflow_def)
  then have "sess_inv ?s" "advances s ?s" using s by (auto simp: inv_defs)
  moreover have "plain (actions ?as)" by (intro plain_Cons plain_Nil plain_aside)
  ultimately show "sess_inv (fst (updateVoiceQueueLimits s)) \<and> advances s (fst (updateVoiceQueueLimits s)) \<and>
      (\<forall>e \<in> set (snd (updateVoiceQueueLimits s)). quiet e)"
    unfolding plain_def updateVoiceQueueLimits_def
    by (simp add: o i Let_def modify_def actions.simps(2) [of "modify _"] split_def del: actions.simps) (blast intro: advances_trans)
qed

lemma plain_renewing:
  assumes "modest f" "\<And>v. vw_security (f v) \<noteq> Verified"
  shows "plain (actions [patch f, renewed])"
  unfolding plain_triple using assms by (intro triple_Cons [OF triple_patch triple_Cons [OF triple_renewed triple_Nil]])

lemma plain_kernel: "(\<And>s. kernel (f s) = kernel s) \<Longrightarrow> plain (modify f)"
  by (rule aside_plain [OF aside_modify])

lemma plain_append:
  assumes "plain (actions as)" "plain (actions bs)"
  shows "plain (actions (as @ bs))"
proof -
  have app: "actions (as @ bs) s = (let (s1, es) = actions as s; (s2, es') = actions bs s1 in (s2, es @ es'))" for s
    by (induction as arbitrary: s) (auto simp: split_def Let_def)
  show ?thesis
  proof (rule plainI)
    fix s assume inv: "sess_inv s"
    obtain s1 es1 where a: "actions as s = (s1, es1)" by (cases "actions as s")
    obtain s2 es2 where b: "actions bs s1 = (s2, es2)" by (cases "actions bs s1")
    note one = plainD [OF assms(1) inv a]
    note two = plainD [OF assms(2) one(1) b]
    show "sess_inv (fst (actions (as @ bs) s)) \<and> advances s (fst (actions (as @ bs) s)) \<and> (\<forall>e \<in> set (snd (actions (as @ bs) s)). quiet e)"
      using one two by (auto simp: app a b intro: advances_trans)
  qed
qed

lemma plain_useProfile [intro]: "plain (useProfile i)"
  unfolding useProfile_def by (intro plain_Cons plain_Nil plain_kernel plain_aside plain_call plain_setLimits) simp_all

lemma plain_ite: "plain a \<Longrightarrow> plain (\<lambda>s. if b s then (s, []) else a s)"
  by (simp add: plain_def)

lemma plain_setProfile [intro]: "plain (se_setProfile i)"
proof -
  have "plain (actions [useProfile i, patch (\<lambda>v. v\<lparr>vw_profileId := i\<rparr>)])"
    by (intro plain_Cons plain_Nil plain_useProfile plain_patch modestI) simp_all
  moreover have "se_setProfile i = (\<lambda>s. if vw_phase (se_view s) \<noteq> PhIdle \<and> vw_phase (se_view s) \<noteq> PhEnded then (s, [])
      else actions [useProfile i, patch (\<lambda>v. v\<lparr>vw_profileId := i\<rparr>)] s)"
    by (rule ext) (simp only: se_setProfile_def)
  ultimately show ?thesis by (simp only: plain_ite)
qed

lemma plain_toggleMute [intro]: "plain toggleMute"
proof -
  have "plain (actions [call (VoiceSetMuted b), onlyIf (\<lambda>_. b) clearOutboundVoiceQueue,
      patch (\<lambda>v. v\<lparr>vw_muted := b, vw_voice := (if b then VsMuted else VsActive)\<rparr>)])" for b
    by (intro plain_Cons plain_Nil plain_call plain_onlyIf conjunct1 [OF clearOutbound_aside] plain_patch modestI) simp_all
  then show ?thesis by (simp add: plain_def toggleMute_def Let_def del: actions.simps)
qed

lemma plain_endSessionFires [intro]: "plain endSessionFires"
  unfolding endSessionFires_def by (intro plain_onlyIf plain_Cons plain_Nil plain_kernel plain_disconnect) simp

lemma plain_leaveRoom [intro]: "plain leaveRoom"
  unfolding leaveRoom_def by (rule plain_disconnect)

lemma plain_endChat [intro]: "plain endChatForBoth"
proof (rule plainI)
  fix s assume s: "sess_inv s"
  obtain t es sent where e: "endSession (se_transport s) = (t, es, sent)" by (metis prod_cases3)
  let ?s = "s\<lparr>se_endSessionTimer := False, se_transport := t\<rparr>"
  have k: "kernel ?s = kernel s" by simp
  have "plain (se_disconnect False True ''Chat ended on this device.'')"
    "plain (actions [patch (\<lambda>v. v\<lparr>vw_notice := Some ''Ending chat for both...''\<rparr>), modify (\<lambda>s. s\<lparr>se_endSessionTimer := True\<rparr>)])"
    by (intro plain_disconnect plain_Cons plain_Nil plain_kernel plain_patch modest_notice; simp)+
  moreover have "plain (actions (map report es))" by (rule aside_plain) (rule aside_map [OF aside_report])
  ultimately have a: "plain (actions (map report es @
      [if \<not> sent then se_disconnect False True ''Chat ended on this device.''
       else actions [patch (\<lambda>v. v\<lparr>vw_notice := Some ''Ending chat for both...''\<rparr>), modify (\<lambda>s. s\<lparr>se_endSessionTimer := True\<rparr>)]]))" (is "plain ?a")
    by (intro plain_append plain_Cons plain_Nil) (simp_all only: if_splits simp_thms split: if_split)
  note p = plainD [OF a kernel_inv [OF k s] surjective_pairing]
  have "endChatForBoth s = (if vw_phase (se_view s) = PhIdle \<or> vw_phase (se_view s) = PhEnded then (s, []) else ?a ?s)"
    by (simp only: endChatForBoth_def e Let_def prod.case)
  then consider "endChatForBoth s = (s, [])" | "endChatForBoth s = ?a ?s" by metis
  then show "sess_inv (fst (endChatForBoth s)) \<and> advances s (fst (endChatForBoth s)) \<and> (\<forall>e \<in> set (snd (endChatForBoth s)). quiet e)"
  proof cases
    case 1
    then show ?thesis using s by simp
  next
    case 2
    show ?thesis unfolding 2 using p advances_trans [OF kernel_advances [OF k] p(2)] by blast
  qed
qed

lemma plain_restart [intro]: "plain (restart code phase i)"
proof -
  have "plain (modify (\<lambda>s. s\<lparr>se_transferOrder := [], se_remoteVoiceActive := False, se_reliable := rel_reset (se_reliable s),
         se_initialHandshakeSent := False, se_replyHandshakeSent := False, se_establishing := False\<rparr>))"
    by (rule plain_modify) (simp add: inv_defs)
  then have "plain (actions ([se_disconnect True False '''', useProfile i, modify (\<lambda>s. s\<lparr>se_transferOrder := [], se_remoteVoiceActive := False,
      se_reliable := rel_reset (se_reliable s), se_initialHandshakeSent := False, se_replyHandshakeSent := False, se_establishing := False\<rparr>)] @
      [patch (startingView code phase i), renewed]))"
    by (intro plain_append [OF _ plain_renewing] plain_Cons plain_Nil plain_disconnect plain_useProfile modest_endedView)
      (simp_all add: startingView_def)
  then show ?thesis by (simp only: restart_def append.simps)
qed

lemma plain_dial [intro]: "plain (dial code)"
proof (rule plainI)
  fix s assume s: "sess_inv s"
  have k: "kernel (ticked s) = kernel s" by simp
  note t = plainD [OF plain_aside(3) kernel_inv [OF k s] surjective_pairing]
  show "sess_inv (fst (dial code s)) \<and> advances s (fst (dial code s)) \<and> (\<forall>e \<in> set (snd (dial code s)). quiet e)"
    using t advances_trans [OF kernel_advances [OF k]] by (simp add: dial_def)
qed

lemma plain_countInvalid [intro]: "plain countInvalid"
  unfolding countInvalid_def by (rule plain_patch, rule modestI) (simp_all add: Let_def notify_def)

lemma plain_voiceFailed [intro]: "plain voiceFailedFires"
  unfolding voiceFailedFires_def by (intro plain_onlyIf plain_patch modestI) simp_all

section \<open>Starting a queued file\<close>

definition fine :: "sess_action \<Rightarrow> bool" where
  "fine a = (\<forall>s. sess_inv s \<longrightarrow> sess_inv (fst (a s)) \<and> guarantee s (fst (a s)) (snd (a s)))"

lemma fine_plain: "plain a \<Longrightarrow> fine a"
  unfolding fine_def using plain_guarantee by blast

lemma nextQueued_startable: "nextQueuedFile (se_remoteVoiceActive s) (se_view s) = Some f \<Longrightarrow> startable f s"
  by (auto simp: nextQueuedFile_def startable_def find_Some_iff split: if_splits option.splits) (metis nth_mem set_rev length_rev)

lemma fine_startNext: "fine startNextQueuedFileIfAllowed"
  by (auto simp: fine_def startNextQueuedFileIfAllowed_def guarantee_def nextQueued_startable split: option.split)

lemma fine_updateSender: "fine (updateSender snap)"
proof (unfold fine_def, intro allI impI)
  fix s assume s: "sess_inv s"
  obtain s1 es1 where u: "se_upsertTransfer (senderView snap) s = (s1, es1)" by (cases "se_upsertTransfer (senderView snap) s")
  note one = plainD [OF plain_upsert s u]
  have "sess_inv (fst (onlyIf b startNextQueuedFileIfAllowed s1)) \<and>
      guarantee s1 (fst (onlyIf b startNextQueuedFileIfAllowed s1)) (snd (onlyIf b startNextQueuedFileIfAllowed s1)) \<and>
      fst (onlyIf b startNextQueuedFileIfAllowed s1) = s1" for b
    using fine_startNext one(1) by (auto simp: fine_def onlyIf_def guarantee_def startNextQueuedFileIfAllowed_def split: option.split)
  moreover have "effect_ok s s1 e" if "effect_ok s1 s1 e" "\<exists>f. e = Calls (SenderStartQueued f)" for e using that by auto
  moreover have "\<exists>f. e = Calls (SenderStartQueued f)" if "e \<in> set (snd (onlyIf b startNextQueuedFileIfAllowed s1))" for e b
    using that by (auto simp: onlyIf_def startNextQueuedFileIfAllowed_def split: if_splits option.splits)
  ultimately have "\<forall>e \<in> set (snd (onlyIf b startNextQueuedFileIfAllowed s1)). effect_ok s s1 e"
    "fst (onlyIf b startNextQueuedFileIfAllowed s1) = s1" for b unfolding guarantee_def by metis+
  then show "sess_inv (fst (updateSender snap s)) \<and> guarantee s (fst (updateSender snap s)) (snd (updateSender snap s))"
    using one by (auto simp: updateSender_def u split_def Let_def guarantee_def intro: quiet_ok)
qed

end
