(* ===== verification/SessionRuns.thy ===== *)
theory SessionRuns
  imports SessionLogic
begin

text \<open>
  Every program of a session is safe: each of its actions keeps the invariant and fulfils the guarantee, in whatever state it is
  executed. So every run of a session does, for every order of calls, events and responses.
\<close>

interpretation sess: program_logic sess_inv guarantee
  by unfold_locales (simp add: guarantee_def)

abbreviation ok :: "'a sess \<Rightarrow> bool" where
  "ok p \<equiv> safe sess_inv guarantee p"

named_theorems okI

lemma ok_Ret [okI]: "ok (Ret x)"
  by simp

lemma ok_Exc [okI]: "ok (Exc e)"
  by simp

lemma ok_Await [okI]: "(\<And>r. ok (k r)) \<Longrightarrow> ok (Await q k)"
  by simp

declare sess.safe_bind [okI] sess.safe_catch [okI] sess.safe_finally [okI] sess.safe_look [okI] sess.safe_lift [okI]

lemma ok_do [okI]: "fine a \<Longrightarrow> ok (doP a)"
  by (rule sess.safe_do) (simp add: fine_def)

lemma ok_ask [okI]: "ok (ask q f)"
  unfolding ask_def by (intro okI) (auto split: SessResp.split option.split)

lemma ok_asks [okI]:
  "ok (askUnit q)" "ok (askBool q)" "ok (askBytes q)" "ok (askString q)" "ok (askNumber q)" "ok (askCipher q)" "ok (askHttp q)"
  unfolding askUnit_def askBool_def askBytes_def askString_def askNumber_def askCipher_def askHttp_def by (rule ok_ask)+

lemma ok_await [okI]: "ok p \<Longrightarrow> ok (awaitP p)"
  unfolding awaitP_def by (intro okI)

lemma ok_when [okI]: "ok p \<Longrightarrow> ok (whenP b p)"
  by (simp add: whenP_def)

lemma ok_quietly [okI]: "plain (modify f) \<Longrightarrow> ok (quietly f)"
  unfolding quietly_def by (intro okI fine_plain)

lemma ok_if [okI]: "ok p \<Longrightarrow> ok p' \<Longrightarrow> ok (if b then p else p')"
  by simp

lemma ok_option [okI]: "ok p \<Longrightarrow> (\<And>x. ok (f x)) \<Longrightarrow> ok (case m of None \<Rightarrow> p | Some x \<Rightarrow> f x)"
  by (simp split: option.split)

lemma ok_pair [okI]: "(\<And>x y. ok (f x y)) \<Longrightarrow> ok (case m of (x, y) \<Rightarrow> f x y)"
  by (simp split: prod.split)

lemma ok_let [okI]: "(\<And>x. ok (f x)) \<Longrightarrow> ok (let x = a in f x)"
  by simp

lemmas plains = plain_Cons plain_Nil plain_aside plain_call plain_onlyIf plain_addSystem plain_ensure plain_reliably plain_disconnect
  plain_clearVoiceQueues

lemma ok_Act:
  assumes "\<And>s. sess_inv s \<Longrightarrow> sess_inv (fst (g s)) \<and> guarantee s (fst (g s)) (fst (snd (g s)))"
    and "\<And>s. ok (snd (snd (g s)))"
  shows "ok (Act g)"
  using assms by (intro sess.safe_Act) blast

text \<open>An action that only touches what the invariant is not about.\<close>

lemma ok_Act_kernel:
  assumes "\<And>s. kernel (fst (g s)) = kernel s" "\<And>s e. e \<in> set (fst (snd (g s))) \<Longrightarrow> quiet e" "\<And>s. ok (snd (snd (g s)))"
  shows "ok (Act g)"
proof (rule ok_Act)
  fix s assume "sess_inv s"
  then show "sess_inv (fst (g s)) \<and> guarantee s (fst (g s)) (fst (snd (g s)))"
    using kernel_inv [OF assms(1)] kernel_advances [OF assms(1)] assms(2) by (auto simp: guarantee_def intro: quiet_ok)
qed (rule assms(3))

text \<open>A new number.\<close>

lemma inv_newPromise: "sess_inv s \<Longrightarrow> sess_inv (newPromise s) \<and> advances s (newPromise s)"
  by (auto simp: inv_defs newPromise_def)

lemma ok_Act_numbered:
  assumes "\<And>s. kernel (fst (g s)) = kernel (newPromise s)" "\<And>s. fst (snd (g s)) = []" "\<And>s. ok (snd (snd (g s)))"
  shows "ok (Act g)"
proof (rule ok_Act)
  fix s assume s: "sess_inv s"
  show "sess_inv (fst (g s)) \<and> guarantee s (fst (g s)) (fst (snd (g s)))"
    using kernel_inv [OF assms(1)] advances_trans [OF _ kernel_advances [OF assms(1)]] inv_newPromise [OF s] assms(2)
    by (simp add: guarantee_def)
qed (rule assms(3))

section \<open>Crypto and sending\<close>

lemma ok_runCrypto [okI]: "ok p \<Longrightarrow> ok (runCrypto p)"
  unfolding runCrypto_def by (rule ok_Act_numbered) (auto intro!: okI plain_kernel)

lemma ok_encrypt [okI]: "ok (encryptAppMessage c m lane)"
  unfolding encryptAppMessage_def by (rule ok_Act_kernel) (auto simp: Let_def intro!: okI)

lemma ok_decrypt [okI]: "ok (decryptAppMessage c env)"
  unfolding decryptAppMessage_def by (intro okI ok_Act_kernel) (auto intro: okI)

lemma ok_transmit:
  "ok (Act (\<lambda>s. if e0 \<noteq> se_secureEpoch s \<or> se_secure s \<noteq> Some c then (s, [], Ret False)
     else let (s', es, sent) = transportSend env s in (s', Transmits c e0 env # es, Ret sent)))"
proof (rule ok_Act)
  fix s assume s: "sess_inv s"
  have t: "kernel (fst (transportSend env s)) = kernel s" "\<forall>e \<in> set (fst (snd (transportSend env s))). \<exists>w. e = Wire w"
    using aside_transportSend [of env s] by auto
  then show "sess_inv (fst (if e0 \<noteq> se_secureEpoch s \<or> se_secure s \<noteq> Some c then (s, [], Ret False)
      else let (s', es, sent) = transportSend env s in (s', Transmits c e0 env # es, Ret sent))) \<and>
    guarantee s (fst (if e0 \<noteq> se_secureEpoch s \<or> se_secure s \<noteq> Some c then (s, [], Ret False)
      else let (s', es, sent) = transportSend env s in (s', Transmits c e0 env # es, Ret sent)))
     (fst (snd (if e0 \<noteq> se_secureEpoch s \<or> se_secure s \<noteq> Some c then (s, [], Ret False)
      else let (s', es, sent) = transportSend env s in (s', Transmits c e0 env # es, Ret sent))))"
    using s kernel_inv [OF t(1) s] kernel_advances [OF t(1)]
    by (auto simp: split_def Let_def guarantee_def intro: quiet_ok quiet_wire)
qed (auto simp: split_def Let_def)

lemma ok_sendRawApp [okI]: "ok (sendRawApp m lane)"
  unfolding sendRawApp_def
  by (intro okI ok_transmit fine_plain plains) simp

section \<open>Reliable delivery\<close>

lemma ok_act [okI]:
  assumes "plain a" "\<And>s. ok (k s)"
  shows "ok (Act (\<lambda>s. let (s', es) = a s in (s', es, k s)))"
  by (rule ok_Act) (use plain_guarantee [OF assms(1)] assms(2) in \<open>auto simp: split_def Let_def\<close>)

lemma plain_ticked: "plain a \<Longrightarrow> plain (\<lambda>s. a (ticked s))"
proof (rule plainI)
  fix s assume a: "plain a" and s: "sess_inv s"
  have k: "kernel (ticked s) = kernel s" by simp
  show "sess_inv (fst (a (ticked s))) \<and> advances s (fst (a (ticked s))) \<and> (\<forall>e \<in> set (snd (a (ticked s))). quiet e)"
    using plainD [OF a kernel_inv [OF k s] surjective_pairing] advances_trans [OF kernel_advances [OF k]] by blast
qed

lemma ok_sendPending [okI]: "ok (sendPendingP evs)"
proof -
  have "plain (\<lambda>s. reliably (sendPendingDone b (w_random (se_world s) (se_tick s)) p) (ticked s))" for b p
  proof (rule plainI)
    fix s assume s: "sess_inv s"
    show "sess_inv (fst (reliably (sendPendingDone b (w_random (se_world s) (se_tick s)) p) (ticked s))) \<and>
      advances s (fst (reliably (sendPendingDone b (w_random (se_world s) (se_tick s)) p) (ticked s))) \<and>
      (\<forall>e \<in> set (snd (reliably (sendPendingDone b (w_random (se_world s) (se_tick s)) p) (ticked s))). quiet e)"
      using plain_ticked [OF plain_reliably] s unfolding plain_def by blast
  qed
  then show ?thesis unfolding sendPendingP_def
    by (auto split: list.split REvent.split simp: Let_def intro!: okI fine_plain)
qed

lemma ok_reliableSend [okI]: "ok (reliableSend body ch tr)"
  unfolding reliableSend_def by (rule ok_Act_kernel) (auto simp: Let_def split_def intro!: okI)

text \<open>A step of the reliable channel with its callbacks.\<close>

lemma plain_events:
  "sess_inv s \<Longrightarrow> sess_inv (fst (actions (map onReliable evs) ((ticked s)\<lparr>se_reliable := r\<rparr>))) \<and>
    guarantee s (fst (actions (map onReliable evs) ((ticked s)\<lparr>se_reliable := r\<rparr>))) (snd (actions (map onReliable evs) ((ticked s)\<lparr>se_reliable := r\<rparr>)))"
proof -
  assume s: "sess_inv s"
  let ?s = "(ticked s)\<lparr>se_reliable := r\<rparr>"
  have k: "kernel ?s = kernel s" by simp
  have "plain (actions (map onReliable evs))" by (rule plain_map) auto
  note p = plainD [OF this kernel_inv [OF k s] surjective_pairing]
  then show ?thesis using advances_trans [OF kernel_advances [OF k]] by (auto simp: guarantee_def intro: quiet_ok)
qed

lemma ok_reliableTimer [okI]: "ok (reliableTimer i)"
  unfolding reliableTimer_def by (rule ok_Act) (use plain_events in \<open>auto simp: split_def Let_def intro!: okI\<close>)

lemma ok_sendApp [okI]: "ok (sendApp m lane tr)"
  unfolding sendApp_def by (auto split: AppMessage.split intro!: okI)

section \<open>Handshakes\<close>

lemma ok_transportSend:
  assumes "\<And>b. ok (k b)"
  shows "ok (Act (\<lambda>s. if P s then (s, [], skipP) else let (s', es, sent) = transportSend (env s) s in (s', es, k sent)))"
proof (rule ok_Act_kernel)
  fix s e
  let ?g = "if P s then (s, [], skipP) else let (s', es, sent) = transportSend (env s) s in (s', es, k sent)"
  note t = aside_transportSend [of "env s" s]
  show "kernel (fst ?g) = kernel s" using t by (simp add: split_def Let_def)
  show "ok (snd (snd ?g))" using assms by (simp add: split_def Let_def)
  show "quiet e" if "e \<in> set (fst (snd ?g))" using that t by (auto simp: split_def Let_def split: if_splits)
qed

lemma ok_profileHash [okI]: "ok (profileHashP p)"
  unfolding profileHashP_def by (intro okI)

lemma ok_sendHandshake [okI]: "ok sendHandshake"
  unfolding sendHandshake_def by (intro okI ok_transportSend)

lemma ok_handshakes [okI]: "ok sendInitialHandshake" "ok sendReplyHandshake"
  unfolding sendInitialHandshake_def sendReplyHandshake_def by (intro okI plain_kernel; simp)+

lemma ok_phrase [okI]: "ok (verificationPhraseP key peerKey p code hs)"
  unfolding verificationPhraseP_def by (intro okI)

lemma plain_openChannel: "plain (modify (openChannel peerKey))"
  by (rule plain_modify) (auto simp: inv_defs openChannel_def)

lemma ok_establish [okI]: "ok (establish hs peerKey)"
  unfolding establish_def
  by (intro okI fine_plain plains plain_patch plain_openChannel plain_with_state modestI) (simp_all add: notify_def)

lemma ok_handleHandshake [okI]: "ok (handleHandshake data)"
  unfolding handleHandshake_def
  by (intro okI fine_plain plains plain_patch plain_kernel modestI) (simp_all add: notify_def)

section \<open>Messages and tasks\<close>

lemma ok_filePause [okI]: "ok updateFilePauseForVoice"
  unfolding updateFilePauseForVoice_def by (intro okI fine_startNext)

lemma modest_notify: "modest f \<Longrightarrow> modest (\<lambda>v. notify n (f v))"
proof -
  have "shown_ok (notify n v) \<longleftrightarrow> shown_ok v" "vw_security (notify n v) = vw_security v" for v by (simp_all add: notify_def shown_ok_def)
  then show "modest f \<Longrightarrow> modest (\<lambda>v. notify n (f v))" by (simp only: modest_def)
qed

lemma ok_startNext: "ok (doP startNextQueuedFileIfAllowed)" and ok_ensure: "ok (doP (se_ensureTransferOrder i))"
  by (rule ok_do, rule fine_startNext, rule ok_do, rule fine_plain, rule plain_ensure)

lemma ok_handleCore [okI]: "ok (handleCore m)"
proof (cases m)
  case (TextMessage i body createdAt)
  show ?thesis unfolding TextMessage handleCore.simps by (intro okI fine_plain plain_patch modest_transcript)
next
  case (VoiceStart sid rate ms md)
  show ?thesis unfolding VoiceStart handleCore.simps
    by (intro okI fine_plain plains plain_patch plain_kernel modest_notice) simp
next
  case (VoiceFrame sid sq sentAt rate ms pcm)
  show ?thesis unfolding VoiceFrame handleCore.simps
    by (intro okI fine_plain plains plain_patch modest_notify modestI) simp_all
next
  case (VoiceStop sid)
  show ?thesis unfolding VoiceStop handleCore.simps
    by (intro okI fine_plain plains plain_patch plain_kernel modest_notify modestI) simp_all
next
  case (SessionVerified t)
  show ?thesis unfolding SessionVerified handleCore.simps by (intro okI fine_plain plains plain_patch modest_notice)
qed (simp only: handleCore.simps; intro sess.safe_bind ok_asks ok_startNext ok_ensure)+

lemma ok_reliableReceive [okI]: "ok (reliableReceive m)"
proof -
  have rest: "ok (Act (\<lambda>s. let (r, x, new) = rel_receiveDone (w_now (se_world s) (se_tick s)) i body (se_reliable s)
      in ((ticked s)\<lparr>se_reliable := r\<rparr>, [], Ret new)))" for i body
    by (rule ok_Act_kernel) (auto simp: split_def Let_def)
  show ?thesis unfolding reliableReceive_def
    by (rule ok_Act) (use plain_events in \<open>auto simp: split_def Let_def split: AppMessage.split intro!: okI rest [unfolded split_def Let_def]\<close>)
qed

lemma ok_handleAppMessage [okI]: "ok (handleAppMessage m)"
  unfolding handleAppMessage_def by (cases m) (simp_all only: AppMessage.case, (intro okI)+)

lemma ok_handles:
  assumes "\<And>m. ok (k m)"
  shows "ok (Act (\<lambda>s. if epoch \<noteq> se_secureEpoch s \<or> se_secure s \<noteq> Some c then (s, [], skipP)
     else (case v of Inl e \<Rightarrow> (s, [], Exc e) | Inr u \<Rightarrow> (s, [Handles c epoch m], k m))))"
  by (rule ok_Act) (use assms in \<open>auto simp: guarantee_def split: sum.split\<close>)

lemma ok_onEnvelope [okI]: "ok (onEnvelope env epoch)"
  unfolding onEnvelope_def
  by (intro okI ok_handles fine_plain plains plain_countInvalid) simp_all

lemma plain_numbered: "(\<And>s. kernel (f s) = kernel (newPromise s)) \<Longrightarrow> plain (modify f)"
proof (rule plain_modify)
  fix s assume k: "\<And>s. kernel (f s) = kernel (newPromise s)" and s: "sess_inv s"
  show "sess_inv (f s) \<and> advances s (f s)"
    using kernel_inv [OF k] advances_trans [OF _ kernel_advances [OF k]] inv_newPromise [OF s] by blast
qed

lemma ok_freshKeys [okI]: "ok (freshKeys l)"
  unfolding freshKeys_def by (intro okI plain_numbered) (simp add: keepKey_def)

lemma ok_prepare [okI]: "ok (prepareFreshCryptoEpoch notice)"
  unfolding prepareFreshCryptoEpoch_def
  by (intro okI fine_plain plain_Cons plain_Nil plain_dropEpoch plain_numbered plain_kernel) simp_all

lemma ok_onConnectionStatus [okI]: "ok (onConnectionStatus st)"
  unfolding onConnectionStatus_def
  by (cases st; simp only: ConnectionStatus.case) (intro okI fine_plain plains plain_patch modest_notify modestI; simp)+

lemma ok_onRelayEvent [okI]: "ok (onRelayEvent e)"
  by (cases e; simp only: onRelayEvent.simps) (intro okI fine_plain plains plain_patch modest_notify modestI; simp)+

lemma ok_processVoice [okI]: "ok processOneInboundVoice"
proof -
  have "ok (Act (\<lambda>s. let (q, v, n) = shiftFresh (w_performanceNow (se_world s) (se_tick s)) (se_inboundVoice s);
              (s', es) = dropped BeforeDecrypt n ((ticked s)\<lparr>se_inboundVoice := q\<rparr>)
          in (s', es, case v of None \<Rightarrow> skipP | Some env \<Rightarrow> awaitP (onEnvelope env (se_secureEpoch s)))))"
  proof (rule ok_Act_kernel)
    fix s e
    note d = aside_dropped [unfolded aside_def, rule_format]
    let ?g = "let (q, v, n) = shiftFresh (w_performanceNow (se_world s) (se_tick s)) (se_inboundVoice s);
              (s', es) = dropped BeforeDecrypt n ((ticked s)\<lparr>se_inboundVoice := q\<rparr>)
          in (s', es, case v of None \<Rightarrow> skipP | Some env \<Rightarrow> awaitP (onEnvelope env (se_secureEpoch s)))"
    show "kernel (fst ?g) = kernel s" using d by (simp add: split_def Let_def)
    show "ok (snd (snd ?g))" unfolding split_def Let_def snd_conv by (intro okI)
    show "quiet e" if "e \<in> set (fst (snd ?g))"
    proof (rule quiet_wire)
      show "\<exists>w. e = Wire w" using that conjunct2 [OF d] by (simp add: split_def Let_def)
    qed
  qed
  moreover have "plain (modify (\<lambda>s. let s1 = s\<lparr>se_inboundVoiceScheduled := False\<rparr> in if vq_size (se_inboundVoice s1) > 0 then scheduleInboundVoice s1 else s1))"
    by (rule plain_kernel) (simp add: Let_def)
  ultimately show ?thesis unfolding processOneInboundVoice_def by (intro okI)
qed

lemma ok_runTask [okI]: "ok (runTask t)"
  by (cases t; simp only: runTask.simps) (intro okI)+

lemma ok_nextInbound [okI]: "ok nextInbound"
  unfolding nextInbound_def
proof (rule sess.safe_look)
  fix s
  show "ok (case se_inbound s of [] \<Rightarrow> skipP
     | t # ts \<Rightarrow> if se_inboundBusy s then skipP
         else seqP (quietly (\<lambda>s. s\<lparr>se_inbound := ts, se_inboundBusy := True\<rparr>))
                (seqP (catchP (awaitP (runTask t)) (\<lambda>err. doP (call (Warns err)))) (quietly (\<lambda>s. s\<lparr>se_inboundBusy := False\<rparr>))))"
    by (cases "se_inbound s"; simp only: list.case) (intro okI fine_plain plains plain_kernel; simp)+
qed

section \<open>Outbound voice\<close>

lemma shiftFresh_rest:
  assumes "shiftFresh now q = (q', v, n)"
  shows "vq_items q' \<noteq> [] \<Longrightarrow> vq_items q \<noteq> []" "v = None \<Longrightarrow> vq_items q' = []"
  using assms by (auto simp: shiftFresh_def split: prod.splits list.splits)

text \<open>With nothing queued, or nothing that may be queued, a pump ends for good.\<close>

lemma pumpEnds_kernel [simp]: "kernel (pumpEnds epoch s) = kernel s"
  by (simp add: pumpEnds_def Let_def)

lemma inv_outbound: "sess_inv s \<Longrightarrow> (vq_items q \<noteq> [] \<longrightarrow> se_secure s \<noteq> None) \<Longrightarrow> sess_inv (s\<lparr>se_outboundVoice := q\<rparr>) \<and> advances s (s\<lparr>se_outboundVoice := q\<rparr>)"
  by (simp add: inv_defs)

text \<open>The cases of a turn.\<close>

lemma pumpAction_cases:
  assumes s: "sess_inv s" "se_pump s = None"
  obtains (ends) s1 es where "pumpAction epoch s = (pumpEnds epoch s1, es, skipP)" "sess_inv s1" "advances s s1" "\<forall>e \<in> set es. quiet e"
      "vq_items (se_outboundVoice s1) = [] \<or> \<not> (epoch = se_voiceQueueEpoch s1 \<and> speaking s1)" "se_pump s1 = None"
    | (sends) s1 es frame where "pumpAction epoch s = (s1, es, bindP (awaitP (sendRawApp (voiceMessage frame) Voice)) (\<lambda>_. quietly (\<lambda>s. s\<lparr>se_pump := Some epoch\<rparr>)))"
      "sess_inv s1" "advances s s1" "\<forall>e \<in> set es. quiet e" "se_pump s1 = None" "se_secure s1 \<noteq> None" "canSendVoiceNow (se_transport s1)"
proof -
  have pump: "se_pump (fst (dropped r n t)) = se_pump t" for r n t by (simp add: dropped_def meter_def split_def Let_def)
  show thesis
  proof (cases "epoch = se_voiceQueueEpoch s \<and> se_secure s \<noteq> None \<and> speaking s")
    case False
    then have "pumpAction epoch s = (pumpEnds epoch s, [], skipP)" by (auto simp: pumpAction_def)
    moreover have "vq_items (se_outboundVoice s) = [] \<or> \<not> (epoch = se_voiceQueueEpoch s \<and> speaking s)"
      using False s(1) by (auto simp: sess_inv_def pump_ok_def)
    ultimately show thesis using s by (intro ends [of s "[]"]) simp_all
  next
    case True
    obtain q v n where sh: "shiftFresh (w_performanceNow (se_world s) (se_tick s)) (se_outboundVoice s) = (q, v, n)" by (metis prod_cases3)
    obtain s1 es1 where d: "dropped BeforeEncrypt n ((ticked s)\<lparr>se_outboundVoice := q\<rparr>) = (s1, es1)" by fastforce
    have kt: "kernel (ticked s) = kernel s" by simp
    have "sess_inv (ticked s)" "advances s (ticked s)" using s kernel_inv [OF kt] advances_trans [OF _ kernel_advances [OF kt]] by auto
    moreover have "vq_items q \<noteq> [] \<longrightarrow> se_secure (ticked s) \<noteq> None" using True by (simp add: ticked_def)
    ultimately have s1: "sess_inv s1" "advances s s1" "\<forall>e \<in> set es1. quiet e"
      using plainD [OF plain_aside(2) _ d] inv_outbound [of "ticked s" q] by (auto intro: advances_trans)
    have "kernel s1 = kernel ((ticked s)\<lparr>se_outboundVoice := q\<rparr>)" "se_pump s1 = None"
      using aside_dropped [of BeforeEncrypt n] d pump [of BeforeEncrypt n "(ticked s)\<lparr>se_outboundVoice := q\<rparr>"] s(2)
       by (auto simp: aside_def ticked_def dest: spec [where x = "(ticked s)\<lparr>se_outboundVoice := q\<rparr>"])
    then have q1: "se_outboundVoice s1 = q" "se_pump s1 = None" "se_secure s1 = se_secure s" by (simp_all add: kernel_def ticked_def)
    note turn = pumpAction_def Let_def sh d
    show thesis
    proof (cases v)
      case None
      then show thesis using True s1 q1 shiftFresh_rest(2) [OF sh] by (intro ends) (simp_all add: turn)
    next
      case (Some frame)
      show thesis
      proof (cases "canSendVoiceNow (se_transport s1)")
        case True
        with \<open>epoch = se_voiceQueueEpoch s \<and> se_secure s \<noteq> None \<and> speaking s\<close> Some show thesis using s1 q1 by (intro sends) (simp_all add: turn)
      next
        case False
        obtain q' n' where c: "vq_clear (se_outboundVoice s1) = (q', n')" "vq_items q' = []" by (simp add: vq_clear_def)
        obtain s2 es2 where d2: "dropped BeforeEncrypt (1 + n') (s1\<lparr>se_outboundVoice := q'\<rparr>) = (s2, es2)" by fastforce
        have s2: "sess_inv s2" "advances s s2" "\<forall>e \<in> set es2. quiet e"
          using plainD [OF plain_aside(2) _ d2] inv_outbound [OF s1(1), of q'] c(2) s1(2) by (auto intro: advances_trans)
        have "kernel s2 = kernel (s1\<lparr>se_outboundVoice := q'\<rparr>)" "se_pump s2 = None"
          using aside_dropped [of BeforeEncrypt "1 + n'"] d2 pump [of BeforeEncrypt "1 + n'" "s1\<lparr>se_outboundVoice := q'\<rparr>"] q1(2)
          by (auto simp: aside_def dest: spec [where x = "s1\<lparr>se_outboundVoice := q'\<rparr>"])
        then have "vq_items (se_outboundVoice s2) = []" "se_pump s2 = None" using c(2) by (simp_all add: kernel_def)
        with False Some \<open>epoch = se_voiceQueueEpoch s \<and> se_secure s \<noteq> None \<and> speaking s\<close> show thesis
          using s1 s2 d2 by (intro ends [of s2 "es1 @ es2"]) (auto simp: turn c(1))
      qed
    qed
  qed
qed

lemma ok_pumpTurn [okI]: "ok (pumpTurn epoch)"
  unfolding pumpTurn_def
proof (rule sess.safe_Act)
  fix s assume inv: "sess_inv s"
  let ?s = "s\<lparr>se_pump := None\<rparr>"
  have k: "kernel ?s = kernel s" by simp
  have none: "se_pump ?s = None" by simp
  have p: "plain (modify (\<lambda>s. s\<lparr>se_pump := Some epoch\<rparr>))" by (rule plain_kernel) simp
  from kernel_inv [OF k inv] none show "sess_inv (fst (pumpAction epoch ?s)) \<and> guarantee s (fst (pumpAction epoch ?s)) (fst (snd (pumpAction epoch ?s))) \<and>
      ok (snd (snd (pumpAction epoch ?s)))"
  proof (cases rule: pumpAction_cases [where epoch = epoch])
    case (ends s1 es)
    have "sess_inv (pumpEnds epoch s1)" "advances s (pumpEnds epoch s1)"
      using ends kernel_inv [OF pumpEnds_kernel] kernel_advances [OF pumpEnds_kernel] kernel_advances [OF k] by (blast intro: advances_trans)+
    with ends show ?thesis by (auto simp: guarantee_def intro: quiet_ok)
  next
    case (sends s1 es frame)
    then show ?thesis using advances_trans [OF kernel_advances [OF k]] p
      by (auto simp: guarantee_def intro!: okI intro: quiet_ok)
  qed
qed

lemma ok_pump [okI]: "ok pumpOutboundVoice"
  unfolding pumpOutboundVoice_def by (intro okI plain_kernel) simp

lemma ok_nextPump [okI]: "ok nextPump"
  unfolding nextPump_def by (intro okI)

lemma ok_queueOutboundVoice [okI]: "ok (queueOutboundVoice frame)"
  unfolding queueOutboundVoice_def
proof (rule ok_Act)
  fix s assume inv: "sess_inv s"
  obtain q n where q: "vq_push (w_performanceNow (se_world s) (se_tick s)) frame (se_outboundVoice s) = (q, n)" by fastforce
  let ?s = "(ticked s)\<lparr>se_outboundVoice := q\<rparr>" and ?as = "[dropped BeforeEncrypt n, meter (recordVoiceQueueSize (vq_size q))]"
  have k: "kernel (ticked s) = kernel s" by simp
  have "plain (actions ?as)" by (intro plains)
  then have "sess_inv (fst (actions ?as ?s)) \<and> guarantee s (fst (actions ?as ?s)) (snd (actions ?as ?s))" if "se_secure s \<noteq> None"
  proof -
    have "sess_inv ?s" "advances s ?s"
      using inv_outbound [OF kernel_inv [OF k inv], of q] kernel_advances [OF k] that by (auto simp: ticked_def intro: advances_trans)
    with \<open>plain (actions ?as)\<close> show ?thesis
      using plainD [OF \<open>plain (actions ?as)\<close> _ surjective_pairing, of ?s] by (auto simp: guarantee_def simp del: actions.simps intro: advances_trans quiet_ok)
  qed
  moreover have "actions (modify (\<lambda>s. (ticked s)\<lparr>se_outboundVoice := q\<rparr>) # ?as) s = actions ?as ?s"
    by (simp add: modify_def split_def Let_def)
  ultimately show "sess_inv (fst (if se_secure s = None \<or> \<not> speaking s then (s, [], skipP)
     else let (q, n) = vq_push (w_performanceNow (se_world s) (se_tick s)) frame (se_outboundVoice s);
              (s', es) = actions [modify (\<lambda>s. (ticked s)\<lparr>se_outboundVoice := q\<rparr>), dropped BeforeEncrypt n, meter (recordVoiceQueueSize (vq_size q))] s
          in (s', es, pumpOutboundVoice))) \<and>
    guarantee s (fst (if se_secure s = None \<or> \<not> speaking s then (s, [], skipP)
     else let (q, n) = vq_push (w_performanceNow (se_world s) (se_tick s)) frame (se_outboundVoice s);
              (s', es) = actions [modify (\<lambda>s. (ticked s)\<lparr>se_outboundVoice := q\<rparr>), dropped BeforeEncrypt n, meter (recordVoiceQueueSize (vq_size q))] s
          in (s', es, pumpOutboundVoice)))
     (fst (snd (if se_secure s = None \<or> \<not> speaking s then (s, [], skipP)
     else let (q, n) = vq_push (w_performanceNow (se_world s) (se_tick s)) frame (se_outboundVoice s);
              (s', es) = actions [modify (\<lambda>s. (ticked s)\<lparr>se_outboundVoice := q\<rparr>), dropped BeforeEncrypt n, meter (recordVoiceQueueSize (vq_size q))] s
          in (s', es, pumpOutboundVoice))))"
    using inv by (auto simp: q guarantee_def split_def Let_def simp del: actions.simps)
qed (auto simp: split_def Let_def intro!: okI)

section \<open>The user interface\<close>

lemma ok_start [okI]: "ok (se_start code phase i)"
  unfolding se_start_def
  by (intro okI fine_plain plain_restart plain_dial plain_patch plain_numbered modest_notify modestI) (simp_all add: keepKey_def)

lemma ok_enterRoom [okI]: "ok room \<Longrightarrow> ok (enterRoom phase notice room)"
  unfolding enterRoom_def
  by (intro okI fine_plain plains plain_patch plain_kernel modest_notify modestI) simp_all

lemma ok_rooms [okI]: "ok createRoom" "ok (joinRoom code)"
  unfolding createRoom_def joinRoom_def Let_def by (intro okI)+

lemma modest_notReady: "modest notReady"
  by (rule modestI) (simp_all add: notReady_def notify_def)

lemma ok_sendText [okI]: "ok (sendText body)"
  unfolding sendText_def Let_def
  by (intro okI fine_plain plains plain_patch plain_kernel modest_notReady modest_transcript) simp_all

lemma ok_offerFile [okI]: "ok (offerFile file)"
  unfolding offerFile_def Let_def by (intro okI fine_plain plains plain_patch modest_notice)

lemma ok_cancelFile [okI]: "ok (cancelFile fileId)"
  unfolding cancelFile_def by (intro okI fine_startNext)

lemma ok_startVoice [okI]: "ok startVoice"
  unfolding startVoice_def
  by (intro okI fine_plain plains plain_patch modest_notice modest_notify modestI) simp_all

lemma ok_stopVoice [okI]: "ok stopVoice"
  unfolding stopVoice_def
  by (intro okI fine_plain plains plain_patch modest_notify modestI) simp_all

lemma ok_enable [okI]: "ok enableAudioPlayback"
  unfolding enableAudioPlayback_def by (intro okI fine_plain plain_patch modest_notify modestI) simp_all

text \<open>The only action that may say verified.\<close>

lemma plain_confirm:
  "sess_inv s \<Longrightarrow> se_secure s \<noteq> None \<Longrightarrow>
   sess_inv (fst (actions [modify (\<lambda>s. s\<lparr>se_confirmed := Some (se_secureEpoch s)\<rparr>), patch (\<lambda>v. notify n (v\<lparr>vw_security := Verified\<rparr>))] s)) \<and>
   advances s (fst (actions [modify (\<lambda>s. s\<lparr>se_confirmed := Some (se_secureEpoch s)\<rparr>), patch (\<lambda>v. notify n (v\<lparr>vw_security := Verified\<rparr>))] s)) \<and>
   (\<forall>e \<in> set (snd (actions [modify (\<lambda>s. s\<lparr>se_confirmed := Some (se_secureEpoch s)\<rparr>), patch (\<lambda>v. notify n (v\<lparr>vw_security := Verified\<rparr>))] s)). quiet e)"
  by (simp add: modify_def patch_def inv_defs notify_def shown_ok_def)

lemma ok_markVerified [okI]: "ok (markVerified b)"
  unfolding markVerified_def
proof (rule sess.safe_Act)
  fix s assume inv: "sess_inv s"
  let ?rest = "bindP (awaitP (sendApp (Core (SessionVerified (w_now (se_world s) (se_tick s)))) Control None)) (\<lambda>_. skipP) :: unit sess"
  let ?mis = "actions [patch (\<lambda>v. notify mismatch (v\<lparr>vw_security := VerificationFailed\<rparr>)), se_addSystem mismatch SvError]"
  let ?yes = "[modify (\<lambda>s. s\<lparr>se_confirmed := Some (se_secureEpoch s)\<rparr>), patch (\<lambda>v. notify ''Verified on this device.'' (v\<lparr>vw_security := Verified\<rparr>))]"
  let ?fin = "[se_addSystem ''Secure session verified.'' SvInfo, modify ticked]"
  let ?g = "if se_secure s = None then let (s', es) = patch notReady s in (s', es, skipP)
     else if \<not> b then let (s', es) = ?mis s in (s', es, skipP)
     else let (s', es) = actions [modify (\<lambda>s. s\<lparr>se_confirmed := Some (se_secureEpoch s)\<rparr>),
             patch (\<lambda>v. notify ''Verified on this device.'' (v\<lparr>vw_security := Verified\<rparr>)),
             se_addSystem ''Secure session verified.'' SvInfo, modify ticked] s
       in (s', es, ?rest)"
  have r: "ok ?rest" by (intro okI)
  have "plain (patch notReady)" "plain ?mis"
    by (intro plains plain_patch modest_notReady modest_notify modestI; simp)+
  note pl = plain_guarantee [OF this(1) inv] plain_guarantee [OF this(2) inv]
  have "plain (actions ?fin)" by (intro plains plain_kernel) simp
  then have two: "sess_inv (fst (actions ?fin t)) \<and> advances t (fst (actions ?fin t)) \<and> (\<forall>e \<in> set (snd (actions ?fin t)). quiet e)" if "sess_inv t" for t
    using that unfolding plain_def by blast
  have app: "actions (?yes @ ?fin) s = (let (s1, es) = actions ?yes s; (s2, es') = actions ?fin s1 in (s2, es @ es'))"
    by (simp add: split_def Let_def)
  show "sess_inv (fst ?g) \<and> guarantee s (fst ?g) (fst (snd ?g)) \<and> ok (snd (snd ?g))"
  proof (cases "se_secure s = None \<or> \<not> b")
    case True
    then show ?thesis using pl by (auto simp: split_def Let_def simp del: actions.simps)
  next
    case False
    let ?s1 = "fst (actions ?yes s)"
    have sec: "se_secure s \<noteq> None" using False by simp
    note one = plain_confirm [OF inv sec, of "''Verified on this device.''"]
    note t = two [OF conjunct1 [OF one]]
    have "sess_inv (fst (actions (?yes @ ?fin) s)) \<and> guarantee s (fst (actions (?yes @ ?fin) s)) (snd (actions (?yes @ ?fin) s))"
      unfolding app split_def Let_def using one t False
      by (auto simp: guarantee_def simp del: actions.simps intro: advances_trans quiet_ok)
    then show ?thesis using sec False r by (simp add: split_def Let_def del: actions.simps not_None_eq)
  qed
qed

section \<open>Every run\<close>

lemma ok_start_op [okI]: "ok (start_op op)"
proof (cases op)
  case (OFileSends m lane)
  then show ?thesis by (simp only: start_op.simps) (intro okI)
next
  case (OSenderUpdate snap)
  then show ?thesis by (simp only: start_op.simps) (intro okI fine_updateSender)
next
  case (OReceiverUpdate snap)
  then show ?thesis by (simp only: start_op.simps updateReceiver_def) (intro okI fine_plain plain_upsert)
qed (simp only: start_op.simps; intro okI fine_plain plains plain_setProfile plain_removeFile plain_toggleMute plain_endChat
  plain_leaveRoom plain_endSessionFires plain_voiceFailed)+

lemma inv_newSession: "sess_inv (newSession w storage)"
  by (simp add: sess_inv_def newSession_def shown_ok_def verified_ok_def pump_ok_def initialView_def createVoiceQueue_def newVoiceQueue_def
      vq_setLimits_def trimOverflow_def)

lemma system_ok_run: "sess.system_ok sy \<Longrightarrow> sess.system_ok (fold sess_step steps sy)"
proof (induction steps arbitrary: sy)
  case (Cons st steps)
  have "sess.system_ok (sess_step st sy)"
    using Cons.prems by (cases st) (auto intro!: sess.system_ok_launch sess.system_ok_resume okI split: option.split)
  with Cons.IH show ?case by simp
qed simp

lemma session_run_ok: "sess.system_ok (sess_run steps (newSession w storage))"
  unfolding sess_run_def by (intro system_ok_run sess.system_ok_new inv_newSession)

lemma session_run_inv: "sess_inv (sy_state (sess_run steps (newSession w storage)))"
  using session_run_ok [of steps w storage] by (simp add: sess.system_ok_def)

lemma session_run_log:
  "(s, s', es) \<in> set (sy_log (sess_run steps (newSession w storage))) \<Longrightarrow> sess_inv s \<and> sess_inv s' \<and> guarantee s s' es"
  using session_run_ok [of steps w storage] by (auto simp: sess.system_ok_def)

end
