(* ===== verification/SessionProps.thy ===== *)
theory SessionProps
  imports SessionRuns
begin

text \<open>What holds in every run of a session, whatever the calls, the events, the responses and their order.\<close>

section \<open>Channels\<close>

lemma run_chained_session: "chained s (sy_log (sess_run steps s)) (sy_state (sess_run steps s))"
proof -
  have "chained s (sy_log sy) (sy_state sy) \<Longrightarrow> chained s (sy_log (fold sess_step steps sy)) (sy_state (fold sess_step steps sy))" for sy
  proof (induction steps arbitrary: sy)
    case (Cons st steps)
    have "chained s (sy_log (sess_step st sy)) (sy_state (sess_step st sy))"
      using Cons.prems by (cases st) (auto intro!: launch_chained resume_chained split: option.split)
    with Cons.IH show ?case by simp
  qed simp
  moreover have "chained s (sy_log (newSystem s :: sess_system)) (sy_state (newSystem s :: sess_system))" by (simp add: newSystem_def)
  ultimately show ?thesis unfolding sess_run_def by blast
qed

text \<open>
  A monitor for the log: it remembers the channels that have been given up. Whatever is transmitted was encrypted, and whatever is
  acted on was decrypted, by the channel that is the current one and has not been given up since, in the current secure epoch.
\<close>

definition givenUpChannel :: "Session \<Rightarrow> Session \<Rightarrow> nat list" where
  "givenUpChannel s s' = (case se_secure s of None \<Rightarrow> [] | Some c \<Rightarrow> if se_secure s' = Some c then [] else [c])"

fun belongs :: "nat list \<Rightarrow> Session \<Rightarrow> SessEffect \<Rightarrow> bool" where
  "belongs old s (Transmits c epoch env) = (c \<notin> set old \<and> se_secure s = Some c \<and> se_secureEpoch s = epoch)"
| "belongs old s (Handles c epoch m) = (c \<notin> set old \<and> se_secure s = Some c \<and> se_secureEpoch s = epoch)"
| "belongs old s _ = True"

fun channelsApart :: "nat list \<Rightarrow> (Session, SessEffect) log \<Rightarrow> bool" where
  "channelsApart old [] = True"
| "channelsApart old ((s, s', es) # lg) = (list_all (belongs old s) es \<and> channelsApart (givenUpChannel s s' @ old) lg)"

definition retired :: "nat list \<Rightarrow> Session \<Rightarrow> bool" where
  "retired old s = (\<forall>c \<in> set old. c < se_nextObject s \<and> se_secure s \<noteq> Some c)"

lemma retired_advances: "retired old s \<Longrightarrow> advances s s' \<Longrightarrow> retired old s'"
  by (fastforce simp: retired_def advances_def)

lemma retired_givenUp: "sess_inv s \<Longrightarrow> advances s s' \<Longrightarrow> retired (givenUpChannel s s') s'"
proof (cases "se_secure s")
  case (Some c)
  assume "sess_inv s" "advances s s'"
  with Some have "c < se_nextObject s" "se_nextObject s \<le> se_nextObject s'" by (auto simp: sess_inv_def advances_def)
  with Some show "retired (givenUpChannel s s') s'" by (auto simp: retired_def givenUpChannel_def)
qed (simp add: retired_def givenUpChannel_def)

lemma effect_belongs: "retired old s \<Longrightarrow> effect_ok s s' e \<Longrightarrow> belongs old s e"
  by (cases e) (auto simp: retired_def)

lemma channelsApart_log:
  assumes "chained s lg t" "\<forall>(s, s', es) \<in> set lg. sess_inv s \<and> guarantee s s' es" "retired old s"
  shows "channelsApart old lg"
  using assms
proof (induction lg arbitrary: s old)
  case (Cons x lg)
  obtain s' es where x: "x = (s, s', es)" using Cons.prems(1) by (cases x) auto
  have g: "sess_inv s" "advances s s'" "\<forall>e \<in> set es. effect_ok s s' e" using Cons.prems(2) by (auto simp: x guarantee_def)
  have "retired (givenUpChannel s s' @ old) s'"
    using retired_givenUp [OF g(1,2)] retired_advances [OF Cons.prems(3) g(2)] by (auto simp: retired_def)
  then have "channelsApart (givenUpChannel s s' @ old) lg" using Cons.prems by (intro Cons.IH [of s']) (auto simp: x)
  then show ?case using g(3) effect_belongs [OF Cons.prems(3)] by (auto simp: x list_all_iff)
qed simp


section \<open>What is shown\<close>

fun shownBy :: "SessEffect \<Rightarrow> SessionViewState option" where
  "shownBy (Shows v) = Some v"
| "shownBy _ = None"

definition snapshots :: "(Session, SessEffect) log \<Rightarrow> SessionViewState list" where
  "snapshots lg = List.map_filter shownBy (concat (map (\<lambda>(s, s', es). es) lg))"

lemma shownBy_iff: "shownBy e = Some v \<longleftrightarrow> e = Shows v"
  by (cases e) auto

lemma snapshots_log: "v \<in> set (snapshots lg) \<Longrightarrow> \<exists>s s' es. (s, s', es) \<in> set lg \<and> Shows v \<in> set es"
  by (fastforce simp: snapshots_def set_map_filter shownBy_iff)

text \<open>
  C35. Whatever happens, every state the listeners are given, and the state at the end, has at most 500 items in the transcript, at most
  30 finished transfers, and no file twice.
\<close>

theorem views_are_bounded:
  "list_all shown_ok (snapshots (sy_log (sess_run steps (newSession w storage)))) \<and>
   shown_ok (se_view (sy_state (sess_run steps (newSession w storage))))"
proof -
  have "shown_ok v" if v: "v \<in> set (snapshots (sy_log (sess_run steps (newSession w storage))))" for v
  proof -
    obtain s s' es where "(s, s', es) \<in> set (sy_log (sess_run steps (newSession w storage)))" "Shows v \<in> set es"
      using snapshots_log [OF v] by blast
    then show ?thesis using session_run_log [of s s' es steps w storage] by (auto simp: guarantee_def)
  qed
  then show ?thesis using session_run_inv [of steps w storage] by (simp add: list_all_iff sess_inv_def)
qed

text \<open>
  C34. A session is shown as verified only if the user said so: after every action of every run, if the view says verified, then the user has
  confirmed the phrase in the current secure epoch (not in an earlier one, and whatever the peer sent) and there is an open channel; the
  exception is a view whose security has not been set since the session was torn down silently, as a failing \<^verbatim>\<open>createRoom\<close> or
  \<^verbatim>\<open>joinRoom\<close> does.
\<close>

theorem verified_is_confirmed:
  "list_all (\<lambda>(s, s', es). verified_ok s') (sy_log (sess_run steps (newSession w storage))) \<and>
   verified_ok (sy_state (sess_run steps (newSession w storage)))"
  using session_run_log [of _ _ _ steps w storage] session_run_inv [of steps w storage] by (auto simp: list_all_iff sess_inv_def)

section \<open>Files and voice\<close>

fun startsAllowed :: "Session \<Rightarrow> SessEffect \<Rightarrow> bool" where
  "startsAllowed s (Calls (SenderStartQueued fileId)) = startable fileId s"
| "startsAllowed s _ = True"

lemma effect_starts: "effect_ok s s' e \<Longrightarrow> startsAllowed s' e"
proof (cases e)
  case (Calls c)
  then show "effect_ok s s' e \<Longrightarrow> startsAllowed s' e" by (cases c) auto
qed auto


lemma run_await_waits: "run p s = (s', lg, Waits q k) \<Longrightarrow> \<exists>k'. run (awaitP p) s = (s', lg, Waits q k')"
  unfolding awaitP_def by (rule exI, rule run_bind_waits, rule run_catch_waits, rule run_bind_waits)

text \<open>A message is encrypted after those before it.\<close>

lemma send_waits:
  assumes "se_secure s = Some c" "lane = Voice \<Longrightarrow> canSendVoiceNow (se_transport s)"
  shows "\<exists>lg k. run (sendRawApp m lane) s =
    ((newPromise s)\<lparr>se_cryptoSerial := se_nextObject s\<rparr>, lg, Waits (QSettled (se_cryptoSerial s)) k)"
proof -
  have "\<exists>lg k. run (runCrypto (encryptAppMessage c m lane)) s =
      ((newPromise s)\<lparr>se_cryptoSerial := se_nextObject s\<rparr>, lg, Waits (QSettled (se_cryptoSerial s)) k)"
    by (simp add: runCrypto_def)
  then obtain lg k where "run (awaitP (runCrypto (encryptAppMessage c m lane))) s =
      ((newPromise s)\<lparr>se_cryptoSerial := se_nextObject s\<rparr>, lg, Waits (QSettled (se_cryptoSerial s)) k)"
    using run_await_waits by blast
  note w = run_catch_waits [OF run_bind_waits [OF this]]
  show ?thesis using assms by (auto simp: sendRawApp_def run_look w)
qed


end
