(* ===== verification/Spec2Isabelle.thy ===== *)
theory Spec2Isabelle
  imports Prelude Profiles Scheduler Envelope Bytes Ratchet Messages Reliable FileReceiver SenderProps SenderReset FileExchange Voice ConnectionEnds Negotiation SessionView Rooms CryptoClient AppView SessionProps
begin

text \<open>
  A verification development for OnlyTwo, a two-person end-to-end encrypted chat with file transfer and voice
  (\<^verbatim>\<open>client/src\<close>, TypeScript). This is the root theory; it imports the others.

  \<^bold>\<open>The program.\<close> A session encrypts application messages in a worker, packs the ciphertext in binary frames, queues
  the frames by lane and sends them through a relay to the other browser, which does the reverse. Small messages are
  acknowledged and retried by a reliable channel; files are cut into chunks with a window, acknowledgements and retries of
  their own; voice is captured, gated and played with bounded delay. A controller ties the parts together: it enters rooms, runs the
  handshake, starts over when the connection or the peer is lost, and keeps the state the user interface shows.

  \<^bold>\<open>Correspondence.\<close> Each theory names its source file; each operation has the name of its method, with a short prefix where
  several classes use the same name.
  \<^item> \<open>Prelude\<close>: result type (\<^verbatim>\<open>throw\<close> is \<open>Inl\<close>), big-endian bytes, the insertion-ordered \<^verbatim>\<open>Map\<close>, and two interfaces as
    locales: \<open>codec\<close> (round trip) and \<open>invariant_system\<close> (a property all handlers keep).
  \<^item> \<open>Profiles\<close> (\<^verbatim>\<open>config/profiles.ts\<close>), \<open>Bytes\<close> (\<^verbatim>\<open>utils/bytes.ts\<close>), \<open>Envelope\<close> (\<^verbatim>\<open>protocol/envelope.ts\<close>,
    \<^verbatim>\<open>relayControl.ts\<close>), \<open>Messages\<close> (\<^verbatim>\<open>protocol/appMessages.ts\<close>, \<^verbatim>\<open>streams.ts\<close>, \<^verbatim>\<open>utils/safeJson.ts\<close>): data and
    codecs. The codecs are interpretations of \<open>codec\<close>.
  \<^item> \<open>Scheduler\<close> (\<^verbatim>\<open>transport/PacketScheduler.ts\<close>): accounting, budgets, order and priority of the outgoing lanes.
  \<^item> \<open>Ratchet\<close> (\<^verbatim>\<open>crypto/cryptoWorker.ts\<close>): key agreement, symmetric ratchet with cached keys, padding. WebCrypto is the
    parameter \<open>webcrypto\<close>; what the worker relies on (a commutative key exchange, an AEAD that opens what it sealed and
    nothing else) are named hypotheses, satisfied by the concrete instance \<open>toyCrypto\<close>.
  \<^item> \<open>CryptoClient\<close> (\<^verbatim>\<open>crypto/CryptoClient.ts\<close>): the page's requests to the worker, composed with the worker: its promise chain,
    pending map, timeouts and crash handler give one sequential service in which no call hangs.
  \<^item> \<open>Reliable\<close> (\<^verbatim>\<open>protocol/reliable.ts\<close>): acknowledgement, retry and duplicate suppression as interleaved steps.
  \<^item> \<open>FileReceiver\<close> (\<^verbatim>\<open>features/file/FileReceiver.ts\<close>, \<^verbatim>\<open>fileProtocol.ts\<close>): objects in a store with addresses, since
    suspended calls outlive the map entry; its interleavings are \<open>recv_run\<close>.
  \<^item> \<open>FileSender\<close> (\<^verbatim>\<open>features/file/FileSender.ts\<close>): the same style, with timers. \<open>SenderSteps\<close> has the invariant and
    what a single chunk operation keeps of it, \<open>SenderRuns\<close> lifts it to every operation and to \<open>send_run\<close>, \<open>SenderSends\<close>
    relates what is sent to the offered files, \<open>SenderDemo\<close> is a concrete run, \<open>SenderProps\<close> and \<open>SenderReset\<close> state the
    properties.
  \<^item> \<open>VoiceBuffers\<close>, \<open>VoiceSignal\<close>, \<open>Voice\<close> (\<^verbatim>\<open>features/audio/\<close>): the queue, the jitter buffer, the voice gate, the sample
    conversion, and the service that captures and plays. Framing is compared with the reference \<open>chunksOf\<close>.
  \<^item> \<open>Connection\<close> (\<^verbatim>\<open>transport/WebSocketConnection.ts\<close>, \<^verbatim>\<open>metrics.ts\<close>): sockets, reconnecting, draining the lanes.
    \<open>ConnectionRuns\<close> has the invariant over every sequence of calls, socket events and timers, \<open>ConnectionProps\<close> what becomes of an
    accepted frame (the locale \<open>loss\<close>, interpreted for order and for completeness), \<open>ConnectionEnds\<close> the properties.
  \<^item> \<open>Negotiation\<close> (\<^verbatim>\<open>protocol/negotiation.ts\<close>): the profile hash and the safety phrase. \<open>Rooms\<close> (\<^verbatim>\<open>utils/ids.ts\<close>,
    \<^verbatim>\<open>protocol/rooms.ts\<close>): room codes and what is taken from the relay's answers.
  \<^item> \<open>SessionView\<close> (\<^verbatim>\<open>session/types.ts\<close> and the view part of \<^verbatim>\<open>session/SessionController.ts\<close>): transcript and transfers.
  \<^item> \<open>AppView\<close> (\<^verbatim>\<open>ui/AppView.ts\<close>, \<^verbatim>\<open>ui/dom.ts\<close>): the document drawn for a state as a tree, the controls it offers compared with a
    declarative table, and the view's own state over every sequence of events.
  \<^item> \<open>Async\<close>: asynchronous code as programs that act and await, systems of waiting programs, and the locale \<open>program_logic\<close>: if each action of
    each program keeps an invariant and fulfils a guarantee, so does every run. \<open>SessionState\<close>, \<open>Session\<close>, \<open>SessionTasks\<close>, \<open>SessionSystem\<close>
    (\<^verbatim>\<open>session/SessionController.ts\<close>, \<^verbatim>\<open>crypto/SecureChannel.ts\<close>) are the state with the transport and the reliable channel in it, what is done
    without waiting, every method as a program, and the system with everything that may start at any time. \<open>SessionLogic\<close> has the invariant
    and the guarantee for the actions, \<open>SessionRuns\<close> interprets \<open>program_logic\<close> and proves all programs safe, \<open>SessionProps\<close> states the properties.
  \<^item> \<open>FileExchange\<close>: sender and receiver with an unreliable network between them. The contract between the two is the
    locale \<open>file_source\<close>, interpreted on the sender.

  \<^bold>\<open>Concurrency.\<close> JavaScript runs one handler at a time up to its next suspension. A method with an \<^verbatim>\<open>await\<close> whose
  continuation changes state is cut there: the first part leaves a task, the rest is a definition of its own. Runs
  interleave public operations, messages, timers and tasks in every order the program allows. An awaited call ends with a
  value or an exception; both are branches. The controller has too many awaits for this; its methods are programs of \<open>Async\<close>, in which every
  \<^verbatim>\<open>await\<close> is a point where anything else may run, and the responses to requests are arbitrary. A call of another part that may call
  back before it returns is a request too, so that its callbacks, which are steps of their own, may come before its response.

  \<^bold>\<open>Bounds.\<close> The loops of \<^verbatim>\<open>enqueue\<close>, \<^verbatim>\<open>cacheSkipped\<close>, \<^verbatim>\<open>decryptBinary\<close> and \<^verbatim>\<open>pump\<close> are functions with termination
  proofs by a measure (packets queued, keys cached, counters left, chunks left), so no fuel limits them; so is the loop of the
  transport's \<^verbatim>\<open>drain\<close> up to its await. The endless loop of \<^verbatim>\<open>pumpOutboundVoice\<close> is cut into turns at its await. The only fuel is in
  \<open>settle\<close>, which resumes a receiver's pending calls; two rounds are enough for a chunk (acknowledgement, then digest), and
  the proof that the transfer completes uses exactly two.

  \<^bold>\<open>Numbers.\<close> Counters and sizes are \<open>nat\<close> or \<open>int\<close>; the codecs write out the width of each field, bytes are \<open>8 word\<close>.
  Progress fractions are rationals.

  \<^bold>\<open>Not modelled.\<close> The browser itself (Web Audio, WebSocket and Worker objects, storage, \<^verbatim>\<open>fetch\<close>, focus and scrolling) and the entry
  point (\<^verbatim>\<open>app/\<close>, \<^verbatim>\<open>main.ts\<close>). \<^verbatim>\<open>SessionStateMachine.ts\<close> and \<^verbatim>\<open>runtime/\<close> are not used by the program.
  In the session, the sender, the receiver and the voice service are seen through their calls and callbacks, not composed with their own models, and
  exceptions of listeners are left out. The Go relay (\<^verbatim>\<open>cmd/\<close>, \<^verbatim>\<open>internal/\<close>) is another program; only
  its control frames appear. The manifest lists each component with its status.
\<close>

end
